(* ===== verification/Prelude.thy ===== *)
theory Prelude
  imports Main "HOL-Library.Word" "HOL-Library.List_Lexorder" "HOL-Library.Char_ord"
begin

text \<open>
  The shared vocabulary of the development.

  \<^item> Rust results are sums: \<open>Inl\<close> is \<open>Err\<close>, \<open>Inr\<close> is \<open>Ok\<close>.
  \<^item> Machine integers are words (\<open>u32\<close>, \<open>u64\<close>); \<open>sat_add\<close> is \<open>saturating_add\<close>.
  \<^item> \<open>std::collections::BTreeMap\<close> is the type \<open>btmap\<close>: association lists with strictly
    ascending keys. The representation is canonical, so equality of maps is equality of their
    contents, and iteration is in key order as in the standard library. \<open>BTreeSet\<close> is a
    \<open>btmap\<close> into \<open>unit\<close>, which is also how the standard library implements it.
    \<open>HashMap\<close> has the same type; nothing that is stated depends on its iteration order.

  Strings are lists of bytes (\<open>char\<close>), ordered lexicographically as in Rust.
\<close>

named_theorems invs \<open>unfoldings of the component invariants\<close>
named_theorems ops \<open>unfoldings of the component operations\<close>

type_synonym u8 = "8 word"
type_synonym u16 = "16 word"
type_synonym u32 = "32 word"
type_synonym u64 = "64 word"


section \<open>Results\<close>

abbreviation is_ok :: "'e + 'a \<Rightarrow> bool" where
  "is_ok r \<equiv> \<not> isl r"

definition ok_or :: "'a option \<Rightarrow> 'e \<Rightarrow> 'e + 'a" where
  "ok_or x e = (case x of None \<Rightarrow> Inl e | Some v \<Rightarrow> Inr v)"

definition bind_result :: "'e + 'a \<Rightarrow> ('a \<Rightarrow> 'e + 'b) \<Rightarrow> 'e + 'b" where
  "bind_result r f = (case r of Inl e \<Rightarrow> Inl e | Inr v \<Rightarrow> f v)"

lemma ok_or_simps [simp]:
  "ok_or None e = Inl e" "ok_or (Some v) e = Inr v"
  by (simp_all add: ok_or_def)

lemma ok_or_eq_Inr [simp]: "ok_or x e = Inr v \<longleftrightarrow> x = Some v"
  by (cases x) simp_all

lemma ok_or_eq_Inl [simp]: "ok_or x e = Inl e' \<longleftrightarrow> x = None \<and> e' = e"
  by (cases x) auto

lemma bind_result_simps [simp]:
  "bind_result (Inl e) f = Inl e" "bind_result (Inr v) f = f v"
  by (simp_all add: bind_result_def)

lemma bind_result_eq_Inr:
  "bind_result r f = Inr w \<longleftrightarrow> (\<exists>v. r = Inr v \<and> f v = Inr w)"
  by (cases r) simp_all

lemma option_eqI: "(\<And>v. x = Some v \<longleftrightarrow> y = Some v) \<Longrightarrow> x = y"
  by (cases x; cases y) auto

definition checked_sub :: "nat \<Rightarrow> nat \<Rightarrow> nat option" where
  "checked_sub a b = (if b \<le> a then Some (a - b) else None)"


section \<open>Words\<close>

definition sat_add :: "'a::len word \<Rightarrow> 'a word \<Rightarrow> 'a word" where
  "sat_add a b = (if unat a + unat b < 2 ^ LENGTH('a) then a + b else - 1)"

lemma unat_sat_add:
  "unat (sat_add a b) = min (unat a + unat b) (2 ^ LENGTH('a) - 1)" for a b :: "'a::len word"
proof (cases "unat a + unat b < 2 ^ LENGTH('a)")
  case True
  then show ?thesis
    by (simp add: sat_add_def unat_word_ariths)
next
  case False
  have "unat (- 1 :: 'a word) = 2 ^ LENGTH('a) - 1"
    by (simp add: unsigned_minus_1_eq_mask mask_eq_exp_minus_1)
  with False show ?thesis
    by (simp add: sat_add_def)
qed

lemma unat_ucast_u32 [simp]: "unat (ucast c :: u64) = unat c" for c :: u32
proof -
  have "unat c < 2 ^ 64"
    by (rule less_le_trans [OF unsigned_less]) simp
  then show ?thesis
    by (simp add: unsigned_ucast_eq take_bit_nat_eq_self_iff)
qed

lemma ucast_u32_pos [simp]: "0 < (ucast c :: u64) \<longleftrightarrow> 0 < c" for c :: u32
  by (simp add: word_less_nat_alt)

lemma sat_add_0 [simp]: "sat_add a 0 = a"
  by (simp add: sat_add_def)

lemma unat_sat_add_room:
  "unat a + unat b < 2 ^ LENGTH('a) \<Longrightarrow> unat (sat_add a b) = unat a + unat b" for a b :: "'a::len word"
  by (simp add: unat_sat_add)

lemma sat_add_pos: "0 < a \<or> 0 < b \<Longrightarrow> 0 < sat_add a b" for a b :: "'a::len word"
proof -
  assume "0 < a \<or> 0 < b"
  then have "0 < unat a + unat b"
    by (auto simp: word_less_nat_alt)
  moreover have "0 < (2::nat) ^ LENGTH('a) - 1"
    using one_less_power [of "2::nat" "LENGTH('a)"] by simp
  ultimately have "0 < unat (sat_add a b)"
    by (simp add: unat_sat_add)
  then show ?thesis
    by (simp add: word_less_nat_alt)
qed

lemma unat_minus_one_pos: "a \<noteq> 0 \<Longrightarrow> unat (a - 1) = unat a - 1" for a :: "'a::len word"
  by (rule unat_minus_one)

lemma unat_minus_one_Suc: "unat a = Suc n \<Longrightarrow> unat (a - 1) = n" for a :: "'a::len word"
  using unat_minus_one_pos [of a] by fastforce

lemma unat_plus_one_room: "unat a + 1 < 2 ^ LENGTH('a) \<Longrightarrow> unat (a + 1) = unat a + 1"
  for a :: "'a::len word"
  by (simp add: unat_word_ariths)


section \<open>Ordered maps\<close>

typedef (overloaded) ('k, 'v) btmap =
    "{xs :: ('k::linorder \<times> 'v) list. sorted_wrt (<) (map fst xs)}"
  morphisms bt_entries BtMap
  by (rule exI [of _ "[]"]) simp

setup_lifting type_definition_btmap

type_synonym 'k btset = "('k, unit) btmap"

primrec ins_entry :: "'k::linorder \<Rightarrow> 'v \<Rightarrow> ('k \<times> 'v) list \<Rightarrow> ('k \<times> 'v) list" where
  "ins_entry k v [] = [(k, v)]"
| "ins_entry k v (e # es) =
     (if fst e < k then e # ins_entry k v es
      else if fst e = k then (k, v) # es
      else (k, v) # e # es)"

lemma map_of_ins_entry: "map_of (ins_entry k v es) = (map_of es)(k \<mapsto> v)"
  by (induction es) (auto simp: fun_eq_iff)

lemma keys_ins_entry: "fst ` set (ins_entry k v es) = insert k (fst ` set es)"
  by (induction es) auto

lemma sorted_ins_entry:
  "sorted_wrt (<) (map fst es) \<Longrightarrow> sorted_wrt (<) (map fst (ins_entry k v es))"
proof (induction es)
  case Nil
  then show ?case by simp
next
  case (Cons e es)
  have keys: "set (map fst (ins_entry k v es)) = insert k (set (map fst es))"
    using keys_ins_entry [of k v es] by simp
  show ?case
    using Cons keys by (auto simp del: set_map)
qed

lift_definition bt_empty :: "('k::linorder, 'v) btmap" is "[]"
  by simp

lift_definition bt_get :: "('k::linorder, 'v) btmap \<Rightarrow> 'k \<Rightarrow> 'v option" is map_of .

lift_definition bt_insert :: "'k::linorder \<Rightarrow> 'v \<Rightarrow> ('k, 'v) btmap \<Rightarrow> ('k, 'v) btmap" is ins_entry
  by (rule sorted_ins_entry)

lift_definition bt_retain :: "('k::linorder \<Rightarrow> 'v \<Rightarrow> bool) \<Rightarrow> ('k, 'v) btmap \<Rightarrow> ('k, 'v) btmap" is
  "\<lambda>P. filter (\<lambda>(k, v). P k v)"
  by (simp add: sorted_wrt_map sorted_wrt_filter)

text \<open>\<open>values_mut\<close>: every value replaced, the keys kept.\<close>

lift_definition bt_map :: "('v \<Rightarrow> 'v) \<Rightarrow> ('k::linorder, 'v) btmap \<Rightarrow> ('k, 'v) btmap" is
  "\<lambda>f. map (\<lambda>(k, v). (k, f v))"
  by (simp add: comp_def case_prod_beta)

definition bt_remove :: "'k::linorder \<Rightarrow> ('k, 'v) btmap \<Rightarrow> ('k, 'v) btmap" where
  "bt_remove k = bt_retain (\<lambda>j _. j \<noteq> k)"

definition bt_keys :: "('k::linorder, 'v) btmap \<Rightarrow> 'k list" where
  "bt_keys m = map fst (bt_entries m)"

definition bt_values :: "('k::linorder, 'v) btmap \<Rightarrow> 'v list" where
  "bt_values m = map snd (bt_entries m)"

definition bt_len :: "('k::linorder, 'v) btmap \<Rightarrow> nat" where
  "bt_len m = length (bt_entries m)"

definition bt_contains :: "('k::linorder, 'v) btmap \<Rightarrow> 'k \<Rightarrow> bool" where
  "bt_contains m k \<longleftrightarrow> bt_get m k \<noteq> None"

text \<open>\<open>get_mut\<close> followed by an assignment through the reference.\<close>

definition bt_modify :: "'k::linorder \<Rightarrow> ('v \<Rightarrow> 'v) \<Rightarrow> ('k, 'v) btmap \<Rightarrow> ('k, 'v) btmap" where
  "bt_modify k f m = (case bt_get m k of None \<Rightarrow> m | Some v \<Rightarrow> bt_insert k (f v) m)"

text \<open>\<open>iter().next()\<close> and \<open>range((Excluded(k), Unbounded)).next()\<close> on a set.\<close>

definition bt_first :: "('k::linorder, 'v) btmap \<Rightarrow> 'k option" where
  "bt_first m = (case bt_keys m of [] \<Rightarrow> None | k # _ \<Rightarrow> Some k)"

definition bt_next_after :: "'k::linorder \<Rightarrow> ('k, 'v) btmap \<Rightarrow> 'k option" where
  "bt_next_after k m = (case filter (\<lambda>j. k < j) (bt_keys m) of [] \<Rightarrow> None | j # _ \<Rightarrow> Some j)"

instantiation btmap :: (linorder, equal) equal
begin

definition equal_btmap :: "('a, 'b) btmap \<Rightarrow> ('a, 'b) btmap \<Rightarrow> bool" where
  "equal_btmap m n \<longleftrightarrow> bt_entries m = bt_entries n"

instance
  by standard (simp add: equal_btmap_def bt_entries_inject)

end

lemma sorted_bt_keys: "sorted_wrt (<) (bt_keys m)"
  using bt_entries [of m] by (simp add: bt_keys_def)

lemma distinct_bt_keys [simp]: "distinct (bt_keys m)"
  using sorted_bt_keys strict_sorted_iff by blast

lemma bt_get_entries: "bt_get m = map_of (bt_entries m)"
  by (simp add: bt_get.rep_eq fun_eq_iff)

lemma set_bt_keys: "set (bt_keys m) = dom (bt_get m)"
  by (simp add: bt_keys_def bt_get_entries dom_map_of_conv_image_fst)

lemma set_bt_entries: "(k, v) \<in> set (bt_entries m) \<longleftrightarrow> bt_get m k = Some v"
proof -
  have "distinct (map fst (bt_entries m))"
    using distinct_bt_keys [of m] by (simp only: bt_keys_def)
  then show ?thesis
    by (simp add: bt_get_entries)
qed

lemma set_bt_values: "v \<in> set (bt_values m) \<longleftrightarrow> (\<exists>k. bt_get m k = Some v)"
proof -
  have "v \<in> set (bt_values m) \<longleftrightarrow> (\<exists>k. (k, v) \<in> set (bt_entries m))"
    by (force simp: bt_values_def)
  then show ?thesis
    by (simp add: set_bt_entries)
qed

lemma finite_dom_bt [simp]: "finite (dom (bt_get m))"
  by (simp flip: set_bt_keys)

lemma bt_len_card: "bt_len m = card (dom (bt_get m))"
proof -
  have "card (set (bt_keys m)) = length (bt_keys m)"
    by (simp add: distinct_card)
  then show ?thesis
    by (simp add: set_bt_keys bt_len_def) (simp add: bt_keys_def)
qed

lemma bt_ext: "bt_get m = bt_get n \<Longrightarrow> m = n"
proof -
  assume eq: "bt_get m = bt_get n"
  have rebuild: "bt_entries m = map (\<lambda>k. (k, the (bt_get m k))) (bt_keys m)" for m :: "('a, 'b) btmap"
  proof -
    have "e = (fst e, the (bt_get m (fst e)))" if "e \<in> set (bt_entries m)" for e
      using that set_bt_entries [of "fst e" "snd e" m] by simp
    then have "map (\<lambda>e. (fst e, the (bt_get m (fst e)))) (bt_entries m) = bt_entries m"
      by (intro map_idI) simp
    then show ?thesis
      by (simp add: bt_keys_def comp_def)
  qed
  have "bt_keys m = bt_keys n"
    using eq by (intro strict_sorted_equal) (simp_all add: sorted_bt_keys set_bt_keys)
  then have "bt_entries m = bt_entries n"
    by (simp add: rebuild [of m] rebuild [of n] eq)
  then show "m = n"
    by (simp add: bt_entries_inject)
qed

lemma bt_get_empty [simp]: "bt_get bt_empty k = None"
  by (simp add: bt_get_entries bt_empty.rep_eq)

lemma bt_get_insert [simp]:
  "bt_get (bt_insert k v m) j = (if j = k then Some v else bt_get m j)"
  by (simp add: bt_get_entries bt_insert.rep_eq map_of_ins_entry)

lemma bt_get_retain [simp]:
  "bt_get (bt_retain P m) k = (case bt_get m k of None \<Rightarrow> None | Some v \<Rightarrow> if P k v then Some v else None)"
proof -
  have "bt_get (bt_retain P m) k = Some v \<longleftrightarrow> bt_get m k = Some v \<and> P k v" for v
    unfolding set_bt_entries [symmetric] by (simp add: bt_retain.rep_eq)
  then show ?thesis
    by (intro option_eqI) (auto split: option.splits)
qed

lemma bt_get_remove [simp]: "bt_get (bt_remove k m) j = (if j = k then None else bt_get m j)"
  by (simp add: bt_remove_def split: option.splits)

lemma bt_get_modify [simp]:
  "bt_get (bt_modify k f m) j = (if j = k then map_option f (bt_get m j) else bt_get m j)"
  by (simp add: bt_modify_def split: option.splits)

lemma bt_get_map [simp]: "bt_get (bt_map f m) k = map_option f (bt_get m k)"
  by (simp add: bt_get_entries bt_map.rep_eq map_of_map)

lemma bt_len_map [simp]: "bt_len (bt_map f m) = bt_len m"
  by (simp add: bt_len_def bt_map.rep_eq)

lemma bt_contains_simps [simp]:
  "\<not> bt_contains bt_empty k"
  "bt_contains (bt_insert k v m) j \<longleftrightarrow> j = k \<or> bt_contains m j"
  "bt_contains (bt_remove k m) j \<longleftrightarrow> j \<noteq> k \<and> bt_contains m j"
  "bt_contains (bt_modify k f m) j \<longleftrightarrow> bt_contains m j"
  by (simp_all add: bt_contains_def)

lemma bt_contains_retain [simp]:
  "bt_contains (bt_retain P m) k \<longleftrightarrow> (\<exists>v. bt_get m k = Some v \<and> P k v)"
  by (simp add: bt_contains_def split: option.splits)

lemma bt_len_empty [simp]: "bt_len bt_empty = 0"
  by (simp add: bt_len_def bt_empty.rep_eq)

lemma dom_bt_insert: "dom (bt_get (bt_insert k v m)) = insert k (dom (bt_get m))"
  by (auto simp: dom_def)

lemma bt_len_insert: "bt_len (bt_insert k v m) = (if bt_contains m k then bt_len m else Suc (bt_len m))"
proof -
  have "bt_contains m k \<longleftrightarrow> k \<in> dom (bt_get m)"
    by (auto simp: bt_contains_def)
  then show ?thesis
    by (simp add: bt_len_card dom_bt_insert card_insert_if)
qed

lemma dom_bt_remove: "dom (bt_get (bt_remove k m)) = dom (bt_get m) - {k}"
  by (auto simp: dom_def)

lemma bt_len_remove: "bt_len (bt_remove k m) = (if bt_contains m k then bt_len m - 1 else bt_len m)"
proof -
  have "bt_contains m k \<longleftrightarrow> k \<in> dom (bt_get m)"
    by (auto simp: bt_contains_def)
  then show ?thesis
    by (auto simp add: bt_len_card dom_bt_remove card_Diff_singleton)
qed

lemma bt_len_modify [simp]: "bt_len (bt_modify k f m) = bt_len m"
  by (auto simp: bt_modify_def bt_len_insert bt_contains_def split: option.splits)

lemma bt_len_retain: "bt_len (bt_retain P m) = length (filter (\<lambda>(k, v). P k v) (bt_entries m))"
  by (simp add: bt_len_def bt_retain.rep_eq)

lemma bt_len_retain_le: "bt_len (bt_retain P m) \<le> bt_len m"
  by (simp only: bt_len_retain) (simp add: bt_len_def)

lemma bt_retain_retain: "bt_retain P (bt_retain Q m) = bt_retain (\<lambda>k v. Q k v \<and> P k v) m"
  by (rule bt_ext) (auto simp: fun_eq_iff split: option.splits)

lemma bt_retain_cong:
  "(\<And>k v. bt_get m k = Some v \<Longrightarrow> P k v = Q k v) \<Longrightarrow> bt_retain P m = bt_retain Q m"
  by (rule bt_ext) (auto simp: fun_eq_iff split: option.splits)

lemma bt_retain_id: "(\<And>k v. bt_get m k = Some v \<Longrightarrow> P k v) \<Longrightarrow> bt_retain P m = m"
  by (rule bt_ext) (auto simp: fun_eq_iff split: option.splits)

lemma bt_insert_same: "bt_get m k = Some v \<Longrightarrow> bt_insert k v m = m"
  by (rule bt_ext) (auto simp: fun_eq_iff)


section \<open>Counting values\<close>

text \<open>\<open>m.values().filter(p).count()\<close>\<close>

definition bt_count :: "('v \<Rightarrow> bool) \<Rightarrow> ('k::linorder, 'v) btmap \<Rightarrow> nat" where
  "bt_count P m = length (filter P (bt_values m))"

lemma bt_count_card: "bt_count P m = card {k. \<exists>v. bt_get m k = Some v \<and> P v}"
proof -
  have "bt_count P m = bt_len (bt_retain (\<lambda>_. P) m)"
    by (simp add: bt_count_def bt_len_retain bt_values_def filter_map comp_def split_def)
  also have "\<dots> = card {k. \<exists>v. bt_get m k = Some v \<and> P v}"
    unfolding bt_len_card by (rule arg_cong [of _ _ card]) (auto simp: dom_def split: option.splits)
  finally show ?thesis .
qed

lemma finite_bt_matching [simp]: "finite {k. \<exists>v. bt_get m k = Some v \<and> P v}"
  by (rule finite_subset [OF _ finite_dom_bt [of m]]) auto

lemma bt_count_empty [simp]: "bt_count P bt_empty = 0"
  by (simp add: bt_count_card)

lemma bt_count_insert_fresh:
  assumes "\<not> bt_contains m k"
  shows "bt_count P (bt_insert k v m) = bt_count P m + (if P v then 1 else 0)"
proof -
  have "{j. \<exists>w. bt_get (bt_insert k v m) j = Some w \<and> P w} =
    (if P v then insert k {j. \<exists>w. bt_get m j = Some w \<and> P w} else {j. \<exists>w. bt_get m j = Some w \<and> P w})"
    using assms by (auto simp: bt_contains_def split: if_splits)
  then show ?thesis using assms by (simp add: bt_count_card bt_contains_def)
qed

text \<open>Maps that agree outside of values with fewer matches.\<close>

lemma bt_count_mono:
  assumes "\<And>k w. bt_get n k = Some w \<Longrightarrow> Q w \<Longrightarrow> \<exists>v. bt_get m k = Some v \<and> P v"
  shows "bt_count Q n \<le> bt_count P m"
  unfolding bt_count_card by (rule card_mono) (use assms in auto)

lemma bt_count_pos: "bt_get m k = Some v \<Longrightarrow> P v \<Longrightarrow> 0 < bt_count P m"
  unfolding bt_count_card by (subst card_gt_0_iff) auto

end
