(* ===== verification/Interfaces.thy ===== *)
theory Interfaces
  imports Prelude
begin

text \<open>
  The contracts several components share, each as a locale with the lemmas its clients use.

  \<^item> \<open>expiring_store\<close>: a map whose entries carry an expiry time, with lookups that ignore expired
    entries and a sweep that removes them (the three maps of \<open>RouteTreeEngine\<close>).
  \<^item> \<open>fifo_registry\<close>: a queue of keys in insertion order that bounds a keyed collection by evicting
    the oldest key (\<open>StreamMux::remember_closed\<close>, \<open>MuxSession::register_operation\<close>).
  \<^item> \<open>lifecycle\<close>: a transition table with terminal states (\<open>AllocatorLeaseState\<close>,
    \<open>gateway::SessionState\<close>).
  The interpretations stand in the theories of the components.
\<close>

section \<open>Batch insertion\<close>

text \<open>\<open>for (k, v) in updates { m.insert(k, v); }\<close>\<close>

definition bt_extend :: "('k::linorder, 'v) btmap \<Rightarrow> ('k, 'v) btmap \<Rightarrow> ('k, 'v) btmap" where
  "bt_extend m updates = fold (\<lambda>(k, v). bt_insert k v) (bt_entries updates) m"

lemma bt_get_fold_insert:
  "distinct (map fst es) \<Longrightarrow>
   bt_get (fold (\<lambda>(k, v). bt_insert k v) es m) j =
     (case map_of es j of Some v \<Rightarrow> Some v | None \<Rightarrow> bt_get m j)"
proof (induction es arbitrary: m)
  case Nil
  then show ?case by simp
next
  case (Cons e es)
  have "map_of es (fst e) = None"
    using Cons.prems by (simp add: map_of_eq_None_iff)
  then show ?case
    using Cons by (cases e) (auto split: option.splits)
qed

lemma bt_get_extend [simp]:
  "bt_get (bt_extend m u) j = (case bt_get u j of Some v \<Rightarrow> Some v | None \<Rightarrow> bt_get m j)"
proof -
  have "distinct (map fst (bt_entries u))"
    using distinct_bt_keys [of u] by (simp only: bt_keys_def)
  then show ?thesis
    by (simp add: bt_extend_def bt_get_fold_insert bt_get_entries [of u])
qed

lemma dom_bt_extend: "dom (bt_get (bt_extend m u)) = dom (bt_get m) \<union> dom (bt_get u)"
  by (auto simp: dom_def split: option.splits)

lemma bt_contains_extend [simp]: "bt_contains (bt_extend m u) k \<longleftrightarrow> bt_contains m k \<or> bt_contains u k"
  by (auto simp: bt_contains_def split: option.splits)

lemma length_filter_keys:
  "length (filter P (bt_keys m)) = card {k \<in> dom (bt_get m). P k}"
proof -
  have "card (set (filter P (bt_keys m))) = length (filter P (bt_keys m))"
    by (intro distinct_card distinct_filter) simp
  then show ?thesis
    by (simp add: set_bt_keys)
qed

lemma bt_len_extend:
  "bt_len (bt_extend m u) = bt_len m + length (filter (\<lambda>k. \<not> bt_contains m k) (bt_keys u))"
proof -
  have "dom (bt_get m) \<union> dom (bt_get u) = dom (bt_get m) \<union> {k \<in> dom (bt_get u). \<not> bt_contains m k}"
    by (auto simp: bt_contains_def)
  moreover have "dom (bt_get m) \<inter> {k \<in> dom (bt_get u). \<not> bt_contains m k} = {}"
    by (auto simp: bt_contains_def)
  moreover have "finite {k \<in> dom (bt_get u). \<not> bt_contains m k}"
    by (rule finite_subset [OF _ finite_dom_bt]) auto
  ultimately show ?thesis
    by (simp add: bt_len_card dom_bt_extend length_filter_keys card_Un_disjoint)
qed


section \<open>Stores with expiry\<close>

definition is_expired :: "u64 \<Rightarrow> u64 \<Rightarrow> bool" where
  "is_expired expires_at current_time \<longleftrightarrow> expires_at \<le> current_time"

lemma is_expired_mono: "is_expired e t \<Longrightarrow> t \<le> t' \<Longrightarrow> is_expired e t'"
  by (simp add: is_expired_def)

locale expiring_store =
  fixes expiry :: "'v \<Rightarrow> u64"
    and lookup_at :: "('k::linorder, 'v) btmap \<Rightarrow> 'k \<Rightarrow> u64 \<Rightarrow> 'v option"
    and sweep :: "u64 \<Rightarrow> ('k, 'v) btmap \<Rightarrow> ('k, 'v) btmap"
  assumes lookup_at: "lookup_at m k t =
      (case bt_get m k of None \<Rightarrow> None | Some v \<Rightarrow> if is_expired (expiry v) t then None else Some v)"
    and sweep_get: "bt_get (sweep t m) k =
      (case bt_get m k of None \<Rightarrow> None | Some v \<Rightarrow> if is_expired (expiry v) t then None else Some v)"
begin

lemma lookup_at_Some: "lookup_at m k t = Some v \<longleftrightarrow> bt_get m k = Some v \<and> \<not> is_expired (expiry v) t"
  by (auto simp: lookup_at split: option.splits if_splits)

text \<open>A sweep at \<open>t\<close> is invisible to every lookup at \<open>t\<close> or later.\<close>

lemma lookup_after_sweep: "t \<le> t' \<Longrightarrow> lookup_at (sweep t m) k t' = lookup_at m k t'"
  by (auto simp: lookup_at sweep_get dest: is_expired_mono split: option.splits)

lemma sweep_subset: "bt_get (sweep t m) k = Some v \<Longrightarrow> bt_get m k = Some v"
  by (auto simp: sweep_get split: option.splits if_splits)

lemma sweep_live: "bt_get (sweep t m) k = Some v \<longleftrightarrow> bt_get m k = Some v \<and> \<not> is_expired (expiry v) t"
  by (auto simp: sweep_get split: option.splits)

lemma sweep_len_le: "bt_len (sweep t m) \<le> bt_len m"
proof -
  have "dom (bt_get (sweep t m)) \<subseteq> dom (bt_get m)"
    by (auto dest: sweep_subset)
  then show ?thesis
    by (simp add: bt_len_card card_mono)
qed

text \<open>
  The length a map will have after a sweep and a batch of inserts, computed without performing
  either: the live entries, plus the updates, minus the updates that replace a live entry.
\<close>

lemma sweep_extend_len:
  "bt_len (bt_extend (sweep t m) u) =
     length (filter (\<lambda>(k, v). \<not> is_expired (expiry v) t) (bt_entries m)) + bt_len u -
     length (filter (\<lambda>k. \<exists>v. bt_get m k = Some v \<and> \<not> is_expired (expiry v) t) (bt_keys u))"
proof -
  let ?live = "dom (bt_get (sweep t m))" and ?upd = "dom (bt_get u)"
  have sweep_eq: "sweep t m = bt_retain (\<lambda>k v. \<not> is_expired (expiry v) t) m"
    by (rule bt_ext) (auto simp: fun_eq_iff sweep_get split: option.splits)
  have "bt_len (sweep t m) = length (filter (\<lambda>(k, v). \<not> is_expired (expiry v) t) (bt_entries m))"
    by (simp add: sweep_eq bt_len_retain)
  moreover have "{k \<in> ?upd. \<exists>v. bt_get m k = Some v \<and> \<not> is_expired (expiry v) t} = ?live \<inter> ?upd"
    by (auto simp: sweep_live)
  moreover have "card (?live \<union> ?upd) = card ?live + card ?upd - card (?live \<inter> ?upd)"
    using card_Un_Int [of ?live ?upd] by simp
  ultimately show ?thesis
    by (simp add: bt_len_card dom_bt_extend length_filter_keys)
qed

end


section \<open>Bounded first-in-first-out registries\<close>

text \<open>\<open>while order.len() > max { if let Some(old) = order.pop_front() { forget(old) } }\<close>\<close>

fun evict_oldest :: "('k \<Rightarrow> 'm \<Rightarrow> 'm) \<Rightarrow> nat \<Rightarrow> 'k list \<Rightarrow> 'm \<Rightarrow> 'k list \<times> 'm" where
  "evict_oldest forget bound [] m = ([], m)"
| "evict_oldest forget bound (old # order) m =
     (if bound < length (old # order) then evict_oldest forget bound order (forget old m)
      else (old # order, m))"

lemma evict_oldest_order:
  "fst (evict_oldest forget bound order m) = drop (length order - bound) order"
  by (induction forget bound order m rule: evict_oldest.induct) (auto simp: Suc_diff_le)

lemma evict_oldest_bound: "length (fst (evict_oldest forget bound order m)) \<le> bound"
  by (simp add: evict_oldest_order)

lemma evict_oldest_noop: "length order \<le> bound \<Longrightarrow> evict_oldest forget bound order m = (order, m)"
  by (cases order) simp_all

lemma evict_oldest_preserves:
  "(\<And>k m. P m \<Longrightarrow> P (forget k m)) \<Longrightarrow> P m \<Longrightarrow> P (snd (evict_oldest forget bound order m))"
  by (induction order arbitrary: m) simp_all

locale fifo_registry =
  fixes tracked :: "'m \<Rightarrow> 'k set"
    and forget :: "'k \<Rightarrow> 'm \<Rightarrow> 'm"
  assumes tracked_forget: "tracked (forget k m) = tracked m - {k}"
begin

lemma tracked_evict:
  "distinct order \<Longrightarrow> set order = tracked m \<Longrightarrow>
   set (fst (evict_oldest forget bound order m)) = tracked (snd (evict_oldest forget bound order m))
   \<and> distinct (fst (evict_oldest forget bound order m))"
proof (induction order arbitrary: m)
  case Nil
  then show ?case by simp
next
  case (Cons old order)
  show ?case
  proof (cases "bound < length (old # order)")
    case True
    have "set order = tracked (forget old m)"
      using Cons.prems by (auto simp: tracked_forget)
    with Cons True show ?thesis by simp
  next
    case False
    with Cons.prems show ?thesis by simp
  qed
qed

end


section \<open>Lifecycles\<close>

locale lifecycle =
  fixes can_step :: "'s \<Rightarrow> 's \<Rightarrow> bool"
    and terminal :: "'s \<Rightarrow> bool"
  assumes terminal_stuck: "terminal s \<Longrightarrow> \<not> can_step s t"
begin

lemma terminal_final: "can_step\<^sup>*\<^sup>* s t \<Longrightarrow> terminal s \<Longrightarrow> t = s"
  by (induction rule: rtranclp_induct) (auto dest: terminal_stuck)

lemma left_state_not_terminal: "can_step\<^sup>+\<^sup>+ s t \<Longrightarrow> \<not> terminal s"
  by (auto dest: tranclpD terminal_stuck)

end

end
