(* ===== verification/Realm_Ids.thy ===== *)
theory Realm_Ids
  imports Interfaces "HOL-Library.Sublist"
begin

text \<open>
  Identifiers and realm paths: \<open>d2b-realm-core/src/ids.rs\<close>, \<open>realm.rs\<close> and \<open>token.rs\<close>.

  The identifier newtypes of \<open>ids.rs\<close> all come from one macro and differ in the validation
  function only, so they share \<open>id_parse\<close>; a parsed identifier is its string. A \<open>RealmPath\<close> has a
  private field that only \<open>RealmPath::new\<close> fills, so the path is a type whose values satisfy what
  \<open>new\<close> checks. The lemmas relate the path predicates to the suffix order on label lists, which is
  the realm tree, and show that the two rendered forms identify a path.
\<close>

section \<open>Identifiers\<close>

type_synonym realm_id = string
type_synonym route_id = string
type_synonym operation_id = string
type_synonym correlation_id = string
type_synonym generation_id = string
type_synonym stream_id = string
type_synonym principal_id = string
type_synonym node_id = string
type_synonym workload_id = string
type_synonym stream_cursor = string
type_synonym idempotency_key = string
type_synonym lease_id = string
type_synonym host_resource_id = string
type_synonym protocol_token = string

definition MAX_ID_LEN :: nat where
  "MAX_ID_LEN = 128"

definition SECRET_MARKERS :: "string list" where
  "SECRET_MARKERS =
     [''secret'', ''password'', ''passwd'', ''bearer'', ''credential'', ''private'', ''apikey'',
      ''token'', ''privatekey'', ''accesstoken'', ''refreshtoken'', ''sessiontoken'']"

datatype id_error = Empty | TooLong | BadShape

definition is_ascii_lowercase :: "char \<Rightarrow> bool" where
  "is_ascii_lowercase c \<longleftrightarrow> CHR ''a'' \<le> c \<and> c \<le> CHR ''z''"

definition is_ascii_uppercase :: "char \<Rightarrow> bool" where
  "is_ascii_uppercase c \<longleftrightarrow> CHR ''A'' \<le> c \<and> c \<le> CHR ''Z''"

definition is_ascii_digit :: "char \<Rightarrow> bool" where
  "is_ascii_digit c \<longleftrightarrow> CHR ''0'' \<le> c \<and> c \<le> CHR ''9''"

definition is_ascii_alphanumeric :: "char \<Rightarrow> bool" where
  "is_ascii_alphanumeric c \<longleftrightarrow> is_ascii_lowercase c \<or> is_ascii_uppercase c \<or> is_ascii_digit c"

definition to_lowercase :: "char \<Rightarrow> char" where
  "to_lowercase c = (if is_ascii_uppercase c then char_of (of_char c + (32::nat)) else c)"

primrec str_contains :: "string \<Rightarrow> string \<Rightarrow> bool" where
  "str_contains [] pat \<longleftrightarrow> pat = []"
| "str_contains (c # s) pat \<longleftrightarrow> take (length pat) (c # s) = pat \<or> str_contains s pat"

definition is_label :: "string \<Rightarrow> bool" where
  "is_label s = (case s of
      [] \<Rightarrow> False
    | c # cs \<Rightarrow> is_ascii_lowercase c \<and>
        list_all (\<lambda>c. is_ascii_lowercase c \<or> is_ascii_digit c \<or> c = CHR ''-'') cs)"

definition is_opaque_token :: "string \<Rightarrow> bool" where
  "is_opaque_token s = (case s of
      [] \<Rightarrow> False
    | first # _ \<Rightarrow>
        is_ascii_alphanumeric first \<and>
        list_all (\<lambda>c. is_ascii_alphanumeric c \<or> c \<in> set ''-_.'') s \<and>
        \<not> str_contains s ''..'' \<and>
        (let compact = map to_lowercase (filter (\<lambda>c. c \<notin> set ''-_.'') s)
         in \<not> list_ex (str_contains compact) SECRET_MARKERS))"

definition id_parse :: "(string \<Rightarrow> bool) \<Rightarrow> string \<Rightarrow> id_error + string" where
  "id_parse validate s =
     (if s = [] then Inl Empty
      else if MAX_ID_LEN < length s then Inl TooLong
      else if \<not> validate s then Inl BadShape
      else Inr s)"

definition parse_label_id :: "string \<Rightarrow> id_error + string" where
  "parse_label_id = id_parse is_label"

definition parse_opaque_id :: "string \<Rightarrow> id_error + string" where
  "parse_opaque_id = id_parse is_opaque_token"

lemma str_contains_iff: "str_contains s pat \<longleftrightarrow> sublist pat s"
proof (induction s)
  case Nil
  then show ?case by simp
next
  case (Cons c s)
  have "take (length pat) (c # s) = pat \<longleftrightarrow> prefix pat (c # s)"
    by (metis append_eq_conv_conj append_take_drop_id prefixE prefixI)
  with Cons show ?case
    by (auto simp: sublist_Cons_right)
qed

lemma id_parse_Inr: "id_parse v s = Inr t \<longleftrightarrow> t = s \<and> s \<noteq> [] \<and> length s \<le> MAX_ID_LEN \<and> v s"
  by (auto simp: id_parse_def)

lemma is_label_chars:
  "is_label s \<Longrightarrow> c \<in> set s \<Longrightarrow> is_ascii_lowercase c \<or> is_ascii_digit c \<or> c = CHR ''-''"
  by (auto simp: is_label_def list_all_iff split: list.splits)

lemma is_label_no_separator: "is_label s \<Longrightarrow> CHR ''.'' \<notin> set s \<and> CHR ''/'' \<notin> set s"
  using is_label_chars [of s "CHR ''.''"] is_label_chars [of s "CHR ''/''"]
  by (auto simp: is_ascii_lowercase_def is_ascii_digit_def less_eq_char_def)


section \<open>Realm paths\<close>

definition MAX_REALM_LABELS :: nat where
  "MAX_REALM_LABELS = 16"

definition MAX_REALM_PATH_BYTES :: nat where
  "MAX_REALM_PATH_BYTES = 255"

definition valid_realm_id :: "string \<Rightarrow> bool" where
  "valid_realm_id s \<longleftrightarrow> is_ok (parse_label_id s)"

text \<open>The bounds \<open>RealmPath::new\<close> checks, on labels that \<open>RealmId::parse\<close> accepted.\<close>

definition path_bounds :: "realm_id list \<Rightarrow> bool" where
  "path_bounds ls \<longleftrightarrow> ls \<noteq> [] \<and> length ls \<le> MAX_REALM_LABELS \<and>
     sum_list (map length ls) + (length ls - 1) \<le> MAX_REALM_PATH_BYTES"

typedef realm_path = "{ls. path_bounds ls \<and> list_all valid_realm_id ls}"
  morphisms labels RealmPath
proof
  show "[''local''] \<in> {ls. path_bounds ls \<and> list_all valid_realm_id ls}"
    by (rule CollectI) code_simp
qed

setup_lifting type_definition_realm_path

lift_definition local :: realm_path is "[''local'']"
  by code_simp

text \<open>The constructor on labels that pass the checks; any other list gives \<open>local\<close>, never used.\<close>

lift_definition checked_path :: "realm_id list \<Rightarrow> realm_path" is
  "\<lambda>ls. if path_bounds ls \<and> list_all valid_realm_id ls then ls else [''local'']"
  by (auto, code_simp+)

definition realm_path_new :: "realm_id list \<Rightarrow> realm_path option" where
  "realm_path_new ls =
     (if path_bounds ls \<and> list_all valid_realm_id ls then Some (checked_path ls) else None)"

definition has_suffix :: "realm_path \<Rightarrow> realm_path \<Rightarrow> bool" where
  "has_suffix p s \<longleftrightarrow>
     list_all (\<lambda>(a, b). a = b) (zip (rev (labels p)) (rev (labels s))) \<and>
     length (labels s) \<le> length (labels p)"

definition is_descendant_of :: "realm_path \<Rightarrow> realm_path \<Rightarrow> bool" where
  "is_descendant_of p ancestor \<longleftrightarrow>
     length (labels ancestor) < length (labels p) \<and> has_suffix p ancestor"

definition is_direct_child_of :: "realm_path \<Rightarrow> realm_path \<Rightarrow> bool" where
  "is_direct_child_of p parent \<longleftrightarrow>
     length (labels p) = length (labels parent) + 1 \<and> has_suffix p parent"

definition join :: "char \<Rightarrow> string list \<Rightarrow> string" where
  "join sep ls = (case ls of [] \<Rightarrow> [] | l # rest \<Rightarrow> l @ concat (map (\<lambda>r. sep # r) rest))"

text \<open>\<open>str::split\<close> on a character: always at least one piece.\<close>

primrec str_split :: "char \<Rightarrow> string \<Rightarrow> string list" where
  "str_split sep [] = [[]]"
| "str_split sep (c # s) =
     (if c = sep then [] # str_split sep s
      else (c # hd (str_split sep s)) # tl (str_split sep s))"

definition storage_form :: "realm_path \<Rightarrow> string" where
  "storage_form p = join (CHR ''/'') (rev (labels p))"

definition target_form :: "realm_path \<Rightarrow> string" where
  "target_form p = join (CHR ''.'') (labels p)"

instantiation realm_path :: equal
begin

definition equal_realm_path :: "realm_path \<Rightarrow> realm_path \<Rightarrow> bool" where
  "equal_realm_path p q \<longleftrightarrow> labels p = labels q"

instance
  by standard (simp add: equal_realm_path_def labels_inject)

end

text \<open>The derived \<open>Ord\<close> of \<open>RealmPath\<close>: lexicographic on the label vector.\<close>

instantiation realm_path :: linorder
begin

definition less_eq_realm_path :: "realm_path \<Rightarrow> realm_path \<Rightarrow> bool" where
  "less_eq_realm_path p q \<longleftrightarrow> labels p \<le> labels q"

definition less_realm_path :: "realm_path \<Rightarrow> realm_path \<Rightarrow> bool" where
  "less_realm_path p q \<longleftrightarrow> labels p < labels q"

instance
proof
  fix p q r :: realm_path
  show "p < q \<longleftrightarrow> p \<le> q \<and> \<not> q \<le> p"
    by (simp add: less_eq_realm_path_def less_realm_path_def less_le_not_le)
  show "p \<le> p" "p \<le> q \<Longrightarrow> q \<le> r \<Longrightarrow> p \<le> r" "p \<le> q \<or> q \<le> p"
    by (auto simp: less_eq_realm_path_def)
  show "p \<le> q \<Longrightarrow> q \<le> p \<Longrightarrow> p = q"
    by (simp add: less_eq_realm_path_def flip: labels_inject)
qed

end

lemma labels_bounds:
  "labels p \<noteq> []" "length (labels p) \<le> 16"
  "sum_list (map length (labels p)) + (length (labels p) - 1) \<le> 255"
  "list_all valid_realm_id (labels p)"
  using labels [of p]
  by (simp_all add: path_bounds_def MAX_REALM_LABELS_def MAX_REALM_PATH_BYTES_def)

lemma realm_path_eqI: "labels p = labels q \<Longrightarrow> p = q"
  by (simp add: labels_inject)

lemma realm_path_new_Some:
  "realm_path_new ls = Some p \<longleftrightarrow> path_bounds ls \<and> list_all valid_realm_id ls \<and> labels p = ls"
  by (auto simp: realm_path_new_def checked_path.rep_eq intro: realm_path_eqI)

lemma realm_path_new_labels [simp]: "realm_path_new (labels p) = Some p"
  using labels [of p] by (simp add: realm_path_new_Some)

lemma list_all_zip_rev_suffix:
  "length ys \<le> length xs \<Longrightarrow>
   list_all (\<lambda>(a, b). a = b) (zip (rev xs) (rev ys)) \<longleftrightarrow> suffix ys xs"
proof -
  assume "length ys \<le> length xs"
  then have "list_all (\<lambda>(a, b). a = b) (zip (rev xs) (rev ys)) \<longleftrightarrow>
      take (length ys) (rev xs) = rev ys"
    by (auto simp: list_all_length list_eq_iff_nth_eq)
  also have "\<dots> \<longleftrightarrow> prefix (rev ys) (rev xs)"
    by (metis append_eq_conv_conj append_take_drop_id length_rev prefixE prefixI)
  finally show ?thesis
    by (simp add: suffix_to_prefix)
qed

lemma suffix_length_less_iff: "suffix xs ys \<Longrightarrow> length xs < length ys \<longleftrightarrow> xs \<noteq> ys"
  by (elim suffixE) simp

lemma has_suffix_iff: "has_suffix p s \<longleftrightarrow> suffix (labels s) (labels p)"
  using list_all_zip_rev_suffix [of "labels s" "labels p"]
  by (auto simp: has_suffix_def dest: suffix_length_le)

lemma is_descendant_of_iff: "is_descendant_of p a \<longleftrightarrow> strict_suffix (labels a) (labels p)"
  using suffix_length_less_iff [of "labels a" "labels p"]
  by (auto simp: is_descendant_of_def has_suffix_iff strict_suffix_def)

lemma is_direct_child_of_iff: "is_direct_child_of p a \<longleftrightarrow> (\<exists>l. labels p = l # labels a)"
proof
  assume "is_direct_child_of p a"
  then obtain zs where "labels p = zs @ labels a" "length zs = 1"
    by (auto simp: is_direct_child_of_def has_suffix_iff elim!: suffixE)
  then show "\<exists>l. labels p = l # labels a"
    by (cases zs) auto
next
  assume "\<exists>l. labels p = l # labels a"
  then show "is_direct_child_of p a"
    by (auto simp: is_direct_child_of_def has_suffix_iff suffix_Cons)
qed

lemma is_direct_child_of_unique: "is_direct_child_of p a \<Longrightarrow> is_direct_child_of p b \<Longrightarrow> a = b"
  by (auto simp: is_direct_child_of_iff intro: realm_path_eqI)

lemma is_direct_child_of_descendant: "is_direct_child_of p a \<Longrightarrow> is_descendant_of p a"
  by (auto simp: is_direct_child_of_def is_descendant_of_def)

lemma split_at_separator:
  "x \<notin> set xs \<Longrightarrow> x \<notin> set ys \<Longrightarrow> xs @ x # us = ys @ x # vs \<Longrightarrow> xs = ys \<and> us = vs"
  by (induction xs arbitrary: ys) (auto simp: Cons_eq_append_conv)

lemma join_inject:
  "\<forall>l \<in> set ls. sep \<notin> set l \<Longrightarrow> \<forall>l \<in> set ms. sep \<notin> set l \<Longrightarrow> ls \<noteq> [] \<Longrightarrow> ms \<noteq> [] \<Longrightarrow>
   join sep ls = join sep ms \<Longrightarrow> ls = ms"
proof (induction ls arbitrary: ms)
  case Nil
  then show ?case by simp
next
  case (Cons l ls)
  then obtain m ms' where ms: "ms = m # ms'"
    by (cases ms) auto
  have step: "join sep (a # r) = (if r = [] then a else a @ sep # join sep r)" for a r
    by (cases r) (simp_all add: join_def)
  have sep: "sep \<notin> set l" "sep \<notin> set m"
    using Cons.prems ms by auto
  show ?case
  proof (cases "ls = [] \<or> ms' = []")
    case True
    with Cons.prems(5) sep ms have "ls = [] \<and> ms' = []"
      by (auto simp: step split: if_splits)
    with Cons.prems(5) ms show ?thesis by (simp add: step)
  next
    case False
    with Cons.prems(5) ms have "l @ sep # join sep ls = m @ sep # join sep ms'"
      by (simp add: step)
    then have "l = m" "join sep ls = join sep ms'"
      using split_at_separator [OF sep] by blast+
    moreover have "ls = ms'"
    proof (rule Cons.IH)
      show "\<forall>l \<in> set ls. sep \<notin> set l" "\<forall>l \<in> set ms'. sep \<notin> set l"
        using Cons.prems(1,2) ms by simp_all
    qed (use False \<open>join sep ls = join sep ms'\<close> in simp_all)
    ultimately show ?thesis by (simp add: ms)
  qed
qed

lemma str_split_single: "sep \<notin> set l \<Longrightarrow> str_split sep l = [l]"
  by (induction l) auto

lemma str_split_append: "sep \<notin> set l \<Longrightarrow> str_split sep (l @ sep # s) = l # str_split sep s"
  by (induction l) auto

lemma str_split_join: "\<forall>l \<in> set ls. sep \<notin> set l \<Longrightarrow> ls \<noteq> [] \<Longrightarrow> str_split sep (join sep ls) = ls"
proof (induction ls)
  case (Cons l ls)
  then show ?case
    by (cases ls) (simp_all add: join_def str_split_single str_split_append)
qed simp

lemma labels_no_separator:
  "l \<in> set (labels p) \<Longrightarrow> CHR ''.'' \<notin> set l \<and> CHR ''/'' \<notin> set l"
  using labels_bounds(4) [of p]
  by (intro is_label_no_separator)
     (auto simp: list_all_iff valid_realm_id_def parse_label_id_def id_parse_def split: if_splits)

lemma target_form_inject: "target_form p = target_form q \<longleftrightarrow> p = q"
proof
  assume "target_form p = target_form q"
  then have "labels p = labels q"
    unfolding target_form_def
    by (rule join_inject [rotated 4]) (simp_all add: labels_no_separator labels_bounds)
  then show "p = q" by (rule realm_path_eqI)
qed simp

lemma storage_form_inject: "storage_form p = storage_form q \<longleftrightarrow> p = q"
proof
  assume "storage_form p = storage_form q"
  then have "rev (labels p) = rev (labels q)"
    unfolding storage_form_def
    by (rule join_inject [rotated 4]) (simp_all add: labels_no_separator labels_bounds)
  then show "p = q" by (simp add: realm_path_eqI)
qed simp

lemma length_join: "length (join sep ls) = sum_list (map length ls) + (length ls - 1)"
proof (cases ls)
  case (Cons l rest)
  have "length (concat (map (\<lambda>r. sep # r) rest)) = sum_list (map length rest) + length rest"
    by (induction rest) simp_all
  with Cons show ?thesis by (simp add: join_def)
qed (simp add: join_def)

lemma length_forms: "length (target_form p) \<le> 255" "length (storage_form p) \<le> 255"
  using labels_bounds(3) [of p]
  by (simp_all add: target_form_def storage_form_def length_join flip: rev_map)

text \<open>Dropping the most specific label of a path with more than one leaves the parent realm.\<close>

lemma parent_path:
  assumes "labels p = l # ls" "ls \<noteq> []"
  obtains a where "labels a = ls" "is_direct_child_of p a"
proof -
  have "path_bounds ls \<and> list_all valid_realm_id ls"
    using labels_bounds [of p] assms
    by (auto simp: path_bounds_def MAX_REALM_LABELS_def MAX_REALM_PATH_BYTES_def)
  then obtain a where "realm_path_new ls = Some a"
    by (simp add: realm_path_new_def)
  then have "labels a = ls" by (simp add: realm_path_new_Some)
  with assms that show thesis by (auto simp: is_direct_child_of_iff)
qed

lemma is_descendant_of_trans: "is_descendant_of p q \<Longrightarrow> is_descendant_of q r \<Longrightarrow> is_descendant_of p r"
  by (auto simp: is_descendant_of_iff intro: suffix_order.less_trans)

lemma is_descendant_of_tranclp: "is_descendant_of p a \<longleftrightarrow> is_direct_child_of\<^sup>+\<^sup>+ p a"
proof
  assume "is_descendant_of p a"
  then obtain zs where "labels p = zs @ labels a" "zs \<noteq> []"
    by (auto simp: is_descendant_of_iff strict_suffix_def suffix_def)
  then show "is_direct_child_of\<^sup>+\<^sup>+ p a"
  proof (induction zs arbitrary: p)
    case (Cons z zs)
    obtain q where q: "labels q = zs @ labels a" "is_direct_child_of p q"
      using parent_path [of p z "zs @ labels a"] Cons.prems labels_bounds(1) [of a] by auto
    show ?case
    proof (cases "zs = []")
      case True
      with q have "q = a" by (simp add: realm_path_eqI)
      with q show ?thesis by blast
    next
      case False
      with Cons.IH q have "is_direct_child_of\<^sup>+\<^sup>+ q a" by blast
      with q show ?thesis by (meson tranclp_into_tranclp2)
    qed
  qed simp
next
  show "is_direct_child_of\<^sup>+\<^sup>+ p a \<Longrightarrow> is_descendant_of p a"
    by (induction rule: tranclp_induct)
       (auto intro: is_descendant_of_trans is_direct_child_of_descendant)
qed


section \<open>Properties\<close>

text \<open>The operator-facing and the storage rendering of a realm path both determine the path, and
  neither is longer than 255 bytes: two realms never share a rendered name.\<close>

theorem realm_forms_identify:
  "(target_form p = target_form q \<longleftrightarrow> p = q) \<and> (storage_form p = storage_form q \<longleftrightarrow> p = q) \<and>
   length (target_form p) \<le> MAX_REALM_PATH_BYTES \<and> length (storage_form p) \<le> MAX_REALM_PATH_BYTES"
  by (simp add: target_form_inject storage_form_inject length_forms MAX_REALM_PATH_BYTES_def)

text \<open>The two path predicates describe one tree: descent is exactly the transitive closure of the
  direct-child relation, and a realm has at most one parent.\<close>

theorem realm_tree:
  "is_descendant_of p a = is_direct_child_of\<^sup>+\<^sup>+ p a \<and>
   card {b. is_direct_child_of p b} \<le> 1"
proof -
  have "card {b. is_direct_child_of p b} \<le> 1"
  proof (cases "\<exists>b. is_direct_child_of p b")
    case True
    then obtain b where b: "is_direct_child_of p b" by blast
    then have "{b. is_direct_child_of p b} = {b}" by (auto dest: is_direct_child_of_unique)
    then show ?thesis by simp
  qed simp
  then show ?thesis by (simp add: is_descendant_of_tranclp)
qed

end
