(* ===== verification/Capabilities.thy ===== *)
theory Capabilities
  imports Realm_Ids
begin

text \<open>
  The capability model of \<open>d2b-realm-core/src/capability.rs\<close>: the closed capability enum with its
  stable codes, capability sets that keep unknown future tokens, their wire form, and the
  deterministic fingerprint. The lemmas show that codes and capabilities correspond one to one,
  that a set survives its wire form, and that intersection and inclusion are the lattice
  operations the routing layer relies on.
\<close>

section \<open>Tokens\<close>

definition MAX_PROTOCOL_TOKEN_LEN :: nat where
  "MAX_PROTOCOL_TOKEN_LEN = 64"

definition is_ascii_graphic :: "char \<Rightarrow> bool" where
  "is_ascii_graphic c \<longleftrightarrow> CHR ''!'' \<le> c \<and> c \<le> CHR ''~''"

datatype token_error = Token_Empty | Token_TooLong | Token_BadShape

definition protocol_token_parse :: "string \<Rightarrow> token_error + protocol_token" where
  "protocol_token_parse s =
     (if s = [] then Inl Token_Empty
      else if MAX_PROTOCOL_TOKEN_LEN < length s then Inl Token_TooLong
      else if \<not> list_all (\<lambda>c. is_ascii_graphic c \<and> c \<noteq> CHR '' '') s then Inl Token_BadShape
      else Inr s)"


section \<open>Capabilities\<close>

definition CAPABILITY_NEGOTIATION_SCHEMA_VERSION :: nat where
  "CAPABILITY_NEGOTIATION_SCHEMA_VERSION = 1"

definition MAX_CAPABILITY_SET_LEN :: nat where
  "MAX_CAPABILITY_SET_LEN = 64"

datatype capability =
    Cap_Lifecycle | Cap_Exec | Cap_Pty | Cap_Logs | Cap_FileCopy | Cap_PortForward
    | Cap_PersistentShell | Cap_Vsock | Cap_Virtiofs | Cap_WindowForwarding
    | Cap_DisplayStreaming | Cap_Clipboard | Cap_AudioPlayback | Cap_AudioCapture | Cap_Hid
    | Cap_Usb | Cap_GpuAccel | Cap_Snapshots | Cap_Hotplug | Cap_EphemeralSessions
    | Cap_ProviderManagedIsolation | Cap_ConfiguredLaunch

primrec cap_code :: "capability \<Rightarrow> string" where
  "cap_code Cap_Lifecycle = ''lifecycle''"
| "cap_code Cap_Exec = ''exec''"
| "cap_code Cap_Pty = ''pty''"
| "cap_code Cap_Logs = ''logs''"
| "cap_code Cap_FileCopy = ''file-copy''"
| "cap_code Cap_PortForward = ''port-forward''"
| "cap_code Cap_PersistentShell = ''persistent-shell''"
| "cap_code Cap_Vsock = ''vsock''"
| "cap_code Cap_Virtiofs = ''virtiofs''"
| "cap_code Cap_WindowForwarding = ''window-forwarding''"
| "cap_code Cap_DisplayStreaming = ''display-streaming''"
| "cap_code Cap_Clipboard = ''clipboard''"
| "cap_code Cap_AudioPlayback = ''audio-playback''"
| "cap_code Cap_AudioCapture = ''audio-capture''"
| "cap_code Cap_Hid = ''hid''"
| "cap_code Cap_Usb = ''usb''"
| "cap_code Cap_GpuAccel = ''gpu-accel''"
| "cap_code Cap_Snapshots = ''snapshots''"
| "cap_code Cap_Hotplug = ''hotplug''"
| "cap_code Cap_EphemeralSessions = ''ephemeral-sessions''"
| "cap_code Cap_ProviderManagedIsolation = ''provider-managed-isolation''"
| "cap_code Cap_ConfiguredLaunch = ''configured-launch''"

definition cap_from_code :: "string \<Rightarrow> capability option" where
  "cap_from_code code = map_of
     [(''lifecycle'', Cap_Lifecycle),
      (''exec'', Cap_Exec),
      (''pty'', Cap_Pty),
      (''logs'', Cap_Logs),
      (''file-copy'', Cap_FileCopy),
      (''port-forward'', Cap_PortForward),
      (''persistent-shell'', Cap_PersistentShell),
      (''vsock'', Cap_Vsock),
      (''virtiofs'', Cap_Virtiofs),
      (''window-forwarding'', Cap_WindowForwarding),
      (''display-streaming'', Cap_DisplayStreaming),
      (''clipboard'', Cap_Clipboard),
      (''audio-playback'', Cap_AudioPlayback),
      (''audio-capture'', Cap_AudioCapture),
      (''hid'', Cap_Hid),
      (''usb'', Cap_Usb),
      (''gpu-accel'', Cap_GpuAccel),
      (''snapshots'', Cap_Snapshots),
      (''hotplug'', Cap_Hotplug),
      (''ephemeral-sessions'', Cap_EphemeralSessions),
      (''provider-managed-isolation'', Cap_ProviderManagedIsolation),
      (''configured-launch'', Cap_ConfiguredLaunch)] code"

text \<open>Declaration order, which the derived \<open>Ord\<close> uses.\<close>

primrec cap_rank :: "capability \<Rightarrow> nat" where
  "cap_rank Cap_Lifecycle = 0"
| "cap_rank Cap_Exec = 1"
| "cap_rank Cap_Pty = 2"
| "cap_rank Cap_Logs = 3"
| "cap_rank Cap_FileCopy = 4"
| "cap_rank Cap_PortForward = 5"
| "cap_rank Cap_PersistentShell = 6"
| "cap_rank Cap_Vsock = 7"
| "cap_rank Cap_Virtiofs = 8"
| "cap_rank Cap_WindowForwarding = 9"
| "cap_rank Cap_DisplayStreaming = 10"
| "cap_rank Cap_Clipboard = 11"
| "cap_rank Cap_AudioPlayback = 12"
| "cap_rank Cap_AudioCapture = 13"
| "cap_rank Cap_Hid = 14"
| "cap_rank Cap_Usb = 15"
| "cap_rank Cap_GpuAccel = 16"
| "cap_rank Cap_Snapshots = 17"
| "cap_rank Cap_Hotplug = 18"
| "cap_rank Cap_EphemeralSessions = 19"
| "cap_rank Cap_ProviderManagedIsolation = 20"
| "cap_rank Cap_ConfiguredLaunch = 21"

lemma cap_rank_inject: "cap_rank a = cap_rank b \<longleftrightarrow> a = b"
  by (cases a; cases b) simp_all

instantiation capability :: linorder
begin

definition less_eq_capability :: "capability \<Rightarrow> capability \<Rightarrow> bool" where
  "less_eq_capability a b \<longleftrightarrow> cap_rank a \<le> cap_rank b"

definition less_capability :: "capability \<Rightarrow> capability \<Rightarrow> bool" where
  "less_capability a b \<longleftrightarrow> cap_rank a < cap_rank b"

instance
  by standard (auto simp: less_eq_capability_def less_capability_def cap_rank_inject)

end

lemma cap_from_code_code: "cap_from_code (cap_code c) = Some c"
  by (cases c) (simp_all add: cap_from_code_def)

lemma cap_from_code_Some: "cap_from_code s = Some c \<longleftrightarrow> s = cap_code c"
proof
  assume "cap_from_code s = Some c"
  from map_of_SomeD [OF this [unfolded cap_from_code_def]] show "s = cap_code c"
    by auto
qed (simp add: cap_from_code_code)


section \<open>Capability sets\<close>

record capability_set =
  known :: "capability btset"
  unknown :: "protocol_token btset"

record capability_negotiation =
  schema_version :: nat
  capabilities :: capability_set
  fingerprint :: string

definition caps_empty :: capability_set where
  "caps_empty = \<lparr>known = bt_empty, unknown = bt_empty\<rparr>"

definition from_caps :: "capability list \<Rightarrow> capability_set" where
  "from_caps caps = \<lparr>known = fold (\<lambda>c. bt_insert c ()) caps bt_empty, unknown = bt_empty\<rparr>"

definition insert_token :: "protocol_token \<Rightarrow> capability_set \<Rightarrow> capability_set" where
  "insert_token token s =
     (case cap_from_code token of
        Some capability \<Rightarrow> s\<lparr>known := bt_insert capability () (known s)\<rparr>
      | None \<Rightarrow> s\<lparr>unknown := bt_insert token () (unknown s)\<rparr>)"

definition from_tokens :: "protocol_token list \<Rightarrow> capability_set" where
  "from_tokens tokens = fold insert_token tokens caps_empty"

definition caps_with :: "capability_set \<Rightarrow> capability \<Rightarrow> capability_set" where
  "caps_with s cap = s\<lparr>known := bt_insert cap () (known s)\<rparr>"

definition caps_has :: "capability_set \<Rightarrow> capability \<Rightarrow> bool" where
  "caps_has s cap \<longleftrightarrow> bt_contains (known s) cap"

text \<open>The sorted code list that serialization and the fingerprint share.\<close>

definition caps_codes :: "capability_set \<Rightarrow> string list" where
  "caps_codes s = sort (map cap_code (bt_keys (known s)) @ bt_keys (unknown s))"

text \<open>\<open>visit_seq\<close>: at most \<open>MAX_CAPABILITY_SET_LEN\<close> tokens, each a valid protocol token.\<close>

datatype caps_decode_error = BadToken token_error | TooManyCapabilities

fun caps_visit_seq :: "nat \<Rightarrow> string list \<Rightarrow> protocol_token list \<Rightarrow> caps_decode_error + capability_set" where
  "caps_visit_seq count [] tokens = Inr (from_tokens tokens)"
| "caps_visit_seq count (s # rest) tokens =
     (case protocol_token_parse s of
        Inl e \<Rightarrow> Inl (BadToken e)
      | Inr capability \<Rightarrow>
          if MAX_CAPABILITY_SET_LEN < count + 1 then Inl TooManyCapabilities
          else caps_visit_seq (count + 1) rest (tokens @ [capability]))"

definition caps_deserialize :: "string list \<Rightarrow> caps_decode_error + capability_set" where
  "caps_deserialize codes = caps_visit_seq 0 codes []"

definition caps_serialize :: "capability_set \<Rightarrow> string list" where
  "caps_serialize s = caps_codes s"

definition fnv_step :: "u64 \<Rightarrow> u64 \<Rightarrow> u64" where
  "fnv_step hash byte = xor hash byte * 0x00000100000001b3"

definition fnv_code :: "u64 \<Rightarrow> string \<Rightarrow> u64" where
  "fnv_code hash code = fnv_step (fold (\<lambda>b h. fnv_step h (of_nat (of_char b))) code hash) 0xff"

definition hex_digit :: "nat \<Rightarrow> char" where
  "hex_digit d = (if d < 10 then char_of (48 + d) else char_of (87 + d))"

definition hex16 :: "u64 \<Rightarrow> string" where
  "hex16 h = map (\<lambda>i. hex_digit (unat (take_bit 4 (drop_bit (4 * i) h)))) (rev [0..<16])"

definition stable_fingerprint :: "capability_set \<Rightarrow> string" where
  "stable_fingerprint s =
     ''cap-v1-'' @ hex16 (fold (\<lambda>code hash. fnv_code hash code) (caps_codes s) 0xcbf29ce484222325)"

definition negotiation :: "capability_set \<Rightarrow> capability_negotiation" where
  "negotiation s =
     \<lparr>schema_version = CAPABILITY_NEGOTIATION_SCHEMA_VERSION, capabilities = s,
      fingerprint = stable_fingerprint s\<rparr>"

definition caps_intersection :: "capability_set \<Rightarrow> capability_set \<Rightarrow> capability_set" where
  "caps_intersection s t =
     \<lparr>known = bt_retain (\<lambda>c _. bt_contains (known t) c) (known s),
      unknown = bt_retain (\<lambda>c _. bt_contains (unknown t) c) (unknown s)\<rparr>"

definition caps_subset :: "capability_set \<Rightarrow> capability_set \<Rightarrow> bool" where
  "caps_subset s t \<longleftrightarrow>
     list_all (bt_contains (known t)) (bt_keys (known s)) \<and>
     list_all (bt_contains (unknown t)) (bt_keys (unknown s))"


subsection \<open>The set view\<close>

text \<open>
  A capability set as one set of codes; the invariant says that no code of a known capability
  hides among the unknown tokens, which every constructor guarantees.
\<close>

definition caps_inv :: "capability_set \<Rightarrow> bool" where
  [invs]: "caps_inv s \<longleftrightarrow> (\<forall>t. bt_contains (unknown s) t \<longrightarrow> cap_from_code t = None)"

lemma caps_has_intersection [simp]:
  "caps_has (caps_intersection s t) c \<longleftrightarrow> caps_has s c \<and> caps_has t c"
  by (auto simp: caps_has_def caps_intersection_def) (auto simp: bt_contains_def)

lemma caps_has_empty [simp]: "\<not> caps_has caps_empty c"
  by (simp add: caps_has_def caps_empty_def)

lemma caps_subset_iff:
  "caps_subset s t \<longleftrightarrow>
   (\<forall>c. caps_has s c \<longrightarrow> caps_has t c) \<and> (\<forall>u. bt_contains (unknown s) u \<longrightarrow> bt_contains (unknown t) u)"
  by (auto simp: caps_subset_def caps_has_def list_all_iff set_bt_keys bt_contains_def)

lemma caps_subset_refl [simp]: "caps_subset s s"
  by (simp add: caps_subset_iff)

lemma caps_subset_trans: "caps_subset s t \<Longrightarrow> caps_subset t u \<Longrightarrow> caps_subset s u"
  by (simp add: caps_subset_iff)

lemma caps_subset_empty [simp]: "caps_subset caps_empty s"
  by (simp add: caps_subset_iff) (simp add: caps_empty_def)

lemma unknown_intersection [simp]:
  "bt_contains (unknown (caps_intersection s t)) u \<longleftrightarrow>
   bt_contains (unknown s) u \<and> bt_contains (unknown t) u"
  by (simp add: caps_intersection_def) (auto simp: bt_contains_def split: option.splits)

lemma caps_intersection_subset:
  "caps_subset (caps_intersection s t) s" "caps_subset (caps_intersection s t) t"
  by (simp_all add: caps_subset_iff)

lemma caps_intersection_greatest:
  "caps_subset u s \<Longrightarrow> caps_subset u t \<Longrightarrow> caps_subset u (caps_intersection s t)"
  by (simp_all add: caps_subset_iff)

lemma unit_bt_ext: "(\<And>k. bt_contains m k = bt_contains n k) \<Longrightarrow> m = n" for m n :: "'a::linorder btset"
proof (rule bt_ext, rule ext)
  fix k
  assume "\<And>k. bt_contains m k = bt_contains n k"
  then show "bt_get m k = bt_get n k"
    by (cases "bt_get m k"; cases "bt_get n k") (auto simp: bt_contains_def dest: meta_spec [of _ k])
qed

lemma insert_token_contains:
  "caps_has (insert_token t s) c \<longleftrightarrow> cap_from_code t = Some c \<or> caps_has s c"
  "bt_contains (unknown (insert_token t s)) u \<longleftrightarrow>
     (cap_from_code t = None \<and> u = t) \<or> bt_contains (unknown s) u"
  by (auto simp: insert_token_def caps_has_def split: option.splits)

lemma fold_insert_token_contains:
  "caps_has (fold insert_token ts s) c \<longleftrightarrow> cap_code c \<in> set ts \<or> caps_has s c"
  "bt_contains (unknown (fold insert_token ts s)) u \<longleftrightarrow>
     (cap_from_code u = None \<and> u \<in> set ts) \<or> bt_contains (unknown s) u"
  by (induction ts arbitrary: s) (auto simp: insert_token_contains cap_from_code_Some)

lemma from_tokens_contains:
  "caps_has (from_tokens ts) c \<longleftrightarrow> cap_code c \<in> set ts"
  "bt_contains (unknown (from_tokens ts)) u \<longleftrightarrow> cap_from_code u = None \<and> u \<in> set ts"
  by (simp_all add: from_tokens_def fold_insert_token_contains) (simp add: caps_empty_def)

lemma caps_inv_from_tokens: "caps_inv (from_tokens ts)"
  by (simp add: caps_inv_def from_tokens_contains)

lemma set_caps_codes:
  "u \<in> set (caps_codes s) \<longleftrightarrow> (\<exists>c. caps_has s c \<and> u = cap_code c) \<or> bt_contains (unknown s) u"
  by (auto simp: caps_codes_def caps_has_def set_bt_keys bt_contains_def)

lemma cap_code_inject: "cap_code a = cap_code b \<longleftrightarrow> a = b"
  by (metis cap_from_code_code option.inject)

lemma from_tokens_codes: "caps_inv s \<Longrightarrow> from_tokens (caps_codes s) = s"
proof (rule capability_set.equality)
  assume inv: "caps_inv s"
  show "known (from_tokens (caps_codes s)) = known s"
    by (rule unit_bt_ext)
       (use inv in \<open>auto simp: from_tokens_contains [unfolded caps_has_def] set_caps_codes
          cap_code_inject caps_has_def caps_inv_def cap_from_code_code\<close>)
  show "unknown (from_tokens (caps_codes s)) = unknown s"
    by (rule unit_bt_ext)
       (use inv in \<open>auto simp: from_tokens_contains set_caps_codes caps_inv_def cap_from_code_code\<close>)
qed simp

lemma caps_visit_seq_ok:
  "list_all (\<lambda>s. is_ok (protocol_token_parse s)) codes \<Longrightarrow>
   count + length codes \<le> MAX_CAPABILITY_SET_LEN \<Longrightarrow>
   caps_visit_seq count codes tokens = Inr (from_tokens (tokens @ codes))"
proof (induction count codes tokens rule: caps_visit_seq.induct)
  case (2 count s rest tokens)
  then have "protocol_token_parse s = Inr s"
    by (auto simp: protocol_token_parse_def split: if_splits)
  with 2 show ?case by simp
qed simp

lemma caps_visit_seq_inv: "caps_visit_seq count codes tokens = Inr s \<Longrightarrow> caps_inv s"
  by (induction count codes tokens rule: caps_visit_seq.induct)
     (auto simp: caps_inv_from_tokens split: sum.splits if_splits)

lemma token_parse_same: "is_ok (protocol_token_parse t) \<longleftrightarrow> protocol_token_parse t = Inr t"
  by (auto simp: protocol_token_parse_def)

lemma cap_code_token: "is_ok (protocol_token_parse (cap_code c))"
  by (induction c) code_simp+

lemma length_hex16 [simp]: "length (hex16 h) = 16"
  by (simp add: hex16_def)

lemma caps_has_from_caps: "caps_has (from_caps cs) c \<longleftrightarrow> c \<in> set cs"
proof -
  have "bt_contains (fold (\<lambda>c. bt_insert c ()) cs m) c \<longleftrightarrow> c \<in> set cs \<or> bt_contains m c" for m
    by (induction cs arbitrary: m) auto
  then show ?thesis by (simp add: caps_has_def from_caps_def)
qed


section \<open>Properties\<close>

text \<open>A capability set that any constructor or decoder can produce comes back unchanged from its
  wire form, unknown future tokens included, as long as it respects the wire bound and its unknown
  tokens are valid tokens.\<close>

theorem capability_set_round_trip:
  assumes "caps_inv s" "length (caps_codes s) \<le> MAX_CAPABILITY_SET_LEN"
    and "list_all (\<lambda>t. is_ok (protocol_token_parse t)) (bt_keys (unknown s))"
  shows "caps_deserialize (caps_serialize s) = Inr s"
proof -
  have "list_all (\<lambda>t. is_ok (protocol_token_parse t)) (caps_codes s)"
    using assms(3) cap_code_token by (auto simp: list_all_iff caps_codes_def)
  from caps_visit_seq_ok [OF this, of 0 "[]"] assms show ?thesis
    by (simp add: caps_deserialize_def caps_serialize_def from_tokens_codes)
qed

lemma capability_set_round_trip_witness:
  "caps_deserialize (caps_serialize (from_tokens [''exec'', ''future-cap'', ''logs''])) =
   Inr (from_tokens [''exec'', ''future-cap'', ''logs''])"
  by (rule capability_set_round_trip [OF caps_inv_from_tokens]) code_simp+

text \<open>Intersection is the greatest capability set below both arguments: negotiation grants what
  both sides advertise and nothing else.\<close>

theorem capability_intersection_greatest:
  "caps_subset u (caps_intersection s t) \<longleftrightarrow> caps_subset u s \<and> caps_subset u t"
  using caps_intersection_greatest caps_intersection_subset caps_subset_trans by metis

end
