(* ===== verification/Frames.thy ===== *)
theory Frames
  imports Capabilities
begin

text \<open>
  The codec-neutral frames of a peer session: \<open>d2b-realm-core/src/error.rs\<close>, \<open>stream.rs\<close>,
  \<open>frame.rs\<close>, and what they use of \<open>trace_context.rs\<close>, \<open>payload.rs\<close> and \<open>audit.rs\<close>.

  Frame structs are records and the frame enum is a datatype over them; decoding a frame from its
  wire form (JSON or protobuf) is outside the model, the checks that the hand-written decoders add
  are the \<open>decode_\<close> definitions. The lemmas show that errors keep their capability invariant and
  their length bounds, and that the dedup fingerprint input determines the request.
\<close>

section \<open>Errors\<close>

datatype error_kind =
    Err_CapabilityDenied | Err_Unauthorized | Err_NoRealmEntrypoint | Err_GatewayUnavailable
    | Err_ProviderAllocationFailed | Err_RelayUnavailable | Err_AuthenticationFailed
    | Err_VersionSkew | Err_OperationInProgress | Err_IdempotencyKeyConflict
    | Err_IdempotencyKeyExpired | Err_Backpressure | Err_Cancelled | Err_Timeout
    | Err_FrameTooLarge | Err_MalformedFrame | Err_InvalidTarget | Err_AuditUnavailable
    | Err_UnsupportedFeature

primrec error_kind_code :: "error_kind \<Rightarrow> string" where
  "error_kind_code Err_CapabilityDenied = ''capability-denied''"
| "error_kind_code Err_Unauthorized = ''unauthorized''"
| "error_kind_code Err_NoRealmEntrypoint = ''no-realm-entrypoint''"
| "error_kind_code Err_GatewayUnavailable = ''gateway-unavailable''"
| "error_kind_code Err_ProviderAllocationFailed = ''provider-allocation-failed''"
| "error_kind_code Err_RelayUnavailable = ''relay-unavailable''"
| "error_kind_code Err_AuthenticationFailed = ''authentication-failed''"
| "error_kind_code Err_VersionSkew = ''version-skew''"
| "error_kind_code Err_OperationInProgress = ''operation-in-progress''"
| "error_kind_code Err_IdempotencyKeyConflict = ''idempotency-key-conflict''"
| "error_kind_code Err_IdempotencyKeyExpired = ''idempotency-key-expired''"
| "error_kind_code Err_Backpressure = ''backpressure''"
| "error_kind_code Err_Cancelled = ''cancelled''"
| "error_kind_code Err_Timeout = ''timeout''"
| "error_kind_code Err_FrameTooLarge = ''frame-too-large''"
| "error_kind_code Err_MalformedFrame = ''malformed-frame''"
| "error_kind_code Err_InvalidTarget = ''invalid-target''"
| "error_kind_code Err_AuditUnavailable = ''audit-unavailable''"
| "error_kind_code Err_UnsupportedFeature = ''unsupported-feature''"

definition MAX_MESSAGE_LEN :: nat where
  "MAX_MESSAGE_LEN = 256"

definition MAX_FINGERPRINT_LEN :: nat where
  "MAX_FINGERPRINT_LEN = 64"

text \<open>A UTF-8 string is its byte list; a continuation byte is one of \<open>0x80 .. 0xbf\<close>.\<close>

definition is_char_boundary :: "string \<Rightarrow> nat \<Rightarrow> bool" where
  "is_char_boundary s i \<longleftrightarrow>
     i = 0 \<or> i = length s \<or>
     (i < length s \<and> \<not> (128 \<le> (of_char (s ! i) :: nat) \<and> (of_char (s ! i) :: nat) < 192))"

primrec boundary_below :: "string \<Rightarrow> nat \<Rightarrow> nat" where
  "boundary_below s 0 = 0"
| "boundary_below s (Suc e) = (if is_char_boundary s (Suc e) then Suc e else boundary_below s e)"

definition bound_message :: "string \<Rightarrow> string" where
  "bound_message s =
     (if MAX_MESSAGE_LEN < length s then take (boundary_below s MAX_MESSAGE_LEN) s else s)"

definition bound_fingerprint :: "string \<Rightarrow> string" where
  "bound_fingerprint s =
     (if MAX_FINGERPRINT_LEN < length s then take (boundary_below s MAX_FINGERPRINT_LEN) s else s)"

record constellation_error =
  err_kind :: error_kind
  err_correlation_id :: "correlation_id option"
  err_capability :: "capability option"
  err_fingerprint :: "string option"
  err_message :: string

definition error_new :: "error_kind \<Rightarrow> string \<Rightarrow> constellation_error" where
  "error_new kind message =
     \<lparr>err_kind = (if kind = Err_CapabilityDenied then Err_Unauthorized else kind),
      err_correlation_id = None, err_capability = None, err_fingerprint = None,
      err_message = bound_message message\<rparr>"

definition capability_denied_with_fingerprint ::
    "capability \<Rightarrow> string option \<Rightarrow> constellation_error" where
  "capability_denied_with_fingerprint missing negotiated_fingerprint =
     \<lparr>err_kind = Err_CapabilityDenied, err_correlation_id = None, err_capability = Some missing,
      err_fingerprint = map_option bound_fingerprint negotiated_fingerprint,
      err_message = bound_message
        (''required capability '' @ cap_code missing @ '' is not advertised'')\<rparr>"

definition capability_denied :: "capability \<Rightarrow> constellation_error" where
  "capability_denied missing = capability_denied_with_fingerprint missing None"

definition with_correlation_id :: "constellation_error \<Rightarrow> correlation_id \<Rightarrow> constellation_error" where
  "with_correlation_id e correlation_id = e\<lparr>err_correlation_id := Some correlation_id\<rparr>"

definition decode_error :: "constellation_error \<Rightarrow> constellation_error option" where
  "decode_error raw =
     (if err_kind raw = Err_CapabilityDenied \<and> err_capability raw = None then None
      else if err_kind raw \<noteq> Err_CapabilityDenied \<and> err_fingerprint raw \<noteq> None then None
      else Some (raw\<lparr>err_fingerprint := map_option bound_fingerprint (err_fingerprint raw),
                      err_message := bound_message (err_message raw)\<rparr>))"

text \<open>What every constructor and the decoder guarantee of an error value.\<close>

definition error_inv :: "constellation_error \<Rightarrow> bool" where
  [invs]: "error_inv e \<longleftrightarrow>
     (err_kind e = Err_CapabilityDenied \<longrightarrow> err_capability e \<noteq> None) \<and>
     (err_kind e \<noteq> Err_CapabilityDenied \<longrightarrow> err_fingerprint e = None) \<and>
     length (err_message e) \<le> MAX_MESSAGE_LEN \<and>
     (\<forall>f. err_fingerprint e = Some f \<longrightarrow> length f \<le> MAX_FINGERPRINT_LEN)"

lemma boundary_below_le: "boundary_below s n \<le> n"
  by (induction n) (simp_all add: le_SucI)

lemma length_bound_message: "length (bound_message s) \<le> MAX_MESSAGE_LEN"
  using boundary_below_le [of s MAX_MESSAGE_LEN] by (auto simp: bound_message_def)

lemma length_bound_fingerprint: "length (bound_fingerprint s) \<le> MAX_FINGERPRINT_LEN"
  using boundary_below_le [of s MAX_FINGERPRINT_LEN] by (auto simp: bound_fingerprint_def)

lemmas error_bounds = length_bound_message length_bound_fingerprint

lemma error_inv_new: "error_inv (error_new k m)"
  by (auto simp: error_inv_def error_new_def error_bounds)

lemma error_inv_capability_denied: "error_inv (capability_denied_with_fingerprint c f)"
  by (auto simp: error_inv_def capability_denied_with_fingerprint_def error_bounds)

lemma error_inv_with_correlation_id: "error_inv (with_correlation_id e c) \<longleftrightarrow> error_inv e"
  by (simp add: error_inv_def with_correlation_id_def)

lemma error_inv_decode: "decode_error raw = Some e \<Longrightarrow> error_inv e"
  by (auto simp: decode_error_def error_inv_def error_bounds split: if_splits)

lemma error_new_kind [simp]:
  "err_kind (error_new k m) = (if k = Err_CapabilityDenied then Err_Unauthorized else k)"
  "err_correlation_id (error_new k m) = None"
  "err_kind (with_correlation_id e c) = err_kind e"
  "err_correlation_id (with_correlation_id e c) = Some c"
  "err_kind (capability_denied c') = Err_CapabilityDenied"
  "err_capability (capability_denied c') = Some c'"
  by (simp_all add: error_new_def with_correlation_id_def capability_denied_def
      capability_denied_with_fingerprint_def)


section \<open>Trace contexts and payloads\<close>

definition MAX_TRACE_FIELD_LEN :: nat where
  "MAX_TRACE_FIELD_LEN = 64"

record trace_context =
  trace_id :: string
  span_id :: string

definition valid_trace_field :: "string \<Rightarrow> bool" where
  "valid_trace_field s \<longleftrightarrow>
     s \<noteq> [] \<and> length s \<le> MAX_TRACE_FIELD_LEN \<and>
     list_all (\<lambda>c. is_ascii_graphic c \<and> c \<noteq> CHR '' '') s"

definition trace_context_new :: "string \<Rightarrow> string \<Rightarrow> trace_context option" where
  "trace_context_new t s =
     (if valid_trace_field t \<and> valid_trace_field s then Some \<lparr>trace_id = t, span_id = s\<rparr>
      else None)"

definition MAX_PAYLOAD_LEN :: nat where
  "MAX_PAYLOAD_LEN = 2 ^ 20"

type_synonym opaque_payload = string

definition payload_new :: "string \<Rightarrow> opaque_payload option" where
  "payload_new bytes = (if MAX_PAYLOAD_LEN < length bytes then None else Some bytes)"


section \<open>Streams\<close>

datatype stream_kind =
    Kind_Control | Kind_Pty | Kind_ShellPty | Kind_Stdio | Kind_Logs | Kind_FileCopy
    | Kind_PortForward | Kind_Display | Kind_Clipboard | Kind_AudioPlayback | Kind_AudioCapture
    | Kind_DeviceHid | Kind_DeviceUsb

primrec stream_kind_code :: "stream_kind \<Rightarrow> string" where
  "stream_kind_code Kind_Control = ''control''"
| "stream_kind_code Kind_Pty = ''pty''"
| "stream_kind_code Kind_ShellPty = ''shell-pty''"
| "stream_kind_code Kind_Stdio = ''stdio''"
| "stream_kind_code Kind_Logs = ''logs''"
| "stream_kind_code Kind_FileCopy = ''file-copy''"
| "stream_kind_code Kind_PortForward = ''port-forward''"
| "stream_kind_code Kind_Display = ''display''"
| "stream_kind_code Kind_Clipboard = ''clipboard''"
| "stream_kind_code Kind_AudioPlayback = ''audio-playback''"
| "stream_kind_code Kind_AudioCapture = ''audio-capture''"
| "stream_kind_code Kind_DeviceHid = ''device-hid''"
| "stream_kind_code Kind_DeviceUsb = ''device-usb''"

primrec stream_required_capability :: "stream_kind \<Rightarrow> capability" where
  "stream_required_capability Kind_Control = Cap_Lifecycle"
| "stream_required_capability Kind_Pty = Cap_Pty"
| "stream_required_capability Kind_ShellPty = Cap_PersistentShell"
| "stream_required_capability Kind_Stdio = Cap_Exec"
| "stream_required_capability Kind_Logs = Cap_Logs"
| "stream_required_capability Kind_FileCopy = Cap_FileCopy"
| "stream_required_capability Kind_PortForward = Cap_PortForward"
| "stream_required_capability Kind_Display = Cap_WindowForwarding"
| "stream_required_capability Kind_Clipboard = Cap_Clipboard"
| "stream_required_capability Kind_AudioPlayback = Cap_AudioPlayback"
| "stream_required_capability Kind_AudioCapture = Cap_AudioCapture"
| "stream_required_capability Kind_DeviceHid = Cap_Hid"
| "stream_required_capability Kind_DeviceUsb = Cap_Usb"

datatype stream_channel = Primary | Stdout | Stderr

datatype stream_close_reason =
    Close_Completed | Close_Cancelled | Close_TimedOut | Close_Errored | Close_PeerGone

primrec close_reason_code :: "stream_close_reason \<Rightarrow> string" where
  "close_reason_code Close_Completed = ''completed''"
| "close_reason_code Close_Cancelled = ''cancelled''"
| "close_reason_code Close_TimedOut = ''timed-out''"
| "close_reason_code Close_Errored = ''errored''"
| "close_reason_code Close_PeerGone = ''peer-gone''"

record stream_descriptor =
  sd_id :: stream_id
  sd_kind :: stream_kind

record stream_authz =
  sa_principal :: principal_id
  sa_realm :: realm_path
  sa_capability :: capability

definition authz_for_kind :: "principal_id \<Rightarrow> realm_path \<Rightarrow> stream_kind \<Rightarrow> stream_authz" where
  "authz_for_kind peer realm kind =
     \<lparr>sa_principal = peer, sa_realm = realm, sa_capability = stream_required_capability kind\<rparr>"

definition authz_matches_kind :: "stream_authz \<Rightarrow> stream_kind \<Rightarrow> bool" where
  "authz_matches_kind a kind \<longleftrightarrow> sa_capability a = stream_required_capability kind"


section \<open>Operations\<close>

datatype operation_kind =
    Op_NodeRegister | Op_NodeHeartbeat | Op_NodeCapabilities | Op_WorkloadList
    | Op_WorkloadStart | Op_WorkloadStop | Op_GuestHealth | Op_ExecStart | Op_ExecAttach
    | Op_ExecLogs | Op_ExecCancel | Op_ShellList | Op_ShellAttach | Op_ShellDetach
    | Op_ShellKill | Op_FileCopyStart | Op_PortForwardOpen | Op_DisplaySessionOpen

primrec operation_kind_code :: "operation_kind \<Rightarrow> string" where
  "operation_kind_code Op_NodeRegister = ''node-register''"
| "operation_kind_code Op_NodeHeartbeat = ''node-heartbeat''"
| "operation_kind_code Op_NodeCapabilities = ''node-capabilities''"
| "operation_kind_code Op_WorkloadList = ''workload-list''"
| "operation_kind_code Op_WorkloadStart = ''workload-start''"
| "operation_kind_code Op_WorkloadStop = ''workload-stop''"
| "operation_kind_code Op_GuestHealth = ''guest-health''"
| "operation_kind_code Op_ExecStart = ''exec-start''"
| "operation_kind_code Op_ExecAttach = ''exec-attach''"
| "operation_kind_code Op_ExecLogs = ''exec-logs''"
| "operation_kind_code Op_ExecCancel = ''exec-cancel''"
| "operation_kind_code Op_ShellList = ''shell-list''"
| "operation_kind_code Op_ShellAttach = ''shell-attach''"
| "operation_kind_code Op_ShellDetach = ''shell-detach''"
| "operation_kind_code Op_ShellKill = ''shell-kill''"
| "operation_kind_code Op_FileCopyStart = ''file-copy-start''"
| "operation_kind_code Op_PortForwardOpen = ''port-forward-open''"
| "operation_kind_code Op_DisplaySessionOpen = ''display-session-open''"

text \<open>The derived \<open>Debug\<close> rendering of a fieldless variant is its name.\<close>

primrec operation_kind_debug :: "operation_kind \<Rightarrow> string" where
  "operation_kind_debug Op_NodeRegister = ''NodeRegister''"
| "operation_kind_debug Op_NodeHeartbeat = ''NodeHeartbeat''"
| "operation_kind_debug Op_NodeCapabilities = ''NodeCapabilities''"
| "operation_kind_debug Op_WorkloadList = ''WorkloadList''"
| "operation_kind_debug Op_WorkloadStart = ''WorkloadStart''"
| "operation_kind_debug Op_WorkloadStop = ''WorkloadStop''"
| "operation_kind_debug Op_GuestHealth = ''GuestHealth''"
| "operation_kind_debug Op_ExecStart = ''ExecStart''"
| "operation_kind_debug Op_ExecAttach = ''ExecAttach''"
| "operation_kind_debug Op_ExecLogs = ''ExecLogs''"
| "operation_kind_debug Op_ExecCancel = ''ExecCancel''"
| "operation_kind_debug Op_ShellList = ''ShellList''"
| "operation_kind_debug Op_ShellAttach = ''ShellAttach''"
| "operation_kind_debug Op_ShellDetach = ''ShellDetach''"
| "operation_kind_debug Op_ShellKill = ''ShellKill''"
| "operation_kind_debug Op_FileCopyStart = ''FileCopyStart''"
| "operation_kind_debug Op_PortForwardOpen = ''PortForwardOpen''"
| "operation_kind_debug Op_DisplaySessionOpen = ''DisplaySessionOpen''"

definition op_is_mutating :: "operation_kind \<Rightarrow> bool" where
  "op_is_mutating kind \<longleftrightarrow> kind \<in>
     {Op_WorkloadStart, Op_WorkloadStop, Op_ExecStart, Op_ExecAttach, Op_ExecCancel
      , Op_ShellAttach, Op_ShellDetach, Op_ShellKill, Op_FileCopyStart, Op_PortForwardOpen
      , Op_DisplaySessionOpen, Op_NodeRegister}"

primrec op_required_capability :: "operation_kind \<Rightarrow> capability option" where
  "op_required_capability Op_NodeRegister = None"
| "op_required_capability Op_NodeHeartbeat = None"
| "op_required_capability Op_NodeCapabilities = None"
| "op_required_capability Op_WorkloadList = Some Cap_Lifecycle"
| "op_required_capability Op_WorkloadStart = Some Cap_Lifecycle"
| "op_required_capability Op_WorkloadStop = Some Cap_Lifecycle"
| "op_required_capability Op_GuestHealth = None"
| "op_required_capability Op_ExecStart = Some Cap_Exec"
| "op_required_capability Op_ExecAttach = Some Cap_Exec"
| "op_required_capability Op_ExecLogs = Some Cap_Logs"
| "op_required_capability Op_ExecCancel = Some Cap_Exec"
| "op_required_capability Op_ShellList = Some Cap_PersistentShell"
| "op_required_capability Op_ShellAttach = Some Cap_PersistentShell"
| "op_required_capability Op_ShellDetach = Some Cap_PersistentShell"
| "op_required_capability Op_ShellKill = Some Cap_PersistentShell"
| "op_required_capability Op_FileCopyStart = Some Cap_FileCopy"
| "op_required_capability Op_PortForwardOpen = Some Cap_PortForward"
| "op_required_capability Op_DisplaySessionOpen = Some Cap_WindowForwarding"

datatype authorization_scope =
    Scope_Capability capability | Scope_NodeControl | Scope_Enrollment | Scope_KeyRotation
  | Scope_Revocation | Scope_Recovery | Scope_Health

definition op_authorization_scope :: "operation_kind \<Rightarrow> authorization_scope" where
  "op_authorization_scope kind = (case kind of
      Op_NodeRegister \<Rightarrow> Scope_Enrollment
    | Op_NodeHeartbeat \<Rightarrow> Scope_NodeControl
    | Op_NodeCapabilities \<Rightarrow> Scope_NodeControl
    | Op_GuestHealth \<Rightarrow> Scope_Health
    | _ \<Rightarrow> (case op_required_capability kind of
              Some cap \<Rightarrow> Scope_Capability cap
            | None \<Rightarrow> Scope_NodeControl))"

definition op_requires_workload :: "operation_kind \<Rightarrow> bool" where
  "op_requires_workload kind \<longleftrightarrow>
     kind \<notin> {Op_NodeRegister, Op_NodeHeartbeat, Op_NodeCapabilities, Op_WorkloadList}"

primrec op_allowed_stream_kinds :: "operation_kind \<Rightarrow> stream_kind list" where
  "op_allowed_stream_kinds Op_NodeRegister = []"
| "op_allowed_stream_kinds Op_NodeHeartbeat = []"
| "op_allowed_stream_kinds Op_NodeCapabilities = []"
| "op_allowed_stream_kinds Op_WorkloadList = []"
| "op_allowed_stream_kinds Op_WorkloadStart = []"
| "op_allowed_stream_kinds Op_WorkloadStop = []"
| "op_allowed_stream_kinds Op_GuestHealth = []"
| "op_allowed_stream_kinds Op_ExecStart = [Kind_Stdio, Kind_Pty]"
| "op_allowed_stream_kinds Op_ExecAttach = [Kind_Stdio, Kind_Pty]"
| "op_allowed_stream_kinds Op_ExecLogs = [Kind_Logs]"
| "op_allowed_stream_kinds Op_ExecCancel = []"
| "op_allowed_stream_kinds Op_ShellList = []"
| "op_allowed_stream_kinds Op_ShellAttach = [Kind_ShellPty]"
| "op_allowed_stream_kinds Op_ShellDetach = []"
| "op_allowed_stream_kinds Op_ShellKill = []"
| "op_allowed_stream_kinds Op_FileCopyStart = [Kind_FileCopy]"
| "op_allowed_stream_kinds Op_PortForwardOpen = [Kind_PortForward]"
| "op_allowed_stream_kinds Op_DisplaySessionOpen = [Kind_Display]"

record operation_request =
  req_operation_id :: operation_id
  req_correlation_id :: correlation_id
  req_idempotency_key :: "idempotency_key option"
  req_realm :: realm_path
  req_node :: node_id
  req_workload :: "workload_id option"
  req_principal :: principal_id
  req_kind :: operation_kind
  req_trace :: "trace_context option"
  req_body :: opaque_payload

definition decode_operation_request :: "operation_request \<Rightarrow> operation_request option" where
  "decode_operation_request raw =
     (if op_is_mutating (req_kind raw) \<and> req_idempotency_key raw = None then None else Some raw)"

text \<open>\<open>u64::to_le_bytes\<close>, and one \<open>label=len value newline\<close> section of the fingerprint input.\<close>

definition to_le_bytes :: "nat \<Rightarrow> string" where
  "to_le_bytes n = map (\<lambda>i. char_of (n div 256 ^ i)) [0..<8]"

definition push_section :: "string \<Rightarrow> string \<Rightarrow> string" where
  "push_section label bytes =
     label @ CHR ''='' # to_le_bytes (length bytes) @ bytes @ [char_of (10::nat)]"

definition dedup_fingerprint_input :: "operation_request \<Rightarrow> string" where
  "dedup_fingerprint_input req =
     push_section ''kind'' (operation_kind_debug (req_kind req)) @
     push_section ''realm'' (target_form (req_realm req)) @
     push_section ''node'' (req_node req) @
     push_section ''workload'' (case req_workload req of Some w \<Rightarrow> w | None \<Rightarrow> []) @
     push_section ''principal'' (req_principal req) @
     push_section ''body'' (req_body req)"

record operation_response =
  resp_operation_id :: operation_id
  resp_correlation_id :: correlation_id
  resp_body :: opaque_payload


section \<open>Stream frames\<close>

record stream_open =
  so_descriptor :: stream_descriptor
  so_operation_id :: operation_id
  so_authz :: stream_authz

definition so_is_consistent :: "stream_open \<Rightarrow> bool" where
  "so_is_consistent open \<longleftrightarrow> authz_matches_kind (so_authz open) (sd_kind (so_descriptor open))"

definition decode_stream_open :: "stream_open \<Rightarrow> stream_open option" where
  "decode_stream_open open = (if so_is_consistent open then Some open else None)"

record stream_data =
  data_stream :: stream_id
  data_sequence :: u64
  data_channel :: stream_channel
  data_cursor :: "stream_cursor option"
  data_bytes :: opaque_payload

record stream_flow =
  flow_stream :: stream_id
  flow_credits :: u32

definition decode_stream_flow :: "stream_flow \<Rightarrow> stream_flow option" where
  "decode_stream_flow raw = (if flow_credits raw = 0 then None else Some raw)"

record stream_close =
  close_stream :: stream_id
  close_reason :: stream_close_reason

record stream_resume =
  resume_stream :: stream_id
  resume_cursor :: stream_cursor


section \<open>Session frames\<close>

record peer_context =
  auth_mechanism :: protocol_token
  peer_principal :: "principal_id option"
  peer_node :: "node_id option"

record handshake =
  protocol_version :: u32
  codec_id :: protocol_token
  schema_fingerprint :: protocol_token
  hs_capabilities :: capability_negotiation
  hs_peer :: "peer_context option"

datatype handshake_rejected_reason =
    Hs_VersionSkew | Hs_CodecMismatch | Hs_SchemaFingerprintMismatch | Hs_CapabilityMismatch
  | Hs_ChannelBindingMismatch | Hs_MalformedHandshake

datatype authz_decision = Allow | Deny

record admission_audit_record =
  aar_operation_id :: operation_id
  aar_correlation_id :: correlation_id
  aar_realm :: realm_path
  aar_principal :: "principal_id option"
  aar_node :: node_id
  aar_scope :: authorization_scope
  aar_decision :: authz_decision
  aar_reason :: error_kind
  aar_trace :: "trace_context option"

definition audit_denied ::
    "operation_id \<Rightarrow> correlation_id \<Rightarrow> realm_path \<Rightarrow> node_id \<Rightarrow> authorization_scope \<Rightarrow> error_kind \<Rightarrow>
     admission_audit_record" where
  "audit_denied operation correlation realm node scope reason =
     \<lparr>aar_operation_id = operation, aar_correlation_id = correlation, aar_realm = realm,
      aar_principal = None, aar_node = node, aar_scope = scope, aar_decision = Deny,
      aar_reason = reason, aar_trace = None\<rparr>"

datatype constellation_frame =
    Frame_Handshake handshake
  | Frame_HandshakeAccepted handshake
  | Frame_HandshakeRejected handshake_rejected_reason
  | Frame_OperationRequest operation_request
  | Frame_OperationResponse operation_response
  | Frame_StreamOpen stream_open
  | Frame_StreamData stream_data
  | Frame_StreamFlow stream_flow
  | Frame_StreamClose stream_close
  | Frame_StreamResume stream_resume
  | Frame_TypedError constellation_error
  | Frame_AdmissionAudit admission_audit_record


section \<open>The dedup fingerprint input\<close>

lemma to_le_bytes_inject:
  assumes "m < 2 ^ 64" "n < 2 ^ 64"
  shows "to_le_bytes m = to_le_bytes n \<longleftrightarrow> m = n"
proof
  assume eq: "to_le_bytes m = to_le_bytes n"
  have digits: "m div 256 ^ i mod 256 = n div 256 ^ i mod 256" for i
  proof (cases "i < 8")
    case True
    with eq have "(char_of (m div 256 ^ i) :: char) = char_of (n div 256 ^ i)"
      by (auto simp: to_le_bytes_def)
    then show ?thesis by (simp add: char_of_eq_iff take_bit_eq_mod)
  next
    case False
    then have "(256::nat) ^ 8 \<le> 256 ^ i" by (intro power_increasing) auto
    with assms show ?thesis by simp
  qed
  have "m div 256 ^ (8 - k) = n div 256 ^ (8 - k)" if "k \<le> 8" for k
    using that
  proof (induction k)
    case 0
    with assms show ?case by simp
  next
    case (Suc k)
    define p :: nat where "p = 256 ^ (8 - Suc k)"
    have "8 - k = Suc (8 - Suc k)"
      using Suc.prems by simp
    then have up: "256 ^ (8 - k) = p * 256"
      by (simp only: p_def power_Suc2)
    from Suc have "m div p div 256 = n div p div 256"
      by (simp add: up div_mult2_eq)
    with digits [of "8 - Suc k"] show ?case
      unfolding p_def by (metis div_mult_mod_eq)
  qed
  from this [of 8] show "m = n" by simp
qed simp

lemma length_to_le_bytes [simp]: "length (to_le_bytes n) = 8"
  by (simp add: to_le_bytes_def)

lemma push_section_append_inject:
  assumes "length v < 2 ^ 64" "length w < 2 ^ 64"
  shows "push_section l v @ xs = push_section l w @ ys \<longleftrightarrow> v = w \<and> xs = ys"
proof
  assume "push_section l v @ xs = push_section l w @ ys"
  then have "to_le_bytes (length v) @ (v @ char_of (10::nat) # xs) =
             to_le_bytes (length w) @ (w @ char_of (10::nat) # ys)"
    by (simp add: push_section_def)
  then have "to_le_bytes (length v) = to_le_bytes (length w)"
    and tail: "v @ char_of (10::nat) # xs = w @ char_of (10::nat) # ys"
    by (simp_all add: append_eq_append_conv)
  then have "length v = length w" using assms by (simp add: to_le_bytes_inject)
  with tail show "v = w \<and> xs = ys" by simp
qed simp

lemma operation_kind_debug_inject: "operation_kind_debug a = operation_kind_debug b \<longleftrightarrow> a = b"
  by (cases a; cases b) simp_all

text \<open>The bounds that the identifier and payload constructors enforce on a request.\<close>

definition request_inv :: "operation_request \<Rightarrow> bool" where
  [invs]: "request_inv r \<longleftrightarrow>
     parse_label_id (req_node r) = Inr (req_node r) \<and>
     parse_opaque_id (req_principal r) = Inr (req_principal r) \<and>
     (case req_workload r of None \<Rightarrow> True | Some w \<Rightarrow> parse_label_id w = Inr w) \<and>
     payload_new (req_body r) = Some (req_body r)"

lemma request_lengths:
  assumes "request_inv r"
  shows "length (operation_kind_debug (req_kind r)) < 2 ^ 64" "length (target_form (req_realm r)) < 2 ^ 64"
    "length (req_node r) < 2 ^ 64" "length (case req_workload r of Some w \<Rightarrow> w | None \<Rightarrow> []) < 2 ^ 64"
    "length (req_principal r) < 2 ^ 64" "length (req_body r) < 2 ^ 64"
proof -
  show "length (operation_kind_debug (req_kind r)) < 2 ^ 64" by (cases "req_kind r") simp_all
  show "length (target_form (req_realm r)) < 2 ^ 64"
    by (rule le_less_trans [OF length_forms(1)]) simp
qed (use assms in \<open>auto simp: request_inv_def parse_label_id_def parse_opaque_id_def id_parse_Inr
       MAX_ID_LEN_def payload_new_def MAX_PAYLOAD_LEN_def split: option.splits if_splits\<close>)

lemma workload_bytes_inject:
  assumes "request_inv a" "request_inv b"
  shows "(case req_workload a of Some w \<Rightarrow> w | None \<Rightarrow> []) = (case req_workload b of Some w \<Rightarrow> w | None \<Rightarrow> [])
    \<longleftrightarrow> req_workload a = req_workload b"
  using assms
  by (auto simp: request_inv_def parse_label_id_def id_parse_Inr split: option.splits)


lemma fingerprint_eq_iff:
  assumes "request_inv a" "request_inv b"
  shows "dedup_fingerprint_input a = dedup_fingerprint_input b \<longleftrightarrow>
    req_kind a = req_kind b \<and> req_realm a = req_realm b \<and> req_node a = req_node b \<and>
    req_workload a = req_workload b \<and> req_principal a = req_principal b \<and> req_body a = req_body b"
proof -
  note lengths = request_lengths [OF assms(1)] request_lengths [OF assms(2)]
  have last: "push_section l v = push_section l w \<longleftrightarrow> v = w"
    if "length v < 2 ^ 64" "length w < 2 ^ 64" for l v w
    using push_section_append_inject [OF that, of l "[]" "[]"] by simp
  show ?thesis
    unfolding dedup_fingerprint_input_def
    by (simp only: push_section_append_inject [OF lengths(1,7)] push_section_append_inject [OF lengths(2,8)]
        push_section_append_inject [OF lengths(3,9)] push_section_append_inject [OF lengths(4,10)]
        push_section_append_inject [OF lengths(5,11)] last [OF lengths(6,12)]
        workload_bytes_inject [OF assms] operation_kind_debug_inject target_form_inject)
qed


section \<open>Properties\<close>

text \<open>The bytes the dedup owner hashes determine the request: two valid requests have the same
  fingerprint input exactly when they agree on kind, realm, node, workload, principal and body,
  whatever their operation id, correlation id, idempotency key and trace are.\<close>

theorem dedup_fingerprint_identifies:
  assumes "request_inv a" "request_inv b"
  shows "dedup_fingerprint_input a = dedup_fingerprint_input b \<longleftrightarrow>
    req_kind a = req_kind b \<and> req_realm a = req_realm b \<and> req_node a = req_node b \<and>
    req_workload a = req_workload b \<and> req_principal a = req_principal b \<and> req_body a = req_body b"
  by (rule fingerprint_eq_iff [OF assms])

lemma dedup_fingerprint_identifies_witness:
  "let r = \<lparr>req_operation_id = ''op-1'', req_correlation_id = ''corr-1'', req_idempotency_key = Some ''k1'',
            req_realm = local, req_node = ''n1'', req_workload = None, req_principal = ''alice'',
            req_kind = Op_WorkloadStart, req_trace = None, req_body = ''x''\<rparr>
   in request_inv r \<and> request_inv (r\<lparr>req_workload := Some ''vm1''\<rparr>) \<and>
      dedup_fingerprint_input r \<noteq> dedup_fingerprint_input (r\<lparr>req_workload := Some ''vm1''\<rparr>)"
proof -
  let ?r = "\<lparr>req_operation_id = ''op-1'', req_correlation_id = ''corr-1'', req_idempotency_key = Some ''k1'',
            req_realm = local, req_node = ''n1'', req_workload = None, req_principal = ''alice'',
            req_kind = Op_WorkloadStart, req_trace = None, req_body = ''x''\<rparr>"
  have a: "request_inv ?r"
    by (simp add: request_inv_def payload_new_def MAX_PAYLOAD_LEN_def) code_simp
  have b: "request_inv (?r\<lparr>req_workload := Some ''vm1''\<rparr>)"
    by (simp add: request_inv_def payload_new_def MAX_PAYLOAD_LEN_def) code_simp
  show ?thesis using a b dedup_fingerprint_identifies [OF a b] by simp
qed

text \<open>Every error value, built or decoded, carries the missing capability if it is a capability
  denial, carries a capability fingerprint only then, and has a message of at most 256 and a
  fingerprint of at most 64 bytes.\<close>

theorem errors_well_formed:
  "error_inv (error_new kind message) \<and> error_inv (capability_denied_with_fingerprint cap fp) \<and>
   (case decode_error raw of Some e \<Rightarrow> error_inv e | None \<Rightarrow> True)"
  by (simp add: error_inv_new error_inv_capability_denied error_inv_decode split: option.splits)

end
