(* ===== verification/Stream_Mux.thy ===== *)
theory Stream_Mux
  imports Frames
begin

text \<open>
  The stream multiplexer \<open>d2b-realm-core/src/mux.rs\<close>.

  \<open>StreamMux\<close> is a record with the source's six fields. Every method that takes \<open>&mut self\<close> is a
  function to the result and the state it leaves behind, so that a method which fails and still
  changed something would show. The loop of \<open>remember_closed\<close> is the eviction loop of
  \<^theory_text>\<open>fifo_registry\<close>. The index sets \<open>open_streams\<close> and \<open>sendable_streams\<close> and the queue
  \<open>closed_order\<close> are redundant with the stream table; the invariant says they agree with it.
\<close>

section \<open>State\<close>

definition DEFAULT_MAX_OPEN_STREAMS :: nat where
  "DEFAULT_MAX_OPEN_STREAMS = 256"

definition DEFAULT_MAX_CLOSED_STREAMS :: nat where
  "DEFAULT_MAX_CLOSED_STREAMS = 1024"

datatype stream_state = Open | Closed

record stream_entry =
  se_kind :: stream_kind
  se_operation_id :: operation_id
  se_state :: stream_state
  se_close_reason :: "stream_close_reason option"
  expected_seq :: u64
  recv_credit :: u64
  next_send_seq :: u64
  send_credit :: u64

record stream_mux =
  streams :: "(stream_id, stream_entry) btmap"
  open_streams :: "stream_id btset"
  sendable_streams :: "stream_id btset"
  closed_order :: "stream_id list"
  max_open :: nat
  max_closed :: nat

type_synonym 'a mux_result = "(constellation_error + 'a) \<times> stream_mux"

definition with_limits :: "nat \<Rightarrow> nat \<Rightarrow> stream_mux" where
  "with_limits open_cap closed_cap =
     \<lparr>streams = bt_empty, open_streams = bt_empty, sendable_streams = bt_empty, closed_order = [],
      max_open = max open_cap 1, max_closed = max closed_cap 1\<rparr>"

definition with_max_open :: "nat \<Rightarrow> stream_mux" where
  "with_max_open open_cap = with_limits open_cap DEFAULT_MAX_CLOSED_STREAMS"

definition mux_new :: stream_mux where
  "mux_new = with_max_open DEFAULT_MAX_OPEN_STREAMS"

definition open_stream_count :: "stream_mux \<Rightarrow> nat" where
  "open_stream_count m = bt_len (open_streams m)"

definition is_open :: "stream_mux \<Rightarrow> stream_id \<Rightarrow> bool" where
  "is_open m stream \<longleftrightarrow> bt_contains (open_streams m) stream"

definition mux_close_reason :: "stream_mux \<Rightarrow> stream_id \<Rightarrow> stream_close_reason option" where
  "mux_close_reason m stream =
     (case bt_get (streams m) stream of None \<Rightarrow> None | Some e \<Rightarrow> se_close_reason e)"

definition mux_operation_id :: "stream_mux \<Rightarrow> stream_id \<Rightarrow> operation_id option" where
  "mux_operation_id m stream = map_option se_operation_id (bt_get (streams m) stream)"


section \<open>Operations\<close>

definition channel_valid_for_kind :: "stream_kind \<Rightarrow> stream_channel \<Rightarrow> bool" where
  "channel_valid_for_kind kind channel =
     (case kind of
        Kind_Stdio \<Rightarrow> channel = Stdout \<or> channel = Stderr
      | _ \<Rightarrow> channel = Primary)"

text \<open>\<open>open_entry\<close> and \<open>open_entry_mut\<close> differ in the kind of borrow only.\<close>

definition open_entry :: "stream_mux \<Rightarrow> stream_id \<Rightarrow> constellation_error + stream_entry" where
  "open_entry m stream =
     (case bt_get (streams m) stream of
        Some e \<Rightarrow>
          if se_state e = Open then Inr e
          else Inl (error_new Err_Cancelled ''stream is closed'')
      | None \<Rightarrow> Inl (error_new Err_MalformedFrame ''reference to an unknown stream''))"

definition put_entry :: "stream_id \<Rightarrow> stream_entry \<Rightarrow> stream_mux \<Rightarrow> stream_mux" where
  "put_entry stream e m = m\<lparr>streams := bt_insert stream e (streams m)\<rparr>"

definition forget_closed ::
    "stream_id \<Rightarrow> (stream_id, stream_entry) btmap \<Rightarrow> (stream_id, stream_entry) btmap" where
  "forget_closed old table =
     (case bt_get table old of
        Some e \<Rightarrow> if se_state e = Closed then bt_remove old table else table
      | None \<Rightarrow> table)"

definition remember_closed :: "stream_id \<Rightarrow> stream_mux \<Rightarrow> stream_mux" where
  "remember_closed stream m =
     (let (order, table) =
            evict_oldest forget_closed (max_closed m) (closed_order m @ [stream]) (streams m)
      in m\<lparr>closed_order := order, streams := table\<rparr>)"

definition open_with_capabilities ::
    "stream_mux \<Rightarrow> stream_open \<Rightarrow> capability_set \<Rightarrow> unit mux_result" where
  "open_with_capabilities m open caps =
     (let id = sd_id (so_descriptor open); capability = sa_capability (so_authz open) in
      if \<not> so_is_consistent open then
        (Inl (error_new Err_Unauthorized
           ''stream open authz capability does not match the descriptor kind''), m)
      else if \<not> caps_has caps capability then (Inl (capability_denied capability), m)
      else if bt_contains (streams m) id then
        (Inl (error_new Err_MalformedFrame ''stream id is already open''), m)
      else if max_open m \<le> open_stream_count m then
        (Inl (error_new Err_Backpressure ''peer session exceeds the open-stream cap''), m)
      else
        (Inr (),
         m\<lparr>streams := bt_insert id
             \<lparr>se_kind = sd_kind (so_descriptor open), se_operation_id = so_operation_id open,
              se_state = Open, se_close_reason = None,
              expected_seq = 0, recv_credit = 0, next_send_seq = 0, send_credit = 0\<rparr> (streams m),
           open_streams := bt_insert id () (open_streams m)\<rparr>))"

definition grant_inbound :: "stream_mux \<Rightarrow> stream_id \<Rightarrow> u32 \<Rightarrow> stream_flow mux_result" where
  "grant_inbound m stream credits =
     (if credits = 0 then
        (Inl (error_new Err_MalformedFrame ''credit grant must be non-zero''), m)
      else
        case open_entry m stream of
          Inl err \<Rightarrow> (Inl err, m)
        | Inr entry \<Rightarrow>
            (Inr \<lparr>flow_stream = stream, flow_credits = credits\<rparr>,
             put_entry stream (entry\<lparr>recv_credit := sat_add (recv_credit entry) (ucast credits)\<rparr>) m))"

definition accept_data :: "stream_mux \<Rightarrow> stream_data \<Rightarrow> unit mux_result" where
  "accept_data m data =
     (case open_entry m (data_stream data) of
        Inl err \<Rightarrow> (Inl err, m)
      | Inr entry \<Rightarrow>
          if \<not> channel_valid_for_kind (se_kind entry) (data_channel data) then
            (Inl (error_new Err_MalformedFrame ''stream channel is not valid for the stream kind''), m)
          else if data_cursor data \<noteq> None \<and> se_kind entry \<noteq> Kind_Logs then
            (Inl (error_new Err_MalformedFrame ''only a logs stream may carry a resume cursor''), m)
          else if data_sequence data \<noteq> expected_seq entry then
            (Inl (error_new Err_MalformedFrame
               ''stream data sequence is not the next expected value''), m)
          else if recv_credit entry = 0 then
            (Inl (error_new Err_Backpressure ''stream data exceeds granted credit''), m)
          else
            (Inr (),
             put_entry (data_stream data)
               (entry\<lparr>recv_credit := recv_credit entry - 1, expected_seq := expected_seq entry + 1\<rparr>)
               m))"

definition receive_flow :: "stream_mux \<Rightarrow> stream_flow \<Rightarrow> unit mux_result" where
  "receive_flow m flow =
     (if flow_credits flow = 0 then
        (Inl (error_new Err_MalformedFrame ''credit grant must be non-zero''), m)
      else
        case open_entry m (flow_stream flow) of
          Inl err \<Rightarrow> (Inl err, m)
        | Inr entry \<Rightarrow>
            let m' = put_entry (flow_stream flow)
                       (entry\<lparr>send_credit := sat_add (send_credit entry) (ucast (flow_credits flow))\<rparr>) m
            in (Inr (),
                if send_credit entry = 0
                then m'\<lparr>sendable_streams := bt_insert (flow_stream flow) () (sendable_streams m')\<rparr>
                else m'))"

definition sendable :: "stream_mux \<Rightarrow> stream_id list" where
  "sendable m = bt_keys (sendable_streams m)"

definition next_sendable_after :: "stream_mux \<Rightarrow> stream_id option \<Rightarrow> stream_id option" where
  "next_sendable_after m after =
     (case after of
        None \<Rightarrow> bt_first (sendable_streams m)
      | Some a \<Rightarrow>
          (case bt_next_after a (sendable_streams m) of
             Some s \<Rightarrow> Some s
           | None \<Rightarrow> bt_first (sendable_streams m)))"

definition reserve_send :: "stream_mux \<Rightarrow> stream_id \<Rightarrow> stream_channel \<Rightarrow> u64 mux_result" where
  "reserve_send m stream channel =
     (case open_entry m stream of
        Inl err \<Rightarrow> (Inl err, m)
      | Inr entry \<Rightarrow>
          if \<not> channel_valid_for_kind (se_kind entry) channel then
            (Inl (error_new Err_MalformedFrame ''stream channel is not valid for the stream kind''), m)
          else if send_credit entry = 0 then
            (Inl (error_new Err_Backpressure ''no outbound credit remains on the stream''), m)
          else
            let entry' = entry\<lparr>send_credit := send_credit entry - 1,
                               next_send_seq := next_send_seq entry + 1\<rparr>;
                m' = put_entry stream entry' m
            in (Inr (next_send_seq entry),
                if send_credit entry' = 0
                then m'\<lparr>sendable_streams := bt_remove stream (sendable_streams m')\<rparr>
                else m'))"

text \<open>The transition \<open>close\<close> and \<open>cancel\<close> perform on an open stream.\<close>

definition close_entry ::
    "stream_id \<Rightarrow> stream_entry \<Rightarrow> stream_close_reason \<Rightarrow> stream_mux \<Rightarrow> stream_mux" where
  "close_entry stream entry reason m =
     remember_closed stream
       ((put_entry stream (entry\<lparr>se_state := Closed, se_close_reason := Some reason\<rparr>) m)
          \<lparr>open_streams := bt_remove stream (open_streams m),
           sendable_streams := bt_remove stream (sendable_streams m)\<rparr>)"

definition mux_close :: "stream_mux \<Rightarrow> stream_close \<Rightarrow> unit mux_result" where
  "mux_close m close =
     (case bt_get (streams m) (close_stream close) of
        None \<Rightarrow> (Inl (error_new Err_MalformedFrame ''close of an unknown stream''), m)
      | Some entry \<Rightarrow>
          if se_state entry = Closed then
            (if se_close_reason entry = Some Close_Cancelled \<and> close_reason close = Close_Cancelled
             then (Inr (), m)
             else (Inl (error_new Err_MalformedFrame ''stream is already closed''), m))
          else (Inr (), close_entry (close_stream close) entry (close_reason close) m))"

definition mux_cancel :: "stream_mux \<Rightarrow> stream_id \<Rightarrow> bool mux_result" where
  "mux_cancel m stream =
     (case bt_get (streams m) stream of
        Some entry \<Rightarrow>
          if se_state entry = Open then (Inr True, close_entry stream entry Close_Cancelled m)
          else (Inr False, m)
      | None \<Rightarrow> (Inr False, m))"

definition validate_resume :: "stream_mux \<Rightarrow> stream_resume \<Rightarrow> constellation_error + unit" where
  "validate_resume m resume =
     (case bt_get (streams m) (resume_stream resume) of
        None \<Rightarrow> Inl (error_new Err_MalformedFrame ''resume of an unknown stream'')
      | Some entry \<Rightarrow>
          if se_kind entry \<noteq> Kind_Logs
          then Inl (error_new Err_MalformedFrame ''only logs streams support cursor resume'')
          else Inr ())"

text \<open>One call of a mutating method, with its arguments, and a sequence of them.\<close>

datatype mux_call =
    Call_open stream_open capability_set
  | Call_grant stream_id u32
  | Call_data stream_data
  | Call_flow stream_flow
  | Call_reserve stream_id stream_channel
  | Call_close stream_close
  | Call_cancel stream_id

primrec mux_apply :: "mux_call \<Rightarrow> stream_mux \<Rightarrow> stream_mux" where
  "mux_apply (Call_open open caps) m = snd (open_with_capabilities m open caps)"
| "mux_apply (Call_grant stream credits) m = snd (grant_inbound m stream credits)"
| "mux_apply (Call_data data) m = snd (accept_data m data)"
| "mux_apply (Call_flow flow) m = snd (receive_flow m flow)"
| "mux_apply (Call_reserve stream channel) m = snd (reserve_send m stream channel)"
| "mux_apply (Call_close close) m = snd (mux_close m close)"
| "mux_apply (Call_cancel stream) m = snd (mux_cancel m stream)"

definition mux_run :: "mux_call list \<Rightarrow> stream_mux \<Rightarrow> stream_mux" where
  "mux_run calls m = fold mux_apply calls m"



section \<open>The index invariant\<close>

definition closed_ids :: "(stream_id, stream_entry) btmap \<Rightarrow> stream_id set" where
  "closed_ids table = {k. \<exists>e. bt_get table k = Some e \<and> se_state e = Closed}"

definition mux_inv :: "stream_mux \<Rightarrow> bool" where
  [invs]: "mux_inv m \<longleftrightarrow>
     (\<forall>k. bt_contains (open_streams m) k \<longleftrightarrow>
          (\<exists>e. bt_get (streams m) k = Some e \<and> se_state e = Open)) \<and>
     (\<forall>k. bt_contains (sendable_streams m) k \<longleftrightarrow>
          (\<exists>e. bt_get (streams m) k = Some e \<and> se_state e = Open \<and> send_credit e \<noteq> 0)) \<and>
     set (closed_order m) = closed_ids (streams m) \<and> distinct (closed_order m) \<and>
     length (closed_order m) \<le> max_closed m \<and> 0 < max_closed m \<and>
     bt_len (open_streams m) \<le> max_open m \<and>
     (\<forall>k e. bt_get (streams m) k = Some e \<longrightarrow> (se_state e = Closed \<longleftrightarrow> se_close_reason e \<noteq> None))"

lemma forget_closed_get:
  "bt_get (forget_closed old table) k =
     (if k = old \<and> k \<in> closed_ids table then None else bt_get table k)"
  by (auto simp: forget_closed_def closed_ids_def split: option.splits)

lemma closed_ids_forget: "closed_ids (forget_closed k table) = closed_ids table - {k}"
  by (auto simp: closed_ids_def forget_closed_get)

interpretation closed_history: fifo_registry closed_ids forget_closed
  by unfold_locales (rule closed_ids_forget)

text \<open>Eviction removes closed records only.\<close>

lemma stream_state_cases: "se_state e \<noteq> Closed \<longleftrightarrow> se_state e = Open"
  by (cases "se_state e") simp_all

lemma evict_closed_subset:
  assumes "bt_get (snd (evict_oldest forget_closed n order table)) k = Some e"
  shows "bt_get table k = Some e"
proof -
  have "\<forall>e. bt_get (snd (evict_oldest forget_closed n order table)) k = Some e \<longrightarrow>
            bt_get table k = Some e"
    by (rule evict_oldest_preserves) (simp_all add: forget_closed_get)
  with assms show ?thesis by blast
qed

lemma evict_closed_open:
  assumes "se_state e = Open"
  shows "bt_get (snd (evict_oldest forget_closed n order table)) k = Some e \<longleftrightarrow> bt_get table k = Some e"
  using evict_oldest_preserves
    [where P = "\<lambda>t. bt_get t k = Some e" and forget = forget_closed and m = table] assms
  by (auto dest: evict_closed_subset simp: forget_closed_get closed_ids_def)

lemma remember_closed_fields [simp]:
  "open_streams (remember_closed s m) = open_streams m"
  "sendable_streams (remember_closed s m) = sendable_streams m"
  "max_open (remember_closed s m) = max_open m"
  "max_closed (remember_closed s m) = max_closed m"
  "closed_order (remember_closed s m) =
     fst (evict_oldest forget_closed (max_closed m) (closed_order m @ [s]) (streams m))"
  "streams (remember_closed s m) =
     snd (evict_oldest forget_closed (max_closed m) (closed_order m @ [s]) (streams m))"
  by (simp_all add: remember_closed_def split: prod.splits)

lemma mux_inv_initial: "mux_inv (with_limits a b)"
  by (simp add: mux_inv_def with_limits_def closed_ids_def)

lemma mux_inv_open:
  assumes "mux_inv m" "bt_get (streams m) s = None" "bt_len (open_streams m) < max_open m"
    "se_state e = Open" "se_close_reason e = None" "send_credit e = 0"
  shows "mux_inv (m\<lparr>streams := bt_insert s e (streams m),
                    open_streams := bt_insert s () (open_streams m)\<rparr>)"
  using assms by (auto simp: mux_inv_def closed_ids_def bt_len_insert)

lemma mux_inv_update:
  assumes "mux_inv m" "bt_get (streams m) s = Some e" "se_state e = Open"
    and "se_state e' = Open" "se_close_reason e' = None"
    and "\<And>k. bt_contains idx k \<longleftrightarrow> (if k = s then send_credit e' \<noteq> 0 else bt_contains (sendable_streams m) k)"
  shows "mux_inv ((put_entry s e' m)\<lparr>sendable_streams := idx\<rparr>)"
  using assms by (auto simp: mux_inv_def put_entry_def closed_ids_def)

lemma mux_inv_put:
  assumes "mux_inv m" "bt_get (streams m) s = Some e" "se_state e = Open"
    and "se_state e' = Open" "se_close_reason e' = None" "send_credit e' = 0 \<longleftrightarrow> send_credit e = 0"
  shows "mux_inv (put_entry s e' m)"
proof -
  have "mux_inv ((put_entry s e' m)\<lparr>sendable_streams := sendable_streams m\<rparr>)"
    by (rule mux_inv_update [OF assms(1-5)]) (use assms in \<open>auto simp: mux_inv_def\<close>)
  then show ?thesis by (simp add: put_entry_def)
qed

lemma mux_inv_remember:
  assumes inv: "mux_inv m" "bt_get (streams m) s = Some e" "se_state e = Open"
  shows "mux_inv (close_entry s e r m)"
proof -
  let ?t = "bt_insert s (e\<lparr>se_state := Closed, se_close_reason := Some r\<rparr>) (streams m)"
  let ?r = "evict_oldest forget_closed (max_closed m) (closed_order m @ [s]) ?t"
  have "s \<notin> set (closed_order m)" "distinct (closed_order m)"
    "set (closed_order m) = closed_ids (streams m)"
    using assms by (auto simp: mux_inv_def closed_ids_def)
  then have "distinct (closed_order m @ [s])" "set (closed_order m @ [s]) = closed_ids ?t"
    by (auto simp: closed_ids_def)
  then have "set (fst ?r) = closed_ids (snd ?r) \<and> distinct (fst ?r)"
    by (rule closed_history.tracked_evict)
  moreover have "bt_len (bt_remove s (open_streams m)) \<le> max_open m"
    using assms by (auto simp: mux_inv_def bt_len_remove)
  moreover have "(\<exists>e. bt_get (snd ?r) k = Some e \<and> se_state e = Open \<and> P e) \<longleftrightarrow>
      k \<noteq> s \<and> (\<exists>e. bt_get (streams m) k = Some e \<and> se_state e = Open \<and> P e)" for k P
  proof -
    have "(\<exists>e. bt_get (snd ?r) k = Some e \<and> se_state e = Open \<and> P e) \<longleftrightarrow>
          (\<exists>e. bt_get ?t k = Some e \<and> se_state e = Open \<and> P e)"
      using evict_closed_open by blast
    then show ?thesis by auto
  qed
  note this [of _ "\<lambda>_. True"] this [of _ "\<lambda>e. send_credit e \<noteq> 0"]
  moreover have "se_state e' = Closed \<longleftrightarrow> se_close_reason e' \<noteq> None"
    if "bt_get (snd ?r) k = Some e'" for k e'
    using evict_closed_subset [OF that] assms by (auto simp: mux_inv_def split: if_splits)
  ultimately show ?thesis
    using inv(1) evict_oldest_bound [of forget_closed "max_closed m" "closed_order m @ [s]" ?t]
    by (auto simp: mux_inv_def close_entry_def put_entry_def)
qed

lemma open_entry_Inr: "open_entry m s = Inr e \<longleftrightarrow> bt_get (streams m) s = Some e \<and> se_state e = Open"
  by (auto simp: open_entry_def split: option.splits)

lemma mux_inv_open_reason:
  "mux_inv m \<Longrightarrow> bt_get (streams m) s = Some e \<Longrightarrow> se_state e = Open \<Longrightarrow> se_close_reason e = None"
  unfolding mux_inv_def by (metis stream_state.distinct(1))

lemma mux_inv_grant: "mux_inv m \<Longrightarrow> mux_inv (snd (grant_inbound m s c))"
  by (auto simp: grant_inbound_def open_entry_Inr mux_inv_open_reason split: sum.splits intro: mux_inv_put)

lemma mux_inv_accept: "mux_inv m \<Longrightarrow> mux_inv (snd (accept_data m d))"
  by (auto simp: accept_data_def open_entry_Inr mux_inv_open_reason split: sum.splits intro: mux_inv_put)

lemma mux_inv_flow:
  assumes "mux_inv m"
  shows "mux_inv (snd (receive_flow m f))"
proof (cases "open_entry m (flow_stream f)")
  case (Inr e)
  then have e: "bt_get (streams m) (flow_stream f) = Some e" "se_state e = Open"
    by (simp_all add: open_entry_Inr)
  let ?e = "e\<lparr>send_credit := sat_add (send_credit e) (ucast (flow_credits f))\<rparr>"
  have pos: "send_credit ?e \<noteq> 0" if "send_credit e \<noteq> 0 \<or> flow_credits f \<noteq> 0"
  proof -
    have "0 < send_credit e \<or> 0 < (ucast (flow_credits f) :: u64)"
      using that by (simp add: word_neq_0_conv)
    then show ?thesis
      using sat_add_pos [of "send_credit e" "ucast (flow_credits f)"] by auto
  qed
  have "mux_inv ((put_entry (flow_stream f) ?e m)\<lparr>sendable_streams := bt_insert (flow_stream f) () (sendable_streams m)\<rparr>)"
    if "flow_credits f \<noteq> 0"
    by (rule mux_inv_update [OF assms e]) (use e pos that mux_inv_open_reason [OF assms e] in auto)
  moreover have "mux_inv (put_entry (flow_stream f) ?e m)" if "send_credit e \<noteq> 0"
    by (rule mux_inv_put [OF assms e]) (use e pos that mux_inv_open_reason [OF assms e] in auto)
  ultimately show ?thesis
    using assms Inr by (auto simp: receive_flow_def Let_def) (simp_all add: put_entry_def)
qed (use assms in \<open>simp add: receive_flow_def\<close>)

lemma mux_inv_reserve:
  assumes "mux_inv m"
  shows "mux_inv (snd (reserve_send m s ch))"
proof (cases "open_entry m s")
  case (Inr e)
  then have e: "bt_get (streams m) s = Some e" "se_state e = Open"
    by (simp_all add: open_entry_Inr)
  let ?e = "e\<lparr>send_credit := send_credit e - 1, next_send_seq := next_send_seq e + 1\<rparr>"
  have "mux_inv ((put_entry s ?e m)\<lparr>sendable_streams := bt_remove s (sendable_streams m)\<rparr>)"
    if "send_credit ?e = 0"
    by (rule mux_inv_update [OF assms e]) (use e that mux_inv_open_reason [OF assms e] in auto)
  moreover have "mux_inv (put_entry s ?e m)" if "send_credit e \<noteq> 0" "send_credit ?e \<noteq> 0"
    by (rule mux_inv_put [OF assms e]) (use e that mux_inv_open_reason [OF assms e] in auto)
  ultimately show ?thesis
    using assms Inr by (auto simp: reserve_send_def Let_def) (simp_all add: put_entry_def)
qed (use assms in \<open>simp add: reserve_send_def\<close>)

lemma mux_inv_close: "mux_inv m \<Longrightarrow> mux_inv (snd (mux_close m c))"
  by (auto simp: mux_close_def stream_state_cases split: option.splits intro: mux_inv_remember)

lemma mux_inv_cancel: "mux_inv m \<Longrightarrow> mux_inv (snd (mux_cancel m s))"
  by (auto simp: mux_cancel_def split: option.splits intro: mux_inv_remember)

lemma mux_inv_open_call: "mux_inv m \<Longrightarrow> mux_inv (snd (open_with_capabilities m op caps))"
  by (auto simp: open_with_capabilities_def Let_def open_stream_count_def bt_contains_def
      intro: mux_inv_open)

lemmas mux_inv_calls = mux_inv_open_call mux_inv_grant mux_inv_accept mux_inv_flow mux_inv_reserve
  mux_inv_close mux_inv_cancel

lemma mux_inv_apply: "mux_inv m \<Longrightarrow> mux_inv (mux_apply c m)"
  by (cases c) (simp_all add: mux_inv_calls)

lemma mux_inv_run: "mux_inv m \<Longrightarrow> mux_inv (mux_run calls m)"
  unfolding mux_run_def by (induction calls arbitrary: m) (simp_all add: mux_inv_apply)

lemma mux_apply_limits [simp]:
  "max_open (mux_apply c m) = max_open m" "max_closed (mux_apply c m) = max_closed m"
  by (cases c; auto simp: open_with_capabilities_def grant_inbound_def accept_data_def receive_flow_def
      reserve_send_def mux_close_def mux_cancel_def close_entry_def put_entry_def Let_def
      split: sum.splits option.splits)+

lemma mux_run_limits [simp]:
  "max_open (mux_run calls m) = max_open m" "max_closed (mux_run calls m) = max_closed m"
  unfolding mux_run_def by (induction calls arbitrary: m) simp_all

lemma mux_inv_table_size:
  assumes "mux_inv m"
  shows "bt_len (streams m) \<le> bt_len (open_streams m) + length (closed_order m)"
proof -
  have "dom (bt_get (streams m)) \<subseteq> dom (bt_get (open_streams m)) \<union> set (closed_order m)"
  proof
    fix k
    assume "k \<in> dom (bt_get (streams m))"
    then obtain e where e: "bt_get (streams m) k = Some e" by blast
    show "k \<in> dom (bt_get (open_streams m)) \<union> set (closed_order m)"
    proof (cases "se_state e")
      case Open
      with assms e have "bt_contains (open_streams m) k" by (auto simp: mux_inv_def)
      then show ?thesis by (auto simp: bt_contains_def)
    next
      case Closed
      with assms e show ?thesis by (auto simp: mux_inv_def closed_ids_def)
    qed
  qed
  then have "card (dom (bt_get (streams m))) \<le> card (dom (bt_get (open_streams m)) \<union> set (closed_order m))"
    by (rule card_mono [rotated]) simp
  also have "\<dots> \<le> card (dom (bt_get (open_streams m))) + card (set (closed_order m))"
    by (rule card_Un_le)
  also have "card (set (closed_order m)) = length (closed_order m)"
    using assms unfolding mux_inv_def by (intro distinct_card) blast
  finally show ?thesis by (simp add: bt_len_card)
qed


section \<open>Closing\<close>

text \<open>The stream just closed is the last of the queue, so eviction keeps its record.\<close>

lemma evict_keeps_last:
  assumes "0 < n" "s \<notin> set order"
  shows "bt_get (snd (evict_oldest forget_closed n (order @ [s]) table)) s = bt_get table s"
  using assms
proof (induction order arbitrary: table)
  case Nil
  then show ?case by (cases n) simp_all
next
  case (Cons k order)
  then show ?case by (simp add: forget_closed_get)
qed

lemma close_entry_self:
  assumes "mux_inv m" "bt_get (streams m) s = Some e" "se_state e = Open"
  shows "bt_get (streams (close_entry s e r m)) s =
         Some (e\<lparr>se_state := Closed, se_close_reason := Some r\<rparr>)"
proof -
  have "s \<notin> set (closed_order m)" "0 < max_closed m"
    using assms by (auto simp: mux_inv_def closed_ids_def)
  then show ?thesis
    by (simp add: close_entry_def put_entry_def evict_keeps_last)
qed

lemma is_open_iff:
  "mux_inv m \<Longrightarrow> is_open m s \<longleftrightarrow> (\<exists>e. bt_get (streams m) s = Some e \<and> se_state e = Open)"
  by (simp add: is_open_def mux_inv_def)


section \<open>Round robin\<close>

text \<open>Picks of \<open>next_sendable_after\<close>, each fed back as the next cursor.\<close>

primrec round_robin :: "stream_mux \<Rightarrow> nat \<Rightarrow> stream_id option \<Rightarrow> stream_id list" where
  "round_robin m 0 after = []"
| "round_robin m (Suc n) after =
     (case next_sendable_after m after of
        None \<Rightarrow> []
      | Some s \<Rightarrow> s # round_robin m n (Some s))"

lemma next_sendable_within:
  assumes "sendable m = xs @ y # ys" "\<forall>x\<in>set xs. x \<le> a" "a < y"
  shows "next_sendable_after m (Some a) = Some y"
proof -
  have "filter (\<lambda>j. a < j) xs = []"
    using assms(2) by (auto simp: filter_empty_conv)
  then show ?thesis
    using assms by (simp add: next_sendable_after_def bt_next_after_def sendable_def)
qed

lemma next_sendable_wrap:
  assumes "sendable m = y # ys" "\<forall>x\<in>set (sendable m). x \<le> a"
  shows "next_sendable_after m (Some a) = Some y"
proof -
  have "filter (\<lambda>j. a < j) (sendable m) = []"
    using assms(2) by (auto simp: filter_empty_conv)
  then show ?thesis
    using assms(1) by (simp add: next_sendable_after_def bt_next_after_def bt_first_def sendable_def)
qed

lemma round_robin_within:
  assumes "sendable m = xs @ ys" "\<forall>x\<in>set xs. x \<le> a" "\<forall>y\<in>set ys. a < y" "n \<le> length ys"
  shows "round_robin m n (Some a) = take n ys"
  using assms
proof (induction ys arbitrary: xs a n)
  case (Cons y ys)
  show ?case
  proof (cases n)
    case (Suc n')
    have "sorted_wrt (<) (xs @ y # ys)"
      using sorted_bt_keys [of "sendable_streams m"] Cons.prems(1) by (simp add: sendable_def)
    then have "round_robin m n' (Some y) = take n' ys"
      using Cons.prems Suc by (intro Cons.IH [of "xs @ [y]"]) (auto simp: sorted_wrt_append less_imp_le)
    with Suc Cons.prems next_sendable_within [of m xs y ys a] show ?thesis by simp
  qed simp
qed simp

lemma round_robin_append:
  assumes "length (round_robin m n after) = n"
  shows "round_robin m (n + k) after =
         round_robin m n after @
         round_robin m k (if n = 0 then after else Some (last (round_robin m n after)))"
  using assms
proof (induction n arbitrary: after)
  case (Suc n)
  then show ?case
    by (cases "next_sendable_after m after") (auto split: if_splits)
qed simp

lemma round_robin_wrap:
  assumes "\<forall>x\<in>set (sendable m). x \<le> a" "n \<le> length (sendable m)"
  shows "round_robin m n (Some a) = take n (sendable m)"
proof (cases "sendable m")
  case (Cons y ys)
  have "sorted_wrt (<) (y # ys)"
    using sorted_bt_keys [of "sendable_streams m"] Cons by (simp add: sendable_def)
  then show ?thesis
    using assms Cons next_sendable_wrap [OF Cons assms(1)] round_robin_within [of m "[y]" ys y]
    by (cases n) auto
qed (use assms in simp)

lemma sendable_split:
  "sendable m = filter (\<lambda>k. k \<le> a) (sendable m) @ filter (\<lambda>k. a < k) (sendable m)"
proof -
  have "sorted_wrt (<) ks \<Longrightarrow> ks = filter (\<lambda>k. k \<le> a) ks @ filter (\<lambda>k. a < k) ks" for ks
  proof (induction ks)
    case (Cons k ks)
    show ?case
    proof (cases "k \<le> a")
      case False
      with Cons.prems have "filter (\<lambda>k. k \<le> a) ks = []" "filter (\<lambda>k. a < k) ks = ks"
        by (fastforce simp: filter_empty_conv filter_id_conv)+
      with False show ?thesis by simp
    qed (use Cons in \<open>auto simp: not_less\<close>)
  qed simp
  from this [OF sorted_bt_keys] show ?thesis unfolding sendable_def .
qed

lemma round_robin_rotation:
  "round_robin m (length (sendable m)) (Some a) =
   filter (\<lambda>k. a < k) (sendable m) @ filter (\<lambda>k. k \<le> a) (sendable m)"
proof -
  let ?lo = "filter (\<lambda>k. k \<le> a) (sendable m)" and ?hi = "filter (\<lambda>k. a < k) (sendable m)"
  have split: "sendable m = ?lo @ ?hi" by (rule sendable_split)
  have hi: "round_robin m (length ?hi) (Some a) = ?hi"
    using round_robin_within [OF split, of a "length ?hi"] by auto
  define b where "b = (if length ?hi = 0 then a else last ?hi)"
  have "\<forall>x\<in>set (sendable m). x \<le> b"
  proof (cases "?hi = []")
    case True
    then show ?thesis by (auto simp: b_def filter_empty_conv not_less)
  next
    case False
    have "sorted (sendable m)"
      using sorted_bt_keys [of "sendable_streams m"] by (simp add: sendable_def strict_sorted_iff)
    then have "\<forall>x\<in>set (sendable m). x \<le> last (sendable m)"
      by (metis in_set_conv_nth last_conv_nth empty_iff set_empty diff_less length_greater_0_conv
          less_Suc_eq_le Suc_pred' sorted_nth_mono zero_less_one)
    moreover have "last (sendable m) = last ?hi"
      using False by (subst split) simp
    ultimately show ?thesis using False by (simp add: b_def)
  qed
  then have lo: "round_robin m (length ?lo) (Some b) = ?lo"
    by (subst round_robin_wrap) (auto, subst split, simp)
  have len: "length (sendable m) = length ?hi + length ?lo"
    by (subst split) simp
  have "round_robin m (length (sendable m)) (Some a) =
        ?hi @ round_robin m (length ?lo) (if length ?hi = 0 then Some a else Some (last ?hi))"
    by (simp only: len round_robin_append [of m "length ?hi" "Some a", unfolded hi, OF refl])
  also have "(if length ?hi = 0 then Some a else Some (last ?hi)) = Some b"
    by (simp add: b_def)
  finally show ?thesis using lo by simp
qed


section \<open>The inbound half of one stream\<close>

text \<open>
  What an endpoint will accept next on a stream it has open: the expected sequence number and the
  credit left. \<open>accepted\<close> lists the sequence numbers a run accepts on one stream.
\<close>

definition live_entry :: "stream_mux \<Rightarrow> stream_id \<Rightarrow> stream_entry option" where
  "live_entry m s = (case open_entry m s of Inr e \<Rightarrow> Some e | Inl _ \<Rightarrow> None)"

definition inbound :: "stream_mux \<Rightarrow> stream_id \<Rightarrow> (u64 \<times> u64) option" where
  "inbound m s = map_option (\<lambda>e. (expected_seq e, recv_credit e)) (live_entry m s)"

definition accepts :: "stream_id \<Rightarrow> mux_call \<Rightarrow> stream_mux \<Rightarrow> u64 list" where
  "accepts s c m =
     (case c of
        Call_data d \<Rightarrow>
          if data_stream d = s \<and> is_ok (fst (accept_data m d)) then [data_sequence d] else []
      | _ \<Rightarrow> [])"

primrec accepted :: "stream_id \<Rightarrow> mux_call list \<Rightarrow> stream_mux \<Rightarrow> u64 list" where
  "accepted s [] m = []"
| "accepted s (c # cs) m = accepts s c m @ accepted s cs (mux_apply c m)"

definition grants :: "stream_id \<Rightarrow> mux_call \<Rightarrow> nat" where
  "grants s c = (case c of Call_grant t credits \<Rightarrow> if t = s then unat credits else 0 | _ \<Rightarrow> 0)"

definition granted :: "stream_id \<Rightarrow> mux_call list \<Rightarrow> nat" where
  "granted s calls = sum_list (map (grants s) calls)"

definition opens :: "stream_id \<Rightarrow> mux_call \<Rightarrow> bool" where
  "opens s c \<longleftrightarrow> (case c of Call_open open _ \<Rightarrow> sd_id (so_descriptor open) = s | _ \<Rightarrow> False)"

lemma live_entry_Some:
  "live_entry m s = Some e \<longleftrightarrow> bt_get (streams m) s = Some e \<and> se_state e = Open"
  by (auto simp: live_entry_def open_entry_def split: option.splits)

lemma live_entry_put:
  "se_state e = Open \<Longrightarrow> live_entry (put_entry t e m) s = (if s = t then Some e else live_entry m s)"
  by (simp add: live_entry_def open_entry_def put_entry_def)

lemma live_entry_fields [simp]:
  "live_entry (m\<lparr>sendable_streams := x\<rparr>) s = live_entry m s"
  "live_entry (m\<lparr>open_streams := y\<rparr>) s = live_entry m s"
  by (simp_all add: live_entry_def open_entry_def)

lemma live_entry_evict: "live_entry (remember_closed t m) s = live_entry m s"
  by (rule option_eqI) (auto simp: live_entry_Some evict_closed_open)

lemma live_entry_close: "live_entry (close_entry t e r m) s = (if s = t then None else live_entry m s)"
  by (simp add: close_entry_def live_entry_evict)
     (simp add: live_entry_def open_entry_def put_entry_def)

lemma inbound_Some:
  "inbound m s = Some (n, r) \<longleftrightarrow>
   (\<exists>e. bt_get (streams m) s = Some e \<and> se_state e = Open \<and> expected_seq e = n \<and> recv_credit e = r)"
  by (auto simp: inbound_def live_entry_Some)

lemma inbound_put:
  "se_state e = Open \<Longrightarrow>
   inbound (put_entry t e m) s = (if s = t then Some (expected_seq e, recv_credit e) else inbound m s)"
  by (simp add: inbound_def live_entry_put)

lemma inbound_fields [simp]:
  "inbound (m\<lparr>sendable_streams := x\<rparr>) s = inbound m s"
  "inbound (m\<lparr>open_streams := y\<rparr>) s = inbound m s"
  by (simp_all add: inbound_def)

lemma inbound_close_entry: "inbound (close_entry t e r m) s = (if s = t then None else inbound m s)"
  by (simp add: inbound_def live_entry_close)

lemmas inbound_ops = open_with_capabilities_def grant_inbound_def accept_data_def receive_flow_def
  reserve_send_def mux_close_def mux_cancel_def accepts_def grants_def opens_def Let_def open_entry_Inr
  inbound_put inbound_close_entry

lemma inbound_apply_None:
  assumes "inbound m s = None" "\<not> opens s c"
  shows "inbound (mux_apply c m) s = None \<and> accepts s c m = []"
proof -
  have no_entry: "open_entry m s \<noteq> Inr e" for e
    using assms(1) by (auto simp: inbound_def live_entry_def)
  show ?thesis
  proof (cases c)
    case (Call_open op caps)
    with assms show ?thesis
      by (auto simp: open_with_capabilities_def accepts_def opens_def Let_def inbound_def
          live_entry_def open_entry_def)
  qed (use assms no_entry in \<open>auto simp: inbound_ops split: sum.splits option.splits\<close>)
qed

lemma inbound_apply_Some:
  assumes "inbound m s = Some (n, r)"
  shows "(accepts s c m = [n] \<and> r \<noteq> 0 \<and> inbound (mux_apply c m) s = Some (n + 1, r - 1)) \<or>
         (accepts s c m = [] \<and>
           (inbound (mux_apply c m) s = None \<or>
            (\<exists>k. unat k \<le> unat r + grants s c \<and> inbound (mux_apply c m) s = Some (n, k))))"
proof -
  from assms obtain e where e: "bt_get (streams m) s = Some e" "se_state e = Open"
    and n: "expected_seq e = n" and r: "recv_credit e = r"
    by (auto simp: inbound_Some)
  then have entry: "open_entry m s = Inr e" by (simp add: open_entry_Inr)
  note facts = assms entry n r
  show ?thesis
  proof (cases c)
    case (Call_open op caps)
    with e assms show ?thesis
      by (auto simp: open_with_capabilities_def accepts_def Let_def inbound_def bt_contains_def
          live_entry_def open_entry_def)
  next
    case (Call_grant t k)
    have "unat (sat_add r (ucast k)) \<le> unat r + unat k"
      by (simp add: unat_sat_add)
    with Call_grant facts e show ?thesis
      by (cases "t = s") (auto simp: inbound_ops split: sum.splits)
  next
    case (Call_data d)
    with facts e show ?thesis
      by (cases "data_stream d = s") (auto simp: inbound_ops split: sum.splits)
  next
    case (Call_flow f)
    with facts e show ?thesis
      by (cases "flow_stream f = s") (auto simp: inbound_ops split: sum.splits)
  next
    case (Call_reserve t ch)
    with facts e show ?thesis
      by (cases "t = s") (auto simp: inbound_ops split: sum.splits)
  qed (use assms in \<open>auto simp: inbound_ops stream_state_cases split: option.splits\<close>)
qed

lemma accepted_None:
  "inbound m s = None \<Longrightarrow> list_all (\<lambda>c. \<not> opens s c) calls \<Longrightarrow> accepted s calls m = []"
  by (induction calls arbitrary: m) (auto dest: inbound_apply_None)

lemma accepted_consecutive:
  assumes "inbound m s = Some (n, r)" "list_all (\<lambda>c. \<not> opens s c) calls"
  shows "\<exists>k \<le> unat r + granted s calls. accepted s calls m = map (\<lambda>i. n + of_nat i) [0..<k]"
  using assms
proof (induction calls arbitrary: m n r)
  case (Cons c calls)
  have granted_Cons: "granted s (c # calls) = grants s c + granted s calls"
    by (simp add: granted_def)
  from inbound_apply_Some [OF Cons.prems(1), of c] show ?case
  proof (elim disjE conjE)
    assume acc: "accepts s c m = [n]" and r: "r \<noteq> 0"
      and next_state: "inbound (mux_apply c m) s = Some (n + 1, r - 1)"
    from Cons.IH [OF next_state] Cons.prems obtain k
      where k: "k \<le> unat (r - 1) + granted s calls"
        and tail: "accepted s calls (mux_apply c m) = map (\<lambda>i. n + 1 + of_nat i) [0..<k]"
      by auto
    have "accepted s (c # calls) m = map (\<lambda>i. n + of_nat i) [0..<Suc k]"
      by (subst map_upt_Suc) (simp add: acc tail add.assoc)
    moreover have "Suc k \<le> unat r + granted s (c # calls)"
    proof -
      have "unat (r - 1) = unat r - 1" "0 < unat r"
        using r by (simp_all add: unat_minus_one_pos unat_gt_0)
      with k show ?thesis by (simp add: granted_Cons)
    qed
    ultimately show ?thesis by blast
  next
    assume "accepts s c m = []" "inbound (mux_apply c m) s = None"
    with Cons.prems accepted_None [of "mux_apply c m" s calls] show ?thesis
      by (intro exI [of _ 0]) simp
  next
    assume acc: "accepts s c m = []"
      and "\<exists>k. unat k \<le> unat r + grants s c \<and> inbound (mux_apply c m) s = Some (n, k)"
    then obtain r' where "unat r' \<le> unat r + grants s c" and "inbound (mux_apply c m) s = Some (n, r')"
      by blast
    moreover from this Cons.IH [of "mux_apply c m" n r'] Cons.prems obtain k
      where "k \<le> unat r' + granted s calls"
        and "accepted s calls (mux_apply c m) = map (\<lambda>i. n + of_nat i) [0..<k]"
      by auto
    ultimately show ?thesis
      using acc by (intro exI [of _ k]) (simp add: granted_Cons)
  qed
qed simp


section \<open>Properties\<close>

text \<open>A small session for the examples: two streams, opened and granted.\<close>

definition demo_open :: "stream_id \<Rightarrow> stream_kind \<Rightarrow> stream_open" where
  "demo_open s kind =
     \<lparr>so_descriptor = \<lparr>sd_id = s, sd_kind = kind\<rparr>, so_operation_id = ''op-1'',
      so_authz = authz_for_kind ''alice'' local kind\<rparr>"

definition demo_mux :: stream_mux where
  "demo_mux = mux_run
     [Call_open (demo_open ''s1'' Kind_Stdio) (from_caps [Cap_Exec, Cap_Logs]),
      Call_open (demo_open ''s2'' Kind_Logs) (from_caps [Cap_Exec, Cap_Logs]),
      Call_grant ''s1'' 2, Call_flow \<lparr>flow_stream = ''s2'', flow_credits = 3\<rparr>] (with_limits 4 2)"

definition demo_data :: "stream_id \<Rightarrow> u64 \<Rightarrow> stream_channel \<Rightarrow> stream_data" where
  "demo_data s n ch =
     \<lparr>data_stream = s, data_sequence = n, data_channel = ch, data_cursor = None, data_bytes = ''x''\<rparr>"

lemmas mux_eval = mux_run_def with_limits_def open_with_capabilities_def grant_inbound_def
  receive_flow_def open_entry_def put_entry_def demo_open_def demo_data_def authz_for_kind_def
  so_is_consistent_def authz_matches_kind_def from_caps_def caps_has_def open_stream_count_def
  sat_add_def Let_def

text \<open>C28. However the multiplexer is driven from a fresh state, its open and sendable indexes, its
  closed-history queue and its recorded close reasons agree with the stream table, and the open and
  closed caps hold.\<close>

theorem mux_index_invariant: "mux_inv (mux_run calls (with_limits open_cap closed_cap))"
  by (rule mux_inv_run) (rule mux_inv_initial)

text \<open>The multiplexer's memory is bounded by its two caps however many streams a session opens.\<close>

theorem mux_memory_bound:
  "bt_len (streams (mux_run calls (with_limits open_cap closed_cap))) \<le> max open_cap 1 + max closed_cap 1"
proof -
  let ?m = "mux_run calls (with_limits open_cap closed_cap)"
  have inv: "mux_inv ?m" by (rule mux_inv_run) (rule mux_inv_initial)
  have "bt_len (open_streams ?m) \<le> max_open ?m" "length (closed_order ?m) \<le> max_closed ?m"
    using inv unfolding mux_inv_def by blast+
  then have "bt_len (open_streams ?m) \<le> max open_cap 1" "length (closed_order ?m) \<le> max closed_cap 1"
    by (simp_all add: with_limits_def)
  with mux_inv_table_size [OF inv] show ?thesis by linarith
qed

text \<open>Inbound data is accepted exactly when the stream is open, the channel and cursor fit its
  kind, the sequence number is the expected one and credit is left; it then costs one credit and
  advances the sequence by one, and a refused chunk changes nothing.\<close>

theorem accept_data_exact:
  "(fst (accept_data m d) = Inr () \<longleftrightarrow>
     (\<exists>e. bt_get (streams m) (data_stream d) = Some e \<and> se_state e = Open \<and>
        channel_valid_for_kind (se_kind e) (data_channel d) \<and>
        (data_cursor d = None \<or> se_kind e = Kind_Logs) \<and>
        data_sequence d = expected_seq e \<and> recv_credit e \<noteq> 0)) \<and>
   snd (accept_data m d) =
     (if fst (accept_data m d) = Inr ()
      then m\<lparr>streams := bt_modify (data_stream d)
               (\<lambda>e. e\<lparr>recv_credit := recv_credit e - 1, expected_seq := expected_seq e + 1\<rparr>) (streams m)\<rparr>
      else m)"
  by (auto simp: accept_data_def open_entry_def bt_modify_def put_entry_def split: option.splits)

text \<open>The chunks a run accepts on one open stream carry consecutive sequence numbers starting at
  the expected one, with no gap and no replay, and there are at most as many as credit was granted.
  The hypothesis excludes an open of the same id: a closed id that left the history may be reused.\<close>

theorem accepted_sequence_and_credit:
  assumes "inbound m s = Some (n, r)" "list_all (\<lambda>c. \<not> opens s c) calls"
  shows "\<exists>k \<le> unat r + granted s calls. accepted s calls m = map (\<lambda>i. n + of_nat i) [0..<k]"
  by (rule accepted_consecutive [OF assms])

lemma accepted_sequence_and_credit_witness:
  "inbound demo_mux ''s1'' = Some (0, 2) \<and>
   list_all (\<lambda>c. \<not> opens ''s1'' c) [Call_data (demo_data ''s1'' 0 Stdout), Call_grant ''s2'' 7] \<and>
   (\<exists>k \<le> unat (2::u64) + granted ''s1'' [Call_data (demo_data ''s1'' 0 Stdout), Call_grant ''s2'' 7].
      accepted ''s1'' [Call_data (demo_data ''s1'' 0 Stdout), Call_grant ''s2'' 7] demo_mux =
      map (\<lambda>i. 0 + of_nat i) [0..<k])"
proof -
  have a: "inbound demo_mux ''s1'' = Some (0, 2)"
    by (simp add: inbound_def live_entry_def demo_mux_def mux_eval bt_len_insert)
  have b: "list_all (\<lambda>c. \<not> opens ''s1'' c)
             [Call_data (demo_data ''s1'' 0 Stdout), Call_grant ''s2'' 7]"
    by (simp add: opens_def)
  show ?thesis using a b accepted_sequence_and_credit [OF a b] by blast
qed

text \<open>Cancelling an open stream closes it and is idempotent afterwards: a second cancel reports
  nothing to do, a close with the cancelled reason succeeds, any other close and any further data
  are refused, and none of these changes the state.\<close>

theorem cancel_is_final:
  assumes "mux_inv m" "is_open m s"
  shows "\<exists>m'. mux_cancel m s = (Inr True, m') \<and> \<not> is_open m' s \<and> mux_cancel m' s = (Inr False, m') \<and>
    mux_close m' \<lparr>close_stream = s, close_reason = r\<rparr> =
      (if r = Close_Cancelled then Inr ()
       else Inl (error_new Err_MalformedFrame ''stream is already closed''), m') \<and>
    accept_data m' \<lparr>data_stream = s, data_sequence = n, data_channel = ch, data_cursor = cur, data_bytes = b\<rparr> =
      (Inl (error_new Err_Cancelled ''stream is closed''), m')"
proof -
  from assms obtain e where e: "bt_get (streams m) s = Some e" "se_state e = Open"
    by (auto simp: is_open_iff)
  let ?m = "close_entry s e Close_Cancelled m"
  have "mux_cancel m s = (Inr True, ?m)" using e by (simp add: mux_cancel_def)
  moreover have "bt_get (streams ?m) s = Some (e\<lparr>se_state := Closed, se_close_reason := Some Close_Cancelled\<rparr>)"
    by (rule close_entry_self [OF assms(1) e])
  ultimately show ?thesis
    by (intro exI [of _ ?m])
       (simp add: is_open_iff mux_inv_remember [OF assms(1) e] mux_cancel_def mux_close_def
          accept_data_def open_entry_def)
qed

lemma cancel_is_final_witness:
  "is_open demo_mux ''s1'' \<and>
   (\<exists>m'. mux_cancel demo_mux ''s1'' = (Inr True, m') \<and> \<not> is_open m' ''s1'')"
proof -
  have inv: "mux_inv demo_mux" unfolding demo_mux_def by (intro mux_inv_run mux_inv_initial)
  have op: "is_open demo_mux ''s1''"
    by (simp add: is_open_def demo_mux_def mux_eval bt_len_insert)
  show ?thesis using op cancel_is_final [OF inv op, of Close_Completed 0 Stdout None "[]"] by blast
qed

text \<open>Feeding each pick back as the next cursor, one round over the sendable streams picks every
  one of them exactly once, beginning after the cursor and wrapping around.\<close>

theorem round_robin_fair:
  "round_robin m (length (sendable m)) (Some cursor) =
     filter (\<lambda>k. cursor < k) (sendable m) @ filter (\<lambda>k. k \<le> cursor) (sendable m)"
  by (rule round_robin_rotation)

end
