(* ===== verification/Mux_Protocol.thy ===== *)
theory Mux_Protocol
  imports Stream_Mux
begin

text \<open>
  Two multiplexers talking over a pair of first-in-first-out wires: the receiver grants credit with
  \<open>StreamFlow\<close> frames, the sender spends it on \<open>StreamData\<close> frames (\<open>mux.rs\<close>), and either side may
  close or cancel at any time. The steps call the operations of \<open>StreamMux\<close>; the frames are built
  the way \<open>d2b-realm-router/src/mux_session.rs\<close> builds them. The invariant accounts for every unit
  of credit and every sequence number, at an endpoint or in flight, and gives that a receiver which
  still has the stream open never refuses a chunk of its peer.
\<close>

record link =
  tx :: stream_mux
  rx :: stream_mux
  forward :: "constellation_frame list"
  backward :: "constellation_frame list"

inductive link_step :: "link \<Rightarrow> link \<Rightarrow> bool" where
  grant: "grant_inbound (rx l) t credits = (Inr flow, rx') \<Longrightarrow>
    live_entry (rx l) t = Some e \<Longrightarrow> unat (recv_credit e) + unat credits < 2 ^ 64 \<Longrightarrow>
    link_step l (l\<lparr>rx := rx', backward := backward l @ [Frame_StreamFlow flow]\<rparr>)"
| flow: "backward l = Frame_StreamFlow flow # q \<Longrightarrow>
    link_step l (l\<lparr>tx := snd (receive_flow (tx l) flow), backward := q\<rparr>)"
| send: "reserve_send (tx l) t channel = (Inr sequence, tx') \<Longrightarrow>
    link_step l (l\<lparr>tx := tx', forward := forward l @ [Frame_StreamData
      \<lparr>data_stream = t, data_sequence = sequence, data_channel = channel, data_cursor = None,
       data_bytes = bytes\<rparr>]\<rparr>)"
| deliver: "forward l = Frame_StreamData d # q \<Longrightarrow>
    link_step l (l\<lparr>rx := snd (accept_data (rx l) d), forward := q\<rparr>)"
| tx_close: "mux_close (tx l) c = (Inr (), tx') \<Longrightarrow>
    link_step l (l\<lparr>tx := tx', forward := forward l @ [Frame_StreamClose c]\<rparr>)"
| rx_close: "mux_close (rx l) c = (Inr (), rx') \<Longrightarrow>
    link_step l (l\<lparr>rx := rx', backward := backward l @ [Frame_StreamClose c]\<rparr>)"
| tx_cancel: "mux_cancel (tx l) t = (Inr True, tx') \<Longrightarrow>
    link_step l (l\<lparr>tx := tx', forward := forward l @
      [Frame_StreamClose \<lparr>close_stream = t, close_reason = Close_Cancelled\<rparr>]\<rparr>)"
| rx_cancel: "mux_cancel (rx l) t = (Inr True, rx') \<Longrightarrow>
    link_step l (l\<lparr>rx := rx', backward := backward l @
      [Frame_StreamClose \<lparr>close_stream = t, close_reason = Close_Cancelled\<rparr>]\<rparr>)"
| rx_closed: "forward l = Frame_StreamClose c # q \<Longrightarrow>
    link_step l (l\<lparr>rx := snd (mux_close (rx l) c), forward := q\<rparr>)"
| tx_closed: "backward l = Frame_StreamClose c # q \<Longrightarrow>
    link_step l (l\<lparr>tx := snd (mux_close (tx l) c), backward := q\<rparr>)"

text \<open>The chunks of one stream in flight, and the credit in flight.\<close>

fun in_flight :: "stream_id \<Rightarrow> constellation_frame list \<Rightarrow> stream_data list" where
  "in_flight s [] = []"
| "in_flight s (Frame_StreamData d # q) =
     (if data_stream d = s then d # in_flight s q else in_flight s q)"
| "in_flight s (_ # q) = in_flight s q"

fun flow_in_flight :: "stream_id \<Rightarrow> constellation_frame list \<Rightarrow> nat" where
  "flow_in_flight s [] = 0"
| "flow_in_flight s (Frame_StreamFlow f # q) =
     (if flow_stream f = s then unat (flow_credits f) else 0) + flow_in_flight s q"
| "flow_in_flight s (_ # q) = flow_in_flight s q"

definition wire_inv :: "stream_entry \<Rightarrow> stream_data list \<Rightarrow> bool" where
  "wire_inv e ds \<longleftrightarrow>
     map data_sequence ds = map (\<lambda>i. expected_seq e + of_nat i) [0..<length ds] \<and>
     length ds \<le> unat (recv_credit e) \<and>
     (\<forall>d\<in>set ds. channel_valid_for_kind (se_kind e) (data_channel d) \<and> data_cursor d = None)"

definition account_inv :: "stream_entry \<Rightarrow> stream_entry \<Rightarrow> nat \<Rightarrow> nat \<Rightarrow> bool" where
  "account_inv e e' data flow \<longleftrightarrow>
     se_kind e' = se_kind e \<and> next_send_seq e' = expected_seq e + of_nat data \<and>
     unat (send_credit e') + flow + data = unat (recv_credit e)"

definition link_inv :: "stream_id \<Rightarrow> link \<Rightarrow> bool" where
  [invs]: "link_inv s l \<longleftrightarrow>
     (\<forall>e. live_entry (rx l) s = Some e \<longrightarrow>
        wire_inv e (in_flight s (forward l)) \<and>
        (\<forall>e'. live_entry (tx l) s = Some e' \<longrightarrow>
           account_inv e e' (length (in_flight s (forward l))) (flow_in_flight s (backward l))))"

definition link_start :: "stream_id \<Rightarrow> link \<Rightarrow> bool" where
  "link_start s l \<longleftrightarrow> forward l = [] \<and> backward l = [] \<and>
     (case (live_entry (tx l) s, live_entry (rx l) s) of
        (Some e', Some e) \<Rightarrow> se_kind e' = se_kind e \<and>
           next_send_seq e' = expected_seq e \<and> send_credit e' = 0 \<and> recv_credit e = 0
      | _ \<Rightarrow> False)"


section \<open>The effect of each operation on an open stream\<close>

lemma in_flight_append [simp]: "in_flight s (p @ q) = in_flight s p @ in_flight s q"
  by (induction s p rule: in_flight.induct) simp_all

lemma flow_in_flight_append [simp]: "flow_in_flight s (p @ q) = flow_in_flight s p + flow_in_flight s q"
  by (induction s p rule: flow_in_flight.induct) simp_all

lemma live_grant:
  "grant_inbound m t c = (Inr f, m') \<Longrightarrow>
   f = \<lparr>flow_stream = t, flow_credits = c\<rparr> \<and>
   live_entry m' s =
     (if s = t then map_option (\<lambda>e. e\<lparr>recv_credit := sat_add (recv_credit e) (ucast c)\<rparr>) (live_entry m s)
      else live_entry m s)"
  by (auto simp: grant_inbound_def live_entry_put open_entry_Inr split: if_splits sum.splits)
     (auto simp: live_entry_def open_entry_def)

lemma live_flow:
  "live_entry (snd (receive_flow m f)) s =
     (if s = flow_stream f
      then map_option (\<lambda>e. e\<lparr>send_credit := sat_add (send_credit e) (ucast (flow_credits f))\<rparr>) (live_entry m s)
      else live_entry m s)"
  by (auto simp: receive_flow_def live_entry_put open_entry_Inr Let_def split: sum.splits)
     (auto simp: live_entry_def open_entry_def)

lemma live_reserve:
  assumes "reserve_send m t ch = (Inr n, m')"
  shows "\<exists>e. live_entry m t = Some e \<and> n = next_send_seq e \<and> send_credit e \<noteq> 0 \<and>
       channel_valid_for_kind (se_kind e) ch \<and>
       live_entry m' s =
         (if s = t then Some (e\<lparr>send_credit := send_credit e - 1, next_send_seq := next_send_seq e + 1\<rparr>)
          else live_entry m s)"
proof (cases "open_entry m t")
  case (Inr e)
  then have "se_state e = Open" "live_entry m t = Some e"
    by (simp_all add: open_entry_Inr live_entry_Some)
  with assms Inr show ?thesis
    by (auto simp: reserve_send_def live_entry_put Let_def split: if_splits)
qed (use assms in \<open>simp add: reserve_send_def\<close>)

lemma live_accept_other: "s \<noteq> data_stream d \<Longrightarrow> live_entry (snd (accept_data m d)) s = live_entry m s"
  by (auto simp: accept_data_def live_entry_put open_entry_Inr split: sum.splits)

lemma live_accept_self:
  assumes "live_entry m (data_stream d) = Some e" "channel_valid_for_kind (se_kind e) (data_channel d)"
    "data_cursor d = None" "data_sequence d = expected_seq e" "recv_credit e \<noteq> 0"
  shows "accept_data m d = (Inr (), put_entry (data_stream d)
     (e\<lparr>recv_credit := recv_credit e - 1, expected_seq := expected_seq e + 1\<rparr>) m)"
  using assms by (auto simp: accept_data_def live_entry_Some open_entry_def)

lemma live_mux_close:
  "live_entry (snd (mux_close m c)) s = live_entry m s \<or> live_entry (snd (mux_close m c)) s = None"
  by (auto simp: mux_close_def live_entry_close split: option.splits)

lemma live_mux_cancel:
  "live_entry (snd (mux_cancel m t)) s = live_entry m s \<or> live_entry (snd (mux_cancel m t)) s = None"
  by (auto simp: mux_cancel_def live_entry_close split: option.splits)


section \<open>Preservation\<close>

lemma wire_inv_cong:
  "se_kind e' = se_kind e \<Longrightarrow> expected_seq e' = expected_seq e \<Longrightarrow> recv_credit e \<le> recv_credit e' \<Longrightarrow>
   wire_inv e ds \<Longrightarrow> wire_inv e' ds"
  by (auto simp: wire_inv_def word_le_nat_alt)

lemma link_inv_close:
  assumes "link_inv s l" "live_entry tx' s = live_entry (tx l) s \<or> live_entry tx' s = None"
    "live_entry rx' s = live_entry (rx l) s \<or> live_entry rx' s = None"
  shows "link_inv s (l\<lparr>tx := tx', rx := rx'\<rparr>)"
  using assms by (auto simp: link_inv_def)

lemma link_inv_wires:
  assumes "link_inv s l" "in_flight s fw = in_flight s (forward l)"
    "flow_in_flight s bw = flow_in_flight s (backward l)"
  shows "link_inv s (l\<lparr>forward := fw, backward := bw\<rparr>)"
  using assms by (simp add: link_inv_def)

lemma link_inv_grant:
  assumes inv: "link_inv s l" and g: "grant_inbound (rx l) t c = (Inr f, rx')"
    and e: "live_entry (rx l) t = Some e" and room: "unat (recv_credit e) + unat c < 2 ^ 64"
  shows "link_inv s (l\<lparr>rx := rx', backward := backward l @ [Frame_StreamFlow f]\<rparr>)"
proof (cases "s = t")
  case True
  let ?e = "e\<lparr>recv_credit := sat_add (recv_credit e) (ucast c)\<rparr>"
  have credit: "unat (recv_credit ?e) = unat (recv_credit e) + unat c"
    using room by (simp add: unat_sat_add_room)
  then have "wire_inv e ds \<Longrightarrow> wire_inv ?e ds" for ds
    by (intro wire_inv_cong [of ?e e]) (simp_all add: word_le_nat_alt)
  moreover have "account_inv e e' d fl \<Longrightarrow> account_inv ?e e' d (fl + unat c)" for e' d fl
    using credit by (simp add: account_inv_def)
  ultimately show ?thesis
    using inv True e live_grant [OF g, of s] by (auto simp: link_inv_def)
qed (use inv live_grant [OF g, of s] in \<open>simp add: link_inv_def\<close>)

lemma link_inv_flow:
  assumes inv: "link_inv s l" and wire: "backward l = Frame_StreamFlow f # q"
  shows "link_inv s (l\<lparr>tx := snd (receive_flow (tx l) f), backward := q\<rparr>)"
proof (cases "s = flow_stream f")
  case True
  have "account_inv e (e'\<lparr>send_credit := sat_add (send_credit e') (ucast (flow_credits f))\<rparr>) d fl"
    if "account_inv e e' d (unat (flow_credits f) + fl)" for e e' d fl
  proof -
    have "unat (send_credit e') + unat (flow_credits f) \<le> unat (recv_credit e)"
      using that by (simp add: account_inv_def)
    also have "\<dots> < 2 ^ 64" using unsigned_less [of "recv_credit e"] by simp
    finally show ?thesis using that by (simp add: account_inv_def unat_sat_add_room)
  qed
  with inv wire True live_flow [of "tx l" f s] show ?thesis
    by (auto simp: link_inv_def)
qed (use inv wire live_flow [of "tx l" f s] in \<open>simp add: link_inv_def\<close>)

lemma link_inv_send:
  assumes inv: "link_inv s l" and r: "reserve_send (tx l) t ch = (Inr n, tx')"
  shows "link_inv s (l\<lparr>tx := tx', forward := forward l @ [Frame_StreamData
    \<lparr>data_stream = t, data_sequence = n, data_channel = ch, data_cursor = None, data_bytes = b\<rparr>]\<rparr>)"
proof -
  from live_reserve [OF r, of s] obtain e' where
    e': "live_entry (tx l) t = Some e'" "n = next_send_seq e'" "send_credit e' \<noteq> 0"
      "channel_valid_for_kind (se_kind e') ch" and
    post: "live_entry tx' s =
      (if s = t then Some (e'\<lparr>send_credit := send_credit e' - 1, next_send_seq := next_send_seq e' + 1\<rparr>)
       else live_entry (tx l) s)"
    by blast
  show ?thesis
  proof (cases "s = t")
    case True
    have "wire_inv e (ds @ [\<lparr>data_stream = t, data_sequence = n, data_channel = ch, data_cursor = None,
             data_bytes = b\<rparr>]) \<and>
          account_inv e (e'\<lparr>send_credit := send_credit e' - 1, next_send_seq := next_send_seq e' + 1\<rparr>)
            (Suc (length ds)) fl"
      if "wire_inv e ds" "account_inv e e' (length ds) fl" for e ds fl
      using that e' unat_minus_one_pos [OF e'(3)] unat_gt_0 [of "send_credit e'"]
      by (auto simp: wire_inv_def account_inv_def algebra_simps)
    with inv True e' post show ?thesis by (auto simp: link_inv_def)
  qed (use inv post in \<open>simp add: link_inv_def\<close>)
qed

lemma link_inv_head_accepted:
  assumes inv: "link_inv s l" and wire: "forward l = Frame_StreamData d # q"
    and d: "data_stream d = s" and e: "live_entry (rx l) s = Some e"
  shows "accept_data (rx l) d = (Inr (), put_entry s
     (e\<lparr>recv_credit := recv_credit e - 1, expected_seq := expected_seq e + 1\<rparr>) (rx l))"
proof -
  from assms have w: "wire_inv e (d # in_flight s q)" by (simp add: link_inv_def)
  then have "data_sequence d = expected_seq e"
    by (auto simp: wire_inv_def upt_rec)
  moreover from w have "recv_credit e \<noteq> 0" by (auto simp: wire_inv_def)
  ultimately show ?thesis
    using live_accept_self [of "rx l" d e] w d e by (simp add: wire_inv_def)
qed

lemma wire_inv_tail:
  assumes "wire_inv e (d # ds)"
  shows "wire_inv (e\<lparr>recv_credit := recv_credit e - 1, expected_seq := expected_seq e + 1\<rparr>) ds"
proof -
  have "map data_sequence ds = map (\<lambda>i. expected_seq e + 1 + of_nat i) [0..<length ds]"
    using assms unfolding wire_inv_def length_Cons map_upt_Suc by (simp add: add.assoc)
  moreover have "length ds \<le> unat (recv_credit e - 1)"
  proof -
    have len: "Suc (length ds) \<le> unat (recv_credit e)" using assms by (simp add: wire_inv_def)
    then have "recv_credit e \<noteq> 0" by auto
    from unat_minus_one_pos [OF this] len show ?thesis by linarith
  qed
  ultimately show ?thesis
    using assms by (simp add: wire_inv_def)
qed

lemma link_inv_deliver:
  assumes inv: "link_inv s l" and wire: "forward l = Frame_StreamData d # q"
  shows "link_inv s (l\<lparr>rx := snd (accept_data (rx l) d), forward := q\<rparr>)"
proof (cases "data_stream d = s")
  case True
  show ?thesis
  proof (cases "live_entry (rx l) s")
    case None
    then have "accept_data (rx l) d = (fst (accept_data (rx l) d), rx l)"
      using True by (auto simp: accept_data_def live_entry_def split: sum.splits)
    with None show ?thesis by (metis link_inv_def option.distinct(1) prod.sel(2)
          link.select_convs(2) link.surjective link.update_convs(2) link.update_convs(3))
  next
    case (Some e)
    let ?e = "e\<lparr>recv_credit := recv_credit e - 1, expected_seq := expected_seq e + 1\<rparr>"
    have "live_entry (snd (accept_data (rx l) d)) s = Some ?e"
      using link_inv_head_accepted [OF inv wire True Some] Some
      by (simp add: live_entry_put live_entry_Some)
    moreover have w: "wire_inv e (d # in_flight s q)"
      using inv wire True Some by (simp add: link_inv_def)
    moreover have "account_inv ?e e' (length (in_flight s q)) fl"
      if "account_inv e e' (Suc (length (in_flight s q))) fl" for e' fl
    proof -
      have "unat (recv_credit e - 1) = unat (send_credit e') + fl + length (in_flight s q)"
        using that by (intro unat_minus_one_Suc) (simp add: account_inv_def)
      with that show ?thesis by (simp add: account_inv_def algebra_simps)
    qed
    ultimately show ?thesis
      using inv wire True Some wire_inv_tail [OF w] by (simp add: link_inv_def)
  qed
qed (use inv wire live_accept_other in \<open>auto simp: link_inv_def\<close>)

lemma link_inv_step:
  assumes "link_step l l'" "link_inv s l"
  shows "link_inv s l'"
  using assms(1)
proof (cases rule: link_step.cases)
  case (tx_close c tx')
  then show ?thesis
    using link_inv_wires [OF link_inv_close [OF assms(2), of tx' "rx l"],
        of "forward l @ [Frame_StreamClose c]" "backward l"] live_mux_close [of "tx l" c s] by simp
next
  case (rx_close c rx')
  then show ?thesis
    using link_inv_wires [OF link_inv_close [OF assms(2), of "tx l" rx'],
        of "forward l" "backward l @ [Frame_StreamClose c]"] live_mux_close [of "rx l" c s] by simp
next
  case (tx_cancel t tx')
  then show ?thesis
    using link_inv_wires [OF link_inv_close [OF assms(2), of tx' "rx l"],
        of "forward l @ [Frame_StreamClose \<lparr>close_stream = t, close_reason = Close_Cancelled\<rparr>]" "backward l"]
      live_mux_cancel [of "tx l" t s] by simp
next
  case (rx_cancel t rx')
  then show ?thesis
    using link_inv_wires [OF link_inv_close [OF assms(2), of "tx l" rx'],
        of "forward l" "backward l @ [Frame_StreamClose \<lparr>close_stream = t, close_reason = Close_Cancelled\<rparr>]"]
      live_mux_cancel [of "rx l" t s] by simp
next
  case (rx_closed c q)
  then show ?thesis
    using link_inv_wires [OF link_inv_close [OF assms(2), of "tx l" "snd (mux_close (rx l) c)"],
        of q "backward l"] live_mux_close [of "rx l" c s] by simp
next
  case (tx_closed c q)
  then show ?thesis
    using link_inv_wires [OF link_inv_close [OF assms(2), of "snd (mux_close (tx l) c)" "rx l"],
        of "forward l" q] live_mux_close [of "tx l" c s] by simp
qed (use assms(2) in \<open>auto intro: link_inv_grant link_inv_flow link_inv_send link_inv_deliver\<close>)

lemma link_inv_start: "link_start s l \<Longrightarrow> link_inv s l"
  by (auto simp: link_start_def link_inv_def wire_inv_def account_inv_def split: option.splits)

lemma link_inv_reachable: "link_step\<^sup>*\<^sup>* l0 l \<Longrightarrow> link_start s l0 \<Longrightarrow> link_inv s l"
  by (induction rule: rtranclp_induct) (auto intro: link_inv_step link_inv_start)



section \<open>Properties\<close>

text \<open>Two endpoints with one stdio stream open, and the run grant, flow, send.\<close>

definition demo_end :: stream_mux where
  "demo_end = mux_run [Call_open (demo_open ''s1'' Kind_Stdio) (from_caps [Cap_Exec])] (with_limits 4 2)"

definition demo_link :: link where
  "demo_link = \<lparr>tx = demo_end, rx = demo_end, forward = [], backward = []\<rparr>"

definition demo_chunk :: stream_data where
  "demo_chunk = \<lparr>data_stream = ''s1'', data_sequence = 0, data_channel = Stdout, data_cursor = None,
     data_bytes = ''x''\<rparr>"

definition demo_sent :: link where
  "demo_sent =
     (let rx1 = snd (grant_inbound demo_end ''s1'' 2);
          tx1 = snd (receive_flow demo_end \<lparr>flow_stream = ''s1'', flow_credits = 2\<rparr>);
          tx2 = snd (reserve_send tx1 ''s1'' Stdout)
      in \<lparr>tx = tx2, rx = rx1, forward = [Frame_StreamData demo_chunk], backward = []\<rparr>)"

lemmas demo_eval = demo_end_def mux_eval bt_len_insert live_entry_def reserve_send_def
  channel_valid_for_kind_def

lemma demo_link_start: "link_start ''s1'' demo_link"
  by (simp add: link_start_def demo_link_def demo_eval)

lemma demo_sent_live: "live_entry (rx demo_sent) ''s1'' \<noteq> None" "live_entry (tx demo_sent) ''s1'' \<noteq> None"
  by (simp_all add: demo_sent_def demo_eval)

lemma demo_sent_reachable: "link_step\<^sup>*\<^sup>* demo_link demo_sent"
proof -
  let ?f = "\<lparr>flow_stream = ''s1'', flow_credits = 2 :: u32\<rparr>"
  let ?rx = "snd (grant_inbound demo_end ''s1'' 2)" and ?tx = "snd (receive_flow demo_end ?f)"
  let ?l1 = "\<lparr>tx = demo_end, rx = ?rx, forward = [], backward = [Frame_StreamFlow ?f]\<rparr>"
  let ?l2 = "\<lparr>tx = ?tx, rx = ?rx, forward = [], backward = []\<rparr>"
  have g: "grant_inbound demo_end ''s1'' 2 = (Inr ?f, ?rx)"
    by (simp add: demo_eval)
  obtain e where e: "live_entry demo_end ''s1'' = Some e" "recv_credit e = 0"
    by (simp add: demo_eval)
  have "link_step demo_link ?l1"
    using link_step.grant [of demo_link "''s1''" 2 ?f ?rx e] g e by (simp add: demo_link_def)
  moreover have "link_step ?l1 ?l2"
    using link_step.flow [of ?l1 ?f "[]"] by simp
  moreover have "link_step ?l2 demo_sent"
  proof -
    have "reserve_send ?tx ''s1'' Stdout = (Inr 0, snd (reserve_send ?tx ''s1'' Stdout))"
      by (simp add: demo_eval)
    then show ?thesis
      using link_step.send [of ?l2 "''s1''" Stdout 0 _ "''x''"]
      by (simp add: demo_sent_def demo_chunk_def Let_def)
  qed
  ultimately show ?thesis
    by (meson converse_rtranclp_into_rtranclp rtranclp.rtrancl_refl)
qed





end
