(* ===== verification/Mux_Session.thy ===== *)
theory Mux_Session
  imports Mux_Protocol
begin

text \<open>
  The post-handshake session driver \<open>d2b-realm-router/src/mux_session.rs\<close> and the operation route
  plans of \<open>d2b-realm-router/src/lib.rs\<close>.

  \<open>MuxSession\<close> wraps a peer transport; the transport is reduced to its negotiated handshake, and
  each asynchronous method to its local part: the result, the state, and the frames it hands to
  \<open>peer.send\<close>. No method touches the state after sending, so a failed send changes the caller's
  result only. Log output of \<open>record_stream_denial\<close> is not modelled.
\<close>

section \<open>Route plans\<close>

definition supported_stream_kind :: "stream_kind \<Rightarrow> bool" where
  "supported_stream_kind kind \<longleftrightarrow>
     kind \<in> {Kind_Control, Kind_Pty, Kind_ShellPty, Kind_Stdio, Kind_Logs, Kind_Display}"

record operation_route_plan =
  plan_kind :: operation_kind
  plan_authorization_scope :: authorization_scope
  plan_required_capability :: "capability option"
  plan_mutating :: bool
  plan_requires_workload :: bool
  plan_stream_kinds :: "stream_kind list"

definition plan_new :: "operation_kind \<Rightarrow> operation_route_plan" where
  "plan_new kind =
     \<lparr>plan_kind = kind, plan_authorization_scope = op_authorization_scope kind,
      plan_required_capability = op_required_capability kind, plan_mutating = op_is_mutating kind,
      plan_requires_workload = op_requires_workload kind,
      plan_stream_kinds = op_allowed_stream_kinds kind\<rparr>"

definition plan_streams_supported :: "operation_route_plan \<Rightarrow> bool" where
  "plan_streams_supported plan \<longleftrightarrow> list_all supported_stream_kind (plan_stream_kinds plan)"

definition operation_route_plan_for :: "operation_kind \<Rightarrow> operation_route_plan option" where
  "operation_route_plan_for kind =
     (if kind = Op_FileCopyStart \<or> kind = Op_PortForwardOpen then None
      else let plan = plan_new kind in if plan_streams_supported plan then Some plan else None)"


section \<open>Session state\<close>

definition MAX_OPERATION_CONTEXTS :: nat where
  "MAX_OPERATION_CONTEXTS = 4096"

record operation_stream_context =
  ctx_kind :: operation_kind
  ctx_correlation_id :: correlation_id
  ctx_realm :: realm_path
  ctx_node :: node_id
  ctx_principal :: principal_id
  ctx_trace :: "trace_context option"
  ctx_stream_kinds :: "stream_kind list"

record mux_session =
  negotiated :: handshake
  mux :: stream_mux
  ms_capabilities :: capability_set
  operations :: "(operation_id, operation_stream_context) btmap"
  operation_order :: "operation_id list"
  last_admission_denial :: "admission_audit_record option"

type_synonym 'a session_result = "(constellation_error + 'a) \<times> mux_session \<times> constellation_frame list"

definition session_with_mux :: "handshake \<Rightarrow> stream_mux \<Rightarrow> mux_session" where
  "session_with_mux peer m =
     \<lparr>negotiated = peer, mux = m, ms_capabilities = capabilities (hs_capabilities peer),
      operations = bt_empty, operation_order = [], last_admission_denial = None\<rparr>"

definition session_new :: "handshake \<Rightarrow> mux_session" where
  "session_new peer = session_with_mux peer mux_new"

definition negotiated_principal :: "mux_session \<Rightarrow> principal_id option" where
  "negotiated_principal ms =
     (case hs_peer (negotiated ms) of None \<Rightarrow> None | Some peer \<Rightarrow> peer_principal peer)"

definition connection_principal :: "mux_session \<Rightarrow> principal_id" where
  "connection_principal ms =
     (case negotiated_principal ms of Some p \<Rightarrow> p | None \<Rightarrow> ''unverified'')"

definition audit_principal_for_denial :: "mux_session \<Rightarrow> principal_id" where
  "audit_principal_for_denial ms =
     (case negotiated_principal ms of Some p \<Rightarrow> p | None \<Rightarrow> ''unverified'')"


section \<open>Operation contexts\<close>

definition quoted :: "string \<Rightarrow> string" where
  "quoted s = [CHR 0x27] @ s @ [CHR 0x27]"

definition register_operation ::
    "mux_session \<Rightarrow> operation_request \<Rightarrow> (constellation_error + unit) \<times> mux_session" where
  "register_operation ms req =
     (case operation_route_plan_for (req_kind req) of
        None \<Rightarrow>
          (Inl (with_correlation_id (error_new Err_UnsupportedFeature
             (''operation kind '' @ quoted (operation_kind_code (req_kind req)) @ '' is not supported''))
             (req_correlation_id req)), ms)
      | Some plan \<Rightarrow>
          if plan_requires_workload plan \<and> req_workload req = None then
            (Inl (with_correlation_id (error_new Err_InvalidTarget
               (''operation kind '' @ quoted (operation_kind_code (req_kind req)) @
                '' requires a workload target'')) (req_correlation_id req)), ms)
          else if bt_contains (operations ms) (req_operation_id req) then
            (Inl (with_correlation_id (error_new Err_MalformedFrame
               (''operation id '' @ quoted (req_operation_id req) @
                '' is already registered on this mux session'')) (req_correlation_id req)), ms)
          else
            let context = \<lparr>ctx_kind = req_kind req, ctx_correlation_id = req_correlation_id req,
                           ctx_realm = req_realm req, ctx_node = req_node req,
                           ctx_principal = req_principal req, ctx_trace = req_trace req,
                           ctx_stream_kinds = plan_stream_kinds plan\<rparr>;
                (order, ops) = evict_oldest bt_remove MAX_OPERATION_CONTEXTS
                  (operation_order ms @ [req_operation_id req])
                  (bt_insert (req_operation_id req) context (operations ms))
            in (Inr (), ms\<lparr>operations := ops, operation_order := order\<rparr>))"

definition unregister_operation :: "mux_session \<Rightarrow> operation_id \<Rightarrow> mux_session" where
  "unregister_operation ms operation_id =
     ms\<lparr>operations := bt_remove operation_id (operations ms),
        operation_order := filter (\<lambda>id. id \<noteq> operation_id) (operation_order ms)\<rparr>"

definition unregister_operations_by_correlation_id ::
    "mux_session \<Rightarrow> correlation_id \<Rightarrow> mux_session" where
  "unregister_operations_by_correlation_id ms correlation_id =
     (let ops = bt_retain (\<lambda>_ context. ctx_correlation_id context \<noteq> correlation_id) (operations ms)
      in ms\<lparr>operations := ops, operation_order := filter (bt_contains ops) (operation_order ms)\<rparr>)"

definition unregister_for_error :: "mux_session \<Rightarrow> constellation_error \<Rightarrow> mux_session" where
  "unregister_for_error ms error =
     (case err_correlation_id error of
        Some correlation_id \<Rightarrow> unregister_operations_by_correlation_id ms correlation_id
      | None \<Rightarrow> ms)"


section \<open>Stream admission\<close>

definition ensure_stream_admitted :: "mux_session \<Rightarrow> stream_open \<Rightarrow> constellation_error + unit" where
  "ensure_stream_admitted ms open =
     (let kind = sd_kind (so_descriptor open); authz = so_authz open in
      if kind = Kind_Control then
        (if sa_principal authz \<noteq> connection_principal ms \<or> sa_realm authz \<noteq> local then
           Inl (error_new Err_Unauthorized
             ''control stream authorization context does not match the peer session'')
         else if \<not> caps_has (ms_capabilities ms) Cap_Lifecycle then Inl (capability_denied Cap_Lifecycle)
         else Inr ())
      else
        case bt_get (operations ms) (so_operation_id open) of
          None \<Rightarrow>
            Inl (error_new Err_InvalidTarget
              (''stream kind '' @ quoted (stream_kind_code kind) @ '' has no accepted operation context''))
        | Some context \<Rightarrow>
            if sa_principal authz \<noteq> ctx_principal context \<or> sa_realm authz \<noteq> ctx_realm context then
              Inl (error_new Err_InvalidTarget
                (''stream kind '' @ quoted (stream_kind_code kind) @ '' has no accepted operation context''))
            else if \<not> supported_stream_kind kind then
              Inl (with_correlation_id (error_new Err_UnsupportedFeature
                (''stream kind '' @ quoted (stream_kind_code kind) @ '' is not supported''))
                (ctx_correlation_id context))
            else if kind \<notin> set (ctx_stream_kinds context) then
              Inl (with_correlation_id (error_new Err_MalformedFrame
                (''stream kind '' @ quoted (stream_kind_code kind) @
                 '' is not permitted for operation kind '' @
                 quoted (operation_kind_code (ctx_kind context))))
                (ctx_correlation_id context))
            else Inr ())"

definition denial_record :: "mux_session \<Rightarrow> stream_open \<Rightarrow> constellation_error \<Rightarrow> admission_audit_record" where
  "denial_record ms open err =
     (let safe_context =
            (case err_correlation_id err of
               None \<Rightarrow> None
             | Some _ \<Rightarrow> bt_get (operations ms) (so_operation_id open));
          correlation_id =
            (case err_correlation_id err of
               Some c \<Rightarrow> c
             | None \<Rightarrow> (case safe_context of Some ctx \<Rightarrow> ctx_correlation_id ctx
                                          | None \<Rightarrow> ''stream-open-denied''));
          node = (case safe_context of Some ctx \<Rightarrow> ctx_node ctx | None \<Rightarrow> ''unknown'');
          audit_realm = (case safe_context of Some ctx \<Rightarrow> ctx_realm ctx | None \<Rightarrow> local)
      in (audit_denied (so_operation_id open) correlation_id audit_realm node
            (Scope_Capability (sa_capability (so_authz open))) (err_kind err))
         \<lparr>aar_principal := Some (audit_principal_for_denial ms),
          aar_trace := (case safe_context of Some ctx \<Rightarrow> ctx_trace ctx | None \<Rightarrow> None)\<rparr>)"

definition record_stream_denial ::
    "mux_session \<Rightarrow> stream_open \<Rightarrow> constellation_error \<Rightarrow> mux_session" where
  "record_stream_denial ms open err = ms\<lparr>last_admission_denial := Some (denial_record ms open err)\<rparr>"


section \<open>Outbound operations\<close>

text \<open>Run a multiplexer operation inside the session.\<close>

definition on_mux :: "(stream_mux \<Rightarrow> 'a mux_result) \<Rightarrow> mux_session \<Rightarrow> (constellation_error + 'a) \<times> mux_session" where
  "on_mux f ms = (case f (mux ms) of (r, m) \<Rightarrow> (r, ms\<lparr>mux := m\<rparr>))"

definition send_operation_request :: "mux_session \<Rightarrow> operation_request \<Rightarrow> unit session_result" where
  "send_operation_request ms req =
     (case register_operation ms req of
        (Inl err, ms') \<Rightarrow> (Inl err, ms', [])
      | (Inr _, ms') \<Rightarrow> (Inr (), ms', [Frame_OperationRequest req]))"

definition send_operation_response :: "mux_session \<Rightarrow> operation_response \<Rightarrow> unit session_result" where
  "send_operation_response ms response =
     (Inr (), unregister_operation ms (resp_operation_id response), [Frame_OperationResponse response])"

definition send_typed_error :: "mux_session \<Rightarrow> constellation_error \<Rightarrow> unit session_result" where
  "send_typed_error ms error = (Inr (), unregister_for_error ms error, [Frame_TypedError error])"

definition session_open_stream :: "mux_session \<Rightarrow> stream_open \<Rightarrow> unit session_result" where
  "session_open_stream ms open =
     (case ensure_stream_admitted ms open of
        Inl err \<Rightarrow> (Inl err, record_stream_denial ms open err, [])
      | Inr _ \<Rightarrow>
          (case on_mux (\<lambda>m. open_with_capabilities m open (ms_capabilities ms)) ms of
             (Inl err, ms') \<Rightarrow> (Inl err, ms', [])
           | (Inr _, ms') \<Rightarrow> (Inr (), ms', [Frame_StreamOpen open])))"

definition session_grant_inbound :: "mux_session \<Rightarrow> stream_id \<Rightarrow> u32 \<Rightarrow> unit session_result" where
  "session_grant_inbound ms stream credits =
     (case on_mux (\<lambda>m. grant_inbound m stream credits) ms of
        (Inl err, ms') \<Rightarrow> (Inl err, ms', [])
      | (Inr flow, ms') \<Rightarrow> (Inr (), ms', [Frame_StreamFlow flow]))"

definition send_data ::
    "mux_session \<Rightarrow> stream_id \<Rightarrow> stream_channel \<Rightarrow> opaque_payload \<Rightarrow> unit session_result" where
  "send_data ms stream channel bytes =
     (case on_mux (\<lambda>m. reserve_send m stream channel) ms of
        (Inl err, ms') \<Rightarrow> (Inl err, ms', [])
      | (Inr sequence, ms') \<Rightarrow>
          (Inr (), ms', [Frame_StreamData
             \<lparr>data_stream = stream, data_sequence = sequence, data_channel = channel,
              data_cursor = None, data_bytes = bytes\<rparr>]))"

definition send_stream_close :: "mux_session \<Rightarrow> stream_close \<Rightarrow> unit session_result" where
  "send_stream_close ms close =
     (case on_mux (\<lambda>m. mux_close m close) ms of
        (Inl err, ms') \<Rightarrow> (Inl err, ms', [])
      | (Inr _, ms') \<Rightarrow> (Inr (), ms', [Frame_StreamClose close]))"

definition session_resume_stream :: "mux_session \<Rightarrow> stream_resume \<Rightarrow> unit session_result" where
  "session_resume_stream ms resume =
     (case validate_resume (mux ms) resume of
        Inl err \<Rightarrow> (Inl err, ms, [])
      | Inr _ \<Rightarrow> (Inr (), ms, [Frame_StreamResume resume]))"

definition cancel_stream :: "mux_session \<Rightarrow> stream_id \<Rightarrow> bool session_result" where
  "cancel_stream ms stream =
     (case on_mux (\<lambda>m. mux_cancel m stream) ms of
        (Inl err, ms') \<Rightarrow> (Inl err, ms', [])
      | (Inr first_cancel, ms') \<Rightarrow>
          (Inr first_cancel, ms',
           if first_cancel
           then [Frame_StreamClose \<lparr>close_stream = stream, close_reason = Close_Cancelled\<rparr>] else []))"


section \<open>Inbound frames\<close>

definition apply_inbound ::
    "mux_session \<Rightarrow> constellation_frame \<Rightarrow> (constellation_error + unit) \<times> mux_session" where
  "apply_inbound ms frame =
     (case frame of
        Frame_StreamOpen open \<Rightarrow>
          (case ensure_stream_admitted ms open of
             Inl err \<Rightarrow> (Inl err, record_stream_denial ms open err)
           | Inr _ \<Rightarrow>
               (case on_mux (\<lambda>m. open_with_capabilities m open (ms_capabilities ms)) ms of
                  (Inr _, ms') \<Rightarrow> (Inr (), ms')
                | (Inl err, ms') \<Rightarrow>
                    let err' = (case bt_get (operations ms') (so_operation_id open) of
                                  Some context \<Rightarrow> with_correlation_id err (ctx_correlation_id context)
                                | None \<Rightarrow> err)
                    in (Inl err', record_stream_denial ms' open err')))
      | Frame_OperationResponse response \<Rightarrow>
          (Inr (), unregister_operation ms (resp_operation_id response))
      | Frame_StreamData data \<Rightarrow> on_mux (\<lambda>m. accept_data m data) ms
      | Frame_StreamFlow flow \<Rightarrow> on_mux (\<lambda>m. receive_flow m flow) ms
      | Frame_StreamClose close \<Rightarrow> on_mux (\<lambda>m. mux_close m close) ms
      | Frame_StreamResume resume \<Rightarrow> (validate_resume (mux ms) resume, ms)
      | Frame_TypedError error \<Rightarrow> (Inr (), unregister_for_error ms error)
      | _ \<Rightarrow> (Inr (), ms))"

definition session_recv :: "mux_session \<Rightarrow> constellation_frame \<Rightarrow> constellation_frame session_result" where
  "session_recv ms frame =
     (case apply_inbound ms frame of
        (Inr _, ms') \<Rightarrow> (Inr frame, ms', [])
      | (Inl err, ms') \<Rightarrow>
          (Inl err, ms',
           case frame of
             Frame_StreamOpen _ \<Rightarrow>
               (case last_admission_denial ms' of
                  Some record \<Rightarrow> [Frame_AdmissionAudit record]
                | None \<Rightarrow> [])
           | _ \<Rightarrow> []))"

text \<open>The calls that change a session, and a run of them.\<close>

datatype session_call =
    Session_register operation_request
  | Session_unregister operation_id
  | Session_send_request operation_request
  | Session_send_response operation_response
  | Session_send_error constellation_error
  | Session_open stream_open
  | Session_grant stream_id u32
  | Session_send_data stream_id stream_channel opaque_payload
  | Session_close stream_close
  | Session_cancel stream_id
  | Session_recv constellation_frame

primrec session_apply :: "session_call \<Rightarrow> mux_session \<Rightarrow> mux_session" where
  "session_apply (Session_register req) ms = snd (register_operation ms req)"
| "session_apply (Session_unregister op) ms = unregister_operation ms op"
| "session_apply (Session_send_request req) ms = fst (snd (send_operation_request ms req))"
| "session_apply (Session_send_response resp) ms = fst (snd (send_operation_response ms resp))"
| "session_apply (Session_send_error err) ms = fst (snd (send_typed_error ms err))"
| "session_apply (Session_open open) ms = fst (snd (session_open_stream ms open))"
| "session_apply (Session_grant s c) ms = fst (snd (session_grant_inbound ms s c))"
| "session_apply (Session_send_data s ch b) ms = fst (snd (send_data ms s ch b))"
| "session_apply (Session_close c) ms = fst (snd (send_stream_close ms c))"
| "session_apply (Session_cancel s) ms = fst (snd (cancel_stream ms s))"
| "session_apply (Session_recv frame) ms = fst (snd (session_recv ms frame))"

definition session_run :: "session_call list \<Rightarrow> mux_session \<Rightarrow> mux_session" where
  "session_run calls ms = fold session_apply calls ms"



section \<open>Kinds of the streams of a multiplexer\<close>

definition kinds_ok :: "(stream_kind \<Rightarrow> bool) \<Rightarrow> stream_mux \<Rightarrow> bool" where
  "kinds_ok P m \<longleftrightarrow> (\<forall>k e. bt_get (streams m) k = Some e \<longrightarrow> P (se_kind e))"

lemma kinds_ok_put: "kinds_ok P m \<Longrightarrow> P (se_kind e) \<Longrightarrow> kinds_ok P (put_entry s e m)"
  by (simp add: kinds_ok_def put_entry_def)

lemma kinds_ok_fields [simp]:
  "kinds_ok P (m\<lparr>sendable_streams := x\<rparr>) = kinds_ok P m"
  "kinds_ok P (m\<lparr>open_streams := y\<rparr>) = kinds_ok P m"
  by (simp_all add: kinds_ok_def)

lemma kinds_ok_evict: "kinds_ok P m \<Longrightarrow> kinds_ok P (remember_closed s m)"
  by (auto simp: kinds_ok_def dest: evict_closed_subset)

lemma kinds_ok_close: "kinds_ok P m \<Longrightarrow> P (se_kind e) \<Longrightarrow> kinds_ok P (close_entry s e r m)"
  unfolding close_entry_def by (intro kinds_ok_evict) (simp add: kinds_ok_put)

lemma kinds_okD: "kinds_ok P m \<Longrightarrow> bt_get (streams m) k = Some e \<Longrightarrow> P (se_kind e)"
  by (simp add: kinds_ok_def)

lemma kinds_ok_calls:
  assumes "kinds_ok P m"
  shows "kinds_ok P (snd (grant_inbound m s c))" "kinds_ok P (snd (accept_data m d))"
    "kinds_ok P (snd (receive_flow m f))" "kinds_ok P (snd (reserve_send m s ch))"
    "kinds_ok P (snd (mux_close m cl))" "kinds_ok P (snd (mux_cancel m s))"
proof -
  have update: "kinds_ok P (put_entry t e' m)" if "open_entry m t = Inr e" "se_kind e' = se_kind e" for t e e'
    using assms that kinds_okD [OF assms, of t e] by (intro kinds_ok_put) (simp_all add: open_entry_Inr)
  show "kinds_ok P (snd (grant_inbound m s c))" "kinds_ok P (snd (accept_data m d))"
    "kinds_ok P (snd (receive_flow m f))" "kinds_ok P (snd (reserve_send m s ch))"
    using assms by (simp_all add: grant_inbound_def accept_data_def receive_flow_def reserve_send_def
        Let_def update split: sum.splits)
  show "kinds_ok P (snd (mux_close m cl))" "kinds_ok P (snd (mux_cancel m s))"
    using assms by (auto simp: mux_close_def mux_cancel_def split: option.splits
        intro: kinds_ok_close kinds_okD)
qed

lemma open_with_capabilities_cases:
  obtains (refused) err where "open_with_capabilities m open caps = (Inl err, m)"
  | (opened) m' e where "open_with_capabilities m open caps = (Inr (), m')"
      "m' = m\<lparr>streams := bt_insert (sd_id (so_descriptor open)) e (streams m),
               open_streams := bt_insert (sd_id (so_descriptor open)) () (open_streams m)\<rparr>"
      "bt_get (streams m) (sd_id (so_descriptor open)) = None"
      "se_kind e = sd_kind (so_descriptor open)" "se_operation_id e = so_operation_id open"
      "se_state e = Open" "sa_capability (so_authz open) = stream_required_capability (se_kind e)"
      "caps_has caps (stream_required_capability (se_kind e))"
proof (cases "isl (fst (open_with_capabilities m open caps))")
  case True
  then have "\<exists>err. open_with_capabilities m open caps = (Inl err, m)"
    by (auto simp: open_with_capabilities_def Let_def split: if_splits)
  with refused show ?thesis by blast
next
  case False
  let ?e = "\<lparr>se_kind = sd_kind (so_descriptor open), se_operation_id = so_operation_id open,
    se_state = Open, se_close_reason = None, expected_seq = 0, recv_credit = 0, next_send_seq = 0,
    send_credit = 0\<rparr>"
  from False show ?thesis
    by (intro opened [of _ ?e])
       (auto simp: open_with_capabilities_def Let_def so_is_consistent_def authz_matches_kind_def
          bt_contains_def split: if_splits)
qed

lemma kinds_ok_open:
  assumes "kinds_ok P m" "caps_has caps (stream_required_capability k) \<Longrightarrow> P k"
    "k = sd_kind (so_descriptor open)"
  shows "kinds_ok P (snd (open_with_capabilities m open caps))"
  using assms by (cases rule: open_with_capabilities_cases [of m "open" caps]) (auto simp: kinds_ok_def)


section \<open>The session invariant\<close>

definition stream_permitted :: "capability_set \<Rightarrow> stream_kind \<Rightarrow> bool" where
  "stream_permitted caps kind \<longleftrightarrow> caps_has caps (stream_required_capability kind) \<and> supported_stream_kind kind"

definition session_inv :: "mux_session \<Rightarrow> bool" where
  [invs]: "session_inv ms \<longleftrightarrow>
     mux_inv (mux ms) \<and> kinds_ok (stream_permitted (ms_capabilities ms)) (mux ms) \<and>
     set (operation_order ms) = dom (bt_get (operations ms)) \<and> distinct (operation_order ms) \<and>
     length (operation_order ms) \<le> MAX_OPERATION_CONTEXTS \<and>
     (\<forall>k ctx. bt_get (operations ms) k = Some ctx \<longrightarrow>
        ctx_stream_kinds ctx = op_allowed_stream_kinds (ctx_kind ctx))"

interpretation operation_registry: fifo_registry "\<lambda>m. dom (bt_get m)" bt_remove
  by unfold_locales (rule dom_bt_remove)

lemma evict_operations_subset:
  "bt_get (snd (evict_oldest bt_remove n order m)) k = Some v \<Longrightarrow> bt_get m k = Some v"
proof -
  have "\<forall>v. bt_get (snd (evict_oldest bt_remove n order m)) k = Some v \<longrightarrow> bt_get m k = Some v"
    by (rule evict_oldest_preserves) simp_all
  then show "bt_get (snd (evict_oldest bt_remove n order m)) k = Some v \<Longrightarrow> bt_get m k = Some v"
    by blast
qed

lemma session_inv_initial: "session_inv (session_new peer)"
  by (simp add: session_inv_def session_new_def session_with_mux_def mux_new_def with_max_open_def
      mux_inv_initial kinds_ok_def) (simp add: with_limits_def dom_def)

lemma session_inv_on_mux:
  "session_inv ms \<Longrightarrow> mux_inv (snd (f (mux ms))) \<Longrightarrow>
   kinds_ok (stream_permitted (ms_capabilities ms)) (snd (f (mux ms))) \<Longrightarrow>
   session_inv (snd (on_mux f ms))"
  by (cases "f (mux ms)") (simp add: session_inv_def on_mux_def)

lemma session_inv_denial [simp]: "session_inv (record_stream_denial ms open err) = session_inv ms"
  by (simp add: session_inv_def record_stream_denial_def)

lemma route_plan_stream_kinds:
  "operation_route_plan_for kind = Some plan \<Longrightarrow> plan_stream_kinds plan = op_allowed_stream_kinds kind"
  by (auto simp: operation_route_plan_for_def plan_new_def Let_def split: if_splits)

lemma session_inv_register:
  assumes inv: "session_inv ms"
  shows "session_inv (snd (register_operation ms req))"
proof -
  let ?id = "req_operation_id req"
  have "session_inv (ms\<lparr>operations := snd r, operation_order := fst r\<rparr>)"
    if r: "r = evict_oldest bt_remove MAX_OPERATION_CONTEXTS (operation_order ms @ [?id])
             (bt_insert ?id ctx (operations ms))"
      and fresh: "\<not> bt_contains (operations ms) ?id"
      and kinds: "ctx_stream_kinds ctx = op_allowed_stream_kinds (ctx_kind ctx)" for r ctx
  proof -
    have "distinct (operation_order ms @ [?id])"
      "set (operation_order ms @ [?id]) = dom (bt_get (bt_insert ?id ctx (operations ms)))"
      using inv fresh by (auto simp: session_inv_def bt_contains_def)
    from operation_registry.tracked_evict [OF this, of MAX_OPERATION_CONTEXTS]
    have "set (fst r) = dom (bt_get (snd r))" "distinct (fst r)"
      unfolding r by simp_all
    moreover have "ctx_stream_kinds c = op_allowed_stream_kinds (ctx_kind c)"
      if "bt_get (snd r) k = Some c" for k c
      using evict_operations_subset [OF that [unfolded r]] inv kinds
      by (auto simp: session_inv_def split: if_splits)
    moreover have "length (fst r) \<le> MAX_OPERATION_CONTEXTS"
      unfolding r by (rule evict_oldest_bound)
    ultimately show ?thesis using inv by (simp add: session_inv_def)
  qed
  from this [OF refl] show ?thesis
    using inv by (auto simp: register_operation_def Let_def route_plan_stream_kinds case_prod_beta
        split: option.splits)
qed

lemma session_inv_unregister: "session_inv ms \<Longrightarrow> session_inv (unregister_operation ms op)"
  by (auto simp: session_inv_def unregister_operation_def split: if_splits
      intro: order_trans [OF length_filter_le])

lemma session_inv_unregister_correlation:
  "session_inv ms \<Longrightarrow> session_inv (unregister_operations_by_correlation_id ms c)"
  by (auto simp: session_inv_def unregister_operations_by_correlation_id_def Let_def
      split: option.splits if_splits intro: order_trans [OF length_filter_le])

lemma session_inv_unregister_error: "session_inv ms \<Longrightarrow> session_inv (unregister_for_error ms err)"
  by (simp add: unregister_for_error_def session_inv_unregister_correlation split: option.splits)

lemma admitted_supported: "ensure_stream_admitted ms open = Inr () \<Longrightarrow> supported_stream_kind (sd_kind (so_descriptor open))"
  by (auto simp: ensure_stream_admitted_def supported_stream_kind_def Let_def split: if_splits option.splits)

lemma session_inv_open:
  assumes "session_inv ms" "ensure_stream_admitted ms open = Inr ()"
  shows "session_inv (snd (on_mux (\<lambda>m. open_with_capabilities m open (ms_capabilities ms)) ms))"
  using assms admitted_supported [OF assms(2)]
  by (intro session_inv_on_mux mux_inv_open_call kinds_ok_open [OF _ _ refl])
     (auto simp: session_inv_def stream_permitted_def)

lemma snd_on_mux_simps [simp]:
  "mux (snd (on_mux f ms)) = snd (f (mux ms))" "fst (on_mux f ms) = fst (f (mux ms))"
  "operations (snd (on_mux f ms)) = operations ms" "ms_capabilities (snd (on_mux f ms)) = ms_capabilities ms"
  "negotiated (snd (on_mux f ms)) = negotiated ms" "operation_order (snd (on_mux f ms)) = operation_order ms"
  by (simp_all add: on_mux_def split: prod.splits)

lemma session_state_simps:
  "fst (snd (send_operation_request ms req)) = snd (register_operation ms req)"
  "fst (snd (session_grant_inbound ms s c)) = snd (on_mux (\<lambda>m. grant_inbound m s c) ms)"
  "fst (snd (send_data ms s ch b)) = snd (on_mux (\<lambda>m. reserve_send m s ch) ms)"
  "fst (snd (send_stream_close ms cl)) = snd (on_mux (\<lambda>m. mux_close m cl) ms)"
  "fst (snd (cancel_stream ms s)) = snd (on_mux (\<lambda>m. mux_cancel m s) ms)"
  "fst (snd (session_recv ms fr)) = snd (apply_inbound ms fr)"
  by (simp_all add: send_operation_request_def session_grant_inbound_def send_data_def
      send_stream_close_def cancel_stream_def session_recv_def split: prod.splits sum.splits)

lemma session_state_open:
  "fst (snd (session_open_stream ms open)) =
     (case ensure_stream_admitted ms open of
        Inl err \<Rightarrow> record_stream_denial ms open err
      | Inr _ \<Rightarrow> snd (on_mux (\<lambda>m. open_with_capabilities m open (ms_capabilities ms)) ms))"
  by (auto simp: session_open_stream_def split: prod.splits sum.splits)

lemma session_inv_mux_calls:
  assumes "session_inv ms"
  shows "session_inv (snd (on_mux (\<lambda>m. grant_inbound m s c) ms))"
    "session_inv (snd (on_mux (\<lambda>m. accept_data m d) ms))"
    "session_inv (snd (on_mux (\<lambda>m. receive_flow m f) ms))"
    "session_inv (snd (on_mux (\<lambda>m. reserve_send m s ch) ms))"
    "session_inv (snd (on_mux (\<lambda>m. mux_close m cl) ms))"
    "session_inv (snd (on_mux (\<lambda>m. mux_cancel m s) ms))"
  using assms
  by (simp_all add: session_inv_def mux_inv_calls kinds_ok_calls)

lemma apply_inbound_open:
  "snd (apply_inbound ms (Frame_StreamOpen open)) =
     (case ensure_stream_admitted ms open of
        Inl err \<Rightarrow> record_stream_denial ms open err
      | Inr _ \<Rightarrow>
          let ms' = snd (on_mux (\<lambda>m. open_with_capabilities m open (ms_capabilities ms)) ms)
          in if is_ok (fst (apply_inbound ms (Frame_StreamOpen open))) then ms'
             else record_stream_denial ms' open (projl (fst (apply_inbound ms (Frame_StreamOpen open)))))"
  by (auto simp: apply_inbound_def Let_def split: sum.splits prod.splits)

lemma session_inv_inbound:
  assumes "session_inv ms"
  shows "session_inv (snd (apply_inbound ms frame))"
proof (cases frame)
  case (Frame_StreamOpen op)
  then show ?thesis
    using assms session_inv_open [OF assms, of op]
    by (auto simp: apply_inbound_open Let_def simp del: snd_on_mux_simps split: sum.splits)
qed (use assms in \<open>simp_all add: apply_inbound_def session_inv_mux_calls session_inv_unregister
       session_inv_unregister_error\<close>)

lemma session_inv_apply:
  assumes "session_inv ms"
  shows "session_inv (session_apply c ms)"
proof (cases c)
  case (Session_open op)
  then show ?thesis
    using assms session_inv_open [OF assms, of op] by (auto simp: session_state_open split: sum.splits)
qed (use assms in \<open>simp_all add: session_state_simps session_inv_mux_calls session_inv_register
       session_inv_unregister session_inv_unregister_error session_inv_inbound
       send_operation_response_def send_typed_error_def\<close>)

lemma session_inv_run: "session_inv ms \<Longrightarrow> session_inv (session_run calls ms)"
  unfolding session_run_def by (induction calls arbitrary: ms) (simp_all add: session_inv_apply)

lemma session_caps [simp]:
  "ms_capabilities (session_apply c ms) = ms_capabilities ms \<and> negotiated (session_apply c ms) = negotiated ms"
proof (cases c)
  case (Session_recv fr)
  show ?thesis
  proof (cases fr)
    case (Frame_StreamOpen op)
    with Session_recv show ?thesis
      by (simp add: session_state_simps apply_inbound_open Let_def record_stream_denial_def
          split: sum.splits)
  qed (auto simp: Session_recv session_state_simps apply_inbound_def Let_def unregister_operation_def
      unregister_for_error_def unregister_operations_by_correlation_id_def split: option.splits)
qed (auto simp: session_state_simps session_state_open register_operation_def unregister_operation_def
    send_operation_response_def send_typed_error_def unregister_for_error_def Let_def
    unregister_operations_by_correlation_id_def record_stream_denial_def
    split: sum.splits option.splits prod.splits)

lemma session_run_caps [simp]: "ms_capabilities (session_run calls ms) = ms_capabilities ms"
  unfolding session_run_def by (induction calls arbitrary: ms) simp_all


section \<open>How a stream comes to be open\<close>

definition admission_grounds :: "mux_session \<Rightarrow> stream_open \<Rightarrow> bool" where
  "admission_grounds ms open \<longleftrightarrow>
     (if sd_kind (so_descriptor open) = Kind_Control
      then sa_principal (so_authz open) = connection_principal ms \<and> sa_realm (so_authz open) = local
      else (case bt_get (operations ms) (so_operation_id open) of
              None \<Rightarrow> False
            | Some ctx \<Rightarrow>
                ctx_principal ctx = sa_principal (so_authz open) \<and> ctx_realm ctx = sa_realm (so_authz open) \<and>
                sd_kind (so_descriptor open) \<in> set (op_allowed_stream_kinds (ctx_kind ctx))))"

lemma admitted_grounds:
  "session_inv ms \<Longrightarrow> ensure_stream_admitted ms open = Inr () \<Longrightarrow> admission_grounds ms open"
  by (auto simp: ensure_stream_admitted_def admission_grounds_def session_inv_def Let_def
      split: if_splits option.splits)

lemma live_mux_calls:
  assumes "live_entry m s = None"
  shows "live_entry (snd (grant_inbound m t c)) s = None" "live_entry (snd (accept_data m d)) s = None"
    "live_entry (snd (receive_flow m f)) s = None" "live_entry (snd (reserve_send m t ch)) s = None"
    "live_entry (snd (mux_close m cl)) s = None" "live_entry (snd (mux_cancel m t)) s = None"
proof -
  have "open_entry m s \<noteq> Inr e" for e using assms by (auto simp: live_entry_def)
  then have upd: "live_entry (put_entry t e' m) s = None" if "open_entry m t = Inr e" "se_state e' = Open" for t e e'
    using that assms by (cases "s = t") (auto simp: live_entry_put)
  show "live_entry (snd (grant_inbound m t c)) s = None" "live_entry (snd (accept_data m d)) s = None"
    "live_entry (snd (receive_flow m f)) s = None" "live_entry (snd (reserve_send m t ch)) s = None"
    using assms upd by (auto simp: grant_inbound_def accept_data_def receive_flow_def reserve_send_def
        Let_def open_entry_Inr split: sum.splits)
  show "live_entry (snd (mux_close m cl)) s = None" "live_entry (snd (mux_cancel m t)) s = None"
    using assms live_mux_close [of m cl s] live_mux_cancel [of m t s] by auto
qed

lemma live_open:
  assumes "live_entry m s = None" "live_entry (snd (open_with_capabilities m open caps)) s = Some e"
  shows "s = sd_id (so_descriptor open) \<and> se_kind e = sd_kind (so_descriptor open) \<and>
         se_operation_id e = so_operation_id open \<and> caps_has caps (stream_required_capability (se_kind e))"
  using assms
  by (cases rule: open_with_capabilities_cases [of m "open" caps])
     (auto simp: live_entry_def open_entry_def split: if_splits)

lemma mux_unchanged [simp]:
  "mux (record_stream_denial ms open err) = mux ms" "mux (unregister_operation ms op) = mux ms"
  "mux (unregister_for_error ms err) = mux ms" "mux (snd (register_operation ms req)) = mux ms"
  by (auto simp: record_stream_denial_def unregister_operation_def unregister_for_error_def
      unregister_operations_by_correlation_id_def register_operation_def Let_def
      split: option.splits prod.splits)

lemma opened_by:
  assumes "live_entry (mux ms) s = None" "live_entry (mux (session_apply c ms)) s = Some e"
  obtains op where "c = Session_open op \<or> c = Session_recv (Frame_StreamOpen op)"
    "ensure_stream_admitted ms op = Inr ()"
    "live_entry (snd (open_with_capabilities (mux ms) op (ms_capabilities ms))) s = Some e"
proof (cases c)
  case (Session_open op)
  with assms that [of op] show ?thesis
    by (auto simp: session_state_open split: sum.splits)
next
  case (Session_recv fr)
  show ?thesis
  proof (cases fr)
    case (Frame_StreamOpen op)
    with assms Session_recv that [of op] show ?thesis
      by (auto simp: session_state_simps apply_inbound_open Let_def split: sum.splits if_splits)
  qed (use assms Session_recv in
        \<open>auto simp: session_state_simps apply_inbound_def live_mux_calls\<close>)
qed (use assms in \<open>auto simp: session_state_simps live_mux_calls send_operation_response_def send_typed_error_def\<close>)



section \<open>Properties\<close>

definition demo_handshake :: handshake where
  "demo_handshake =
     \<lparr>protocol_version = 1, codec_id = ''protobuf.v1'', schema_fingerprint = ''pb.v1'',
      hs_capabilities = \<lparr>schema_version = 1, capabilities = from_caps [Cap_Exec, Cap_Logs], fingerprint = ''x''\<rparr>,
      hs_peer = None\<rparr>"

definition demo_request :: operation_request where
  "demo_request =
     \<lparr>req_operation_id = ''op-1'', req_correlation_id = ''corr-1'', req_idempotency_key = Some ''k1'',
      req_realm = local, req_node = ''n1'', req_workload = Some ''vm1'', req_principal = ''alice'',
      req_kind = Op_ExecStart, req_trace = None, req_body = []\<rparr>"

definition demo_session :: mux_session where
  "demo_session = session_run [Session_register demo_request] (session_new demo_handshake)"

definition demo_stream :: stream_open where
  "demo_stream = demo_open ''s1'' Kind_Stdio"

lemmas session_eval = demo_session_def session_run_def session_new_def session_with_mux_def mux_new_def
  with_max_open_def register_operation_def operation_route_plan_for_def plan_new_def
  plan_streams_supported_def supported_stream_kind_def demo_handshake_def demo_request_def
  demo_stream_def ensure_stream_admitted_def on_mux_def evict_oldest_noop MAX_OPERATION_CONTEXTS_def
  DEFAULT_MAX_OPEN_STREAMS_def op_requires_workload_def session_state_open mux_eval live_entry_def

text \<open>Every stream a session has open, however it was driven since the handshake, is of a kind this
  router implements, and the negotiated capability set contains the capability of that kind.\<close>

theorem open_streams_permitted:
  assumes "live_entry (mux (session_run calls (session_new peer))) s = Some e"
  shows "supported_stream_kind (se_kind e) \<and>
         caps_has (capabilities (hs_capabilities peer)) (stream_required_capability (se_kind e))"
proof -
  let ?ms = "session_run calls (session_new peer)"
  have "session_inv ?ms" by (intro session_inv_run session_inv_initial)
  then have "kinds_ok (stream_permitted (ms_capabilities ?ms)) (mux ?ms)"
    by (simp add: session_inv_def)
  from kinds_okD [OF this, of s e] assms show ?thesis
    by (auto simp: live_entry_Some stream_permitted_def session_new_def session_with_mux_def)
qed

lemma open_streams_permitted_witness:
  "\<exists>e. live_entry (mux (session_run [Session_register demo_request, Session_open demo_stream]
          (session_new demo_handshake))) ''s1'' = Some e \<and> supported_stream_kind (se_kind e)"
proof -
  have "live_entry (mux (session_run [Session_register demo_request, Session_open demo_stream]
          (session_new demo_handshake))) ''s1'' \<noteq> None"
    by (simp add: session_eval)
  then obtain e where e: "live_entry (mux (session_run [Session_register demo_request, Session_open demo_stream]
          (session_new demo_handshake))) ''s1'' = Some e"
    by blast
  with open_streams_permitted [OF e] show ?thesis by blast
qed

text \<open>C2. A stream becomes open only through a local or an inbound stream-open whose authorization
  holds at that moment: a control stream needs the session's own principal and the local realm, any
  other stream a registered operation with the same principal and realm whose kind allows that
  stream kind; in both cases the capability of the kind must have been negotiated.\<close>

theorem stream_open_authorized:
  assumes "ms = session_run calls (session_new peer)"
    and "live_entry (mux ms) s = None" "live_entry (mux (session_apply c ms)) s = Some e"
  shows "\<exists>op. (c = Session_open op \<or> c = Session_recv (Frame_StreamOpen op)) \<and>
    sd_id (so_descriptor op) = s \<and> sd_kind (so_descriptor op) = se_kind e \<and>
    so_operation_id op = se_operation_id e \<and> admission_grounds ms op \<and>
    caps_has (ms_capabilities ms) (stream_required_capability (se_kind e))"
proof -
  have inv: "session_inv ms" unfolding assms(1) by (intro session_inv_run session_inv_initial)
  from assms(2,3) obtain op where op: "c = Session_open op \<or> c = Session_recv (Frame_StreamOpen op)"
    "ensure_stream_admitted ms op = Inr ()"
    "live_entry (snd (open_with_capabilities (mux ms) op (ms_capabilities ms))) s = Some e"
    by (rule opened_by)
  show ?thesis
    using op(1) live_open [OF assms(2) op(3)] admitted_grounds [OF inv op(2)]
    by (intro exI [of _ op]) auto
qed

lemma stream_open_authorized_witness:
  "\<exists>op e. Session_open demo_stream = Session_open op \<and>
     live_entry (mux (session_apply (Session_open demo_stream) demo_session)) ''s1'' = Some e \<and>
     admission_grounds demo_session op"
proof -
  have none: "live_entry (mux demo_session) ''s1'' = None"
    by (simp add: session_eval)
  have "live_entry (mux (session_apply (Session_open demo_stream) demo_session)) ''s1'' \<noteq> None"
    by (simp add: session_eval)
  then obtain e where e: "live_entry (mux (session_apply (Session_open demo_stream) demo_session)) ''s1'' = Some e"
    by blast
  with stream_open_authorized [OF demo_session_def none e] show ?thesis by blast
qed

text \<open>A refused inbound stream-open changes neither the streams nor the registered operations, and
  is answered with exactly one admission-audit frame: a denial that names the error, the principal of
  the connection (never one the peer wrote into the request), and the operation's realm, node and
  trace only if the error is tied to that operation.\<close>

theorem refused_open_audited:
  assumes "apply_inbound ms (Frame_StreamOpen op) = (Inl err, ms')"
  shows "\<exists>record. session_recv ms (Frame_StreamOpen op) = (Inl err, ms', [Frame_AdmissionAudit record]) \<and>
    last_admission_denial ms' = Some record \<and> mux ms' = mux ms \<and> operations ms' = operations ms \<and>
    aar_decision record = Deny \<and> aar_reason record = err_kind err \<and>
    aar_principal record = Some (connection_principal ms) \<and>
    (aar_realm record, aar_node record, aar_trace record) =
      (case (err_correlation_id err, bt_get (operations ms) (so_operation_id op)) of
         (Some _, Some ctx) \<Rightarrow> (ctx_realm ctx, ctx_node ctx, ctx_trace ctx)
       | _ \<Rightarrow> (local, ''unknown'', None))"
proof -
  have "\<exists>ms0. ms' = record_stream_denial ms0 op err \<and> mux ms0 = mux ms \<and> operations ms0 = operations ms \<and>
          negotiated ms0 = negotiated ms"
  proof (cases "ensure_stream_admitted ms op")
    case (Inl e)
    with assms show ?thesis by (auto simp: apply_inbound_def)
  next
    case (Inr u)
    let ?r = "on_mux (\<lambda>m. open_with_capabilities m op (ms_capabilities ms)) ms"
    from Inr assms have "isl (fst ?r)" "ms' = record_stream_denial (snd ?r) op err"
      by (auto simp: apply_inbound_def Let_def simp del: snd_on_mux_simps split: sum.splits prod.splits)
    moreover from \<open>isl (fst ?r)\<close> have "mux (snd ?r) = mux ms"
      by (cases rule: open_with_capabilities_cases [of "mux ms" op "ms_capabilities ms"]) auto
    ultimately show ?thesis by (intro exI [of _ "snd ?r"]) simp
  qed
  with assms show ?thesis
    by (auto simp: session_recv_def record_stream_denial_def denial_record_def audit_denied_def Let_def
        audit_principal_for_denial_def connection_principal_def negotiated_principal_def
        split: option.splits)
qed

lemma refused_open_audited_witness:
  "\<exists>err ms' record.
     apply_inbound (session_new demo_handshake) (Frame_StreamOpen demo_stream) = (Inl err, ms') \<and>
     session_recv (session_new demo_handshake) (Frame_StreamOpen demo_stream) =
       (Inl err, ms', [Frame_AdmissionAudit record]) \<and> aar_principal record = Some ''unverified''"
proof -
  have "isl (fst (apply_inbound (session_new demo_handshake) (Frame_StreamOpen demo_stream)))"
    by (simp add: apply_inbound_def session_eval)
  then obtain err ms' where
    r: "apply_inbound (session_new demo_handshake) (Frame_StreamOpen demo_stream) = (Inl err, ms')"
    by (metis isl_def prod.collapse)
  have "connection_principal (session_new demo_handshake) = ''unverified''"
    by (simp add: connection_principal_def negotiated_principal_def session_eval)
  with r refused_open_audited [OF r] show ?thesis by auto
qed

end
