(* ===== verification/Routing_Model.thy ===== *)
theory Routing_Model
  imports Frames
begin

text \<open>
  The route metadata of \<open>d2b-realm-core/src/routing.rs\<close>: advertisements, namespace allocations,
  tree paths, admission and shortcut records, with the checks their constructors make. Structs are
  records; a constructor \<open>new\<close> that may refuse is a function to an option. The decoders of the
  source call these constructors, so a decoded value satisfies what they check.
\<close>

section \<open>Bounds and references\<close>

definition MAX_ADVERTISED_ROUTES :: nat where
  "MAX_ADVERTISED_ROUTES = 64"

definition MAX_SIGNATURE_REF_LEN :: nat where
  "MAX_SIGNATURE_REF_LEN = 128"

definition MAX_ROUTE_METADATA_REF_LEN :: nat where
  "MAX_ROUTE_METADATA_REF_LEN = 128"

definition MAX_ROUTE_NAMESPACE_PREFIXES :: nat where
  "MAX_ROUTE_NAMESPACE_PREFIXES = 16"

definition MAX_ROUTE_PATH_HOPS :: nat where
  "MAX_ROUTE_PATH_HOPS = 32"

definition MAX_DISCOVERY_QUEUE_DEPTH :: u32 where
  "MAX_DISCOVERY_QUEUE_DEPTH = 4096"

definition MAX_UNVERIFIED_PEERS :: u32 where
  "MAX_UNVERIFIED_PEERS = 1024"

definition MAX_PREAUTH_RATE_LIMIT_PER_MINUTE :: u32 where
  "MAX_PREAUTH_RATE_LIMIT_PER_MINUTE = 60000"

definition MAX_REPLAY_WINDOW_ENTRIES :: u32 where
  "MAX_REPLAY_WINDOW_ENTRIES = 1000000"

definition MAX_REPLAY_WINDOW_TTL_SECONDS :: u64 where
  "MAX_REPLAY_WINDOW_TTL_SECONDS = 86400"

definition REF_MARKERS :: "string list" where
  "REF_MARKERS =
     [''secret'', ''password'', ''passwd'', ''bearer'', ''credential'', ''privatekey'', ''token'',
      ''endpoint'', ''socketpath'']"

definition valid_metadata_ref :: "string \<Rightarrow> bool" where
  "valid_metadata_ref raw = (case raw of
      [] \<Rightarrow> False
    | first # _ \<Rightarrow>
        length raw \<le> MAX_ROUTE_METADATA_REF_LEN \<and> is_ascii_alphanumeric first \<and>
        \<not> str_contains raw ''..'' \<and>
        list_all (\<lambda>c. is_ascii_alphanumeric c \<or> c \<in> set '':-_.'') raw \<and>
        (let compact = map to_lowercase (filter (\<lambda>c. c \<notin> set '':-_.'') raw)
         in \<not> list_ex (str_contains compact) REF_MARKERS))"

type_synonym unverified_peer_ref = string
type_synonym policy_rule_id = string
type_synonym replay_window_id = string
type_synonym shortcut_id = string
type_synonym signature_ref = string
type_synonym key_fingerprint = string

definition route_ref_parse :: "string \<Rightarrow> string option" where
  "route_ref_parse raw = (if valid_metadata_ref raw then Some raw else None)"

definition signature_ref_parse :: "string \<Rightarrow> signature_ref option" where
  "signature_ref_parse raw = (case raw of
      [] \<Rightarrow> None
    | first # _ \<Rightarrow>
        if MAX_SIGNATURE_REF_LEN < length raw \<or> \<not> is_ascii_alphanumeric first \<or>
           \<not> list_all (\<lambda>c. is_ascii_alphanumeric c \<or> c \<in> set '':-_.'') raw
        then None else Some raw)"


section \<open>Reasons, classes and events\<close>

datatype route_fail_closed_reason =
    Fail_MalformedAdvert | Fail_UnknownParent | Fail_NamespaceViolation
    | Fail_SiblingOrParentRouteAdvert | Fail_Loop | Fail_MultiParent | Fail_Expired
    | Fail_Replay | Fail_RateLimited | Fail_QueueFullDropNew | Fail_MissingCapability
    | Fail_PolicyDenial

primrec reason_label :: "route_fail_closed_reason \<Rightarrow> string" where
  "reason_label Fail_MalformedAdvert = ''malformed-advert''"
| "reason_label Fail_UnknownParent = ''unknown-parent''"
| "reason_label Fail_NamespaceViolation = ''namespace-violation''"
| "reason_label Fail_SiblingOrParentRouteAdvert = ''sibling-or-parent-route-advert''"
| "reason_label Fail_Loop = ''loop''"
| "reason_label Fail_MultiParent = ''multi-parent''"
| "reason_label Fail_Expired = ''expired''"
| "reason_label Fail_Replay = ''replay''"
| "reason_label Fail_RateLimited = ''rate-limited''"
| "reason_label Fail_QueueFullDropNew = ''queue-full-drop-new''"
| "reason_label Fail_MissingCapability = ''missing-capability''"
| "reason_label Fail_PolicyDenial = ''policy-denial''"

datatype discovery_ingress_class =
    Ingress_LocalRoot | Ingress_ParentRelay | Ingress_ChildRelay | Ingress_ProviderRelay
    | Ingress_StaticConfig | Ingress_Unknown

datatype route_realm_class =
    Class_LocalRoot | Class_StaticConfigured | Class_HostLocalPeer | Class_GatewayBacked
    | Class_CloudFullHost | Class_ProviderManaged | Class_EphemeralDiscovered | Class_Unknown

primrec realm_class_label :: "route_realm_class \<Rightarrow> string" where
  "realm_class_label Class_LocalRoot = ''local-root''"
| "realm_class_label Class_StaticConfigured = ''static-configured''"
| "realm_class_label Class_HostLocalPeer = ''host-local-peer''"
| "realm_class_label Class_GatewayBacked = ''gateway-backed''"
| "realm_class_label Class_CloudFullHost = ''cloud-full-host''"
| "realm_class_label Class_ProviderManaged = ''provider-managed''"
| "realm_class_label Class_EphemeralDiscovered = ''ephemeral-discovered''"
| "realm_class_label Class_Unknown = ''unknown''"

datatype route_placement_class =
    Place_HostLocal | Place_GatewayVm | Place_CloudFullHost | Place_ProviderController
    | Place_ProviderAgent | Place_ProviderSpecific | Place_Unknown

primrec placement_label :: "route_placement_class \<Rightarrow> string" where
  "placement_label Place_HostLocal = ''host-local''"
| "placement_label Place_GatewayVm = ''gateway-vm''"
| "placement_label Place_CloudFullHost = ''cloud-full-host''"
| "placement_label Place_ProviderController = ''provider-controller''"
| "placement_label Place_ProviderAgent = ''provider-agent''"
| "placement_label Place_ProviderSpecific = ''provider-specific''"
| "placement_label Place_Unknown = ''unknown''"

datatype realm_controller_placement =
    HostLocal | GatewayVm | CloudFullHost | ProviderController string | ProviderAgent string
  | ProviderSpecific string protocol_token

primrec placement_class :: "realm_controller_placement \<Rightarrow> route_placement_class" where
  "placement_class HostLocal = Place_HostLocal"
| "placement_class GatewayVm = Place_GatewayVm"
| "placement_class CloudFullHost = Place_CloudFullHost"
| "placement_class (ProviderController provider) = Place_ProviderController"
| "placement_class (ProviderAgent provider) = Place_ProviderAgent"
| "placement_class (ProviderSpecific provider placement) = Place_ProviderSpecific"

datatype route_audit_event_kind =
    Event_DiscoveryQueued | Event_DiscoveryDropped | Event_SessionAdmitted
    | Event_SessionDenied | Event_AdvertisementAccepted | Event_AdvertisementDenied
    | Event_RouteAllowed | Event_RouteDenied | Event_ShortcutAuthorized | Event_ShortcutDenied
    | Event_ShortcutTornDown

datatype route_telemetry_counter_kind =
    Count_ApiLatencyCount | Count_ApiErrorCount | Count_DiscoveryQueueDepth
    | Count_DiscoveryDropNewCount | Count_PreAuthRateLimitHitCount
    | Count_RouteAdvertisementAcceptedCount | Count_RouteAdvertisementDeniedCount
    | Count_RouteDecisionAllowedCount | Count_RouteDecisionDeniedCount
    | Count_ShortcutAuthorizedCount | Count_ShortcutDeniedCount | Count_RevocationTeardownCount
    | Count_SessionTeardownCount

primrec counter_label :: "route_telemetry_counter_kind \<Rightarrow> string" where
  "counter_label Count_ApiLatencyCount = ''api-latency-count''"
| "counter_label Count_ApiErrorCount = ''api-error-count''"
| "counter_label Count_DiscoveryQueueDepth = ''discovery-queue-depth''"
| "counter_label Count_DiscoveryDropNewCount = ''discovery-drop-new-count''"
| "counter_label Count_PreAuthRateLimitHitCount = ''pre-auth-rate-limit-hit-count''"
| "counter_label Count_RouteAdvertisementAcceptedCount = ''route-advertisement-accepted-count''"
| "counter_label Count_RouteAdvertisementDeniedCount = ''route-advertisement-denied-count''"
| "counter_label Count_RouteDecisionAllowedCount = ''route-decision-allowed-count''"
| "counter_label Count_RouteDecisionDeniedCount = ''route-decision-denied-count''"
| "counter_label Count_ShortcutAuthorizedCount = ''shortcut-authorized-count''"
| "counter_label Count_ShortcutDeniedCount = ''shortcut-denied-count''"
| "counter_label Count_RevocationTeardownCount = ''revocation-teardown-count''"
| "counter_label Count_SessionTeardownCount = ''session-teardown-count''"

record route_audit_labels =
  al_event :: route_audit_event_kind
  al_source_class :: route_realm_class
  al_target_class :: route_realm_class
  al_placement :: route_placement_class
  al_operation_kind :: operation_kind
  al_reason :: "route_fail_closed_reason option"
  al_policy_rule_id :: "policy_rule_id option"

record route_telemetry_labels =
  tl_source_class :: route_realm_class
  tl_target_class :: route_realm_class
  tl_placement :: route_placement_class
  tl_operation_kind :: "operation_kind option"
  tl_reason :: "route_fail_closed_reason option"

record route_telemetry_sample =
  ts_counter :: route_telemetry_counter_kind
  ts_labels :: route_telemetry_labels
  ts_value :: u64


section \<open>Discovery and replay metadata\<close>

datatype discovery_queue_drop_policy = DropNew

record discovery_queue_policy =
  max_depth :: u32
  max_unverified_peers :: u32
  per_relay_rate_limit :: u32
  per_peer_rate_limit :: u32
  drop_policy :: discovery_queue_drop_policy

definition discovery_queue_policy_new ::
    "u32 \<Rightarrow> u32 \<Rightarrow> u32 \<Rightarrow> u32 \<Rightarrow> discovery_queue_drop_policy \<Rightarrow> discovery_queue_policy option" where
  "discovery_queue_policy_new depth peers relay_rate peer_rate policy =
     (if depth = 0 \<or> MAX_DISCOVERY_QUEUE_DEPTH < depth \<or>
         peers = 0 \<or> MAX_UNVERIFIED_PEERS < peers \<or>
         relay_rate = 0 \<or> MAX_PREAUTH_RATE_LIMIT_PER_MINUTE < relay_rate \<or>
         peer_rate = 0 \<or> MAX_PREAUTH_RATE_LIMIT_PER_MINUTE < peer_rate
      then None
      else Some \<lparr>max_depth = depth, max_unverified_peers = peers, per_relay_rate_limit = relay_rate,
                 per_peer_rate_limit = peer_rate, drop_policy = policy\<rparr>)"

datatype pre_auth_admission_outcome = Queued | Dropped route_fail_closed_reason

record unverified_admission =
  ua_attempt_id :: operation_id
  ua_correlation_id :: correlation_id
  ua_trace :: "trace_context option"
  ua_peer_ref :: unverified_peer_ref
  ua_ingress_class :: discovery_ingress_class
  ua_claimed_realm :: "realm_path option"
  ua_queue_depth :: u32
  ua_outcome :: pre_auth_admission_outcome

definition unverified_admission_new :: "unverified_admission \<Rightarrow> unverified_admission option" where
  "unverified_admission_new a = (if MAX_DISCOVERY_QUEUE_DEPTH < ua_queue_depth a then None else Some a)"

record replay_window_metadata =
  rw_id :: replay_window_id
  rw_max_entries :: u32
  rw_current_entries :: u32
  rw_ttl_seconds :: u64
  rw_observed_replay_count :: u32
  rw_opened_at :: u64

definition replay_window_new :: "replay_window_metadata \<Rightarrow> replay_window_metadata option" where
  "replay_window_new w =
     (if rw_max_entries w = 0 \<or> MAX_REPLAY_WINDOW_ENTRIES < rw_max_entries w \<or>
         rw_max_entries w < rw_current_entries w \<or>
         rw_ttl_seconds w = 0 \<or> MAX_REPLAY_WINDOW_TTL_SECONDS < rw_ttl_seconds w \<or>
         MAX_REPLAY_WINDOW_ENTRIES < rw_observed_replay_count w
      then None else Some w)"


section \<open>Tree edges and advertisements\<close>

record realm_tree_edge =
  edge_parent :: realm_path
  edge_child :: realm_path

definition realm_tree_edge_new :: "realm_path \<Rightarrow> realm_path \<Rightarrow> realm_tree_edge option" where
  "realm_tree_edge_new parent child =
     (if is_direct_child_of child parent then Some \<lparr>edge_parent = parent, edge_child = child\<rparr> else None)"

definition next_hop_child :: "realm_path \<Rightarrow> realm_path \<Rightarrow> realm_id option" where
  "next_hop_child descendant advertiser =
     (case checked_sub (length (labels descendant)) (length (labels advertiser) + 1) of
        None \<Rightarrow> None
      | Some i \<Rightarrow> if i < length (labels descendant) then Some (labels descendant ! i) else None)"

record descendant_route =
  dr_route_id :: route_id
  dr_descendant :: realm_path
  dr_next_hop_child :: realm_id
  dr_capabilities :: capability_set

datatype realm_key_role = RealmIdentity | ParentTrustAnchor | ChildIdentity | ControllerGeneration

record route_signature =
  sig_algorithm :: protocol_token
  sig_key_role :: realm_key_role
  sig_key_fingerprint :: key_fingerprint
  sig_ref :: signature_ref

record route_advertisement =
  ad_realm :: realm_path
  ad_tree_edge :: realm_tree_edge
  ad_generation :: generation_id
  ad_routes :: "descendant_route list"
  ad_issued_at :: u64
  ad_expires_at :: u64
  ad_signature :: route_signature

definition route_advertisement_new :: "route_advertisement \<Rightarrow> route_advertisement option" where
  "route_advertisement_new ad =
     (if edge_child (ad_tree_edge ad) \<noteq> ad_realm ad \<or> ad_routes ad = [] \<or>
         MAX_ADVERTISED_ROUTES < length (ad_routes ad) \<or> ad_expires_at ad \<le> ad_issued_at ad \<or>
         list_ex (\<lambda>r. \<not> is_descendant_of (dr_descendant r) (ad_realm ad) \<or>
                      next_hop_child (dr_descendant r) (ad_realm ad) \<noteq> Some (dr_next_hop_child r))
           (ad_routes ad)
      then None else Some ad)"

record route_advertisement_envelope =
  env_admission :: unverified_admission
  env_replay_window :: replay_window_metadata
  env_correlation_id :: correlation_id
  env_trace :: "trace_context option"
  env_advertisement :: route_advertisement
  env_received_at :: u64

record route_namespace_allocation =
  alloc_tree_edge :: realm_tree_edge
  alloc_generation :: generation_id
  alloc_prefixes :: "realm_path list"
  alloc_max_routes :: u32
  alloc_ceiling :: capability_set

definition route_namespace_allocation_new ::
    "route_namespace_allocation \<Rightarrow> route_namespace_allocation option" where
  "route_namespace_allocation_new a =
     (let child = edge_child (alloc_tree_edge a) in
      if alloc_prefixes a = [] \<or> MAX_ROUTE_NAMESPACE_PREFIXES < length (alloc_prefixes a) \<or>
         alloc_max_routes a = 0 \<or> MAX_ADVERTISED_ROUTES < unat (alloc_max_routes a) \<or>
         list_ex (\<lambda>prefix. prefix \<noteq> child \<and> \<not> is_descendant_of prefix child) (alloc_prefixes a)
      then None else Some a)"


section \<open>Tree paths\<close>

datatype tree_route_hop_direction = UpToParent | DownToChild

record tree_route_hop =
  hop_from :: realm_path
  hop_to :: realm_path
  hop_edge :: realm_tree_edge
  hop_direction :: tree_route_hop_direction
  hop_route_id :: "route_id option"

definition tree_route_hop_new ::
    "realm_path \<Rightarrow> realm_path \<Rightarrow> realm_tree_edge \<Rightarrow> tree_route_hop_direction \<Rightarrow> route_id option \<Rightarrow>
     tree_route_hop option" where
  "tree_route_hop_new src dst edge direction route =
     (if (case direction of
            UpToParent \<Rightarrow> src = edge_child edge \<and> dst = edge_parent edge
          | DownToChild \<Rightarrow> src = edge_parent edge \<and> dst = edge_child edge)
      then Some \<lparr>hop_from = src, hop_to = dst, hop_edge = edge, hop_direction = direction,
                 hop_route_id = route\<rparr>
      else None)"

record tree_route_path =
  path_source :: realm_path
  path_target :: realm_path
  path_ancestor :: realm_path
  path_hops :: "tree_route_hop list"

fun hops_contiguous :: "tree_route_hop list \<Rightarrow> bool" where
  "hops_contiguous (a # b # rest) \<longleftrightarrow> hop_to a = hop_from b \<and> hops_contiguous (b # rest)"
| "hops_contiguous _ \<longleftrightarrow> True"

definition tree_route_path_new ::
    "realm_path \<Rightarrow> realm_path \<Rightarrow> realm_path \<Rightarrow> tree_route_hop list \<Rightarrow> tree_route_path option" where
  "tree_route_path_new src dst ancestor hops =
     (if MAX_ROUTE_PATH_HOPS < length hops then None
      else if hops \<noteq> [] \<and> hop_from (hd hops) \<noteq> src then None
      else if hops \<noteq> [] \<and> hop_to (last hops) \<noteq> dst then None
      else if \<not> hops_contiguous hops then None
      else if \<not> is_descendant_of src ancestor \<and> src \<noteq> ancestor then None
      else if \<not> is_descendant_of dst ancestor \<and> dst \<noteq> ancestor then None
      else Some \<lparr>path_source = src, path_target = dst, path_ancestor = ancestor, path_hops = hops\<rparr>)"

datatype tree_route_decision_outcome = Allowed tree_route_path | Denied route_fail_closed_reason

record tree_route_decision =
  dec_decision_id :: operation_id
  dec_correlation_id :: correlation_id
  dec_trace :: "trace_context option"
  dec_source :: realm_path
  dec_target :: realm_path
  dec_operation_kind :: operation_kind
  dec_required_capability :: "capability option"
  dec_policy_rule_id :: "policy_rule_id option"
  dec_outcome :: tree_route_decision_outcome


section \<open>Direct shortcuts\<close>

datatype direct_shortcut_state =
    Shortcut_Authorized | Shortcut_Established | Shortcut_TeardownRequested | Shortcut_TornDown
  | Shortcut_Denied

record direct_shortcut_metadata =
  sc_id :: shortcut_id
  sc_correlation_id :: correlation_id
  sc_trace :: "trace_context option"
  sc_ancestor :: realm_path
  sc_source :: realm_path
  sc_target :: realm_path
  sc_operation_kind :: operation_kind
  sc_required_capability :: "capability option"
  sc_path :: tree_route_path
  sc_policy_rule_id :: "policy_rule_id option"
  sc_state :: direct_shortcut_state
  sc_issued_at :: u64
  sc_expires_at :: u64

definition direct_shortcut_metadata_new :: "direct_shortcut_metadata \<Rightarrow> direct_shortcut_metadata option" where
  "direct_shortcut_metadata_new m =
     (if sc_expires_at m \<le> sc_issued_at m \<or> path_source (sc_path m) \<noteq> sc_source m \<or>
         path_target (sc_path m) \<noteq> sc_target m \<or> path_ancestor (sc_path m) \<noteq> sc_ancestor m
      then None else Some m)"

datatype direct_shortcut_teardown_reason =
    Teardown_Completed | Teardown_Expired | Teardown_PolicyRevoked | Teardown_RouteRevoked
  | Teardown_TransportUnavailable | Teardown_PeerDisconnected

record direct_shortcut_teardown =
  td_shortcut_id :: shortcut_id
  td_correlation_id :: correlation_id
  td_trace :: "trace_context option"
  td_source :: realm_path
  td_target :: realm_path
  td_reason :: direct_shortcut_teardown_reason
  td_torn_down_at :: u64


section \<open>Lemmas\<close>

lemma realm_tree_edge_new_Some:
  "realm_tree_edge_new a c = Some e \<longleftrightarrow> is_direct_child_of c a \<and> e = \<lparr>edge_parent = a, edge_child = c\<rparr>"
  by (auto simp: realm_tree_edge_new_def)

lemma next_hop_child_descendant:
  assumes "labels d = zs @ labels a" "zs \<noteq> []"
  shows "next_hop_child d a = Some (last zs)"
  using assms by (cases zs rule: rev_cases) (simp_all add: next_hop_child_def checked_sub_def nth_append)

end
