(* ===== verification/Route_Engine.thy ===== *)
theory Route_Engine
  imports Routing_Model "HOL-Library.Product_Lexorder"
begin

text \<open>
  The tree-route engine \<open>d2b-realm-core/src/route_engine.rs\<close>: admission of route advertisements
  under namespace, freshness, replay and capacity rules, and route decisions over the admitted tree.

  The three maps of \<open>RouteTreeEngine\<close> are the record's fields. \<open>admit_advertisement\<close> returns the
  admission and the engine it leaves; its loop over the advertised routes is \<open>stage_routes\<close>. The two
  \<open>while\<close> loops that follow parent pointers, \<open>would_form_loop\<close> and \<open>climb\<close>, are recursive functions
  whose termination rests on the visited set they carry, as in the source.
\<close>

section \<open>State\<close>

definition MAX_PARENT_ENTRIES :: nat where
  "MAX_PARENT_ENTRIES = 4096"

definition MAX_ROUTE_ENTRIES :: nat where
  "MAX_ROUTE_ENTRIES = 4096"

definition MAX_REPLAY_KEYS :: nat where
  "MAX_REPLAY_KEYS = (MAX_PARENT_ENTRIES + MAX_ROUTE_ENTRIES) * 4"

record parent_entry =
  pe_parent :: realm_path
  pe_route_id :: "route_id option"
  pe_capabilities :: capability_set
  pe_issued_at :: u64
  pe_expires_at :: u64

record route_entry =
  re_advertising_realm :: realm_path
  re_next_hop_child :: realm_id
  re_route_id :: route_id
  re_capabilities :: capability_set
  re_issued_at :: u64
  re_expires_at :: u64

text \<open>\<open>ReplayKey\<close>: advertising realm, controller generation, issue time and signature reference, in
  the field order of the derived \<open>Ord\<close>.\<close>

type_synonym replay_key = "realm_path \<times> generation_id \<times> u64 \<times> signature_ref"

record route_capacity_limits =
  max_parent_entries :: nat
  max_route_entries :: nat
  max_replay_keys :: nat

record route_tree_engine =
  local_root :: realm_path
  placement :: route_placement_class
  parents :: "(realm_path, parent_entry) btmap"
  routes :: "(realm_path, route_entry) btmap"
  replayed_adverts :: "(replay_key, u64) btmap"
  capacity_limits :: route_capacity_limits

definition with_capacity_limits ::
    "realm_path \<Rightarrow> realm_controller_placement \<Rightarrow> nat \<Rightarrow> nat \<Rightarrow> nat \<Rightarrow> route_tree_engine" where
  "with_capacity_limits root place max_parents max_routes max_replay =
     \<lparr>local_root = root, placement = placement_class place, parents = bt_empty, routes = bt_empty,
      replayed_adverts = bt_empty,
      capacity_limits = \<lparr>max_parent_entries = max_parents, max_route_entries = max_routes,
                         max_replay_keys = max_replay\<rparr>\<rparr>"

definition engine_new :: "realm_path \<Rightarrow> realm_controller_placement \<Rightarrow> route_tree_engine" where
  "engine_new root place =
     with_capacity_limits root place MAX_PARENT_ENTRIES MAX_ROUTE_ENTRIES MAX_REPLAY_KEYS"


section \<open>Events\<close>

record route_engine_event =
  ev_audit :: route_audit_labels
  ev_telemetry :: route_telemetry_sample

definition route_event ::
    "route_audit_event_kind \<Rightarrow> route_telemetry_counter_kind \<Rightarrow> operation_kind \<Rightarrow>
     route_fail_closed_reason option \<Rightarrow> policy_rule_id option \<Rightarrow> route_placement_class \<Rightarrow>
     route_realm_class \<Rightarrow> route_realm_class \<Rightarrow> u64 \<Rightarrow> route_engine_event" where
  "route_event event counter kind reason rule place source_class target_class v =
     \<lparr>ev_audit = \<lparr>al_event = event, al_source_class = source_class, al_target_class = target_class,
        al_placement = place, al_operation_kind = kind, al_reason = reason, al_policy_rule_id = rule\<rparr>,
      ev_telemetry = \<lparr>ts_counter = counter,
        ts_labels = \<lparr>tl_source_class = source_class, tl_target_class = target_class,
          tl_placement = place, tl_operation_kind = Some kind, tl_reason = reason\<rparr>,
        ts_value = v\<rparr>\<rparr>"


section \<open>Lookups and path helpers\<close>

text \<open>\<open>map.get(k).filter(|entry| !is_expired(..))\<close>, for each of the three maps.\<close>

definition live_parent_at :: "(realm_path, parent_entry) btmap \<Rightarrow> realm_path \<Rightarrow> u64 \<Rightarrow> parent_entry option" where
  "live_parent_at m realm t =
     (case bt_get m realm of
        None \<Rightarrow> None
      | Some entry \<Rightarrow> if is_expired (pe_expires_at entry) t then None else Some entry)"

definition live_route_at :: "(realm_path, route_entry) btmap \<Rightarrow> realm_path \<Rightarrow> u64 \<Rightarrow> route_entry option" where
  "live_route_at m realm t =
     (case bt_get m realm of
        None \<Rightarrow> None
      | Some entry \<Rightarrow> if is_expired (re_expires_at entry) t then None else Some entry)"

definition live_replay_at :: "(replay_key, u64) btmap \<Rightarrow> replay_key \<Rightarrow> u64 \<Rightarrow> u64 option" where
  "live_replay_at m key t =
     (case bt_get m key of
        None \<Rightarrow> None
      | Some expires_at \<Rightarrow> if is_expired expires_at t then None else Some expires_at)"

definition parent_entry_at :: "route_tree_engine \<Rightarrow> realm_path \<Rightarrow> u64 \<Rightarrow> parent_entry option" where
  "parent_entry_at e realm t = live_parent_at (parents e) realm t"

definition route_entry_at :: "route_tree_engine \<Rightarrow> realm_path \<Rightarrow> u64 \<Rightarrow> route_entry option" where
  "route_entry_at e realm t = live_route_at (routes e) realm t"

definition is_known_realm_at :: "route_tree_engine \<Rightarrow> realm_path \<Rightarrow> u64 \<Rightarrow> bool" where
  "is_known_realm_at e realm t \<longleftrightarrow>
     realm = local_root e \<or> parent_entry_at e realm t \<noteq> None \<or> route_entry_at e realm t \<noteq> None"

definition target_has_capability_at :: "route_tree_engine \<Rightarrow> realm_path \<Rightarrow> capability \<Rightarrow> u64 \<Rightarrow> bool" where
  "target_has_capability_at e target cap t =
     (if target = local_root e then True
      else case route_entry_at e target t of
             Some route \<Rightarrow> caps_has (re_capabilities route) cap
           | None \<Rightarrow>
               (case parent_entry_at e target t of
                  Some entry \<Rightarrow> caps_has (pe_capabilities entry) cap
                | None \<Rightarrow> False))"

definition class_for_at :: "route_tree_engine \<Rightarrow> realm_path \<Rightarrow> u64 \<Rightarrow> route_realm_class" where
  "class_for_at e realm t =
     (if realm = local_root e then Class_LocalRoot
      else if is_known_realm_at e realm t then Class_EphemeralDiscovered
      else Class_Unknown)"

definition prefix_allowed :: "realm_path \<Rightarrow> realm_path list \<Rightarrow> bool" where
  "prefix_allowed descendant allowed \<longleftrightarrow>
     list_ex (\<lambda>p. descendant = p \<or> is_descendant_of descendant p) allowed"

definition child_with_label :: "realm_path \<Rightarrow> realm_id \<Rightarrow> realm_path option" where
  "child_with_label parent label = realm_path_new (label # labels parent)"

definition direct_child_below :: "realm_path \<Rightarrow> realm_path \<Rightarrow> realm_path option" where
  "direct_child_below descendant ancestor =
     (case checked_sub (length (labels descendant)) (length (labels ancestor) + 1) of
        None \<Rightarrow> None
      | Some i \<Rightarrow>
          if i < length (labels descendant) then child_with_label ancestor (labels descendant ! i) else None)"

definition nearest_common_ancestor :: "realm_path \<Rightarrow> realm_path \<Rightarrow> realm_path option" where
  "nearest_common_ancestor left right =
     (let common = map fst (takeWhile (\<lambda>(a, b). a = b) (zip (rev (labels left)) (rev (labels right))))
      in if common = [] then None else realm_path_new (rev common))"

definition bound_capabilities :: "capability_set \<Rightarrow> capability_set option \<Rightarrow> capability_set" where
  "bound_capabilities caps ceiling =
     (case ceiling of Some c \<Rightarrow> caps_intersection caps c | None \<Rightarrow> caps)"


section \<open>Loop detection\<close>

definition parent_entry_with_updates_at ::
    "(realm_path, parent_entry) btmap \<Rightarrow> (realm_path, parent_entry) btmap \<Rightarrow> realm_path \<Rightarrow> u64 \<Rightarrow>
     parent_entry option" where
  "parent_entry_with_updates_at ps updates realm t =
     (case bt_get updates realm of
        Some entry \<Rightarrow> Some entry
      | None \<Rightarrow> live_parent_at ps realm t)"

lemma parent_entry_with_updates_dom:
  "parent_entry_with_updates_at ps updates realm t \<noteq> None \<Longrightarrow>
   realm \<in> dom (bt_get ps) \<union> dom (bt_get updates)"
  by (auto simp: parent_entry_with_updates_at_def live_parent_at_def split: option.splits)

lemma card_unseen_less:
  assumes "finite A" "k \<in> A" "\<not> bt_contains seen k"
  shows "card (A - dom (bt_get (bt_insert k () seen))) < card (A - dom (bt_get seen))"
proof (rule psubset_card_mono)
  show "A - dom (bt_get (bt_insert k () seen)) \<subset> A - dom (bt_get seen)"
    using assms(2,3) by (auto simp: dom_bt_insert bt_contains_def)
qed (simp add: assms(1))

function follows_to ::
    "(realm_path, parent_entry) btmap \<Rightarrow> (realm_path, parent_entry) btmap \<Rightarrow> realm_path \<Rightarrow> u64 \<Rightarrow>
     realm_path \<Rightarrow> realm_path btset \<Rightarrow> bool" where
  "follows_to ps updates child t current seen =
     (case parent_entry_with_updates_at ps updates current t of
        None \<Rightarrow> current = child
      | Some entry \<Rightarrow>
          if current = child \<or> bt_contains seen current then True
          else follows_to ps updates child t (pe_parent entry) (bt_insert current () seen))"
  by pat_completeness auto

termination
proof (relation "measure (\<lambda>(ps, updates, child, t, current, seen).
    card ((dom (bt_get ps) \<union> dom (bt_get updates)) - dom (bt_get seen)))")
  fix ps updates :: "(realm_path, parent_entry) btmap" and child current :: realm_path
    and t :: u64 and seen :: "realm_path btset" and entry
  assume "parent_entry_with_updates_at ps updates current t = Some entry"
    and "\<not> (current = child \<or> bt_contains seen current)"
  then show "((ps, updates, child, t, pe_parent entry, bt_insert current () seen),
              ps, updates, child, t, current, seen)
      \<in> measure (\<lambda>(ps, updates, child, t, current, seen).
          card ((dom (bt_get ps) \<union> dom (bt_get updates)) - dom (bt_get seen)))"
    using parent_entry_with_updates_dom [of ps updates current t] by (auto intro!: card_unseen_less)
qed simp

declare follows_to.simps [simp del]

definition would_form_loop_with_updates ::
    "(realm_path, parent_entry) btmap \<Rightarrow> (realm_path, parent_entry) btmap \<Rightarrow> realm_path \<Rightarrow> realm_path \<Rightarrow>
     u64 \<Rightarrow> bool" where
  "would_form_loop_with_updates ps updates parent child t = follows_to ps updates child t parent bt_empty"


section \<open>Staging\<close>

definition stage_parent_edge ::
    "(realm_path, parent_entry) btmap \<Rightarrow> (realm_path, parent_entry) btmap \<Rightarrow> u64 \<Rightarrow> u64 \<Rightarrow>
     realm_path \<Rightarrow> realm_path \<Rightarrow> route_id option \<Rightarrow> capability_set option \<Rightarrow> capability_set option \<Rightarrow> u64 \<Rightarrow>
     route_fail_closed_reason + (realm_path, parent_entry) btmap" where
  "stage_parent_edge ps updates t issued_at parent child route caps ceiling expires_at =
     (if child = parent \<or> would_form_loop_with_updates ps updates parent child t then Inl Fail_Loop
      else case bt_get updates child of
        Some existing \<Rightarrow>
          if pe_parent existing \<noteq> parent then Inl Fail_MultiParent
          else Inr (bt_insert child
                 (existing\<lparr>pe_route_id := (case route of Some r \<Rightarrow> Some r | None \<Rightarrow> pe_route_id existing),
                           pe_capabilities :=
                             (case caps of
                                Some c \<Rightarrow> bound_capabilities c ceiling
                              | None \<Rightarrow>
                                  (case ceiling of
                                     Some cl \<Rightarrow> caps_intersection (pe_capabilities existing) cl
                                   | None \<Rightarrow> pe_capabilities existing)),
                           pe_expires_at := expires_at\<rparr>) updates)
      | None \<Rightarrow>
          let live = live_parent_at ps child t;
              entry = (\<lambda>next_route next_caps.
                \<lparr>pe_parent = parent, pe_route_id = next_route,
                 pe_capabilities = (case next_caps of Some c \<Rightarrow> bound_capabilities c ceiling
                                                  | None \<Rightarrow> caps_empty),
                 pe_issued_at = issued_at, pe_expires_at = expires_at\<rparr>)
          in case live of
               None \<Rightarrow> Inr (bt_insert child (entry route caps) updates)
             | Some existing \<Rightarrow>
                 if issued_at \<le> pe_issued_at existing then Inl Fail_Replay
                 else if pe_parent existing \<noteq> parent then Inl Fail_MultiParent
                 else Inr (bt_insert child
                        (entry (case route of Some r \<Rightarrow> Some r | None \<Rightarrow> pe_route_id existing)
                               (case caps of Some c \<Rightarrow> Some c | None \<Rightarrow> Some (pe_capabilities existing)))
                        updates))"

definition stage_route_entry ::
    "(realm_path, route_entry) btmap \<Rightarrow> (realm_path, route_entry) btmap \<Rightarrow> u64 \<Rightarrow> u64 \<Rightarrow>
     realm_path \<Rightarrow> realm_path \<Rightarrow> realm_id \<Rightarrow> route_id \<Rightarrow> capability_set \<Rightarrow> u64 \<Rightarrow>
     route_fail_closed_reason + (realm_path, route_entry) btmap" where
  "stage_route_entry rs updates t issued_at advertiser descendant next_hop route caps expires_at =
     (case bt_get updates descendant of
        Some existing \<Rightarrow>
          if re_advertising_realm existing \<noteq> advertiser \<or> re_next_hop_child existing \<noteq> next_hop
          then Inl Fail_MultiParent else Inr updates
      | None \<Rightarrow>
          let staged = bt_insert descendant
                 \<lparr>re_advertising_realm = advertiser, re_next_hop_child = next_hop, re_route_id = route,
                  re_capabilities = caps, re_issued_at = issued_at, re_expires_at = expires_at\<rparr> updates
          in case live_route_at rs descendant t of
               None \<Rightarrow> Inr staged
             | Some existing \<Rightarrow>
                 if issued_at \<le> re_issued_at existing then Inl Fail_Replay
                 else if re_advertising_realm existing \<noteq> advertiser \<or> re_next_hop_child existing \<noteq> next_hop
                 then Inl Fail_MultiParent
                 else Inr staged)"



section \<open>Replay keys and capacity\<close>

definition replay_key_of :: "route_advertisement \<Rightarrow> replay_key" where
  "replay_key_of ad = (ad_realm ad, ad_generation ad, ad_issued_at ad, sig_ref (ad_signature ad))"

definition replay_key_matches :: "replay_key \<Rightarrow> route_advertisement_envelope \<Rightarrow> bool" where
  "replay_key_matches key envelope =
     (case key of (realm, generation, issued_at, sref) \<Rightarrow>
        let ad = env_advertisement envelope in
        realm = ad_realm ad \<and> generation = ad_generation ad \<and> issued_at = ad_issued_at ad \<and>
        sref = sig_ref (ad_signature ad))"

definition is_superseded_replay_key :: "replay_key \<Rightarrow> u64 \<Rightarrow> route_advertisement \<Rightarrow> bool" where
  "is_superseded_replay_key key expires_at ad =
     (case key of (realm, generation, issued_at, _) \<Rightarrow>
        realm = ad_realm ad \<and> generation = ad_generation ad \<and> issued_at < ad_issued_at ad \<and>
        expires_at \<le> ad_expires_at ad)"

definition prune_superseded_replay_keys ::
    "(replay_key, u64) btmap \<Rightarrow> route_advertisement \<Rightarrow> (replay_key, u64) btmap" where
  "prune_superseded_replay_keys adverts ad =
     bt_retain (\<lambda>key expires_at. \<not> is_superseded_replay_key key expires_at ad) adverts"

definition projected_physical_len :: "(realm_path, 'a) btmap \<Rightarrow> (realm_path, 'a) btmap \<Rightarrow> nat" where
  "projected_physical_len entries updates =
     bt_len entries + length (filter (\<lambda>key. \<not> bt_contains entries key) (bt_keys updates))"

definition projected_parent_len_after_prune ::
    "(realm_path, parent_entry) btmap \<Rightarrow> (realm_path, parent_entry) btmap \<Rightarrow> u64 \<Rightarrow> nat" where
  "projected_parent_len_after_prune entries updates t =
     length (filter (\<lambda>(_, entry). \<not> is_expired (pe_expires_at entry) t) (bt_entries entries)) +
     bt_len updates -
     length (filter (\<lambda>key. case bt_get entries key of
                             Some entry \<Rightarrow> \<not> is_expired (pe_expires_at entry) t
                           | None \<Rightarrow> False) (bt_keys updates))"

definition projected_route_len_after_prune ::
    "(realm_path, route_entry) btmap \<Rightarrow> (realm_path, route_entry) btmap \<Rightarrow> u64 \<Rightarrow> nat" where
  "projected_route_len_after_prune entries updates t =
     length (filter (\<lambda>(_, entry). \<not> is_expired (re_expires_at entry) t) (bt_entries entries)) +
     bt_len updates -
     length (filter (\<lambda>key. case bt_get entries key of
                             Some entry \<Rightarrow> \<not> is_expired (re_expires_at entry) t
                           | None \<Rightarrow> False) (bt_keys updates))"

definition projected_replay_len_after_prune ::
    "(replay_key, u64) btmap \<Rightarrow> route_advertisement_envelope \<Rightarrow> u64 \<Rightarrow> nat" where
  "projected_replay_len_after_prune adverts envelope t =
     (let ad = env_advertisement envelope;
          retained = (\<lambda>(key, expires_at). \<not> is_expired expires_at t \<and>
                        \<not> is_superseded_replay_key key expires_at ad)
      in length (filter retained (bt_entries adverts)) +
         (if list_ex (\<lambda>(key, expires_at). replay_key_matches key envelope \<and> retained (key, expires_at))
               (bt_entries adverts) then 0 else 1))"

record route_prune_report =
  pruned_parents :: nat
  pruned_routes :: nat
  pruned_replay_keys :: nat

definition sweep_parents :: "u64 \<Rightarrow> (realm_path, parent_entry) btmap \<Rightarrow> (realm_path, parent_entry) btmap" where
  "sweep_parents t = bt_retain (\<lambda>_ entry. \<not> is_expired (pe_expires_at entry) t)"

definition sweep_routes :: "u64 \<Rightarrow> (realm_path, route_entry) btmap \<Rightarrow> (realm_path, route_entry) btmap" where
  "sweep_routes t = bt_retain (\<lambda>_ entry. \<not> is_expired (re_expires_at entry) t)"

definition sweep_replays :: "u64 \<Rightarrow> (replay_key, u64) btmap \<Rightarrow> (replay_key, u64) btmap" where
  "sweep_replays t = bt_retain (\<lambda>_ expires_at. \<not> is_expired expires_at t)"

definition prune_expired :: "route_tree_engine \<Rightarrow> u64 \<Rightarrow> route_prune_report \<times> route_tree_engine" where
  "prune_expired e t =
     (let e' = e\<lparr>parents := sweep_parents t (parents e), routes := sweep_routes t (routes e),
                 replayed_adverts := sweep_replays t (replayed_adverts e)\<rparr>
      in (\<lparr>pruned_parents = bt_len (parents e) - bt_len (parents e'),
           pruned_routes = bt_len (routes e) - bt_len (routes e'),
           pruned_replay_keys = bt_len (replayed_adverts e) - bt_len (replayed_adverts e')\<rparr>, e'))"

interpretation parent_store: expiring_store pe_expires_at live_parent_at sweep_parents
  by unfold_locales (simp_all add: live_parent_at_def sweep_parents_def split: option.splits)

interpretation route_store: expiring_store re_expires_at live_route_at sweep_routes
  by unfold_locales (simp_all add: live_route_at_def sweep_routes_def split: option.splits)

interpretation replay_store: expiring_store "\<lambda>expires_at. expires_at" live_replay_at sweep_replays
  by unfold_locales (simp_all add: live_replay_at_def sweep_replays_def split: option.splits)


section \<open>Admission\<close>

datatype admission_outcome = Accepted "route_id list" | AdmissionDenied route_fail_closed_reason

record route_advertisement_admission =
  adm_outcome :: admission_outcome
  adm_event :: route_engine_event

record staged =
  parent_updates :: "(realm_path, parent_entry) btmap"
  route_updates :: "(realm_path, route_entry) btmap"
  accepted_routes :: "route_id list"
  seen_descendants :: "realm_path btset"

text \<open>One turn of the loop over \<open>advertisement.routes\<close>.\<close>

definition stage_route ::
    "route_tree_engine \<Rightarrow> route_advertisement \<Rightarrow> route_namespace_allocation \<Rightarrow> u64 \<Rightarrow>
     descendant_route \<Rightarrow> staged \<Rightarrow> route_fail_closed_reason + staged" where
  "stage_route e ad allocation t route st =
     (let descendant = dr_descendant route; advertiser = ad_realm ad in
      if bt_contains (seen_descendants st) descendant then Inl Fail_MalformedAdvert
      else if \<not> is_descendant_of descendant advertiser \<or>
              (case direct_child_below descendant advertiser of
                 None \<Rightarrow> None
               | Some child \<Rightarrow> (case labels child of [] \<Rightarrow> None | l # _ \<Rightarrow> Some l))
              \<noteq> Some (dr_next_hop_child route)
      then Inl Fail_SiblingOrParentRouteAdvert
      else if \<not> prefix_allowed descendant (alloc_prefixes allocation) \<or>
              \<not> caps_subset (dr_capabilities route) (alloc_ceiling allocation)
      then Inl Fail_NamespaceViolation
      else case direct_child_below descendant advertiser of
        None \<Rightarrow> Inl Fail_MalformedAdvert
      | Some next_child \<Rightarrow>
          let (edge_route_id, edge_capabilities) =
                (if next_child = descendant then (Some (dr_route_id route), Some (dr_capabilities route))
                 else (None, None))
          in bind_result
               (stage_parent_edge (parents e) (parent_updates st) t (ad_issued_at ad) advertiser next_child
                  edge_route_id edge_capabilities None (ad_expires_at ad))
               (\<lambda>ps. bind_result
                  (stage_route_entry (routes e) (route_updates st) t (ad_issued_at ad) advertiser descendant
                     (dr_next_hop_child route) (dr_route_id route) (dr_capabilities route) (ad_expires_at ad))
                  (\<lambda>rs. Inr \<lparr>parent_updates = ps, route_updates = rs,
                             accepted_routes = accepted_routes st @ [dr_route_id route],
                             seen_descendants = bt_insert descendant () (seen_descendants st)\<rparr>)))"

primrec stage_routes ::
    "route_tree_engine \<Rightarrow> route_advertisement \<Rightarrow> route_namespace_allocation \<Rightarrow> u64 \<Rightarrow>
     descendant_route list \<Rightarrow> staged \<Rightarrow> route_fail_closed_reason + staged" where
  "stage_routes e ad allocation t [] st = Inr st"
| "stage_routes e ad allocation t (route # rest) st =
     bind_result (stage_route e ad allocation t route st) (stage_routes e ad allocation t rest)"

definition stage_advertisement ::
    "route_tree_engine \<Rightarrow> route_advertisement \<Rightarrow> route_namespace_allocation \<Rightarrow> u64 \<Rightarrow>
     route_fail_closed_reason + staged" where
  "stage_advertisement e ad allocation t =
     bind_result
       (stage_parent_edge (parents e) bt_empty t (ad_issued_at ad) (edge_parent (ad_tree_edge ad))
          (edge_child (ad_tree_edge ad)) None (Some (alloc_ceiling allocation))
          (Some (alloc_ceiling allocation)) (ad_expires_at ad))
       (\<lambda>ps. stage_routes e ad allocation t (ad_routes ad)
          \<lparr>parent_updates = ps, route_updates = bt_empty, accepted_routes = [], seen_descendants = bt_empty\<rparr>)"

text \<open>The checks before staging, in the order of the source.\<close>

definition precheck ::
    "route_tree_engine \<Rightarrow> route_advertisement_envelope \<Rightarrow> route_namespace_allocation \<Rightarrow>
     route_fail_closed_reason option" where
  "precheck e envelope allocation =
     (let t = env_received_at envelope; ad = env_advertisement envelope in
      if edge_child (ad_tree_edge ad) \<noteq> ad_realm ad \<or> ad_routes ad = [] \<or>
         ad_expires_at ad \<le> ad_issued_at ad \<or> t < ad_issued_at ad
      then Some Fail_MalformedAdvert
      else if ad_expires_at ad \<le> t then Some Fail_Expired
      else if edge_parent (ad_tree_edge ad) \<noteq> local_root e \<and>
              parent_entry_at e (edge_parent (ad_tree_edge ad)) t = None
      then Some Fail_UnknownParent
      else if list_ex (\<lambda>(key, expires_at). replay_key_matches key envelope \<and> \<not> is_expired expires_at t)
                (bt_entries (replayed_adverts e))
      then Some Fail_Replay
      else if alloc_tree_edge allocation \<noteq> ad_tree_edge ad \<or>
              alloc_generation allocation \<noteq> ad_generation ad \<or>
              unat (alloc_max_routes allocation) < length (ad_routes ad)
      then Some Fail_NamespaceViolation
      else None)"

definition capacity_pressure :: "route_tree_engine \<Rightarrow> staged \<Rightarrow> route_advertisement_envelope \<Rightarrow> bool" where
  "capacity_pressure e st envelope \<longleftrightarrow>
     max_parent_entries (capacity_limits e) < projected_physical_len (parents e) (parent_updates st) \<or>
     max_route_entries (capacity_limits e) < projected_physical_len (routes e) (route_updates st) \<or>
     max_replay_keys (capacity_limits e) <
       bt_len (replayed_adverts e) +
       (if list_ex (\<lambda>key. replay_key_matches key envelope) (bt_keys (replayed_adverts e)) then 0 else 1)"

definition over_capacity :: "route_tree_engine \<Rightarrow> staged \<Rightarrow> route_advertisement_envelope \<Rightarrow> bool" where
  "over_capacity e st envelope \<longleftrightarrow>
     (let t = env_received_at envelope in
      max_parent_entries (capacity_limits e) < projected_parent_len_after_prune (parents e) (parent_updates st) t \<or>
      max_route_entries (capacity_limits e) < projected_route_len_after_prune (routes e) (route_updates st) t \<or>
      max_replay_keys (capacity_limits e) < projected_replay_len_after_prune (replayed_adverts e) envelope t)"

definition commit ::
    "route_tree_engine \<Rightarrow> staged \<Rightarrow> route_advertisement_envelope \<Rightarrow> bool \<Rightarrow> route_tree_engine" where
  "commit e st envelope pressure =
     (let ad = env_advertisement envelope;
          e1 = (if pressure
                then let e0 = snd (prune_expired e (env_received_at envelope))
                     in e0\<lparr>replayed_adverts := prune_superseded_replay_keys (replayed_adverts e0) ad\<rparr>
                else e)
      in e1\<lparr>parents := bt_extend (parents e1) (parent_updates st),
            routes := bt_extend (routes e1) (route_updates st),
            replayed_adverts := bt_insert (replay_key_of ad) (ad_expires_at ad) (replayed_adverts e1)\<rparr>)"

definition admission_denied ::
    "route_tree_engine \<Rightarrow> route_fail_closed_reason \<Rightarrow> route_advertisement_admission" where
  "admission_denied e reason =
     \<lparr>adm_outcome = AdmissionDenied reason,
      adm_event = route_event Event_AdvertisementDenied Count_RouteAdvertisementDeniedCount
        Op_NodeCapabilities (Some reason) None (placement e) Class_EphemeralDiscovered
        Class_EphemeralDiscovered 1\<rparr>"

definition admit_advertisement ::
    "route_tree_engine \<Rightarrow> route_advertisement_envelope \<Rightarrow> route_namespace_allocation \<Rightarrow>
     route_advertisement_admission \<times> route_tree_engine" where
  "admit_advertisement e envelope allocation =
     (case precheck e envelope allocation of
        Some reason \<Rightarrow> (admission_denied e reason, e)
      | None \<Rightarrow>
          (case stage_advertisement e (env_advertisement envelope) allocation (env_received_at envelope) of
             Inl reason \<Rightarrow> (admission_denied e reason, e)
           | Inr st \<Rightarrow>
               let pressure = capacity_pressure e st envelope in
               if pressure \<and> over_capacity e st envelope
               then (admission_denied e Fail_QueueFullDropNew, e)
               else
                 (\<lparr>adm_outcome = Accepted (sort (accepted_routes st)),
                   adm_event = route_event Event_AdvertisementAccepted Count_RouteAdvertisementAcceptedCount
                     Op_NodeCapabilities None None (placement e) Class_EphemeralDiscovered
                     Class_EphemeralDiscovered 1\<rparr>,
                  commit e st envelope pressure)))"



section \<open>Projected lengths\<close>

lemma projected_physical_len_eq: "projected_physical_len m u = bt_len (bt_extend m u)"
  by (simp add: projected_physical_len_def bt_len_extend)

lemma projected_parent_len_eq:
  "projected_parent_len_after_prune m u t = bt_len (bt_extend (sweep_parents t m) u)"
proof -
  have "(case bt_get m k of Some v \<Rightarrow> \<not> is_expired (pe_expires_at v) t | None \<Rightarrow> False) \<longleftrightarrow>
        (\<exists>v. bt_get m k = Some v \<and> \<not> is_expired (pe_expires_at v) t)" for k
    by (simp split: option.splits)
  then show ?thesis
    by (simp only: projected_parent_len_after_prune_def parent_store.sweep_extend_len)
qed

lemma projected_route_len_eq:
  "projected_route_len_after_prune m u t = bt_len (bt_extend (sweep_routes t m) u)"
proof -
  have "(case bt_get m k of Some v \<Rightarrow> \<not> is_expired (re_expires_at v) t | None \<Rightarrow> False) \<longleftrightarrow>
        (\<exists>v. bt_get m k = Some v \<and> \<not> is_expired (re_expires_at v) t)" for k
    by (simp split: option.splits)
  then show ?thesis
    by (simp only: projected_route_len_after_prune_def route_store.sweep_extend_len)
qed

lemma replay_key_matches_iff:
  "replay_key_matches key envelope \<longleftrightarrow> key = replay_key_of (env_advertisement envelope)"
  by (cases key) (auto simp: replay_key_matches_def replay_key_of_def Let_def)

lemma list_ex_entry: "list_ex (\<lambda>(k, v). k = key \<and> P v) (bt_entries m) \<longleftrightarrow> (\<exists>v. bt_get m key = Some v \<and> P v)"
  by (auto simp: list_ex_iff set_bt_entries)

lemma replay_check:
  "list_ex (\<lambda>(key, x). replay_key_matches key envelope \<and> \<not> is_expired x t) (bt_entries m) \<longleftrightarrow>
   live_replay_at m (replay_key_of (env_advertisement envelope)) t \<noteq> None"
proof -
  have "(\<lambda>(key, x). replay_key_matches key envelope \<and> \<not> is_expired x t) =
        (\<lambda>(key, x). key = replay_key_of (env_advertisement envelope) \<and> \<not> is_expired x t)"
    by (simp add: replay_key_matches_iff fun_eq_iff)
  then show ?thesis
    by (simp only: list_ex_entry) (simp add: live_replay_at_def split: option.splits)
qed

lemma projected_replay_len_eq:
  fixes envelope t m
  defines "ad \<equiv> env_advertisement envelope"
  shows "projected_replay_len_after_prune m envelope t =
    bt_len (bt_insert (replay_key_of ad) x (prune_superseded_replay_keys (sweep_replays t m) ad))"
proof -
  let ?keep = "\<lambda>k v. \<not> is_expired v t \<and> \<not> is_superseded_replay_key k v ad"
  have pruned: "prune_superseded_replay_keys (sweep_replays t m) ad = bt_retain ?keep m"
    by (simp add: prune_superseded_replay_keys_def sweep_replays_def bt_retain_retain)
  have "(\<lambda>(key, v). replay_key_matches key envelope \<and> (case (key, v) of (k, v) \<Rightarrow> ?keep k v)) =
        (\<lambda>(key, v). key = replay_key_of ad \<and> ?keep (replay_key_of ad) v)"
    by (auto simp: replay_key_matches_iff ad_def fun_eq_iff)
  then have "projected_replay_len_after_prune m envelope t =
      length (filter (\<lambda>(k, v). ?keep k v) (bt_entries m)) +
      (if \<exists>v. bt_get m (replay_key_of ad) = Some v \<and> ?keep (replay_key_of ad) v then 0 else 1)"
    unfolding projected_replay_len_after_prune_def Let_def ad_def [symmetric]
    by (simp only: list_ex_entry)
  also have "\<dots> = bt_len (bt_insert (replay_key_of ad) x (bt_retain ?keep m))"
    by (simp add: bt_len_insert bt_len_retain)
  finally show ?thesis by (simp only: pruned)
qed

lemma physical_replay_len_eq:
  "bt_len m + (if list_ex (\<lambda>key. replay_key_matches key envelope) (bt_keys m) then 0 else 1) =
   bt_len (bt_insert (replay_key_of (env_advertisement envelope)) x m)"
  by (auto simp: replay_key_matches_iff list_ex_iff set_bt_keys bt_len_insert bt_contains_def)



section \<open>The realm tree in the maps\<close>

definition tree_map :: "(realm_path, parent_entry) btmap \<Rightarrow> bool" where
  "tree_map ps \<longleftrightarrow> (\<forall>k v. bt_get ps k = Some v \<longrightarrow> is_direct_child_of k (pe_parent v))"

definition route_map :: "(realm_path, route_entry) btmap \<Rightarrow> bool" where
  "route_map rs \<longleftrightarrow> (\<forall>k v. bt_get rs k = Some v \<longrightarrow>
     is_descendant_of k (re_advertising_realm v) \<and>
     next_hop_child k (re_advertising_realm v) = Some (re_next_hop_child v))"

definition edge_ok :: "realm_tree_edge \<Rightarrow> bool" where
  "edge_ok edge \<longleftrightarrow> realm_tree_edge_new (edge_parent edge) (edge_child edge) = Some edge"

lemma edge_ok_iff: "edge_ok edge \<longleftrightarrow> is_direct_child_of (edge_child edge) (edge_parent edge)"
  by (simp add: edge_ok_def realm_tree_edge_new_Some)

lemma is_direct_child_of_length: "is_direct_child_of c p \<Longrightarrow> length (labels p) < length (labels c)"
  by (auto simp: is_direct_child_of_iff)

lemma child_with_label_Some: "child_with_label p l = Some c \<Longrightarrow> labels c = l # labels p"
  by (simp add: child_with_label_def realm_path_new_Some)

lemma suffix_path_valid:
  assumes "labels p = zs @ ls" "ls \<noteq> []"
  shows "\<exists>a. realm_path_new ls = Some a \<and> labels a = ls"
  using assms
proof (induction zs arbitrary: p)
  case Nil
  then show ?case by (metis append_Nil realm_path_new_labels)
next
  case (Cons z zs)
  then obtain q where "labels q = zs @ ls"
    using parent_path [of p z "zs @ ls"] by auto
  with Cons show ?case by blast
qed

lemma direct_child_below_descendant:
  assumes "is_descendant_of d a"
  shows "\<exists>c zs. direct_child_below d a = Some c \<and> labels d = zs @ labels c \<and> is_direct_child_of c a \<and>
           next_hop_child d a = Some (hd (labels c))"
proof -
  from assms obtain zs where d: "labels d = zs @ labels a" "zs \<noteq> []"
    by (auto simp: is_descendant_of_iff strict_suffix_def suffix_def)
  then obtain ys y where zs: "zs = ys @ [y]" by (cases zs rule: rev_cases) auto
  then have dl: "labels d = ys @ (y # labels a)" using d by simp
  then obtain c where c: "realm_path_new (y # labels a) = Some c" "labels c = y # labels a"
    using suffix_path_valid [OF dl] by auto
  have "direct_child_below d a = Some c"
    using dl c(1) by (simp add: direct_child_below_def checked_sub_def nth_append child_with_label_def)
  moreover have "next_hop_child d a = Some y"
    using next_hop_child_descendant [OF d] zs by simp
  ultimately show ?thesis using c dl by (auto simp: is_direct_child_of_iff)
qed

lemma tree_mapD: "tree_map ps \<Longrightarrow> bt_get ps k = Some v \<Longrightarrow> is_direct_child_of k (pe_parent v)"
  by (simp add: tree_map_def)

lemma tree_map_insert: "tree_map ps \<Longrightarrow> is_direct_child_of k (pe_parent v) \<Longrightarrow> tree_map (bt_insert k v ps)"
  by (simp add: tree_map_def)

lemma tree_map_empty [simp]: "tree_map bt_empty" and route_map_empty [simp]: "route_map bt_empty"
  by (simp_all add: tree_map_def route_map_def)

lemma live_parent_at_get: "live_parent_at ps k t = Some v \<Longrightarrow> bt_get ps k = Some v"
  by (simp add: parent_store.lookup_at_Some)

lemma parent_entry_with_updates_child:
  "tree_map ps \<Longrightarrow> tree_map u \<Longrightarrow> parent_entry_with_updates_at ps u k t = Some v \<Longrightarrow>
   is_direct_child_of k (pe_parent v)"
  by (auto simp: parent_entry_with_updates_at_def tree_map_def dest: live_parent_at_get split: option.splits)

text \<open>Parent pointers lead towards the root, so no chain of them comes back to a longer path.\<close>

lemma follows_to_False:
  "tree_map ps \<Longrightarrow> tree_map u \<Longrightarrow> length (labels current) < length (labels child) \<Longrightarrow>
   (\<And>s. bt_contains seen s \<Longrightarrow> length (labels current) < length (labels s)) \<Longrightarrow>
   \<not> follows_to ps u child t current seen"
proof (induction ps u child t current seen rule: follows_to.induct)
  case (1 ps u child t current seen)
  show ?case
  proof (cases "parent_entry_with_updates_at ps u current t")
    case None
    with 1 show ?thesis by (auto simp: follows_to.simps [of ps u child t current])
  next
    case (Some entry)
    have "is_direct_child_of current (pe_parent entry)"
      using parent_entry_with_updates_child [OF 1(2,3) Some] .
    then have shorter: "length (labels (pe_parent entry)) < length (labels current)"
      by (rule is_direct_child_of_length)
    have fresh: "\<not> (current = child \<or> bt_contains seen current)"
      using 1(4) 1(5) [of current] by auto
    have "\<not> follows_to ps u child t (pe_parent entry) (bt_insert current () seen)"
      using shorter 1(4) 1(5) by (intro 1(1) [OF Some fresh] 1(2,3)) (auto intro: less_trans)
    with Some fresh show ?thesis by (simp add: follows_to.simps [of ps u child t current])
  qed
qed

lemma no_loop:
  "tree_map ps \<Longrightarrow> tree_map u \<Longrightarrow> is_direct_child_of child parent \<Longrightarrow>
   \<not> would_form_loop_with_updates ps u parent child t"
  unfolding would_form_loop_with_updates_def
  by (rule follows_to_False) (auto dest: is_direct_child_of_length)

text \<open>On tree edges the only way to refuse a parent edge is an advertisement that is not newer.\<close>

lemma stage_parent_edge_cases:
  assumes "tree_map ps" "tree_map u" "is_direct_child_of child parent"
  shows "(stage_parent_edge ps u t issued parent child route caps ceiling expires = Inl Fail_Replay \<and>
           (\<exists>x. live_parent_at ps child t = Some x \<and> issued \<le> pe_issued_at x)) \<or>
         (\<exists>v. stage_parent_edge ps u t issued parent child route caps ceiling expires = Inr (bt_insert child v u) \<and>
           pe_parent v = parent \<and> pe_expires_at v = expires \<and>
           (case bt_get u child of
              Some v' \<Rightarrow> pe_issued_at v = pe_issued_at v'
            | None \<Rightarrow> pe_issued_at v = issued \<and>
                (\<forall>x. live_parent_at ps child t = Some x \<longrightarrow> pe_issued_at x < issued)) \<and>
           (\<forall>cl. ceiling = Some cl \<longrightarrow> caps_subset (pe_capabilities v) cl))"
proof -
  let ?r = "stage_parent_edge ps u t issued parent child route caps ceiling expires"
  have ok: "child \<noteq> parent" "\<not> would_form_loop_with_updates ps u parent child t"
    using assms(3) no_loop [OF assms] by (auto dest: is_direct_child_of_length)
  have caps: "caps_subset (bound_capabilities c (Some cl)) cl" for c cl
    by (simp add: bound_capabilities_def caps_intersection_subset)
  show ?thesis
  proof (cases "bt_get u child")
    case (Some x)
    let ?v = "x\<lparr>pe_route_id := (case route of Some r \<Rightarrow> Some r | None \<Rightarrow> pe_route_id x),
                pe_capabilities := (case caps of Some c \<Rightarrow> bound_capabilities c ceiling
                  | None \<Rightarrow> (case ceiling of Some cl \<Rightarrow> caps_intersection (pe_capabilities x) cl
                                         | None \<Rightarrow> pe_capabilities x)),
                pe_expires_at := expires\<rparr>"
    have par: "pe_parent x = parent"
      using tree_mapD [OF assms(2) Some] assms(3) by (rule is_direct_child_of_unique)
    then have "?r = Inr (bt_insert child ?v u)"
      using ok Some by (simp add: stage_parent_edge_def)
    with par Some show ?thesis
      by (intro disjI2 exI [of _ ?v]) (simp add: caps caps_intersection_subset split: option.splits)
  next
    case new: None
    let ?v = "\<lambda>nr nc. \<lparr>pe_parent = parent, pe_route_id = nr,
                 pe_capabilities = (case nc of Some c \<Rightarrow> bound_capabilities c ceiling | None \<Rightarrow> caps_empty),
                 pe_issued_at = issued, pe_expires_at = expires\<rparr>"
    show ?thesis
    proof (cases "live_parent_at ps child t")
      case None
      with ok new have "?r = Inr (bt_insert child (?v route caps) u)"
        by (simp add: stage_parent_edge_def Let_def)
      with new None show ?thesis
        by (intro disjI2 exI [of _ "?v route caps"]) (simp add: caps split: option.splits)
    next
      case (Some x)
      let ?w = "?v (case route of Some r \<Rightarrow> Some r | None \<Rightarrow> pe_route_id x)
                   (case caps of Some c \<Rightarrow> Some c | None \<Rightarrow> Some (pe_capabilities x))"
      have par: "pe_parent x = parent"
        using tree_mapD [OF assms(1) live_parent_at_get [OF Some]] assms(3) by (rule is_direct_child_of_unique)
      show ?thesis
      proof (cases "issued \<le> pe_issued_at x")
        case True
        with ok new Some show ?thesis by (simp add: stage_parent_edge_def Let_def)
      next
        case False
        with ok new Some par have "?r = Inr (bt_insert child ?w u)"
          by (simp add: stage_parent_edge_def Let_def)
        with False new Some show ?thesis
          by (intro disjI2 exI [of _ ?w]) (simp add: caps not_le split: option.splits)
      qed
    qed
  qed
qed

end
