(* ===== verification/Route_Admission.thy ===== *)
theory Route_Admission
  imports Route_Engine
begin

text \<open>
  What admission of route advertisements (\<open>route_engine.rs\<close>, \<open>admit_advertisement\<close> and
  \<open>prune_expired\<close>) keeps of the engine's maps: the parent entries form a forest of direct-child
  edges, the maps stay within their capacity limits, newer advertisements only replace older ones,
  and an accepted advertisement is refused when it is replayed.
\<close>

section \<open>What staging produces\<close>

definition parents_staged ::
    "route_tree_engine \<Rightarrow> route_advertisement \<Rightarrow> u64 \<Rightarrow> (realm_path, parent_entry) btmap \<Rightarrow> bool" where
  "parents_staged e ad t u \<longleftrightarrow> tree_map u \<and>
     (\<forall>k v. bt_get u k = Some v \<longrightarrow>
        pe_issued_at v = ad_issued_at ad \<and> pe_expires_at v = ad_expires_at ad \<and>
        (\<forall>x. live_parent_at (parents e) k t = Some x \<longrightarrow> pe_issued_at x < ad_issued_at ad))"

definition routes_staged ::
    "route_tree_engine \<Rightarrow> route_advertisement \<Rightarrow> route_namespace_allocation \<Rightarrow> u64 \<Rightarrow>
     (realm_path, route_entry) btmap \<Rightarrow> bool" where
  "routes_staged e ad allocation t u \<longleftrightarrow> route_map u \<and>
     (\<forall>k v. bt_get u k = Some v \<longrightarrow>
        re_advertising_realm v = ad_realm ad \<and>
        re_issued_at v = ad_issued_at ad \<and> re_expires_at v = ad_expires_at ad \<and>
        caps_subset (re_capabilities v) (alloc_ceiling allocation) \<and>
        prefix_allowed k (alloc_prefixes allocation) \<and>
        (\<forall>x. live_route_at (routes e) k t = Some x \<longrightarrow> re_issued_at x < ad_issued_at ad))"

definition staged_inv ::
    "route_tree_engine \<Rightarrow> route_advertisement \<Rightarrow> route_namespace_allocation \<Rightarrow> u64 \<Rightarrow> staged \<Rightarrow> bool" where
  [invs]: "staged_inv e ad allocation t st \<longleftrightarrow>
     parents_staged e ad t (parent_updates st) \<and> routes_staged e ad allocation t (route_updates st) \<and>
     (\<exists>v. bt_get (parent_updates st) (ad_realm ad) = Some v \<and>
          caps_subset (pe_capabilities v) (alloc_ceiling allocation))"

lemma parents_staged_edge:
  assumes "tree_map (parents e)" "parents_staged e ad t u" "is_direct_child_of child parent"
    and "stage_parent_edge (parents e) u t (ad_issued_at ad) parent child route caps ceiling (ad_expires_at ad) = r"
  shows "r = Inl Fail_Replay \<or>
    (\<exists>v. r = Inr (bt_insert child v u) \<and> parents_staged e ad t (bt_insert child v u) \<and>
         (\<forall>cl. ceiling = Some cl \<longrightarrow> caps_subset (pe_capabilities v) cl))"
proof -
  have "tree_map u" using assms(2) by (simp add: parents_staged_def)
  from stage_parent_edge_cases [OF assms(1) this assms(3), of t "ad_issued_at ad" route caps ceiling "ad_expires_at ad"]
  consider (replay) "r = Inl Fail_Replay"
    | (staged) v where "r = Inr (bt_insert child v u)" "pe_parent v = parent" "pe_expires_at v = ad_expires_at ad"
        "case bt_get u child of
           Some v' \<Rightarrow> pe_issued_at v = pe_issued_at v'
         | None \<Rightarrow> pe_issued_at v = ad_issued_at ad \<and>
             (\<forall>x. live_parent_at (parents e) child t = Some x \<longrightarrow> pe_issued_at x < ad_issued_at ad)"
        "\<forall>cl. ceiling = Some cl \<longrightarrow> caps_subset (pe_capabilities v) cl"
    unfolding assms(4) by blast
  then show ?thesis
  proof cases
    case staged
    moreover have "pe_issued_at v = ad_issued_at ad \<and>
        (\<forall>x. live_parent_at (parents e) child t = Some x \<longrightarrow> pe_issued_at x < ad_issued_at ad)"
      using staged(4) assms(2) by (auto simp: parents_staged_def split: option.splits)
    ultimately have "parents_staged e ad t (bt_insert child v u)"
      using assms(2,3) by (auto simp: parents_staged_def tree_map_insert)
    with staged show ?thesis by blast
  qed blast
qed

lemma routes_staged_entry:
  assumes "routes_staged e ad allocation t u"
    and "is_descendant_of d (ad_realm ad)" "next_hop_child d (ad_realm ad) = Some hop"
    and "caps_subset caps (alloc_ceiling allocation)" "prefix_allowed d (alloc_prefixes allocation)"
    and "stage_route_entry (routes e) u t (ad_issued_at ad) (ad_realm ad) d hop route caps (ad_expires_at ad) = Inr u'"
  shows "routes_staged e ad allocation t u'"
  using assms
  by (auto simp: stage_route_entry_def routes_staged_def route_map_def Let_def
      split: option.splits if_splits)

lemma hd_label: "(case labels c of [] \<Rightarrow> None | l # _ \<Rightarrow> Some l) = Some (hd (labels c))"
  using labels_bounds(1) [of c] by (cases "labels c") auto

lemma stage_route_inv:
  assumes tree: "tree_map (parents e)" and inv: "staged_inv e ad allocation t st"
    and st': "stage_route e ad allocation t route st = Inr st'"
  shows "staged_inv e ad allocation t st' \<and> accepted_routes st' = accepted_routes st @ [dr_route_id route]"
proof -
  let ?d = "dr_descendant route" and ?a = "ad_realm ad"
  from st' have desc: "is_descendant_of ?d ?a"
    and rest: "prefix_allowed ?d (alloc_prefixes allocation)"
      "caps_subset (dr_capabilities route) (alloc_ceiling allocation)"
    by (auto simp: stage_route_def Let_def split: if_splits)
  from direct_child_below_descendant [OF desc] obtain c where
    c: "direct_child_below ?d ?a = Some c" "is_direct_child_of c ?a" "next_hop_child ?d ?a = Some (hd (labels c))"
    by blast
  from st' c have hop: "hd (labels c) = dr_next_hop_child route"
    by (auto simp: stage_route_def Let_def hd_label split: if_splits)
  from st' c obtain erid ecaps ps rs where
    ps: "stage_parent_edge (parents e) (parent_updates st) t (ad_issued_at ad) ?a c erid ecaps None (ad_expires_at ad) = Inr ps"
    and rs: "stage_route_entry (routes e) (route_updates st) t (ad_issued_at ad) ?a ?d (dr_next_hop_child route)
      (dr_route_id route) (dr_capabilities route) (ad_expires_at ad) = Inr rs"
    and st'_eq: "st' = \<lparr>parent_updates = ps, route_updates = rs,
      accepted_routes = accepted_routes st @ [dr_route_id route],
      seen_descendants = bt_insert ?d () (seen_descendants st)\<rparr>"
    by (auto simp: stage_route_def Let_def bind_result_eq_Inr split: if_splits)
  have "parents_staged e ad t (parent_updates st)" using inv by (simp add: staged_inv_def)
  from parents_staged_edge [OF tree this c(2) ps] obtain v where
    v: "ps = bt_insert c v (parent_updates st)" "parents_staged e ad t ps"
    by auto
  moreover have "routes_staged e ad allocation t rs"
    using inv desc c(3) rest rs by (intro routes_staged_entry [OF _ desc _ rest(2,1) rs]) (simp_all add: staged_inv_def hop)
  moreover have "c \<noteq> ?a" using c(2) by (auto dest: is_direct_child_of_length)
  ultimately show ?thesis using inv by (auto simp: staged_inv_def st'_eq)
qed

lemma stage_routes_inv:
  "tree_map (parents e) \<Longrightarrow> staged_inv e ad allocation t st \<Longrightarrow>
   stage_routes e ad allocation t rs st = Inr st' \<Longrightarrow>
   staged_inv e ad allocation t st' \<and> accepted_routes st' = accepted_routes st @ map dr_route_id rs"
proof (induction rs arbitrary: st)
  case (Cons r rs)
  then obtain st1 where st1: "stage_route e ad allocation t r st = Inr st1"
    "stage_routes e ad allocation t rs st1 = Inr st'"
    by (auto simp: bind_result_eq_Inr)
  from stage_route_inv [OF Cons.prems(1,2) st1(1)] Cons.IH [OF Cons.prems(1) _ st1(2)] show ?case by simp
qed simp

lemma stage_advertisement_inv:
  assumes tree: "tree_map (parents e)" and edge: "edge_ok (ad_tree_edge ad)"
    and child: "edge_child (ad_tree_edge ad) = ad_realm ad"
    and st: "stage_advertisement e ad allocation t = Inr st"
  shows "staged_inv e ad allocation t st \<and> accepted_routes st = map dr_route_id (ad_routes ad)"
proof -
  from st obtain ps where
    ps: "stage_parent_edge (parents e) bt_empty t (ad_issued_at ad) (edge_parent (ad_tree_edge ad))
          (edge_child (ad_tree_edge ad)) None (Some (alloc_ceiling allocation))
          (Some (alloc_ceiling allocation)) (ad_expires_at ad) = Inr ps"
    and rs: "stage_routes e ad allocation t (ad_routes ad)
      \<lparr>parent_updates = ps, route_updates = bt_empty, accepted_routes = [], seen_descendants = bt_empty\<rparr> = Inr st"
    by (auto simp: stage_advertisement_def bind_result_eq_Inr)
  have "parents_staged e ad t bt_empty" by (simp add: parents_staged_def)
  from parents_staged_edge [OF tree this _ ps] edge obtain v where
    "ps = bt_insert (edge_child (ad_tree_edge ad)) v bt_empty" "parents_staged e ad t ps"
    "caps_subset (pe_capabilities v) (alloc_ceiling allocation)"
    by (auto simp: edge_ok_iff)
  then have "staged_inv e ad allocation t
      \<lparr>parent_updates = ps, route_updates = bt_empty, accepted_routes = [], seen_descendants = bt_empty\<rparr>"
    by (simp add: staged_inv_def routes_staged_def child)
  from stage_routes_inv [OF tree this rs] show ?thesis by simp
qed


section \<open>The engine invariant\<close>

definition engine_inv :: "route_tree_engine \<Rightarrow> bool" where
  [invs]: "engine_inv e \<longleftrightarrow>
     tree_map (parents e) \<and> route_map (routes e) \<and>
     bt_len (parents e) \<le> max_parent_entries (capacity_limits e) \<and>
     bt_len (routes e) \<le> max_route_entries (capacity_limits e) \<and>
     bt_len (replayed_adverts e) \<le> max_replay_keys (capacity_limits e)"

lemma tree_map_extend: "tree_map m \<Longrightarrow> tree_map u \<Longrightarrow> tree_map (bt_extend m u)"
  by (auto simp: tree_map_def split: option.splits)

lemma route_map_extend: "route_map m \<Longrightarrow> route_map u \<Longrightarrow> route_map (bt_extend m u)"
  unfolding route_map_def by (auto split: option.splits)

lemma tree_map_sweep: "tree_map m \<Longrightarrow> tree_map (sweep_parents t m)"
  by (auto simp: tree_map_def dest: parent_store.sweep_subset)

lemma route_map_sweep: "route_map m \<Longrightarrow> route_map (sweep_routes t m)"
  unfolding route_map_def by (auto dest: route_store.sweep_subset)

lemma prune_expired_fields [simp]:
  "parents (snd (prune_expired e t)) = sweep_parents t (parents e)"
  "routes (snd (prune_expired e t)) = sweep_routes t (routes e)"
  "replayed_adverts (snd (prune_expired e t)) = sweep_replays t (replayed_adverts e)"
  "capacity_limits (snd (prune_expired e t)) = capacity_limits e"
  "local_root (snd (prune_expired e t)) = local_root e" "placement (snd (prune_expired e t)) = placement e"
  by (simp_all add: prune_expired_def Let_def)

lemma engine_inv_prune: "engine_inv e \<Longrightarrow> engine_inv (snd (prune_expired e t))"
  using parent_store.sweep_len_le [of t "parents e"] route_store.sweep_len_le [of t "routes e"]
    replay_store.sweep_len_le [of t "replayed_adverts e"]
  by (simp add: engine_inv_def tree_map_sweep route_map_sweep)

lemma engine_inv_initial: "engine_inv (with_capacity_limits root place a b c)"
  by (simp add: engine_inv_def with_capacity_limits_def)

lemma commit_fields [simp]:
  "capacity_limits (commit e st envelope pressure) = capacity_limits e"
  "local_root (commit e st envelope pressure) = local_root e"
  by (simp_all add: commit_def Let_def)

lemma engine_inv_commit:
  assumes "engine_inv e" "tree_map (parent_updates st)" "route_map (route_updates st)"
    and "\<not> (capacity_pressure e st envelope \<and> over_capacity e st envelope)"
  shows "engine_inv (commit e st envelope (capacity_pressure e st envelope))"
proof (cases "capacity_pressure e st envelope")
  case True
  with assms show ?thesis
    by (simp add: engine_inv_def commit_def Let_def over_capacity_def tree_map_extend route_map_extend
        tree_map_sweep route_map_sweep projected_parent_len_eq projected_route_len_eq not_less
        projected_replay_len_eq [where x = "ad_expires_at (env_advertisement envelope)"])
next
  case False
  with assms show ?thesis
    by (simp add: engine_inv_def commit_def Let_def capacity_pressure_def tree_map_extend route_map_extend
        projected_physical_len_eq not_less
        physical_replay_len_eq [where x = "ad_expires_at (env_advertisement envelope)"])
qed

lemma precheck_None:
  "precheck e envelope allocation = None \<Longrightarrow>
   edge_child (ad_tree_edge (env_advertisement envelope)) = ad_realm (env_advertisement envelope) \<and>
   ad_issued_at (env_advertisement envelope) \<le> env_received_at envelope \<and>
   \<not> is_expired (ad_expires_at (env_advertisement envelope)) (env_received_at envelope) \<and>
   live_replay_at (replayed_adverts e) (replay_key_of (env_advertisement envelope)) (env_received_at envelope) = None \<and>
   alloc_tree_edge allocation = ad_tree_edge (env_advertisement envelope) \<and>
   alloc_generation allocation = ad_generation (env_advertisement envelope)"
  unfolding precheck_def Let_def replay_check
  by (auto simp: is_expired_def split: if_splits)

lemma admit_cases:
  obtains (denied) reason where "admit_advertisement e envelope allocation = (admission_denied e reason, e)"
  | (accepted) st where "precheck e envelope allocation = None"
      "stage_advertisement e (env_advertisement envelope) allocation (env_received_at envelope) = Inr st"
      "\<not> (capacity_pressure e st envelope \<and> over_capacity e st envelope)"
      "adm_outcome (fst (admit_advertisement e envelope allocation)) = Accepted (sort (accepted_routes st))"
      "snd (admit_advertisement e envelope allocation) = commit e st envelope (capacity_pressure e st envelope)"
proof (cases "precheck e envelope allocation")
  case (Some reason)
  then show ?thesis by (intro denied [of reason]) (simp add: admit_advertisement_def)
next
  case pre: None
  let ?s = "stage_advertisement e (env_advertisement envelope) allocation (env_received_at envelope)"
  show ?thesis
  proof (cases ?s)
    case (Inl reason)
    with pre show ?thesis by (intro denied [of reason]) (simp add: admit_advertisement_def)
  next
    case (Inr st)
    show ?thesis
    proof (cases "capacity_pressure e st envelope \<and> over_capacity e st envelope")
      case True
      with pre Inr show ?thesis
        by (intro denied [of Fail_QueueFullDropNew]) (simp add: admit_advertisement_def)
    next
      case False
      then show ?thesis
        by (rule accepted [OF pre Inr]) (use pre Inr False in \<open>auto simp: admit_advertisement_def Let_def\<close>)
    qed
  qed
qed

lemma engine_inv_admit:
  assumes "engine_inv e" "edge_ok (ad_tree_edge (env_advertisement envelope))"
  shows "engine_inv (snd (admit_advertisement e envelope allocation))"
proof (cases rule: admit_cases [of e envelope allocation])
  case (denied reason)
  with assms show ?thesis by simp
next
  case (accepted st)
  have "staged_inv e (env_advertisement envelope) allocation (env_received_at envelope) st"
    using assms accepted precheck_None [OF accepted(1)]
    by (intro conjunct1 [OF stage_advertisement_inv]) (auto simp: engine_inv_def)
  then have "tree_map (parent_updates st)" "route_map (route_updates st)"
    by (simp_all add: staged_inv_def parents_staged_def routes_staged_def)
  with accepted assms show ?thesis by (simp add: engine_inv_commit)
qed

text \<open>The engines that can occur: a fresh one, after admissions of decoded advertisements (whose tree
  edge \<open>RealmTreeEdge::new\<close> accepted), and after sweeps.\<close>

inductive reachable_engine :: "route_tree_engine \<Rightarrow> bool" where
  fresh: "reachable_engine (with_capacity_limits root place a b c)"
| admit: "reachable_engine e \<Longrightarrow> edge_ok (ad_tree_edge (env_advertisement envelope)) \<Longrightarrow>
    reachable_engine (snd (admit_advertisement e envelope allocation))"
| prune: "reachable_engine e \<Longrightarrow> reachable_engine (snd (prune_expired e t))"

lemma engine_inv_reachable: "reachable_engine e \<Longrightarrow> engine_inv e"
  by (induction rule: reachable_engine.induct) (auto intro: engine_inv_initial engine_inv_admit engine_inv_prune)



section \<open>Accepted routes can be looked up\<close>

definition route_entry_of :: "route_advertisement \<Rightarrow> descendant_route \<Rightarrow> route_entry" where
  "route_entry_of ad r =
     \<lparr>re_advertising_realm = ad_realm ad, re_next_hop_child = dr_next_hop_child r,
      re_route_id = dr_route_id r, re_capabilities = dr_capabilities r,
      re_issued_at = ad_issued_at ad, re_expires_at = ad_expires_at ad\<rparr>"

definition seen_inv :: "staged \<Rightarrow> bool" where
  "seen_inv st \<longleftrightarrow> (\<forall>k. bt_contains (seen_descendants st) k \<longleftrightarrow> bt_contains (route_updates st) k)"

lemma stage_route_lookup:
  assumes "seen_inv st" "stage_route e ad allocation t r st = Inr st'"
  shows "seen_inv st' \<and> bt_get (route_updates st') (dr_descendant r) = Some (route_entry_of ad r) \<and>
         (\<forall>k v. bt_get (route_updates st) k = Some v \<longrightarrow> bt_get (route_updates st') k = Some v)"
proof -
  let ?d = "dr_descendant r"
  from assms(2) have new: "\<not> bt_contains (seen_descendants st) ?d"
    by (auto simp: stage_route_def Let_def split: if_splits)
  with assms(1) have none: "bt_get (route_updates st) ?d = None"
    by (simp add: seen_inv_def bt_contains_def)
  from assms(2) obtain ps rs where
    rs: "stage_route_entry (routes e) (route_updates st) t (ad_issued_at ad) (ad_realm ad) ?d (dr_next_hop_child r)
      (dr_route_id r) (dr_capabilities r) (ad_expires_at ad) = Inr rs"
    and st': "st' = \<lparr>parent_updates = ps, route_updates = rs,
      accepted_routes = accepted_routes st @ [dr_route_id r],
      seen_descendants = bt_insert ?d () (seen_descendants st)\<rparr>"
    by (auto simp: stage_route_def Let_def bind_result_eq_Inr split: if_splits option.splits)
  from rs none have "rs = bt_insert ?d (route_entry_of ad r) (route_updates st)"
    by (auto simp: stage_route_entry_def route_entry_of_def Let_def split: option.splits if_splits)
  with st' none assms(1) show ?thesis
    by (auto simp: seen_inv_def)
qed

lemma stage_routes_lookup:
  "seen_inv st \<Longrightarrow> stage_routes e ad allocation t rs st = Inr st' \<Longrightarrow>
   (\<forall>r\<in>set rs. bt_get (route_updates st') (dr_descendant r) = Some (route_entry_of ad r)) \<and>
   (\<forall>k v. bt_get (route_updates st) k = Some v \<longrightarrow> bt_get (route_updates st') k = Some v)"
proof (induction rs arbitrary: st)
  case (Cons r rs)
  then obtain st1 where st1: "stage_route e ad allocation t r st = Inr st1"
    "stage_routes e ad allocation t rs st1 = Inr st'"
    by (auto simp: bind_result_eq_Inr)
  from stage_route_lookup [OF Cons.prems(1) st1(1)] Cons.IH [OF _ st1(2)] show ?case by auto
qed simp

lemma stage_advertisement_lookup:
  assumes "stage_advertisement e ad allocation t = Inr st" "r \<in> set (ad_routes ad)"
  shows "bt_get (route_updates st) (dr_descendant r) = Some (route_entry_of ad r)"
proof -
  from assms(1) obtain ps where
    rs: "stage_routes e ad allocation t (ad_routes ad)
      \<lparr>parent_updates = ps, route_updates = bt_empty, accepted_routes = [], seen_descendants = bt_empty\<rparr> = Inr st"
    by (auto simp: stage_advertisement_def bind_result_eq_Inr)
  from stage_routes_lookup [OF _ rs] assms(2) show ?thesis by (simp add: seen_inv_def)
qed

lemma commit_parents_get:
  "bt_get (parents (commit e st envelope pressure)) k =
     (case bt_get (parent_updates st) k of
        Some v \<Rightarrow> Some v
      | None \<Rightarrow> bt_get (if pressure then sweep_parents (env_received_at envelope) (parents e) else parents e) k)"
  by (cases "bt_get (parent_updates st) k") (simp_all add: commit_def Let_def)

lemma commit_routes_get:
  "bt_get (routes (commit e st envelope pressure)) k =
     (case bt_get (route_updates st) k of
        Some v \<Rightarrow> Some v
      | None \<Rightarrow> bt_get (if pressure then sweep_routes (env_received_at envelope) (routes e) else routes e) k)"
  by (cases "bt_get (route_updates st) k") (simp_all add: commit_def Let_def)

lemma commit_replays_get:
  "bt_get (replayed_adverts (commit e st envelope pressure)) key =
     (if key = replay_key_of (env_advertisement envelope) then Some (ad_expires_at (env_advertisement envelope))
      else case bt_get (replayed_adverts e) key of
        None \<Rightarrow> None
      | Some x \<Rightarrow>
          if pressure \<and> (is_expired x (env_received_at envelope) \<or>
                is_superseded_replay_key key x (env_advertisement envelope))
          then None else Some x)"
  by (simp add: commit_def Let_def prune_superseded_replay_keys_def replay_store.sweep_get split: option.splits)


section \<open>Replay\<close>

text \<open>The calls of a running engine, and the conditions under which a replay key survives them.\<close>

datatype engine_call =
    Call_admit route_advertisement_envelope route_namespace_allocation
  | Call_prune u64

primrec engine_apply :: "engine_call \<Rightarrow> route_tree_engine \<Rightarrow> route_tree_engine" where
  "engine_apply (Call_admit envelope allocation) e = snd (admit_advertisement e envelope allocation)"
| "engine_apply (Call_prune t) e = snd (prune_expired e t)"

primrec call_time :: "engine_call \<Rightarrow> u64" where
  "call_time (Call_admit envelope allocation) = env_received_at envelope"
| "call_time (Call_prune t) = t"

primrec call_supersedes :: "replay_key \<Rightarrow> u64 \<Rightarrow> engine_call \<Rightarrow> bool" where
  "call_supersedes key x (Call_admit envelope allocation) =
     is_superseded_replay_key key x (env_advertisement envelope)"
| "call_supersedes key x (Call_prune t) = False"

lemma replay_key_call:
  assumes "bt_get (replayed_adverts e) key = Some x" "\<not> is_expired x (call_time c)" "\<not> call_supersedes key x c"
  shows "bt_get (replayed_adverts (engine_apply c e)) key = Some x"
proof (cases c)
  case (Call_admit envelope allocation)
  show ?thesis
  proof (cases rule: admit_cases [of e envelope allocation])
    case (denied reason)
    with assms Call_admit show ?thesis by simp
  next
    case (accepted st)
    have "key \<noteq> replay_key_of (env_advertisement envelope)"
      using assms Call_admit precheck_None [OF accepted(1)] by (auto simp: live_replay_at_def)
    with assms Call_admit accepted show ?thesis by (simp add: commit_replays_get)
  qed
qed (use assms in \<open>simp add: replay_store.sweep_get\<close>)

lemma replay_key_run:
  "bt_get (replayed_adverts e) key = Some x \<Longrightarrow>
   list_all (\<lambda>c. \<not> is_expired x (call_time c) \<and> \<not> call_supersedes key x c) calls \<Longrightarrow>
   bt_get (replayed_adverts (fold engine_apply calls e)) key = Some x"
proof (induction calls arbitrary: e)
  case (Cons c calls)
  then show ?case using replay_key_call [of e key x c] by simp
qed simp

lemma live_replay_refused:
  assumes "bt_get (replayed_adverts e) (replay_key_of (env_advertisement envelope)) = Some x"
    "\<not> is_expired x (env_received_at envelope)"
  shows "\<exists>reason. admit_advertisement e envelope allocation = (admission_denied e reason, e)"
proof (cases rule: admit_cases [of e envelope allocation])
  case (accepted st)
  with assms precheck_None [OF accepted(1)] show ?thesis by (simp add: live_replay_at_def)
qed blast


section \<open>Which refusals are possible\<close>

lemma stage_route_no_loop:
  assumes "tree_map (parents e)" "staged_inv e ad allocation t st"
  shows "stage_route e ad allocation t r st \<noteq> Inl Fail_Loop"
proof
  assume loop: "stage_route e ad allocation t r st = Inl Fail_Loop"
  let ?d = "dr_descendant r" and ?a = "ad_realm ad"
  from loop have "is_descendant_of ?d ?a"
    by (auto simp: stage_route_def Let_def split: if_splits)
  from direct_child_below_descendant [OF this] obtain c where
    c: "direct_child_below ?d ?a = Some c" "is_direct_child_of c ?a" by blast
  have "parents_staged e ad t (parent_updates st)" using assms(2) by (simp add: staged_inv_def)
  note edge = parents_staged_edge [OF assms(1) this c(2) refl]
  have "stage_parent_edge (parents e) (parent_updates st) t (ad_issued_at ad) ?a c route caps None
          (ad_expires_at ad) \<noteq> Inl Fail_Loop" for route caps
    using edge [of route caps None] by auto
  with loop c(1) show False
    by (auto simp: stage_route_def bind_result_def stage_route_entry_def Let_def
        split: if_splits sum.splits option.splits)
qed

lemma stage_routes_no_loop:
  "tree_map (parents e) \<Longrightarrow> staged_inv e ad allocation t st \<Longrightarrow>
   stage_routes e ad allocation t rs st \<noteq> Inl Fail_Loop"
proof (induction rs arbitrary: st)
  case (Cons r rs)
  show ?case
  proof (cases "stage_route e ad allocation t r st")
    case (Inl reason)
    with Cons.prems stage_route_no_loop [of e ad allocation t st r] show ?thesis by auto
  next
    case (Inr st1)
    with Cons stage_route_inv [OF Cons.prems Inr] show ?thesis by simp
  qed
qed simp

lemma stage_advertisement_no_loop:
  assumes "tree_map (parents e)" "edge_ok (ad_tree_edge ad)" "edge_child (ad_tree_edge ad) = ad_realm ad"
  shows "stage_advertisement e ad allocation t \<noteq> Inl Fail_Loop"
proof -
  have "parents_staged e ad t bt_empty" by (simp add: parents_staged_def)
  from parents_staged_edge [OF assms(1) this _ refl, of "ad_realm ad" "edge_parent (ad_tree_edge ad)" None
      "Some (alloc_ceiling allocation)" "Some (alloc_ceiling allocation)"] assms
  consider (replay) "stage_parent_edge (parents e) bt_empty t (ad_issued_at ad) (edge_parent (ad_tree_edge ad))
        (ad_realm ad) None (Some (alloc_ceiling allocation)) (Some (alloc_ceiling allocation)) (ad_expires_at ad)
        = Inl Fail_Replay"
    | (staged) v where "stage_parent_edge (parents e) bt_empty t (ad_issued_at ad) (edge_parent (ad_tree_edge ad))
        (ad_realm ad) None (Some (alloc_ceiling allocation)) (Some (alloc_ceiling allocation)) (ad_expires_at ad)
        = Inr (bt_insert (ad_realm ad) v bt_empty)"
        "parents_staged e ad t (bt_insert (ad_realm ad) v bt_empty)"
        "caps_subset (pe_capabilities v) (alloc_ceiling allocation)"
    by (auto simp: edge_ok_iff)
  then show ?thesis
  proof cases
    case replay
    with assms show ?thesis by (simp add: stage_advertisement_def)
  next
    case staged
    then have "staged_inv e ad allocation t \<lparr>parent_updates = bt_insert (ad_realm ad) v bt_empty,
        route_updates = bt_empty, accepted_routes = [], seen_descendants = bt_empty\<rparr>"
      by (simp add: staged_inv_def routes_staged_def)
    with staged assms stage_routes_no_loop show ?thesis by (simp add: stage_advertisement_def)
  qed
qed



section \<open>Properties\<close>

text \<open>Advertisements for the examples: realm \<open>work.local\<close> below the root \<open>local\<close>, with routes to
  \<open>dev.work.local\<close> or to \<open>x.dev.work.local\<close>.\<close>

definition demo_child :: realm_path where
  "demo_child = checked_path [''work'', ''local'']"

definition demo_grand :: realm_path where
  "demo_grand = checked_path [''dev'', ''work'', ''local'']"

definition demo_great :: realm_path where
  "demo_great = checked_path [''x'', ''dev'', ''work'', ''local'']"

definition demo_misc :: realm_path where
  "demo_misc = checked_path [''misc'', ''local'']"

definition demo_route :: "realm_path \<Rightarrow> realm_id \<Rightarrow> capability list \<Rightarrow> descendant_route" where
  "demo_route d hop caps =
     \<lparr>dr_route_id = ''r1'', dr_descendant = d, dr_next_hop_child = hop, dr_capabilities = from_caps caps\<rparr>"

definition demo_advert ::
    "realm_path \<Rightarrow> descendant_route \<Rightarrow> signature_ref \<Rightarrow> u64 \<Rightarrow> u64 \<Rightarrow> route_advertisement" where
  "demo_advert realm route sref issued expires =
     \<lparr>ad_realm = realm, ad_tree_edge = \<lparr>edge_parent = local, edge_child = realm\<rparr>,
      ad_generation = ''gen-1'', ad_routes = [route], ad_issued_at = issued, ad_expires_at = expires,
      ad_signature = \<lparr>sig_algorithm = ''ed25519'', sig_key_role = ControllerGeneration,
        sig_key_fingerprint = ''f'', sig_ref = sref\<rparr>\<rparr>"

definition demo_envelope :: "route_advertisement \<Rightarrow> u64 \<Rightarrow> route_advertisement_envelope" where
  "demo_envelope ad t =
     \<lparr>env_admission = \<lparr>ua_attempt_id = ''op-1'', ua_correlation_id = ''c-1'', ua_trace = None,
        ua_peer_ref = ''peer-1'', ua_ingress_class = Ingress_ChildRelay, ua_claimed_realm = None,
        ua_queue_depth = 0, ua_outcome = Queued\<rparr>,
      env_replay_window = \<lparr>rw_id = ''w'', rw_max_entries = 1, rw_current_entries = 0, rw_ttl_seconds = 1,
        rw_observed_replay_count = 0, rw_opened_at = 0\<rparr>,
      env_correlation_id = ''c-1'', env_trace = None, env_advertisement = ad, env_received_at = t\<rparr>"

definition demo_allocation :: "realm_path \<Rightarrow> capability list \<Rightarrow> route_namespace_allocation" where
  "demo_allocation realm ceiling =
     \<lparr>alloc_tree_edge = \<lparr>edge_parent = local, edge_child = realm\<rparr>, alloc_generation = ''gen-1'',
      alloc_prefixes = [realm], alloc_max_routes = 4, alloc_ceiling = from_caps ceiling\<rparr>"

definition demo_engine :: "nat \<Rightarrow> route_tree_engine" where
  "demo_engine replay_cap = with_capacity_limits local HostLocal 8 8 replay_cap"

definition demo_first :: route_advertisement_envelope where
  "demo_first = demo_envelope (demo_advert demo_child (demo_route demo_grand ''dev'' [Cap_Exec]) ''sig-a'' 1 100) 1"

definition demo_exec :: route_namespace_allocation where
  "demo_exec = demo_allocation demo_child [Cap_Exec, Cap_Logs]"

definition demo_admitted :: route_tree_engine where
  "demo_admitted = snd (admit_advertisement (demo_engine 8) demo_first demo_exec)"

lemma demo_edges:
  "is_direct_child_of demo_child local" "is_direct_child_of demo_misc local"
  "is_direct_child_of demo_grand demo_child" "is_descendant_of demo_great demo_child"
  by code_simp+

lemma demo_first_edge: "edge_ok (ad_tree_edge (env_advertisement demo_first))"
  by (simp add: edge_ok_iff demo_first_def demo_envelope_def demo_advert_def demo_edges)

lemma demo_engine_reachable: "reachable_engine (demo_engine n)"
  unfolding demo_engine_def by (rule reachable_engine.fresh)

lemma demo_admitted_reachable: "reachable_engine demo_admitted"
  unfolding demo_admitted_def by (intro reachable_engine.admit demo_engine_reachable demo_first_edge)

lemma demo_accepted:
  "adm_outcome (fst (admit_advertisement (demo_engine 8) demo_first demo_exec)) = Accepted [''r1'']"
  by code_simp

text \<open>C1. Whatever advertisements arrive, the parent map stays a forest in which every entry is a
  direct-child edge of the realm tree, every route entry names the next hop its path implies, and
  no map grows past its capacity limit.\<close>

theorem engine_tree_and_capacity:
  assumes "reachable_engine e"
  shows "tree_map (parents e) \<and> route_map (routes e) \<and>
         bt_len (parents e) \<le> max_parent_entries (capacity_limits e) \<and>
         bt_len (routes e) \<le> max_route_entries (capacity_limits e) \<and>
         bt_len (replayed_adverts e) \<le> max_replay_keys (capacity_limits e)"
  using engine_inv_reachable [OF assms] by (simp add: engine_inv_def)

lemma engine_tree_and_capacity_witness: "tree_map (parents demo_admitted) \<and> route_map (routes demo_admitted)"
  using engine_tree_and_capacity [OF demo_admitted_reachable] by blast

text \<open>C23. Admission is all or nothing. A refused advertisement leaves the engine as it was; an accepted
  one reports all its route ids, makes every advertised descendant resolvable with exactly the
  advertised next hop and capabilities, and grants its own edge no capability above the ceiling that
  the parent delegated.\<close>

theorem admission_effect:
  assumes "reachable_engine e" "edge_ok (ad_tree_edge (env_advertisement envelope))"
    and "admit_advertisement e envelope allocation = (admission, e')"
  shows "case adm_outcome admission of
      AdmissionDenied reason \<Rightarrow> e' = e
    | Accepted ids \<Rightarrow>
        ids = sort (map dr_route_id (ad_routes (env_advertisement envelope))) \<and>
        list_all (\<lambda>r. route_entry_at e' (dr_descendant r) (env_received_at envelope) =
            Some (route_entry_of (env_advertisement envelope) r) \<and>
            caps_subset (dr_capabilities r) (alloc_ceiling allocation)) (ad_routes (env_advertisement envelope)) \<and>
        (\<exists>v. parent_entry_at e' (ad_realm (env_advertisement envelope)) (env_received_at envelope) = Some v \<and>
             caps_subset (pe_capabilities v) (alloc_ceiling allocation))"
proof (cases rule: admit_cases [of e envelope allocation])
  case (denied reason)
  with assms(3) show ?thesis by (auto simp: admission_denied_def)
next
  case (accepted st)
  let ?ad = "env_advertisement envelope" and ?t = "env_received_at envelope"
  have tree: "tree_map (parents e)"
    using engine_inv_reachable [OF assms(1)] by (simp add: engine_inv_def)
  note pre = precheck_None [OF accepted(1)]
  from stage_advertisement_inv [OF tree assms(2) _ accepted(2)] pre
  have inv: "staged_inv e ?ad allocation ?t st" and ids: "accepted_routes st = map dr_route_id (ad_routes ?ad)"
    by simp_all
  have e': "e' = commit e st envelope (capacity_pressure e st envelope)"
    using assms(3) accepted(5) by simp
  have "route_entry_at e' (dr_descendant r) ?t = Some (route_entry_of ?ad r) \<and>
        caps_subset (dr_capabilities r) (alloc_ceiling allocation)" if r: "r \<in> set (ad_routes ?ad)" for r
  proof -
    have get: "bt_get (route_updates st) (dr_descendant r) = Some (route_entry_of ?ad r)"
      by (rule stage_advertisement_lookup [OF accepted(2) r])
    then have "bt_get (routes e') (dr_descendant r) = Some (route_entry_of ?ad r)"
      by (simp add: e' commit_routes_get)
    moreover have "caps_subset (re_capabilities (route_entry_of ?ad r)) (alloc_ceiling allocation)"
      using inv get unfolding staged_inv_def routes_staged_def by blast
    ultimately show ?thesis
      using pre by (simp add: route_entry_at_def live_route_at_def route_entry_of_def)
  qed
  moreover have "\<exists>v. parent_entry_at e' (ad_realm ?ad) ?t = Some v \<and>
      caps_subset (pe_capabilities v) (alloc_ceiling allocation)"
  proof -
    from inv obtain v where v: "bt_get (parent_updates st) (ad_realm ?ad) = Some v"
      "caps_subset (pe_capabilities v) (alloc_ceiling allocation)" "pe_expires_at v = ad_expires_at ?ad"
      unfolding staged_inv_def parents_staged_def by blast
    with pre show ?thesis
      by (simp add: e' parent_entry_at_def live_parent_at_def commit_parents_get)
  qed
  moreover have "adm_outcome admission = Accepted (sort (map dr_route_id (ad_routes ?ad)))"
    using assms(3) accepted(4) ids by simp
  ultimately show ?thesis by (simp add: list_all_iff)
qed

lemma admission_effect_witness:
  "route_entry_at demo_admitted demo_grand 1 \<noteq> None"
proof -
  have a: "admit_advertisement (demo_engine 8) demo_first demo_exec =
      (fst (admit_advertisement (demo_engine 8) demo_first demo_exec), demo_admitted)"
    by (simp add: demo_admitted_def)
  from admission_effect [OF demo_engine_reachable demo_first_edge a] demo_accepted show ?thesis
    by (simp add: demo_first_def demo_envelope_def demo_advert_def demo_route_def)
qed

text \<open>Admission never rolls a live entry back: after an accepted advertisement every parent entry
  and every route entry that was live is still there unchanged, or was replaced by one issued
  strictly later.\<close>

theorem admission_monotone:
  assumes "reachable_engine e" "edge_ok (ad_tree_edge (env_advertisement envelope))"
    and "t = env_received_at envelope" "e' = snd (admit_advertisement e envelope allocation)"
  shows "(case live_parent_at (parents e) k t of None \<Rightarrow> True
          | Some x \<Rightarrow> \<exists>y. live_parent_at (parents e') k t = Some y \<and> (y = x \<or> pe_issued_at x < pe_issued_at y)) \<and>
         (case live_route_at (routes e) k t of None \<Rightarrow> True
          | Some x \<Rightarrow> \<exists>y. live_route_at (routes e') k t = Some y \<and> (y = x \<or> re_issued_at x < re_issued_at y))"
proof (cases rule: admit_cases [of e envelope allocation])
  case (denied reason)
  with assms(4) show ?thesis by (auto split: option.splits)
next
  case (accepted st)
  let ?ad = "env_advertisement envelope"
  have tree: "tree_map (parents e)"
    using engine_inv_reachable [OF assms(1)] by (simp add: engine_inv_def)
  note pre = precheck_None [OF accepted(1)]
  from stage_advertisement_inv [OF tree assms(2) _ accepted(2)] pre
  have "staged_inv e ?ad allocation t st" by (simp add: assms(3))
  then have ps: "parents_staged e ?ad t (parent_updates st)"
    and rs: "routes_staged e ?ad allocation t (route_updates st)" by (simp_all add: staged_inv_def)
  have e': "e' = commit e st envelope (capacity_pressure e st envelope)"
    using assms(4) accepted(5) by simp
  have fresh: "\<not> is_expired (ad_expires_at ?ad) t" using pre assms(3) by simp
  have "\<exists>y. live_parent_at (parents e') k t = Some y \<and> (y = x \<or> pe_issued_at x < pe_issued_at y)"
    if "live_parent_at (parents e) k t = Some x" for x
    using that ps fresh
    by (cases "bt_get (parent_updates st) k")
       (auto simp: e' live_parent_at_def commit_parents_get parents_staged_def parent_store.sweep_get assms(3)
          split: option.splits if_splits)
  moreover have "\<exists>y. live_route_at (routes e') k t = Some y \<and> (y = x \<or> re_issued_at x < re_issued_at y)"
    if "live_route_at (routes e) k t = Some x" for x
    using that rs fresh
    by (cases "bt_get (route_updates st) k")
       (auto simp: e' live_route_at_def commit_routes_get routes_staged_def route_store.sweep_get assms(3)
          split: option.splits if_splits)
  ultimately show ?thesis by (auto split: option.splits)
qed

lemma admission_monotone_witness:
  "case live_parent_at (parents demo_admitted) demo_child 1 of None \<Rightarrow> True
   | Some x \<Rightarrow> \<exists>y. live_parent_at (parents (snd (admit_advertisement demo_admitted demo_first demo_exec))) demo_child 1
       = Some y \<and> (y = x \<or> pe_issued_at x < pe_issued_at y)"
proof -
  have "1 = env_received_at demo_first" by (simp add: demo_first_def demo_envelope_def)
  from admission_monotone [OF demo_admitted_reachable demo_first_edge this refl] show ?thesis by blast
qed

text \<open>C24. An accepted advertisement is refused when it is replayed, after any number of other admissions
  and sweeps at times before its expiry, none of which supersedes its replay key (same realm and
  generation, issued later and expiring no earlier); the replay changes nothing.\<close>

theorem replay_refused:
  assumes "adm_outcome (fst (admit_advertisement e envelope allocation)) = Accepted ids"
    and "e' = fold engine_apply calls (snd (admit_advertisement e envelope allocation))"
    and "list_all (\<lambda>c. \<not> is_expired (ad_expires_at (env_advertisement envelope)) (call_time c) \<and>
           \<not> call_supersedes (replay_key_of (env_advertisement envelope))
               (ad_expires_at (env_advertisement envelope)) c) calls"
    and "env_advertisement envelope' = env_advertisement envelope"
    and "\<not> is_expired (ad_expires_at (env_advertisement envelope)) (env_received_at envelope')"
  shows "\<exists>reason. admit_advertisement e' envelope' allocation' = (admission_denied e' reason, e')"
proof (cases rule: admit_cases [of e envelope allocation])
  case (denied reason)
  with assms(1) show ?thesis by (simp add: admission_denied_def)
next
  case (accepted st)
  have "bt_get (replayed_adverts e') (replay_key_of (env_advertisement envelope)) =
        Some (ad_expires_at (env_advertisement envelope))"
    unfolding assms(2) by (rule replay_key_run [OF _ assms(3)]) (simp add: accepted(5) commit_replays_get)
  with assms(4,5) show ?thesis by (intro live_replay_refused) simp_all
qed

lemma replay_refused_witness:
  "\<exists>reason. adm_outcome (fst (admit_advertisement (snd (prune_expired demo_admitted 50))
      (demo_first\<lparr>env_received_at := 60\<rparr>) demo_exec)) = AdmissionDenied reason"
proof -
  have run: "snd (prune_expired demo_admitted 50) =
      fold engine_apply [Call_prune 50] (snd (admit_advertisement (demo_engine 8) demo_first demo_exec))"
    by (simp add: demo_admitted_def)
  have "ad_expires_at (env_advertisement demo_first) = 100"
    by (simp add: demo_first_def demo_envelope_def demo_advert_def)
  then have "\<exists>reason. admit_advertisement (snd (prune_expired demo_admitted 50)) (demo_first\<lparr>env_received_at := 60\<rparr>)
      demo_exec = (admission_denied (snd (prune_expired demo_admitted 50)) reason, snd (prune_expired demo_admitted 50))"
    by (intro replay_refused [OF demo_accepted run]) (simp_all add: is_expired_def)
  then show ?thesis by (auto simp: admission_denied_def)
qed

text \<open>With decoded tree edges an advertisement is never refused for forming a loop: parent pointers
  always lead towards the root.\<close>

theorem no_loop_refusal:
  assumes "reachable_engine e" "edge_ok (ad_tree_edge (env_advertisement envelope))"
  shows "adm_outcome (fst (admit_advertisement e envelope allocation)) \<noteq> AdmissionDenied Fail_Loop"
proof -
  have tree: "tree_map (parents e)"
    using engine_inv_reachable [OF assms(1)] by (simp add: engine_inv_def)
  have pre: "precheck e envelope allocation \<noteq> Some Fail_Loop"
    by (simp add: precheck_def Let_def)
  show ?thesis
  proof (cases "precheck e envelope allocation")
    case None
    with stage_advertisement_no_loop [OF tree assms(2)] precheck_None [OF None] show ?thesis
      by (auto simp: admit_advertisement_def admission_denied_def Let_def split: sum.splits)
  qed (use pre in \<open>auto simp: admit_advertisement_def admission_denied_def\<close>)
qed

lemma no_loop_refusal_witness:
  "adm_outcome (fst (admit_advertisement demo_admitted demo_first demo_exec)) \<noteq> AdmissionDenied Fail_Loop"
  by (rule no_loop_refusal [OF demo_admitted_reachable demo_first_edge])

text \<open>The run behind the next property: \<open>sig-a\<close> is admitted; an unrelated realm fills the two-entry
  replay set; \<open>sig-b\<close> supersedes \<open>sig-a\<close> and its key is dropped to make room; \<open>sig-c\<close> replaces \<open>sig-b\<close>
  with an entry that expires early; after that expiry \<open>sig-a\<close> arrives again.\<close>

definition demo_grand_advert :: "signature_ref \<Rightarrow> u64 \<Rightarrow> u64 \<Rightarrow> route_advertisement" where
  "demo_grand_advert = demo_advert demo_child (demo_route demo_grand ''dev'' [Cap_Exec])"

definition replay_run :: "engine_call list" where
  "replay_run =
     [Call_admit (demo_envelope (demo_advert demo_misc
        (demo_route (checked_path [''y'', ''misc'', ''local'']) ''y'' [Cap_Exec]) ''sig-m'' 1 3) 2)
        (demo_allocation demo_misc [Cap_Exec]),
      Call_admit (demo_envelope (demo_grand_advert ''sig-b'' 2 100) 2) demo_exec,
      Call_admit (demo_envelope (demo_grand_advert ''sig-c'' 3 10) 3) demo_exec]"


text \<open>A delegation is narrowed: first \<open>dev.work.local\<close> is advertised with \<open>exec\<close> until time 10; then,
  under a ceiling without \<open>exec\<close>, only a realm below it is advertised, until time 100.\<close>

definition demo_narrowed :: route_tree_engine where
  "demo_narrowed =
     snd (admit_advertisement
       (snd (admit_advertisement (demo_engine 8) (demo_envelope (demo_grand_advert ''sig-a'' 1 10) 1) demo_exec))
       (demo_envelope (demo_advert demo_child (demo_route demo_great ''dev'' [Cap_Logs]) ''sig-b'' 2 100) 2)
       (demo_allocation demo_child [Cap_Logs]))"


end
