(* ===== verification/Route_Decisions.thy ===== *)
theory Route_Decisions
  imports Route_Admission
begin

text \<open>
  Route decisions of \<open>d2b-realm-core/src/route_engine.rs\<close>: building the tree path between two
  realms, the capability check, direct shortcuts and their teardown, the discovery queue, and the
  route inventory.
\<close>

section \<open>Building a path\<close>

definition up_hop :: "realm_path \<Rightarrow> parent_entry \<Rightarrow> route_fail_closed_reason + tree_route_hop" where
  "up_hop current entry =
     bind_result (ok_or (realm_tree_edge_new (pe_parent entry) current) Fail_MalformedAdvert)
       (\<lambda>edge. ok_or (tree_route_hop_new current (pe_parent entry) edge UpToParent (pe_route_id entry))
          Fail_MalformedAdvert)"

definition down_hop :: "realm_path \<Rightarrow> realm_path \<Rightarrow> parent_entry \<Rightarrow> route_fail_closed_reason + tree_route_hop" where
  "down_hop current child entry =
     bind_result (ok_or (realm_tree_edge_new current child) Fail_MalformedAdvert)
       (\<lambda>edge. ok_or (tree_route_hop_new current child edge DownToChild (pe_route_id entry))
          Fail_MalformedAdvert)"

lemma parent_entry_at_dom: "parent_entry_at e realm t \<noteq> None \<Longrightarrow> realm \<in> dom (bt_get (parents e))"
  by (auto simp: parent_entry_at_def live_parent_at_def split: option.splits)

function climb ::
    "route_tree_engine \<Rightarrow> u64 \<Rightarrow> realm_path \<Rightarrow> realm_path \<Rightarrow> realm_path btset \<Rightarrow> tree_route_hop list \<Rightarrow>
     route_fail_closed_reason + tree_route_hop list" where
  "climb e t ancestor current seen hops =
     (if current = ancestor then Inr hops
      else if bt_contains seen current then Inl Fail_Loop
      else case parent_entry_at e current t of
        None \<Rightarrow> Inl Fail_UnknownParent
      | Some entry \<Rightarrow>
          if bt_contains (bt_insert current () seen) (pe_parent entry) then Inl Fail_Loop
          else case up_hop current entry of
            Inl reason \<Rightarrow> Inl reason
          | Inr hop \<Rightarrow> climb e t ancestor (pe_parent entry) (bt_insert current () seen) (hops @ [hop]))"
  by pat_completeness auto

termination
proof (relation "measure (\<lambda>(e, t, ancestor, current, seen, hops).
    card (dom (bt_get (parents e)) - dom (bt_get seen)))")
  fix e :: route_tree_engine and t :: u64 and ancestor current :: realm_path
    and seen :: "realm_path btset" and hops :: "tree_route_hop list" and entry hop
  assume "\<not> bt_contains seen current" "parent_entry_at e current t = Some entry"
  then show "((e, t, ancestor, pe_parent entry, bt_insert current () seen, hops @ [hop]),
              e, t, ancestor, current, seen, hops)
      \<in> measure (\<lambda>(e, t, ancestor, current, seen, hops).
          card (dom (bt_get (parents e)) - dom (bt_get seen)))"
    using parent_entry_at_dom [of e current t] by (auto intro!: card_unseen_less)
qed simp

declare climb.simps [simp del]

primrec descend ::
    "route_tree_engine \<Rightarrow> u64 \<Rightarrow> realm_id list \<Rightarrow> realm_path \<Rightarrow> tree_route_hop list \<Rightarrow>
     route_fail_closed_reason + tree_route_hop list" where
  "descend e t [] current down = Inr down"
| "descend e t (label # rest) current down =
     bind_result (ok_or (child_with_label current label) Fail_MalformedAdvert)
       (\<lambda>child. case parent_entry_at e child t of
          None \<Rightarrow> Inl Fail_UnknownParent
        | Some entry \<Rightarrow>
            if pe_parent entry \<noteq> current then Inl Fail_MultiParent
            else bind_result (down_hop current child entry)
                   (\<lambda>hop. descend e t rest child (down @ [hop])))"

definition build_path_at ::
    "route_tree_engine \<Rightarrow> realm_path \<Rightarrow> realm_path \<Rightarrow> u64 \<Rightarrow> route_fail_closed_reason + tree_route_path" where
  "build_path_at e source target t =
     (if \<not> is_known_realm_at e source t \<or> \<not> is_known_realm_at e target t then Inl Fail_UnknownParent
      else case nearest_common_ancestor source target of
        None \<Rightarrow> Inl Fail_UnknownParent
      | Some ancestor \<Rightarrow>
          bind_result (climb e t ancestor source bt_empty [])
            (\<lambda>hops. bind_result
               (descend e t
                  (rev (take (length (labels target) - length (labels ancestor)) (labels target))) ancestor [])
               (\<lambda>down. ok_or (tree_route_path_new source target ancestor (hops @ down)) Fail_MalformedAdvert)))"


section \<open>Decisions\<close>

definition decide_route_at ::
    "route_tree_engine \<Rightarrow> u64 \<Rightarrow> operation_id \<Rightarrow> correlation_id \<Rightarrow> trace_context option \<Rightarrow> realm_path \<Rightarrow>
     realm_path \<Rightarrow> operation_kind \<Rightarrow> policy_rule_id option \<Rightarrow> tree_route_decision \<times> route_engine_event" where
  "decide_route_at e t decision correlation trace source target kind rule =
     (let required = op_required_capability kind;
          outcome =
            (case build_path_at e source target t of
               Inr path \<Rightarrow>
                 (case required of
                    Some cap \<Rightarrow>
                      if \<not> target_has_capability_at e target cap t then Denied Fail_MissingCapability
                      else Allowed path
                  | None \<Rightarrow> Allowed path)
             | Inl reason \<Rightarrow> Denied reason);
          reason = (case outcome of Allowed _ \<Rightarrow> None | Denied r \<Rightarrow> Some r);
          event = route_event (if reason \<noteq> None then Event_RouteDenied else Event_RouteAllowed)
                    (if reason \<noteq> None then Count_RouteDecisionDeniedCount else Count_RouteDecisionAllowedCount)
                    kind reason rule (placement e) (class_for_at e source t) (class_for_at e target t) 1
      in (\<lparr>dec_decision_id = decision, dec_correlation_id = correlation, dec_trace = trace,
           dec_source = source, dec_target = target, dec_operation_kind = kind,
           dec_required_capability = required, dec_policy_rule_id = rule, dec_outcome = outcome\<rparr>, event))"

definition envelope_never_expires_time :: u64 where
  "envelope_never_expires_time = 0"

definition decide_route ::
    "route_tree_engine \<Rightarrow> operation_id \<Rightarrow> correlation_id \<Rightarrow> trace_context option \<Rightarrow> realm_path \<Rightarrow>
     realm_path \<Rightarrow> operation_kind \<Rightarrow> policy_rule_id option \<Rightarrow> tree_route_decision \<times> route_engine_event" where
  "decide_route e = decide_route_at e envelope_never_expires_time"

record direct_shortcut_request =
  sr_shortcut_id :: shortcut_id
  sr_decision_id :: operation_id
  sr_correlation_id :: correlation_id
  sr_trace :: "trace_context option"
  sr_source :: realm_path
  sr_target :: realm_path
  sr_operation_kind :: operation_kind
  sr_policy_rule_id :: "policy_rule_id option"
  sr_issued_at :: u64
  sr_expires_at :: u64
  sr_allow :: bool

datatype direct_shortcut_decision =
    ShortcutAuthorized direct_shortcut_metadata tree_route_decision route_engine_event
  | ShortcutDenied route_fail_closed_reason tree_route_decision route_engine_event

definition shortcut_denied ::
    "route_tree_engine \<Rightarrow> u64 \<Rightarrow> direct_shortcut_request \<Rightarrow> tree_route_decision \<Rightarrow>
     route_fail_closed_reason \<Rightarrow> direct_shortcut_decision" where
  "shortcut_denied e t request decision reason =
     ShortcutDenied reason decision
       (route_event Event_ShortcutDenied Count_ShortcutDeniedCount (sr_operation_kind request) (Some reason)
          (sr_policy_rule_id request) (placement e) (class_for_at e (sr_source request) t)
          (class_for_at e (sr_target request) t) 1)"

definition decide_direct_shortcut ::
    "route_tree_engine \<Rightarrow> u64 \<Rightarrow> direct_shortcut_request \<Rightarrow> direct_shortcut_decision" where
  "decide_direct_shortcut e t request =
     (let time_reason =
            (if t < sr_issued_at request then Some Fail_PolicyDenial
             else if sr_expires_at request \<le> t then Some Fail_Expired
             else None);
          decision = fst (decide_route_at e t (sr_decision_id request) (sr_correlation_id request)
                        (sr_trace request) (sr_source request) (sr_target request)
                        (sr_operation_kind request) (sr_policy_rule_id request));
          denied = shortcut_denied e t request decision
      in case time_reason of
           Some reason \<Rightarrow> denied reason
         | None \<Rightarrow>
             (case dec_outcome decision of
                Denied reason \<Rightarrow> denied reason
              | Allowed path \<Rightarrow>
                  if \<not> sr_allow request then denied Fail_PolicyDenial
                  else
                    (case direct_shortcut_metadata_new
                            \<lparr>sc_id = sr_shortcut_id request, sc_correlation_id = sr_correlation_id request,
                             sc_trace = sr_trace request, sc_ancestor = path_ancestor path,
                             sc_source = sr_source request, sc_target = sr_target request,
                             sc_operation_kind = sr_operation_kind request,
                             sc_required_capability = op_required_capability (sr_operation_kind request),
                             sc_path = path, sc_policy_rule_id = sr_policy_rule_id request,
                             sc_state = Shortcut_Authorized, sc_issued_at = sr_issued_at request,
                             sc_expires_at = sr_expires_at request\<rparr> of
                       None \<Rightarrow> denied Fail_PolicyDenial
                     | Some metadata \<Rightarrow>
                         ShortcutAuthorized metadata decision
                           (route_event Event_ShortcutAuthorized Count_ShortcutAuthorizedCount
                              (sr_operation_kind request) None (sr_policy_rule_id request) (placement e)
                              (class_for_at e (sr_source request) t) (class_for_at e (sr_target request) t) 1))))"

definition decide_direct_shortcut_teardown ::
    "route_tree_engine \<Rightarrow> direct_shortcut_metadata \<Rightarrow> direct_shortcut_teardown_reason \<Rightarrow> u64 \<Rightarrow>
     direct_shortcut_teardown \<times> route_engine_event" where
  "decide_direct_shortcut_teardown e metadata reason at =
     (\<lparr>td_shortcut_id = sc_id metadata, td_correlation_id = sc_correlation_id metadata,
       td_trace = sc_trace metadata, td_source = sc_source metadata, td_target = sc_target metadata,
       td_reason = reason, td_torn_down_at = at\<rparr>,
      route_event Event_ShortcutTornDown Count_RevocationTeardownCount (sc_operation_kind metadata) None
        (sc_policy_rule_id metadata) (placement e) (class_for_at e (sc_source metadata) at)
        (class_for_at e (sc_target metadata) at) 1)"

record route_inventory_entry =
  inv_descendant :: realm_path
  inv_advertising_realm :: realm_path
  inv_next_hop_child :: realm_id
  inv_route_id :: route_id
  inv_capabilities :: capability_set

definition route_inventory :: "route_tree_engine \<Rightarrow> route_inventory_entry list" where
  "route_inventory e =
     map (\<lambda>(descendant, route).
            \<lparr>inv_descendant = descendant, inv_advertising_realm = re_advertising_realm route,
             inv_next_hop_child = re_next_hop_child route, inv_route_id = re_route_id route,
             inv_capabilities = re_capabilities route\<rparr>)
       (bt_entries (routes e))"

record discovery_queue_decision =
  dq_outcome :: pre_auth_admission_outcome
  dq_depth_after :: u32
  dq_event :: route_engine_event

definition decide_discovery_queue ::
    "discovery_queue_policy \<Rightarrow> u32 \<Rightarrow> u32 \<Rightarrow> u32 \<Rightarrow> discovery_queue_decision" where
  "decide_discovery_queue policy current_depth relay_events peer_events =
     (let (outcome, depth, counter, reason) =
            (if max_depth policy \<le> current_depth then
               (case drop_policy policy of
                  DropNew \<Rightarrow> (Dropped Fail_QueueFullDropNew, current_depth, Count_DiscoveryDropNewCount,
                              Some Fail_QueueFullDropNew))
             else if per_relay_rate_limit policy \<le> relay_events \<or> per_peer_rate_limit policy \<le> peer_events then
               (Dropped Fail_RateLimited, current_depth, Count_PreAuthRateLimitHitCount, Some Fail_RateLimited)
             else (Queued, current_depth + 1, Count_DiscoveryQueueDepth, None))
      in \<lparr>dq_outcome = outcome, dq_depth_after = depth,
          dq_event = route_event
            (if reason \<noteq> None then Event_DiscoveryDropped else Event_DiscoveryQueued) counter
            Op_NodeCapabilities reason None Place_Unknown Class_Unknown Class_Unknown (ucast depth)\<rparr>)"



section \<open>The nearest common ancestor\<close>

lemma takeWhile_zip_longest:
  "map fst (takeWhile (\<lambda>(a, b). a = b) (zip xs ys)) = longest_common_prefix xs ys"
proof (induction xs arbitrary: ys)
  case (Cons x xs)
  then show ?case by (cases ys) auto
qed simp

lemma nearest_common_ancestor_Some:
  "nearest_common_ancestor p q = Some a \<longleftrightarrow> labels a = rev (longest_common_prefix (rev (labels p)) (rev (labels q)))"
proof -
  let ?c = "longest_common_prefix (rev (labels p)) (rev (labels q))"
  have "\<exists>a. realm_path_new (rev ?c) = Some a \<and> labels a = rev ?c" if nonempty: "?c \<noteq> []"
  proof -
    have "prefix ?c (rev (labels p))" by (rule longest_common_prefix_prefix1)
    then have "suffix (rev ?c) (labels p)" by (simp add: suffix_to_prefix)
    then obtain zs where "labels p = zs @ rev ?c" by (auto simp: suffix_def)
    with nonempty suffix_path_valid show ?thesis by force
  qed
  moreover have "labels a \<noteq> rev ?c" if "?c = []" using that labels_bounds(1) by simp
  ultimately show ?thesis
    by (auto simp: nearest_common_ancestor_def takeWhile_zip_longest Let_def realm_path_new_Some
        intro: realm_path_eqI)
qed

lemma nearest_common_ancestor_iff:
  "nearest_common_ancestor p q = Some a \<longleftrightarrow>
     suffix (labels a) (labels p) \<and> suffix (labels a) (labels q) \<and>
     (\<forall>b. suffix (labels b) (labels p) \<and> suffix (labels b) (labels q) \<longrightarrow> suffix (labels b) (labels a))"
proof -
  let ?c = "longest_common_prefix (rev (labels p)) (rev (labels q))"
  have below: "suffix (rev ?c) (labels p)" "suffix (rev ?c) (labels q)"
    by (simp_all add: suffix_to_prefix longest_common_prefix_prefix1 longest_common_prefix_prefix2)
  have greatest: "suffix b (rev ?c)" if "suffix b (labels p)" "suffix b (labels q)" for b
    using that by (simp add: suffix_to_prefix longest_common_prefix_max_prefix)
  show ?thesis
  proof
    assume "nearest_common_ancestor p q = Some a"
    then have "labels a = rev ?c" by (simp add: nearest_common_ancestor_Some)
    with below greatest show "suffix (labels a) (labels p) \<and> suffix (labels a) (labels q) \<and>
      (\<forall>b. suffix (labels b) (labels p) \<and> suffix (labels b) (labels q) \<longrightarrow> suffix (labels b) (labels a))"
      by simp
  next
    assume a: "suffix (labels a) (labels p) \<and> suffix (labels a) (labels q) \<and>
      (\<forall>b. suffix (labels b) (labels p) \<and> suffix (labels b) (labels q) \<longrightarrow> suffix (labels b) (labels a))"
    with greatest have le: "suffix (labels a) (rev ?c)" by blast
    then have "rev ?c \<noteq> []" using labels_bounds(1) [of a] by (metis suffix_bot.extremum_unique)
    moreover obtain zs where "labels p = zs @ rev ?c" using below(1) by (auto simp: suffix_def)
    ultimately obtain b where "labels b = rev ?c" using suffix_path_valid by metis
    with a below le have "labels a = rev ?c" by (metis suffix_order.order_antisym)
    then show "nearest_common_ancestor p q = Some a" by (simp add: nearest_common_ancestor_Some)
  qed
qed


section \<open>Lineages\<close>

text \<open>The realm one label up, and the realms from \<open>p\<close> upwards.\<close>

definition parent_realm :: "realm_path \<Rightarrow> realm_path" where
  "parent_realm p = checked_path (tl (labels p))"

primrec lineage :: "nat \<Rightarrow> realm_path \<Rightarrow> realm_path list" where
  "lineage 0 p = []"
| "lineage (Suc n) p = p # lineage n (parent_realm p)"

lemma labels_parent_realm: "1 < length (labels p) \<Longrightarrow> labels (parent_realm p) = tl (labels p)"
proof -
  assume "1 < length (labels p)"
  then obtain l ls where p: "labels p = l # ls" "ls \<noteq> []" by (cases "labels p") auto
  then obtain a where "labels a = ls" using parent_path by metis
  then have "checked_path ls = a"
    using labels [of a] by (intro realm_path_eqI) (simp add: checked_path.rep_eq)
  with p \<open>labels a = ls\<close> show ?thesis by (simp add: parent_realm_def)
qed

lemma parent_realm_unique: "is_direct_child_of p a \<Longrightarrow> parent_realm p = a"
proof -
  assume "is_direct_child_of p a"
  then obtain l where "labels p = l # labels a" by (auto simp: is_direct_child_of_iff)
  then have "labels (parent_realm p) = labels a" using labels_bounds(1) [of a] by (simp add: labels_parent_realm)
  then show "parent_realm p = a" by (rule realm_path_eqI)
qed

lemma length_lineage [simp]: "length (lineage n p) = n"
  by (induction n arbitrary: p) simp_all

lemma lineage_snoc: "lineage (Suc n) p = lineage n p @ [(parent_realm ^^ n) p]"
proof (induction n arbitrary: p)
  case (Suc n)
  have "(parent_realm ^^ n) (parent_realm p) = (parent_realm ^^ Suc n) p"
    by (simp add: funpow_swap1)
  with Suc [of "parent_realm p"] show ?case by simp
qed simp

definition live_hop :: "route_tree_engine \<Rightarrow> u64 \<Rightarrow> realm_path \<Rightarrow> bool" where
  "live_hop e t p \<longleftrightarrow> parent_entry_at e p t \<noteq> None"

definition hop_up :: "route_tree_engine \<Rightarrow> u64 \<Rightarrow> realm_path \<Rightarrow> tree_route_hop" where
  "hop_up e t p =
     \<lparr>hop_from = p, hop_to = parent_realm p, hop_edge = \<lparr>edge_parent = parent_realm p, edge_child = p\<rparr>,
      hop_direction = UpToParent, hop_route_id = pe_route_id (the (parent_entry_at e p t))\<rparr>"

definition hop_down :: "route_tree_engine \<Rightarrow> u64 \<Rightarrow> realm_path \<Rightarrow> tree_route_hop" where
  "hop_down e t p =
     \<lparr>hop_from = parent_realm p, hop_to = p, hop_edge = \<lparr>edge_parent = parent_realm p, edge_child = p\<rparr>,
      hop_direction = DownToChild, hop_route_id = pe_route_id (the (parent_entry_at e p t))\<rparr>"

lemma parent_entry_parent:
  "tree_map (parents e) \<Longrightarrow> parent_entry_at e p t = Some v \<Longrightarrow>
   is_direct_child_of p (parent_realm p) \<and> pe_parent v = parent_realm p"
  using tree_mapD live_parent_at_get parent_realm_unique
  by (metis parent_entry_at_def)

lemma up_hop_tree:
  "tree_map (parents e) \<Longrightarrow> parent_entry_at e p t = Some v \<Longrightarrow> up_hop p v = Inr (hop_up e t p)"
  using parent_entry_parent [of e p t v]
  by (simp add: up_hop_def realm_tree_edge_new_def tree_route_hop_new_def hop_up_def)

lemma climb_tree:
  assumes "tree_map (parents e)" "labels p = zs @ labels a"
    and "\<And>s. bt_contains seen s \<Longrightarrow> length (labels p) < length (labels s)"
  shows "climb e t a p seen hops =
    (if list_all (live_hop e t) (lineage (length zs) p)
     then Inr (hops @ map (hop_up e t) (lineage (length zs) p)) else Inl Fail_UnknownParent)"
  using assms(2,3)
proof (induction zs arbitrary: p seen hops)
  case Nil
  then show ?case by (simp add: climb.simps realm_path_eqI)
next
  case (Cons z zs)
  have not_anc: "p \<noteq> a" using Cons.prems(1) by auto
  have fresh: "\<not> bt_contains seen p" using Cons.prems(2) by blast
  show ?case
  proof (cases "parent_entry_at e p t")
    case None
    with not_anc fresh show ?thesis by (simp add: climb.simps live_hop_def)
  next
    case (Some v)
    have par: "is_direct_child_of p (parent_realm p)" "pe_parent v = parent_realm p"
      using parent_entry_parent [OF assms(1) Some] by blast+
    have up: "labels (parent_realm p) = zs @ labels a"
      using Cons.prems(1) labels_bounds(1) [of a] by (simp add: labels_parent_realm)
    have shorter: "length (labels (parent_realm p)) < length (labels p)"
      using par by (metis is_direct_child_of_length)
    have unseen: "length (labels (parent_realm p)) < length (labels s)" if "bt_contains (bt_insert p () seen) s" for s
      using that shorter Cons.prems(2) [of s] by auto
    then have new: "\<not> bt_contains (bt_insert p () seen) (parent_realm p)" by blast
    have "climb e t a p seen hops = climb e t a (parent_realm p) (bt_insert p () seen) (hops @ [hop_up e t p])"
      using not_anc fresh Some new up_hop_tree [OF assms(1) Some] par(2)
      by (subst climb.simps) simp
    moreover have "climb e t a (parent_realm p) (bt_insert p () seen) (hops @ [hop_up e t p]) =
        (if list_all (live_hop e t) (lineage (length zs) (parent_realm p))
        then Inr ((hops @ [hop_up e t p]) @ map (hop_up e t) (lineage (length zs) (parent_realm p)))
        else Inl Fail_UnknownParent)"
      by (rule Cons.IH [OF up unseen])
    moreover have "live_hop e t p" using Some by (simp add: live_hop_def)
    ultimately show ?thesis by simp
  qed
qed

lemma funpow_parent_realm:
  "labels p = zs @ ls \<Longrightarrow> ls \<noteq> [] \<Longrightarrow> labels ((parent_realm ^^ length zs) p) = ls"
proof (induction zs arbitrary: p)
  case (Cons z zs)
  then have "labels (parent_realm p) = zs @ ls" by (simp add: labels_parent_realm)
  with Cons show ?case by (simp add: funpow_swap1)
qed simp

lemma descend_tree:
  assumes "tree_map (parents e)" "labels p = zs @ labels c"
  shows "descend e t (rev zs) c down =
    (if list_all (live_hop e t) (lineage (length zs) p)
     then Inr (down @ map (hop_down e t) (rev (lineage (length zs) p))) else Inl Fail_UnknownParent)"
  using assms(2)
proof (induction zs arbitrary: c down rule: rev_induct)
  case (snoc z zs)
  define c' where "c' = (parent_realm ^^ length zs) p"
  have c': "labels c' = z # labels c"
    using funpow_parent_realm [of p zs "z # labels c"] snoc.prems by (simp add: c'_def)
  then have child: "child_with_label c z = Some c'"
    using labels [of c'] by (simp add: child_with_label_def realm_path_new_Some)
  have par: "is_direct_child_of c' c" using c' by (simp add: is_direct_child_of_iff)
  have line: "lineage (length (zs @ [z])) p = lineage (length zs) p @ [c']"
    unfolding c'_def length_append_singleton by (rule lineage_snoc)
  show ?case
  proof (cases "parent_entry_at e c' t")
    case None
    then have "\<not> list_all (live_hop e t) (lineage (length (zs @ [z])) p)"
      by (simp only: line) (simp add: live_hop_def)
    moreover have "descend e t (rev (zs @ [z])) c down = Inl Fail_UnknownParent"
      using None child by simp
    ultimately show ?thesis by simp
  next
    case (Some v)
    have "pe_parent v = c"
      using parent_entry_parent [OF assms(1) Some] par parent_realm_unique by simp
    moreover have "down_hop c c' v = Inr (hop_down e t c')"
      using par Some by (simp add: down_hop_def realm_tree_edge_new_def tree_route_hop_new_def hop_down_def
          parent_realm_unique)
    ultimately have "descend e t (rev (zs @ [z])) c down = descend e t (rev zs) c' (down @ [hop_down e t c'])"
      using child Some by simp
    moreover have "descend e t (rev zs) c' (down @ [hop_down e t c']) =
        (if list_all (live_hop e t) (lineage (length zs) p)
        then Inr ((down @ [hop_down e t c']) @ map (hop_down e t) (rev (lineage (length zs) p)))
        else Inl Fail_UnknownParent)"
      using snoc.prems c' by (intro snoc.IH) simp
    moreover have "live_hop e t c'" using Some by (simp add: live_hop_def)
    ultimately show ?thesis by (simp only: line) simp
  qed
qed simp



section \<open>The path that is built\<close>

lemma hops_contiguous_append:
  "hops_contiguous (xs @ ys) \<longleftrightarrow>
   hops_contiguous xs \<and> hops_contiguous ys \<and> (xs \<noteq> [] \<and> ys \<noteq> [] \<longrightarrow> hop_to (last xs) = hop_from (hd ys))"
proof (induction xs)
  case (Cons x xs)
  then show ?case by (cases xs; cases ys) auto
qed (cases ys, auto)

lemma hd_lineage: "0 < n \<Longrightarrow> hd (lineage n p) = p"
  by (cases n) simp_all

lemma last_lineage: "0 < n \<Longrightarrow> parent_realm (last (lineage n p)) = (parent_realm ^^ n) p"
  by (cases n) (simp_all add: lineage_snoc del: lineage.simps)

lemma lineage_eq_Nil [simp]: "lineage n p = [] \<longleftrightarrow> n = 0"
  by (cases n) simp_all

lemma hop_ends:
  "hop_from (hop_up e t p) = p" "hop_to (hop_up e t p) = parent_realm p"
  "hop_from (hop_down e t p) = parent_realm p" "hop_to (hop_down e t p) = p"
  by (simp_all add: hop_up_def hop_down_def)

lemma hops_up_contiguous: "hops_contiguous (map (hop_up e t) (lineage n p))"
proof (induction n arbitrary: p)
  case (Suc n)
  have "hops_contiguous ([hop_up e t p] @ map (hop_up e t) (lineage n (parent_realm p)))"
    using Suc hd_lineage [of n "parent_realm p"]
    by (subst hops_contiguous_append) (auto simp: hd_map hop_ends)
  then show ?case by simp
qed simp

lemma hops_down_contiguous: "hops_contiguous (map (hop_down e t) (rev (lineage n p)))"
proof (induction n arbitrary: p)
  case (Suc n)
  have "hops_contiguous (map (hop_down e t) (rev (lineage n (parent_realm p))) @ [hop_down e t p])"
    using Suc hd_lineage [of n "parent_realm p"]
    by (subst hops_contiguous_append) (auto simp: last_map last_rev hop_ends)
  then show ?case by simp
qed simp

definition tree_hops :: "route_tree_engine \<Rightarrow> u64 \<Rightarrow> realm_path \<Rightarrow> realm_path \<Rightarrow> realm_path \<Rightarrow> tree_route_hop list" where
  "tree_hops e t src dst a =
     map (hop_up e t) (lineage (length (labels src) - length (labels a)) src) @
     map (hop_down e t) (rev (lineage (length (labels dst) - length (labels a)) dst))"

lemma lineage_top:
  assumes "suffix (labels a) (labels p)"
  shows "(parent_realm ^^ (length (labels p) - length (labels a))) p = a"
proof -
  from assms obtain zs where "labels p = zs @ labels a" by (auto simp: suffix_def)
  then show ?thesis
    using funpow_parent_realm [of p zs "labels a"] labels_bounds(1) [of a] by (simp add: realm_path_eqI)
qed

lemma tree_path_ok:
  assumes "suffix (labels a) (labels src)" "suffix (labels a) (labels dst)"
  shows "tree_route_path_new src dst a (tree_hops e t src dst a) =
    Some \<lparr>path_source = src, path_target = dst, path_ancestor = a, path_hops = tree_hops e t src dst a\<rparr>"
proof -
  let ?n = "length (labels src) - length (labels a)" and ?m = "length (labels dst) - length (labels a)"
  let ?up = "map (hop_up e t) (lineage ?n src)" and ?down = "map (hop_down e t) (rev (lineage ?m dst))"
  have up: "hop_from (hd ?up) = src" "hop_to (last ?up) = a" if "0 < ?n"
    using that lineage_top [OF assms(1)] hd_lineage [OF that, of src] last_lineage [OF that, of src]
    by (simp_all add: hd_map last_map hop_ends)
  have down: "hop_from (hd ?down) = a" "hop_to (last ?down) = dst" if "0 < ?m"
    using that lineage_top [OF assms(2)] hd_lineage [OF that, of dst] last_lineage [OF that, of dst]
    by (simp_all add: hd_map last_map hd_rev last_rev hop_ends)
  have src: "src = a" if "?n = 0" using that lineage_top [OF assms(1)] by simp
  have dst: "dst = a" if "?m = 0" using that lineage_top [OF assms(2)] by simp
  have "length (?up @ ?down) \<le> MAX_ROUTE_PATH_HOPS"
    using labels_bounds(2) [of src] labels_bounds(2) [of dst] by (simp add: MAX_ROUTE_PATH_HOPS_def)
  moreover have "hops_contiguous (?up @ ?down)"
    using up(2) down(1) hops_up_contiguous hops_down_contiguous
    by (subst hops_contiguous_append) auto
  moreover have "hop_from (hd (?up @ ?down)) = src" if "?up @ ?down \<noteq> []"
    using that up(1) down(1) src by (cases "?n = 0") (auto simp: hd_append)
  moreover have "hop_to (last (?up @ ?down)) = dst" if "?up @ ?down \<noteq> []"
    using that up(2) down(2) dst by (cases "?m = 0") (auto simp: last_append)
  moreover have "is_descendant_of src a \<or> src = a" "is_descendant_of dst a \<or> dst = a"
    using assms by (auto simp: is_descendant_of_iff strict_suffix_def intro: realm_path_eqI)
  ultimately show ?thesis
    unfolding tree_hops_def tree_route_path_new_def by auto
qed

lemma build_path_tree:
  assumes tree: "tree_map (parents e)"
  shows "build_path_at e src dst t =
    (case nearest_common_ancestor src dst of
       None \<Rightarrow> Inl Fail_UnknownParent
     | Some a \<Rightarrow>
         if is_known_realm_at e src t \<and> is_known_realm_at e dst t \<and>
            list_all (live_hop e t) (lineage (length (labels src) - length (labels a)) src) \<and>
            list_all (live_hop e t) (lineage (length (labels dst) - length (labels a)) dst)
         then Inr \<lparr>path_source = src, path_target = dst, path_ancestor = a, path_hops = tree_hops e t src dst a\<rparr>
         else Inl Fail_UnknownParent)"
proof (cases "nearest_common_ancestor src dst")
  case None
  then show ?thesis by (simp add: build_path_at_def)
next
  case (Some a)
  then have suf: "suffix (labels a) (labels src)" "suffix (labels a) (labels dst)"
    by (simp_all add: nearest_common_ancestor_iff)
  then obtain zs ws where zs: "labels src = zs @ labels a" and ws: "labels dst = ws @ labels a"
    by (auto simp: suffix_def)
  have n: "length (labels src) - length (labels a) = length zs" "length (labels dst) - length (labels a) = length ws"
    using zs ws by simp_all
  have "climb e t a src bt_empty [] =
      (if list_all (live_hop e t) (lineage (length zs) src)
       then Inr (map (hop_up e t) (lineage (length zs) src)) else Inl Fail_UnknownParent)"
    using climb_tree [OF tree zs, of bt_empty t "[]"] by simp
  moreover have "descend e t (rev (take (length ws) (labels dst))) a [] =
      (if list_all (live_hop e t) (lineage (length ws) dst)
       then Inr (map (hop_down e t) (rev (lineage (length ws) dst))) else Inl Fail_UnknownParent)"
    using descend_tree [OF tree ws, of t "[]"] ws by simp
  ultimately show ?thesis
    using Some tree_path_ok [OF suf, of e t]
    by (simp add: build_path_at_def n tree_hops_def)
qed


section \<open>Properties\<close>

text \<open>The nearest common ancestor of two realms is their deepest common ancestor-or-self: a realm
  above both (or equal to them) that lies below every other such realm.\<close>

theorem nearest_common_ancestor_correct:
  "nearest_common_ancestor p q = Some a \<longleftrightarrow>
     has_suffix p a \<and> has_suffix q a \<and> (\<forall>b. has_suffix p b \<and> has_suffix q b \<longrightarrow> has_suffix a b)"
  unfolding nearest_common_ancestor_iff has_suffix_iff by blast

lemma nearest_common_ancestor_correct_witness:
  "nearest_common_ancestor demo_grand demo_misc = Some local \<and> has_suffix demo_grand local"
proof -
  have "\<exists>b. nearest_common_ancestor demo_grand demo_misc = Some b \<and> labels b = labels local"
  proof -
    have "map_option labels (nearest_common_ancestor demo_grand demo_misc) = Some (labels local)" by code_simp
    then show ?thesis by auto
  qed
  then have "nearest_common_ancestor demo_grand demo_misc = Some local" by (auto dest: realm_path_eqI)
  then show ?thesis using nearest_common_ancestor_correct [of demo_grand demo_misc local] by blast
qed

text \<open>C4. Between two realms of a reachable engine a path is found exactly when both are known and every
  realm below their nearest common ancestor has a live parent entry; the path then goes up from the
  source to that ancestor and down to the target, one tree edge per hop, and otherwise the refusal
  is always the unknown-parent one.\<close>

theorem build_path_exact:
  assumes "reachable_engine e"
  shows "build_path_at e src dst t =
    (case nearest_common_ancestor src dst of
       None \<Rightarrow> Inl Fail_UnknownParent
     | Some a \<Rightarrow>
         if is_known_realm_at e src t \<and> is_known_realm_at e dst t \<and>
            list_all (live_hop e t) (lineage (length (labels src) - length (labels a)) src) \<and>
            list_all (live_hop e t) (lineage (length (labels dst) - length (labels a)) dst)
         then Inr \<lparr>path_source = src, path_target = dst, path_ancestor = a, path_hops = tree_hops e t src dst a\<rparr>
         else Inl Fail_UnknownParent)"
  by (rule build_path_tree) (use engine_inv_reachable [OF assms] in \<open>simp add: engine_inv_def\<close>)

lemma build_path_exact_witness:
  "\<exists>path. build_path_at demo_admitted local demo_grand 1 = Inr path \<and>
     path_hops path = tree_hops demo_admitted 1 local demo_grand local"
proof -
  have "map_option labels (nearest_common_ancestor local demo_grand) = Some (labels local)" by code_simp
  then have nca: "nearest_common_ancestor local demo_grand = Some local" by (auto dest: realm_path_eqI)
  have "is_known_realm_at demo_admitted local 1 \<and> is_known_realm_at demo_admitted demo_grand 1 \<and>
    list_all (live_hop demo_admitted 1) (lineage (length (labels local) - length (labels local)) local) \<and>
    list_all (live_hop demo_admitted 1) (lineage (length (labels demo_grand) - length (labels local)) demo_grand)"
    by code_simp
  with build_path_exact [OF demo_admitted_reachable, of local demo_grand 1] nca show ?thesis by simp
qed

text \<open>C34. A sweep of expired entries at one time changes no route decision at that time or later.\<close>

theorem prune_invisible:
  assumes "t \<le> t'" "reachable_engine e"
  shows "decide_route_at (snd (prune_expired e t)) t' = decide_route_at e t'"
proof -
  let ?e = "snd (prune_expired e t)"
  have parent: "parent_entry_at ?e k t' = parent_entry_at e k t'" for k
    using parent_store.lookup_after_sweep [OF assms(1)] by (simp add: parent_entry_at_def)
  have route: "route_entry_at ?e k t' = route_entry_at e k t'" for k
    using route_store.lookup_after_sweep [OF assms(1)] by (simp add: route_entry_at_def)
  have known: "is_known_realm_at ?e k t' = is_known_realm_at e k t'" for k
    by (simp add: is_known_realm_at_def parent route)
  have trees: "tree_map (parents e)" "tree_map (parents ?e)"
    using engine_inv_reachable [OF assms(2)] engine_inv_prune by (auto simp: engine_inv_def tree_map_sweep)
  have hops: "live_hop ?e t' = live_hop e t'" "hop_up ?e t' = hop_up e t'" "hop_down ?e t' = hop_down e t'"
    by (simp_all add: live_hop_def hop_up_def hop_down_def parent fun_eq_iff)
  then have all_hops: "tree_hops ?e t' = tree_hops e t'" by (intro ext) (simp add: tree_hops_def)
  have path: "build_path_at ?e p q t' = build_path_at e p q t'" for p q
    unfolding build_path_tree [OF trees(1)] build_path_tree [OF trees(2)] known hops all_hops by (rule refl)
  have capability: "target_has_capability_at ?e k cap t' = target_has_capability_at e k cap t'" for k cap
    by (simp add: target_has_capability_at_def parent route split: option.split)
  have "class_for_at ?e k t' = class_for_at e k t'" "placement ?e = placement e" for k
    by (simp_all add: class_for_at_def known)
  then show ?thesis
    by (intro ext) (simp only: decide_route_at_def path capability)
qed

lemma prune_invisible_witness:
  "decide_route_at (snd (prune_expired demo_admitted 5)) 50 = decide_route_at demo_admitted 50"
  by (rule prune_invisible [OF _ demo_admitted_reachable]) simp

text \<open>A direct shortcut is authorized only while its own validity interval is open, when policy
  allows it and the tree route is allowed, and it records exactly that tree path.\<close>

theorem shortcut_only_over_tree_route:
  assumes "decide_direct_shortcut e t request = ShortcutAuthorized metadata decision event"
  shows "sr_issued_at request \<le> t \<and> t < sr_expires_at request \<and> sr_allow request \<and>
    dec_outcome decision = Allowed (sc_path metadata) \<and>
    build_path_at e (sr_source request) (sr_target request) t = Inr (sc_path metadata) \<and>
    (case op_required_capability (sr_operation_kind request) of
       None \<Rightarrow> True | Some cap \<Rightarrow> target_has_capability_at e (sr_target request) cap t)"
  using assms
  by (auto simp: decide_direct_shortcut_def decide_route_at_def shortcut_denied_def Let_def
      direct_shortcut_metadata_new_def split: if_splits option.splits tree_route_decision_outcome.splits sum.splits)

definition demo_shortcut :: direct_shortcut_request where
  "demo_shortcut =
     \<lparr>sr_shortcut_id = ''s1'', sr_decision_id = ''op-2'', sr_correlation_id = ''c-2'', sr_trace = None,
      sr_source = local, sr_target = demo_grand, sr_operation_kind = Op_ExecStart, sr_policy_rule_id = None,
      sr_issued_at = 1, sr_expires_at = 20, sr_allow = True\<rparr>"

lemma shortcut_only_over_tree_route_witness:
  "\<exists>metadata decision event.
     decide_direct_shortcut demo_admitted 5 demo_shortcut = ShortcutAuthorized metadata decision event \<and>
     dec_outcome decision = Allowed (sc_path metadata)"
proof -
  have "(case decide_direct_shortcut demo_admitted 5 demo_shortcut of
           ShortcutAuthorized _ _ _ \<Rightarrow> True | ShortcutDenied _ _ _ \<Rightarrow> False)"
    by code_simp
  then obtain metadata decision event where
    a: "decide_direct_shortcut demo_admitted 5 demo_shortcut = ShortcutAuthorized metadata decision event"
    by (auto split: direct_shortcut_decision.splits)
  with shortcut_only_over_tree_route [OF a] show ?thesis by blast
qed

end
