(* ===== verification/Clock_Time.thy ===== *)
theory Clock_Time
  imports Prelude
begin

text \<open>
  Rust's clock types, as the operation router, the circuit breaker and provider errors use them. A
  \<open>Duration\<close> is its number of nanoseconds, with saturation at its maximum; an \<open>Instant\<close> is nanoseconds since the
  epoch of the monotonic clock, and adding a duration past its range panics, which is \<open>None\<close>.
\<close>

type_synonym duration = nat
type_synonym instant = nat

definition DURATION_MAX :: duration where
  "DURATION_MAX = (2 ^ 64 - 1) * 10 ^ 9 + 999999999"

definition INSTANT_LIMIT :: instant where
  "INSTANT_LIMIT = 2 ^ 63 * 10 ^ 9"

definition dur_sat_add :: "duration \<Rightarrow> duration \<Rightarrow> duration" where
  "dur_sat_add a b = min (a + b) DURATION_MAX"

definition dur_sat_mul :: "duration \<Rightarrow> u32 \<Rightarrow> duration" where
  "dur_sat_mul a k = min (a * unat k) DURATION_MAX"

definition from_secs :: "nat \<Rightarrow> duration" where
  "from_secs n = n * 10 ^ 9"

definition from_millis :: "u64 \<Rightarrow> duration" where
  "from_millis n = unat n * 10 ^ 6"

definition as_millis :: "duration \<Rightarrow> nat" where
  "as_millis d = d div 10 ^ 6"

definition instant_add :: "instant \<Rightarrow> duration \<Rightarrow> instant option" where
  "instant_add i d = (if i + d < INSTANT_LIMIT then Some (i + d) else None)"

end
