(* ===== verification/Operation_Router.thy ===== *)
theory Operation_Router
  imports Mux_Session Clock_Time "HOL-Library.Product_Lexorder"
begin

text \<open>
  The operation router and its dedup store, \<open>d2b-realm-router/src/lib.rs\<close>.

  The injected \<open>Clock\<close> is an argument: every operation that reads it takes the instant \<open>now\<close>.
  Instants and durations are nanosecond counts; \<open>Instant::duration_since\<close> saturates at zero, as the
  subtraction of naturals does. The hash map of dedup records is an ordered map; only the order of
  equally old entries in \<open>reconcilable_leases\<close> depends on that.
\<close>

section \<open>Types\<close>

definition DEFAULT_RETENTION :: duration where
  "DEFAULT_RETENTION = from_secs (15 * 60)"

definition DEFAULT_NO_REUSE_HORIZON :: duration where
  "DEFAULT_NO_REUSE_HORIZON = from_secs (60 * 60)"

definition DEFAULT_MAX_DEDUP_RECORDS :: nat where
  "DEFAULT_MAX_DEDUP_RECORDS = 65536"

datatype route_decision =
    Accept authorization_scope
  | Replay operation_id opaque_payload
  | InProgress operation_id
  | IdempotencyKeyConflict
  | IdempotencyKeyExpired
  | MissingIdempotencyKey
  | MissingWorkload
  | PrincipalMismatch
  | CapabilityDenied capability
  | UnsupportedOperation operation_kind
  | DedupCapacityExceeded

text \<open>An order on operation kinds, so that dedup keys can index a map.\<close>

instantiation operation_kind :: linorder
begin

definition less_eq_operation_kind :: "operation_kind \<Rightarrow> operation_kind \<Rightarrow> bool" where
  "less_eq_operation_kind a b \<longleftrightarrow> operation_kind_debug a \<le> operation_kind_debug b"

definition less_operation_kind :: "operation_kind \<Rightarrow> operation_kind \<Rightarrow> bool" where
  "less_operation_kind a b \<longleftrightarrow> operation_kind_debug a < operation_kind_debug b"

instance
proof
  fix a b c :: operation_kind
  show "a < b \<longleftrightarrow> a \<le> b \<and> \<not> b \<le> a" and "a \<le> a" and "a \<le> b \<or> b \<le> a"
    unfolding less_eq_operation_kind_def less_operation_kind_def by auto
  show "a \<le> c" if "a \<le> b" "b \<le> c"
    using that unfolding less_eq_operation_kind_def by (rule order_trans)
  show "a = b" if "a \<le> b" "b \<le> a"
    using that unfolding less_eq_operation_kind_def by (simp flip: operation_kind_debug_inject)
qed

end

type_synonym dedup_key = "realm_path \<times> principal_id \<times> node_id \<times> operation_kind \<times> idempotency_key"

definition for_request :: "operation_request \<Rightarrow> idempotency_key \<Rightarrow> dedup_key" where
  "for_request req key = (req_realm req, req_principal req, req_node req, req_kind req, key)"

datatype dedup_state =
    Dedup_InProgress instant
  | Dedup_Completed opaque_payload instant
  | Dedup_Expired instant

record dedup_entry =
  de_fingerprint :: string
  de_original_operation_id :: operation_id
  de_state :: dedup_state

record operation_router =
  retention :: duration
  no_reuse_horizon :: duration
  max_dedup_records :: nat
  dedup :: "(dedup_key, dedup_entry) btmap"

record reconcilable_lease =
  rl_original_operation_id :: operation_id
  rl_age :: duration


section \<open>Operations\<close>

definition router_new :: operation_router where
  "router_new =
     \<lparr>retention = DEFAULT_RETENTION, no_reuse_horizon = DEFAULT_NO_REUSE_HORIZON,
      max_dedup_records = DEFAULT_MAX_DEDUP_RECORDS, dedup = bt_empty\<rparr>"

definition with_retention :: "operation_router \<Rightarrow> duration \<Rightarrow> operation_router" where
  "with_retention r d =
     (let r' = r\<lparr>retention := d\<rparr> in
      if no_reuse_horizon r < d then r'\<lparr>no_reuse_horizon := min (d * 2) DURATION_MAX\<rparr> else r')"

definition with_no_reuse_horizon :: "operation_router \<Rightarrow> duration \<Rightarrow> operation_router" where
  "with_no_reuse_horizon r horizon = r\<lparr>no_reuse_horizon := horizon\<rparr>"

definition with_max_dedup_records :: "operation_router \<Rightarrow> nat \<Rightarrow> operation_router" where
  "with_max_dedup_records r n = r\<lparr>max_dedup_records := n\<rparr>"

definition age_entry :: "duration \<Rightarrow> instant \<Rightarrow> dedup_entry \<Rightarrow> dedup_entry" where
  "age_entry window now entry =
     (case de_state entry of
        Dedup_Completed _ since \<Rightarrow>
          if window < now - since then entry\<lparr>de_state := Dedup_Expired now\<rparr> else entry
      | _ \<Rightarrow> entry)"

definition keep_entry :: "duration \<Rightarrow> instant \<Rightarrow> dedup_entry \<Rightarrow> bool" where
  "keep_entry horizon now entry \<longleftrightarrow>
     (case de_state entry of Dedup_Expired since \<Rightarrow> now - since \<le> horizon | _ \<Rightarrow> True)"

definition gc_at :: "operation_router \<Rightarrow> instant \<Rightarrow> operation_router" where
  "gc_at r now =
     r\<lparr>dedup := bt_retain (\<lambda>_. keep_entry (no_reuse_horizon r) now)
                  (bt_map (age_entry (retention r) now) (dedup r))\<rparr>"

definition tracked :: "operation_router \<Rightarrow> nat" where
  "tracked r = bt_len (dedup r)"

definition route_dedup ::
    "operation_router \<Rightarrow> instant \<Rightarrow> operation_request \<Rightarrow> idempotency_key \<Rightarrow> authorization_scope \<Rightarrow>
     route_decision \<times> operation_router" where
  "route_dedup r now req key scope =
     (let dedup_key = for_request req key; fingerprint = dedup_fingerprint_input req in
      case bt_get (dedup r) dedup_key of
        None \<Rightarrow>
          let r' = gc_at r now in
          if max_dedup_records r' \<le> bt_len (dedup r') then (DedupCapacityExceeded, r')
          else (Accept scope,
                r'\<lparr>dedup := bt_insert dedup_key
                     \<lparr>de_fingerprint = fingerprint, de_original_operation_id = req_operation_id req,
                      de_state = Dedup_InProgress now\<rparr> (dedup r')\<rparr>)
      | Some entry \<Rightarrow>
          (case de_state entry of
             Dedup_InProgress _ \<Rightarrow>
               (if de_fingerprint entry \<noteq> fingerprint then IdempotencyKeyConflict
                else InProgress (de_original_operation_id entry), r)
           | Dedup_Completed result since \<Rightarrow>
               if retention r < now - since then
                 (IdempotencyKeyExpired,
                  r\<lparr>dedup := bt_insert dedup_key (entry\<lparr>de_state := Dedup_Expired now\<rparr>) (dedup r)\<rparr>)
               else
                 (if de_fingerprint entry \<noteq> fingerprint then IdempotencyKeyConflict
                  else Replay (de_original_operation_id entry) result, r)
           | Dedup_Expired _ \<Rightarrow> (IdempotencyKeyExpired, r)))"

definition route_with_capabilities ::
    "operation_router \<Rightarrow> instant \<Rightarrow> operation_request \<Rightarrow> principal_id \<Rightarrow> capability_set \<Rightarrow>
     route_decision \<times> operation_router" where
  "route_with_capabilities r now req session_principal caps =
     (if req_principal req \<noteq> session_principal then (PrincipalMismatch, r)
      else case operation_route_plan_for (req_kind req) of
        None \<Rightarrow> (UnsupportedOperation (req_kind req), r)
      | Some plan \<Rightarrow>
          if plan_requires_workload plan \<and> req_workload req = None then (MissingWorkload, r)
          else (case (case plan_required_capability plan of
                        Some cap \<Rightarrow> if \<not> caps_has caps cap then Some cap else None
                      | None \<Rightarrow> None) of
                  Some cap \<Rightarrow> (CapabilityDenied cap, r)
                | None \<Rightarrow>
                    if \<not> plan_mutating plan then (Accept (plan_authorization_scope plan), r)
                    else (case req_idempotency_key req of
                            None \<Rightarrow> (MissingIdempotencyKey, r)
                          | Some key \<Rightarrow> route_dedup r now req key (plan_authorization_scope plan))))"

text \<open>The record a terminal report of \<open>req\<close> refers to: in progress, with the same fingerprint.\<close>

definition in_progress_entry :: "operation_router \<Rightarrow> operation_request \<Rightarrow> (dedup_key \<times> dedup_entry) option" where
  "in_progress_entry r req =
     (case req_idempotency_key req of
        None \<Rightarrow> None
      | Some key \<Rightarrow>
          (case bt_get (dedup r) (for_request req key) of
             None \<Rightarrow> None
           | Some entry \<Rightarrow>
               (case de_state entry of
                  Dedup_InProgress _ \<Rightarrow>
                    if de_fingerprint entry = dedup_fingerprint_input req
                    then Some (for_request req key, entry) else None
                | _ \<Rightarrow> None)))"

definition mark_completed ::
    "operation_router \<Rightarrow> instant \<Rightarrow> operation_request \<Rightarrow> opaque_payload \<Rightarrow> bool \<times> operation_router" where
  "mark_completed r now req result =
     (case in_progress_entry r req of
        Some (key, entry) \<Rightarrow>
          (True, r\<lparr>dedup := bt_insert key (entry\<lparr>de_state := Dedup_Completed result now\<rparr>) (dedup r)\<rparr>)
      | None \<Rightarrow> (False, r))"

definition mark_failed :: "operation_router \<Rightarrow> operation_request \<Rightarrow> bool \<times> operation_router" where
  "mark_failed r req =
     (case in_progress_entry r req of
        Some (key, _) \<Rightarrow> (True, r\<lparr>dedup := bt_remove key (dedup r)\<rparr>)
      | None \<Rightarrow> (False, r))"

definition lease_of :: "instant \<Rightarrow> dedup_entry \<Rightarrow> reconcilable_lease option" where
  "lease_of now entry =
     (case de_state entry of
        Dedup_InProgress since \<Rightarrow>
          Some \<lparr>rl_original_operation_id = de_original_operation_id entry, rl_age = now - since\<rparr>
      | _ \<Rightarrow> None)"

definition reconcilable_leases :: "operation_router \<Rightarrow> instant \<Rightarrow> duration \<Rightarrow> reconcilable_lease list" where
  "reconcilable_leases r now older_than =
     rev (sort_key rl_age
       (rev (filter (\<lambda>l. older_than < rl_age l) (List.map_filter (lease_of now) (bt_values (dedup r))))))"

definition route_decision_error ::
    "operation_request \<Rightarrow> route_decision \<Rightarrow> constellation_error option" where
  "route_decision_error req decision =
     map_option (\<lambda>err. with_correlation_id err (req_correlation_id req))
       (case decision of
          PrincipalMismatch \<Rightarrow> Some (error_new Err_Unauthorized ''principal binding mismatch'')
        | CapabilityDenied cap \<Rightarrow> Some (capability_denied cap)
        | MissingIdempotencyKey \<Rightarrow>
            Some (error_new Err_MalformedFrame ''mutating operation requires an idempotency key'')
        | IdempotencyKeyConflict \<Rightarrow>
            Some (error_new Err_IdempotencyKeyConflict
              ''idempotency key conflicts with an existing operation'')
        | IdempotencyKeyExpired \<Rightarrow>
            Some (error_new Err_IdempotencyKeyExpired ''idempotency key was reused after retention'')
        | DedupCapacityExceeded \<Rightarrow>
            Some (error_new Err_Backpressure ''deduplication capacity exceeded'')
        | MissingWorkload \<Rightarrow>
            Some (error_new Err_InvalidTarget
              (''operation kind '' @ quoted (operation_kind_code (req_kind req)) @
               '' requires a workload target''))
        | UnsupportedOperation kind \<Rightarrow>
            Some (error_new Err_UnsupportedFeature
              (''operation kind '' @ quoted (operation_kind_code kind) @ '' is not supported''))
        | Accept _ \<Rightarrow> None
        | Replay _ _ \<Rightarrow> None
        | InProgress _ \<Rightarrow> None)"

text \<open>The calls that change a router, each at the instant the clock shows.\<close>

datatype router_call =
    Call_route operation_request principal_id capability_set
  | Call_completed operation_request opaque_payload
  | Call_failed operation_request
  | Call_gc

primrec router_apply :: "instant \<times> router_call \<Rightarrow> operation_router \<Rightarrow> operation_router" where
  "router_apply (now, call) r =
     (case call of
        Call_route req session_principal caps \<Rightarrow> snd (route_with_capabilities r now req session_principal caps)
      | Call_completed req result \<Rightarrow> snd (mark_completed r now req result)
      | Call_failed req \<Rightarrow> snd (mark_failed r req)
      | Call_gc \<Rightarrow> gc_at r now)"

definition router_run :: "(instant \<times> router_call) list \<Rightarrow> operation_router \<Rightarrow> operation_router" where
  "router_run calls r = fold router_apply calls r"


section \<open>One dedup record through a run\<close>

definition request_key :: "operation_request \<Rightarrow> dedup_key option" where
  "request_key req = map_option (for_request req) (req_idempotency_key req)"

text \<open>Two requests the router treats as attempts of one operation.\<close>

definition same_operation :: "operation_request \<Rightarrow> operation_request \<Rightarrow> bool" where
  "same_operation a b \<longleftrightarrow>
     request_key a = request_key b \<and> dedup_fingerprint_input a = dedup_fingerprint_input b"

definition reports :: "operation_request \<Rightarrow> dedup_key \<Rightarrow> dedup_entry \<Rightarrow> bool" where
  "reports req k e \<longleftrightarrow> request_key req = Some k \<and> dedup_fingerprint_input req = de_fingerprint e"

text \<open>What a sweep or a routing call at \<open>now\<close> can make of an entry.\<close>

definition entry_ages :: "operation_router \<Rightarrow> instant \<Rightarrow> dedup_entry \<Rightarrow> dedup_entry option \<Rightarrow> bool" where
  "entry_ages r now e x \<longleftrightarrow>
     x = Some e \<or>
     (\<exists>result since. de_state e = Dedup_Completed result since \<and> retention r < now - since \<and>
        x = Some (e\<lparr>de_state := Dedup_Expired now\<rparr>)) \<or>
     (\<exists>since. de_state e = Dedup_Expired since \<and> no_reuse_horizon r < now - since \<and> x = None)"

lemma entry_ages_refl [simp, intro]: "entry_ages r now e (Some e)"
  by (simp add: entry_ages_def)

lemma gc_ages:
  assumes "bt_get (dedup r) k = Some e"
  shows "entry_ages r now e (bt_get (dedup (gc_at r now)) k)"
  using assms
  by (cases "de_state e") (simp_all add: gc_at_def age_entry_def keep_entry_def entry_ages_def)

lemma gc_None: "bt_get (dedup r) k = None \<Longrightarrow> bt_get (dedup (gc_at r now)) k = None"
  by (simp add: gc_at_def)

lemma gc_config [simp]:
  "retention (gc_at r now) = retention r" "no_reuse_horizon (gc_at r now) = no_reuse_horizon r"
  "max_dedup_records (gc_at r now) = max_dedup_records r"
  by (simp_all add: gc_at_def)

lemma route_dedup_ages:
  assumes "bt_get (dedup r) k = Some e"
  shows "entry_ages r now e (bt_get (dedup (snd (route_dedup r now req key scope))) k)"
proof (cases "bt_get (dedup r) (for_request req key)")
  case None
  then have "k \<noteq> for_request req key" using assms by auto
  with None gc_ages [OF assms, of now] show ?thesis by (simp add: route_dedup_def Let_def)
next
  case (Some e')
  show ?thesis
  proof (cases "k = for_request req key")
    case True
    with Some assms show ?thesis
      by (cases "de_state e") (simp_all add: route_dedup_def Let_def entry_ages_def)
  next
    case False
    with Some assms show ?thesis
      by (cases "de_state e'") (simp_all add: route_dedup_def Let_def)
  qed
qed

lemma route_cases:
  "snd (route_with_capabilities r now req p caps) = r \<or>
   (\<exists>key scope. req_idempotency_key req = Some key \<and>
      route_with_capabilities r now req p caps = route_dedup r now req key scope)"
  by (auto simp: route_with_capabilities_def split: option.split)

lemma route_ages:
  assumes "bt_get (dedup r) k = Some e"
  shows "entry_ages r now e (bt_get (dedup (snd (route_with_capabilities r now req p caps))) k)"
  using route_cases [of r now req p caps] route_dedup_ages [OF assms] assms by fastforce

lemma in_progress_entry_Some:
  "in_progress_entry r req = Some (k, e) \<longleftrightarrow>
     bt_get (dedup r) k = Some e \<and> reports req k e \<and> (\<exists>since. de_state e = Dedup_InProgress since)"
proof (cases "req_idempotency_key req")
  case None
  then show ?thesis by (simp add: in_progress_entry_def reports_def request_key_def)
next
  case key: (Some key)
  show ?thesis
  proof (cases "bt_get (dedup r) (for_request req key)")
    case None
    with key show ?thesis by (auto simp: in_progress_entry_def reports_def request_key_def)
  next
    case (Some e')
    with key have "in_progress_entry r req = (case de_state e' of
        Dedup_InProgress _ \<Rightarrow>
          if de_fingerprint e' = dedup_fingerprint_input req then Some (for_request req key, e') else None
      | _ \<Rightarrow> None)"
      by (simp add: in_progress_entry_def)
    with key Some show ?thesis
      by (cases "de_state e'"; cases "k = for_request req key"; cases "e = e'")
        (simp_all add: reports_def request_key_def)
  qed
qed

lemma mark_completed_entry:
  assumes "bt_get (dedup r) k = Some e"
  shows "bt_get (dedup (snd (mark_completed r now req result))) k =
    (if reports req k e \<and> (\<exists>since. de_state e = Dedup_InProgress since)
     then Some (e\<lparr>de_state := Dedup_Completed result now\<rparr>) else Some e)"
proof (cases "in_progress_entry r req")
  case None
  with assms in_progress_entry_Some [of r req k e] show ?thesis by (auto simp: mark_completed_def)
next
  case (Some ke)
  moreover obtain k' e' where "ke = (k', e')" by (cases ke)
  ultimately show ?thesis
    using assms in_progress_entry_Some [of r req k' e'] by (auto simp: mark_completed_def reports_def)
qed

lemma mark_failed_entry:
  assumes "bt_get (dedup r) k = Some e"
  shows "bt_get (dedup (snd (mark_failed r req))) k =
    (if reports req k e \<and> (\<exists>since. de_state e = Dedup_InProgress since) then None else Some e)"
proof (cases "in_progress_entry r req")
  case None
  with assms in_progress_entry_Some [of r req k e] show ?thesis by (auto simp: mark_failed_def)
next
  case (Some ke)
  moreover obtain k' e' where "ke = (k', e')" by (cases ke)
  ultimately show ?thesis
    using assms in_progress_entry_Some [of r req k' e'] by (auto simp: mark_failed_def reports_def)
qed

lemma router_config:
  "retention (router_apply c r) = retention r" "no_reuse_horizon (router_apply c r) = no_reuse_horizon r"
  "max_dedup_records (router_apply c r) = max_dedup_records r"
proof -
  obtain now call where c: "c = (now, call)" by (cases c)
  have d: "retention (snd (route_dedup r now req key scope)) = retention r \<and>
      no_reuse_horizon (snd (route_dedup r now req key scope)) = no_reuse_horizon r \<and>
      max_dedup_records (snd (route_dedup r now req key scope)) = max_dedup_records r" for req key scope
    by (simp add: route_dedup_def Let_def split: option.split dedup_state.split)
  have "retention (router_apply c r) = retention r \<and> no_reuse_horizon (router_apply c r) = no_reuse_horizon r \<and>
      max_dedup_records (router_apply c r) = max_dedup_records r"
  proof (cases call)
    case (Call_route req p caps)
    with c d route_cases [of r now req p caps] show ?thesis by auto
  qed (auto simp: c mark_completed_def mark_failed_def split: option.split)
  then show "retention (router_apply c r) = retention r" "no_reuse_horizon (router_apply c r) = no_reuse_horizon r"
    "max_dedup_records (router_apply c r) = max_dedup_records r" by simp_all
qed

lemma router_run_config [simp]:
  "retention (router_run calls r) = retention r" "no_reuse_horizon (router_run calls r) = no_reuse_horizon r"
  "max_dedup_records (router_run calls r) = max_dedup_records r"
  by (induction calls arbitrary: r) (simp_all add: router_run_def router_config)

lemma router_run_simps [simp]:
  "router_run [] r = r" "router_run (c # calls) r = router_run calls (router_apply c r)"
  by (simp_all add: router_run_def)

text \<open>An entry and its successor under one call.\<close>

lemma router_apply_entry:
  assumes "bt_get (dedup r) k = Some e"
  shows "(case call of
      Call_completed req result \<Rightarrow>
        bt_get (dedup (router_apply (now, call) r)) k =
          (if reports req k e \<and> (\<exists>since. de_state e = Dedup_InProgress since)
           then Some (e\<lparr>de_state := Dedup_Completed result now\<rparr>) else Some e)
    | Call_failed req \<Rightarrow>
        bt_get (dedup (router_apply (now, call) r)) k =
          (if reports req k e \<and> (\<exists>since. de_state e = Dedup_InProgress since) then None else Some e)
    | _ \<Rightarrow> entry_ages r now e (bt_get (dedup (router_apply (now, call) r)) k))"
  by (cases call) (simp_all add: assms mark_completed_entry mark_failed_entry route_ages gc_ages)


section \<open>The checks before the dedup store\<close>

definition authorized_request :: "operation_request \<Rightarrow> principal_id \<Rightarrow> capability_set \<Rightarrow> bool" where
  "authorized_request req p caps \<longleftrightarrow>
     req_principal req = p \<and> operation_route_plan_for (req_kind req) \<noteq> None \<and>
     (op_requires_workload (req_kind req) \<longrightarrow> req_workload req \<noteq> None) \<and>
     (case op_required_capability (req_kind req) of None \<Rightarrow> True | Some cap \<Rightarrow> caps_has caps cap)"

lemma route_plan_Some: "operation_route_plan_for kind = Some plan \<Longrightarrow> plan = plan_new kind"
  by (simp add: operation_route_plan_for_def Let_def split: if_splits)

lemma route_authorized:
  assumes "authorized_request req p caps"
  shows "route_with_capabilities r now req p caps =
    (if \<not> op_is_mutating (req_kind req) then (Accept (op_authorization_scope (req_kind req)), r)
     else case req_idempotency_key req of
       None \<Rightarrow> (MissingIdempotencyKey, r)
     | Some key \<Rightarrow> route_dedup r now req key (op_authorization_scope (req_kind req)))"
proof -
  obtain plan where plan: "operation_route_plan_for (req_kind req) = Some plan"
    using assms by (auto simp: authorized_request_def)
  with assms route_plan_Some [OF plan] show ?thesis
    by (auto simp: authorized_request_def route_with_capabilities_def plan_new_def split: option.splits)
qed

text \<open>The decisions that stand for a request that failed one of these checks.\<close>

primrec unauthorized_decision :: "route_decision \<Rightarrow> bool" where
  "unauthorized_decision (Accept scope) = False"
| "unauthorized_decision (Replay original result) = False"
| "unauthorized_decision (InProgress original) = False"
| "unauthorized_decision IdempotencyKeyConflict = False"
| "unauthorized_decision IdempotencyKeyExpired = False"
| "unauthorized_decision MissingIdempotencyKey = False"
| "unauthorized_decision MissingWorkload = True"
| "unauthorized_decision PrincipalMismatch = True"
| "unauthorized_decision (CapabilityDenied cap) = True"
| "unauthorized_decision (UnsupportedOperation kind) = True"
| "unauthorized_decision DedupCapacityExceeded = False"

lemma route_unauthorized:
  assumes "\<not> authorized_request req p caps"
  shows "snd (route_with_capabilities r now req p caps) = r"
    "unauthorized_decision (fst (route_with_capabilities r now req p caps))"
proof -
  have "snd (route_with_capabilities r now req p caps) = r \<and>
    unauthorized_decision (fst (route_with_capabilities r now req p caps))"
  proof (cases "operation_route_plan_for (req_kind req)")
    case (Some plan)
    with assms route_plan_Some [OF Some] show ?thesis
      by (auto simp: authorized_request_def route_with_capabilities_def plan_new_def split: option.splits)
  qed (auto simp: route_with_capabilities_def)
  then show "snd (route_with_capabilities r now req p caps) = r"
    "unauthorized_decision (fst (route_with_capabilities r now req p caps))" by simp_all
qed

lemma route_dedup_accept:
  "fst (route_dedup r now req key scope) = Accept scope' \<Longrightarrow>
   bt_get (dedup r) (for_request req key) = None \<and>
   bt_get (dedup (snd (route_dedup r now req key scope))) (for_request req key) =
     Some \<lparr>de_fingerprint = dedup_fingerprint_input req, de_original_operation_id = req_operation_id req,
           de_state = Dedup_InProgress now\<rparr>"
  by (auto simp: route_dedup_def Let_def split: option.splits dedup_state.splits if_splits)

text \<open>An accepted mutating operation holds an in-progress record.\<close>

lemma accept_records:
  assumes "route_with_capabilities r now req p caps = (Accept scope, r')" "op_is_mutating (req_kind req)"
  obtains key where "req_idempotency_key req = Some key" "authorized_request req p caps"
    "bt_get (dedup r') (for_request req key) =
      Some \<lparr>de_fingerprint = dedup_fingerprint_input req, de_original_operation_id = req_operation_id req,
            de_state = Dedup_InProgress now\<rparr>"
proof -
  have auth: "authorized_request req p caps"
    using route_unauthorized(2) [of req p caps r now] assms(1) by (cases "authorized_request req p caps") auto
  obtain key where key: "req_idempotency_key req = Some key"
    using assms route_authorized [OF auth, of r now] by (cases "req_idempotency_key req") auto
  with assms route_authorized [OF auth, of r now]
  have "route_dedup r now req key (op_authorization_scope (req_kind req)) = (Accept scope, r')" by simp
  with route_dedup_accept [of r now req key "op_authorization_scope (req_kind req)" scope] key auth that
  show thesis by simp
qed

lemma route_config:
  assumes "route_with_capabilities r now req p caps = (d, r')"
  shows "retention r' = retention r" "no_reuse_horizon r' = no_reuse_horizon r"
  using router_config(1,2) [of "(now, Call_route req p caps)" r] assms by simp_all


section \<open>Runs that keep a record\<close>

text \<open>The record of key \<open>k\<close> is held at least until \<open>t\<close>.\<close>

definition held :: "operation_router \<Rightarrow> dedup_key \<Rightarrow> string \<Rightarrow> instant \<Rightarrow> bool" where
  "held r k fp t \<longleftrightarrow>
     (\<exists>e. bt_get (dedup r) k = Some e \<and> de_fingerprint e = fp \<and>
        (case de_state e of
           Dedup_InProgress _ \<Rightarrow> True
         | Dedup_Completed _ since \<Rightarrow> t \<le> since + retention r + no_reuse_horizon r
         | Dedup_Expired since \<Rightarrow> t \<le> since + no_reuse_horizon r))"

text \<open>A call at \<open>now\<close> that does not free the operation of \<open>req\<close> for reuse before \<open>t\<close>.\<close>

definition keeps_operation ::
    "operation_request \<Rightarrow> instant \<Rightarrow> duration \<Rightarrow> instant \<times> router_call \<Rightarrow> bool" where
  "keeps_operation req t window c \<longleftrightarrow>
     fst c \<le> t \<and>
     (case snd c of
        Call_failed req' \<Rightarrow> \<not> same_operation req' req
      | Call_completed req' _ \<Rightarrow> same_operation req' req \<longrightarrow> t \<le> fst c + window
      | _ \<Rightarrow> True)"

lemma held_ages:
  assumes "bt_get (dedup r) k = Some e" "de_fingerprint e = fp"
    and "case de_state e of
           Dedup_InProgress _ \<Rightarrow> True
         | Dedup_Completed _ since \<Rightarrow> t \<le> since + retention r + no_reuse_horizon r
         | Dedup_Expired since \<Rightarrow> t \<le> since + no_reuse_horizon r"
    and "entry_ages r now e (bt_get (dedup r') k)" "now \<le> t"
    and "retention r' = retention r" "no_reuse_horizon r' = no_reuse_horizon r"
  shows "held r' k fp t"
  using assms by (auto simp: held_def entry_ages_def split: dedup_state.splits)

lemma held_apply:
  assumes held: "held r k (dedup_fingerprint_input req) t" and key: "request_key req = Some k"
    and keeps: "keeps_operation req t (retention r + no_reuse_horizon r) c"
  shows "held (router_apply c r) k (dedup_fingerprint_input req) t"
proof -
  obtain now call where c: "c = (now, call)" by (cases c)
  obtain e where e: "bt_get (dedup r) k = Some e" "de_fingerprint e = dedup_fingerprint_input req"
    and st: "case de_state e of
           Dedup_InProgress _ \<Rightarrow> True
         | Dedup_Completed _ since \<Rightarrow> t \<le> since + retention r + no_reuse_horizon r
         | Dedup_Expired since \<Rightarrow> t \<le> since + no_reuse_horizon r"
    using held by (auto simp: held_def)
  have rep: "reports req' k e \<longleftrightarrow> same_operation req' req" for req'
    using e key by (auto simp: reports_def same_operation_def)
  note step = router_apply_entry [OF e(1), of now call, folded c]
  have now: "now \<le> t" using keeps c by (simp add: keeps_operation_def)
  have ages: ?thesis if "entry_ages r now e (bt_get (dedup (router_apply c r)) k)"
    by (rule held_ages [OF e st that now]) (simp_all only: router_config)
  show ?thesis
  proof (cases call)
    case (Call_completed req' result)
    show ?thesis
    proof (cases "reports req' k e \<and> (\<exists>since. de_state e = Dedup_InProgress since)")
      case True
      with step Call_completed
      have "bt_get (dedup (router_apply c r)) k = Some (e\<lparr>de_state := Dedup_Completed result now\<rparr>)" by simp
      moreover have "t \<le> now + retention r + no_reuse_horizon r"
        using keeps True rep Call_completed c by (simp add: keeps_operation_def)
      ultimately show ?thesis using e(2) by (simp add: held_def router_config)
    next
      case False
      with step Call_completed show ?thesis by (intro ages) simp
    qed
  next
    case (Call_failed req')
    with step rep keeps c have "bt_get (dedup (router_apply c r)) k = Some e"
      by (simp add: keeps_operation_def)
    then show ?thesis by (intro ages) simp
  qed (use step in \<open>simp_all add: ages\<close>)
qed

lemma held_run:
  assumes "held r k (dedup_fingerprint_input req) t" "request_key req = Some k"
    and "list_all (keeps_operation req t (retention r + no_reuse_horizon r)) calls"
  shows "held (router_run calls r) k (dedup_fingerprint_input req) t"
  using assms
proof (induction calls arbitrary: r)
  case (Cons c calls)
  from Cons.prems have "held (router_apply c r) k (dedup_fingerprint_input req) t"
    by (intro held_apply) auto
  with Cons.IH [of "router_apply c r"] Cons.prems show ?case by (simp add: router_config)
qed simp

lemma held_not_accepted:
  assumes "held r k fp t" "request_key req = Some k" "op_is_mutating (req_kind req)"
  shows "fst (route_with_capabilities r t req p caps) \<noteq> Accept scope"
proof
  assume "fst (route_with_capabilities r t req p caps) = Accept scope"
  moreover from this have auth: "authorized_request req p caps"
    using route_unauthorized(2) [of req p caps r t] by (cases "authorized_request req p caps") auto
  moreover obtain key where "req_idempotency_key req = Some key" "k = for_request req key"
    using assms(2) by (auto simp: request_key_def)
  ultimately have "bt_get (dedup r) k = None"
    using assms(3) route_dedup_accept [of r t req key "op_authorization_scope (req_kind req)" scope]
    by (simp add: route_authorized [OF auth])
  with assms(1) show False by (auto simp: held_def)
qed


text \<open>A call that reports neither completion nor failure of the operation of \<open>req\<close>.\<close>

definition leaves_operation :: "operation_request \<Rightarrow> instant \<times> router_call \<Rightarrow> bool" where
  "leaves_operation req c \<longleftrightarrow>
     (case snd c of
        Call_failed req' \<Rightarrow> \<not> same_operation req' req
      | Call_completed req' _ \<Rightarrow> \<not> same_operation req' req
      | _ \<Rightarrow> True)"

lemma in_progress_run:
  assumes "bt_get (dedup r) k = Some e" "de_state e = Dedup_InProgress since"
    and "request_key req = Some k" "de_fingerprint e = dedup_fingerprint_input req"
    and "list_all (leaves_operation req) calls"
  shows "bt_get (dedup (router_run calls r)) k = Some e"
  using assms(1,5)
proof (induction calls arbitrary: r)
  case (Cons c calls)
  obtain now call where c: "c = (now, call)" by (cases c)
  have "reports req' k e \<longleftrightarrow> same_operation req' req" for req'
    using assms(3,4) by (auto simp: reports_def same_operation_def)
  then have "bt_get (dedup (router_apply c r)) k = Some e"
    using router_apply_entry [OF Cons.prems(1), of now call] Cons.prems(2) assms(2) c
    by (cases call) (simp_all add: leaves_operation_def entry_ages_def del: router_apply.simps)
  with Cons show ?case by simp
qed simp

lemma completed_run:
  assumes "bt_get (dedup r) k = Some e" "de_state e = Dedup_Completed result since"
    and "t \<le> since + retention r" "list_all (\<lambda>c. fst c \<le> t) calls"
  shows "bt_get (dedup (router_run calls r)) k = Some e"
  using assms(1,3,4)
proof (induction calls arbitrary: r)
  case (Cons c calls)
  obtain now call where c: "c = (now, call)" by (cases c)
  have "bt_get (dedup (router_apply c r)) k = Some e"
    using router_apply_entry [OF Cons.prems(1), of now call] Cons.prems(2,3) assms(2) c
    by (cases call) (auto simp: entry_ages_def simp del: router_apply.simps)
  with Cons show ?case by (simp add: router_config)
qed simp

lemma same_operation_refl [simp]: "same_operation req req"
  by (simp add: same_operation_def)


section \<open>The bound on the store\<close>

lemma gc_len: "bt_len (dedup (gc_at r now)) \<le> bt_len (dedup r)"
  using bt_len_retain_le [of "\<lambda>_. keep_entry (no_reuse_horizon r) now" "bt_map (age_entry (retention r) now) (dedup r)"]
  by (simp add: gc_at_def)

lemma bt_len_insert_existing: "bt_get m k = Some v \<Longrightarrow> bt_len (bt_insert k w m) = bt_len m"
  by (simp add: bt_len_insert bt_contains_def)

lemma route_dedup_len:
  assumes "bt_len (dedup r) \<le> max_dedup_records r"
  shows "bt_len (dedup (snd (route_dedup r now req key scope))) \<le> max_dedup_records r"
proof (cases "bt_get (dedup r) (for_request req key)")
  case None
  with assms gc_len [of r now] show ?thesis
    by (auto simp: route_dedup_def Let_def bt_len_insert intro: le_trans)
next
  case (Some e)
  with assms show ?thesis
    by (cases "de_state e") (simp_all add: route_dedup_def Let_def bt_len_insert_existing)
qed

lemma router_apply_len:
  assumes "bt_len (dedup r) \<le> max_dedup_records r"
  shows "bt_len (dedup (router_apply c r)) \<le> max_dedup_records r"
proof -
  obtain now call where c: "c = (now, call)" by (cases c)
  show ?thesis
  proof (cases call)
    case (Call_route req p caps)
    then show ?thesis using assms c route_dedup_len [OF assms] route_cases [of r now req p caps] by auto
  next
    case (Call_completed req result)
    then show ?thesis
      using assms c in_progress_entry_Some [of r req]
      by (auto simp: mark_completed_def bt_len_insert_existing split: option.split)
  next
    case (Call_failed req)
    then show ?thesis
      using assms c by (auto simp: mark_failed_def bt_len_remove split: option.split)
  qed (use assms c gc_len [of r now] in \<open>simp add: le_trans\<close>)
qed


section \<open>Properties\<close>

definition demo_start :: operation_request where
  "demo_start =
     \<lparr>req_operation_id = ''op-1'', req_correlation_id = ''corr-1'', req_idempotency_key = Some ''k1'',
      req_realm = local, req_node = ''n1'', req_workload = Some ''vm1'', req_principal = ''alice'',
      req_kind = Op_WorkloadStart, req_trace = None, req_body = ''x''\<rparr>"

definition demo_caps :: capability_set where
  "demo_caps = from_caps [Cap_Lifecycle]"

definition demo_router :: operation_router where
  "demo_router = snd (route_with_capabilities router_new 5 demo_start ''alice'' demo_caps)"

lemma gc_empty: "dedup r = bt_empty \<Longrightarrow> gc_at r now = r"
proof -
  assume "dedup r = bt_empty"
  then have "bt_retain P (bt_map f (dedup r)) = dedup r" for P f
    by (intro bt_ext) (simp add: fun_eq_iff)
  then show ?thesis by (simp add: gc_at_def)
qed

lemma demo_authorized: "authorized_request demo_start ''alice'' demo_caps"
  by code_simp

lemma demo_mutating: "op_is_mutating (req_kind demo_start)"
  by code_simp

lemma demo_accept:
  "route_with_capabilities router_new 5 demo_start ''alice'' demo_caps =
     (Accept (Scope_Capability Cap_Lifecycle), demo_router)"
proof -
  have "op_authorization_scope (req_kind demo_start) = Scope_Capability Cap_Lifecycle"
    "req_idempotency_key demo_start = Some ''k1''" by code_simp+
  then have "fst (route_with_capabilities router_new 5 demo_start ''alice'' demo_caps) =
    Accept (Scope_Capability Cap_Lifecycle)"
    by (simp add: route_authorized [OF demo_authorized] demo_mutating route_dedup_def gc_empty Let_def
        router_new_def DEFAULT_MAX_DEDUP_RECORDS_def)
  then show ?thesis by (simp add: demo_router_def prod_eq_iff)
qed

text \<open>C31. No operation is dispatched twice. Once a mutating operation was accepted, no request under the
  same realm, principal, node, kind and idempotency key is accepted again, whatever calls come in
  between, unless that operation was reported failed, or was reported completed longer ago than the
  retention window and the no-reuse horizon together.\<close>

theorem no_double_dispatch:
  assumes "route_with_capabilities r t0 req p caps = (Accept scope, r')" "op_is_mutating (req_kind req)"
    and "list_all (keeps_operation req t (retention r + no_reuse_horizon r)) calls"
    and "request_key req' = request_key req"
  shows "fst (route_with_capabilities (router_run calls r') t req' p' caps') \<noteq> Accept scope'"
proof -
  from accept_records [OF assms(1,2)] obtain key where key: "req_idempotency_key req = Some key"
    and "bt_get (dedup r') (for_request req key) =
      Some \<lparr>de_fingerprint = dedup_fingerprint_input req, de_original_operation_id = req_operation_id req,
            de_state = Dedup_InProgress t0\<rparr>"
    by metis
  moreover from key have k: "request_key req = Some (for_request req key)" by (simp add: request_key_def)
  ultimately have "held r' (for_request req key) (dedup_fingerprint_input req) t" by (simp add: held_def)
  then have "held (router_run calls r') (for_request req key) (dedup_fingerprint_input req) t"
    using k assms(3) by (intro held_run) (simp_all add: route_config [OF assms(1)])
  moreover have "req_kind req' = req_kind req"
    using assms(4) k by (auto simp: request_key_def for_request_def)
  ultimately show ?thesis using assms(2,4) k by (intro held_not_accepted) simp_all
qed

lemma no_double_dispatch_witness:
  "fst (route_with_capabilities (router_run [(6, Call_completed demo_start ''ok''), (7, Call_gc)] demo_router)
     (from_secs 3600) (demo_start\<lparr>req_operation_id := ''op-2''\<rparr>) ''alice'' demo_caps)
   \<noteq> Accept (Scope_Capability Cap_Lifecycle)"
proof (rule no_double_dispatch [OF demo_accept])
  show "op_is_mutating (req_kind demo_start)" by (rule demo_mutating)
  show "list_all (keeps_operation demo_start (from_secs 3600) (retention router_new + no_reuse_horizon router_new))
      [(6, Call_completed demo_start ''ok''), (7, Call_gc)]"
    by (simp add: keeps_operation_def router_new_def from_secs_def DEFAULT_RETENTION_def DEFAULT_NO_REUSE_HORIZON_def)
  show "request_key (demo_start\<lparr>req_operation_id := ''op-2''\<rparr>) = request_key demo_start"
    by (simp add: request_key_def demo_start_def for_request_def)
qed

text \<open>C32. A lost reply can be recovered. After an accepted mutating operation was reported completed, any
  retry of it by the same principal within the retention window is answered with the original
  operation id and the recorded result, whatever calls come in between.\<close>

theorem completed_operation_replayed:
  assumes "route_with_capabilities r t0 req p caps = (Accept scope, r1)" "op_is_mutating (req_kind req)"
    and "list_all (leaves_operation req) calls"
    and "mark_completed (router_run calls r1) t1 req result = (found, r2)"
    and "list_all (\<lambda>c. fst c \<le> t) calls'" "t \<le> t1 + retention r"
    and "retry = req\<lparr>req_operation_id := attempt, req_correlation_id := correlation, req_trace := trace\<rparr>"
  shows "found \<and> fst (route_with_capabilities (router_run calls' r2) t retry p caps) =
    Replay (req_operation_id req) result"
proof -
  define e where "e = \<lparr>de_fingerprint = dedup_fingerprint_input req,
    de_original_operation_id = req_operation_id req, de_state = Dedup_InProgress t0\<rparr>"
  from accept_records [OF assms(1,2)] obtain key where key: "req_idempotency_key req = Some key"
    and auth: "authorized_request req p caps" and e: "bt_get (dedup r1) (for_request req key) = Some e"
    unfolding e_def by metis
  define k where "k = for_request req key"
  have k: "request_key req = Some k" using key by (simp add: request_key_def k_def)
  have run: "bt_get (dedup (router_run calls r1)) k = Some e"
    using e k assms(3) by (intro in_progress_run [where req = req]) (simp_all add: e_def k_def)
  have rep: "reports req k e" using k by (simp add: reports_def e_def)
  have finished: "bt_get (dedup r2) k = Some (e\<lparr>de_state := Dedup_Completed result t1\<rparr>)"
    using mark_completed_entry [OF run, of t1 req result] rep assms(4) by (simp add: e_def)
  have found: "found" "retention r2 = retention r"
    using in_progress_entry_Some [of "router_run calls r1" req k e] run rep assms(4)
      route_config [OF assms(1)] by (auto simp: mark_completed_def e_def)
  have "bt_get (dedup (router_run calls' r2)) k = Some (e\<lparr>de_state := Dedup_Completed result t1\<rparr>)"
    using finished assms(5,6) found(2) by (intro completed_run) simp_all
  moreover have "authorized_request retry p caps" "req_kind retry = req_kind req"
    "req_idempotency_key retry = Some key" "for_request retry key = k"
    "dedup_fingerprint_input retry = dedup_fingerprint_input req"
    using auth key assms(7) by (simp_all add: authorized_request_def for_request_def k_def dedup_fingerprint_input_def)
  ultimately show ?thesis
    using found assms(2,6) by (simp add: route_authorized route_dedup_def e_def)
qed

lemma completed_operation_replayed_witness:
  "fst (route_with_capabilities
     (router_run [(8, Call_gc)] (snd (mark_completed (router_run [(6, Call_gc)] demo_router) 7 demo_start ''ok'')))
     (from_secs 60) (demo_start\<lparr>req_operation_id := ''op-2'', req_correlation_id := ''c'', req_trace := None\<rparr>)
     ''alice'' demo_caps) = Replay ''op-1'' ''ok''"
proof -
  obtain found r2 where m: "mark_completed (router_run [(6, Call_gc)] demo_router) 7 demo_start ''ok'' = (found, r2)"
    by (cases "mark_completed (router_run [(6, Call_gc)] demo_router) 7 demo_start ''ok''")
  have "found \<and> fst (route_with_capabilities (router_run [(8, Call_gc)] r2) (from_secs 60)
      (demo_start\<lparr>req_operation_id := ''op-2'', req_correlation_id := ''c'', req_trace := None\<rparr>)
      ''alice'' demo_caps) = Replay (req_operation_id demo_start) ''ok''"
    by (rule completed_operation_replayed [OF demo_accept demo_mutating _ m _ _ refl])
      (simp_all add: leaves_operation_def router_new_def from_secs_def DEFAULT_RETENTION_def)
  moreover have "req_operation_id demo_start = ''op-1''" by (simp add: demo_start_def)
  ultimately show ?thesis unfolding m snd_conv by simp
qed

text \<open>While an accepted operation runs, a second request under its key is answered in progress with
  the original operation id exactly when it asks for the same thing (same workload and body), and
  as a conflict otherwise; the record never times out.\<close>

theorem in_flight_exclusive:
  assumes "route_with_capabilities r t0 req p caps = (Accept scope, r')" "op_is_mutating (req_kind req)"
    and "list_all (leaves_operation req) calls" "request_key req' = request_key req"
    and "request_inv req" "request_inv req'" "req_workload req' \<noteq> None"
  shows "route_with_capabilities (router_run calls r') t req' p caps =
    (if req_workload req' = req_workload req \<and> req_body req' = req_body req
     then InProgress (req_operation_id req) else IdempotencyKeyConflict, router_run calls r')"
proof -
  define e where "e = \<lparr>de_fingerprint = dedup_fingerprint_input req,
    de_original_operation_id = req_operation_id req, de_state = Dedup_InProgress t0\<rparr>"
  from accept_records [OF assms(1,2)] obtain key where key: "req_idempotency_key req = Some key"
    and auth: "authorized_request req p caps" and e: "bt_get (dedup r') (for_request req key) = Some e"
    unfolding e_def by metis
  have k: "request_key req = Some (for_request req key)" using key by (simp add: request_key_def)
  have run: "bt_get (dedup (router_run calls r')) (for_request req key) = Some e"
    using e k assms(3) by (intro in_progress_run [where req = req]) (simp_all add: e_def)
  obtain key' where key': "req_idempotency_key req' = Some key'" "for_request req' key' = for_request req key"
    using assms(4) k by (auto simp: request_key_def)
  then have fields: "req_kind req' = req_kind req" "req_realm req' = req_realm req"
    "req_principal req' = req_principal req" "req_node req' = req_node req" by (simp_all add: for_request_def)
  have "authorized_request req' p caps"
    using auth fields assms(7) by (simp add: authorized_request_def)
  moreover have "dedup_fingerprint_input req = dedup_fingerprint_input req' \<longleftrightarrow>
      req_workload req' = req_workload req \<and> req_body req' = req_body req"
    using fingerprint_eq_iff [OF assms(5,6)] fields by auto
  ultimately show ?thesis
    using run key' fields assms(2) by (simp add: route_authorized route_dedup_def e_def)
qed

lemma in_flight_exclusive_witness:
  "route_with_capabilities (router_run [(6, Call_gc)] demo_router) (from_secs 7200)
     (demo_start\<lparr>req_body := ''y''\<rparr>) ''alice'' demo_caps
   = (IdempotencyKeyConflict, router_run [(6, Call_gc)] demo_router)"
proof -
  have "request_inv demo_start" "request_inv (demo_start\<lparr>req_body := ''y''\<rparr>)"
    by (simp_all add: request_inv_def payload_new_def MAX_PAYLOAD_LEN_def demo_start_def) (code_simp+)
  then show ?thesis
    using in_flight_exclusive [OF demo_accept demo_mutating, of "[(6, Call_gc)]" "demo_start\<lparr>req_body := ''y''\<rparr>" "from_secs 7200"]
    by (simp add: leaves_operation_def request_key_def for_request_def demo_start_def)
qed

text \<open>A request reaches the dedup store or is dispatched exactly when its principal is the session's,
  its kind is supported, a required workload is named and the negotiated set has the capability of
  its kind; otherwise the answer names the failed check and the router is unchanged.\<close>

theorem route_checks_exact:
  "if authorized_request req p caps
   then \<not> unauthorized_decision (fst (route_with_capabilities r now req p caps)) \<and>
     (case fst (route_with_capabilities r now req p caps) of
        Accept scope \<Rightarrow> scope = op_authorization_scope (req_kind req)
      | _ \<Rightarrow> op_is_mutating (req_kind req))
   else unauthorized_decision (fst (route_with_capabilities r now req p caps)) \<and>
     snd (route_with_capabilities r now req p caps) = r"
  by (auto simp: route_authorized route_unauthorized route_dedup_def Let_def
      split: option.split dedup_state.split)

text \<open>The dedup store never holds more records than configured, however the router is driven.\<close>

theorem dedup_store_bounded: "tracked (router_run calls (with_max_dedup_records router_new n)) \<le> n"
proof -
  have "bt_len (dedup r) \<le> max_dedup_records r \<Longrightarrow> bt_len (dedup (router_run calls r)) \<le> max_dedup_records r" for r
  proof (induction calls arbitrary: r)
    case (Cons c calls)
    then show ?case using router_apply_len [of r c] Cons.IH [of "router_apply c r"] by (simp add: router_config)
  qed simp
  from this [of "with_max_dedup_records router_new n"] show ?thesis
    by (simp add: tracked_def with_max_dedup_records_def router_new_def)
qed

text \<open>Choosing a retention window does not always keep the no-reuse horizon one retention window beyond
  it: for forty minutes of retention the horizon stays at the default hour.\<close>

theorem horizon_below_two_windows:
  "let r = with_retention router_new (from_secs (40 * 60)) in
   retention r = from_secs (40 * 60) \<and> no_reuse_horizon r < retention r + retention r"
  by (simp add: with_retention_def router_new_def Let_def from_secs_def DEFAULT_NO_REUSE_HORIZON_def)

end
