(* ===== verification/Executions.thy ===== *)
theory Executions
  imports Mux_Session
begin

text \<open>
  Durable executions: the metadata of \<open>d2b-realm-core/src/execution.rs\<close> and the table
  \<open>DurableExecTable\<close> of \<open>d2b-realm-router/src/execution.rs\<close>, which starts, rediscovers, cancels and
  retires executions and evicts the oldest terminal ones when it is full.
\<close>

section \<open>Types\<close>

type_synonym execution_id = string
type_synonym i32 = "32 word"

datatype exec_state = Exec_Pending | Exec_Running | Exec_Exited | Exec_Cancelled | Exec_Failed

definition exec_is_terminal :: "exec_state \<Rightarrow> bool" where
  "exec_is_terminal s \<longleftrightarrow> s \<in> {Exec_Exited, Exec_Cancelled, Exec_Failed}"

record execution_generation =
  guest_boot_id :: protocol_token
  workload_generation :: protocol_token

datatype exec_attach_mode = Attached | Detached

record exec_start_request =
  start_execution_id :: execution_id
  start_workload :: workload_id
  start_generation :: execution_generation
  start_attach_mode :: exec_attach_mode
  start_tty :: bool

record exec_attach_request =
  attach_execution_id :: execution_id
  attach_generation :: execution_generation
  attach_stdout_cursor :: "stream_cursor option"
  attach_stderr_cursor :: "stream_cursor option"

record exec_logs_request =
  logs_execution_id :: execution_id
  logs_generation :: execution_generation
  logs_cursor :: "stream_cursor option"
  logs_max_bytes :: u32

record exec_cancel_request =
  cancel_execution_id :: execution_id
  cancel_generation :: execution_generation

record execution_summary =
  ex_id :: execution_id
  ex_workload :: workload_id
  ex_state :: exec_state
  ex_exit_code :: "i32 option"
  ex_tty :: bool
  ex_generation :: execution_generation
  ex_attach_mode :: exec_attach_mode
  ex_stdout_cursor :: "stream_cursor option"
  ex_stderr_cursor :: "stream_cursor option"

definition generation_matches :: "execution_summary \<Rightarrow> execution_generation \<Rightarrow> bool" where
  "generation_matches s g \<longleftrightarrow> ex_generation s = g"

record exec_table =
  executions :: "(execution_id, execution_summary) btmap"
  terminal_ids :: "execution_id btset"
  terminal_order :: "execution_id list"
  max_executions :: nat

type_synonym 'a exec_result = "(constellation_error + 'a) \<times> exec_table"

definition DEFAULT_MAX_EXECUTIONS :: nat where
  "DEFAULT_MAX_EXECUTIONS = 16384"


section \<open>Operations\<close>

definition with_max_executions :: "nat \<Rightarrow> exec_table" where
  "with_max_executions n =
     \<lparr>executions = bt_empty, terminal_ids = bt_empty, terminal_order = [], max_executions = max n 1\<rparr>"

definition exec_table_new :: exec_table where
  "exec_table_new = with_max_executions DEFAULT_MAX_EXECUTIONS"

definition ensure_generation ::
    "execution_summary \<Rightarrow> execution_generation \<Rightarrow> constellation_error + unit" where
  "ensure_generation s g =
     (if generation_matches s g then Inr ()
      else Inl (error_new Err_InvalidTarget ''execution generation does not match current boot''))"

definition exec_get :: "exec_table \<Rightarrow> execution_id \<Rightarrow> constellation_error + execution_summary" where
  "exec_get t eid =
     ok_or (bt_get (executions t) eid) (error_new Err_InvalidTarget ''unknown durable execution id'')"

definition remember_terminal :: "execution_id \<Rightarrow> exec_table \<Rightarrow> exec_table" where
  "remember_terminal eid t =
     (if bt_contains (terminal_ids t) eid then t
      else t\<lparr>terminal_ids := bt_insert eid () (terminal_ids t), terminal_order := terminal_order t @ [eid]\<rparr>)"

text \<open>The loop of \<open>evict_oldest_terminal\<close>: pop ids until one still names a retained execution.\<close>

primrec pop_terminal :: "execution_id list \<Rightarrow> exec_table \<Rightarrow> bool \<times> exec_table" where
  "pop_terminal [] t = (False, t\<lparr>terminal_order := []\<rparr>)"
| "pop_terminal (eid # rest) t =
     (if bt_contains (terminal_ids t) eid then
        (let t' = t\<lparr>terminal_ids := bt_remove eid (terminal_ids t)\<rparr> in
         if bt_contains (executions t') eid
         then (True, t'\<lparr>executions := bt_remove eid (executions t'), terminal_order := rest\<rparr>)
         else pop_terminal rest t')
      else pop_terminal rest t)"

definition evict_oldest_terminal :: "exec_table \<Rightarrow> bool \<times> exec_table" where
  "evict_oldest_terminal t = pop_terminal (terminal_order t) t"

lemma pop_terminal_shorter:
  "pop_terminal order t = (True, t') \<Longrightarrow> length (terminal_order t') < length order"
proof (induction order arbitrary: t)
  case (Cons eid rest)
  then show ?case by (fastforce simp: Let_def split: if_splits)
qed simp

function make_room :: "exec_table \<Rightarrow> exec_table" where
  "make_room t =
     (if bt_len (executions t) < max_executions t then t
      else case evict_oldest_terminal t of
        (True, t') \<Rightarrow> make_room t'
      | (False, t') \<Rightarrow> t')"
  by pat_completeness auto

termination
  by (relation "measure (\<lambda>t. length (terminal_order t))")
    (auto simp: evict_oldest_terminal_def dest: pop_terminal_shorter [OF sym])

declare make_room.simps [simp del]

definition exec_start :: "exec_table \<Rightarrow> exec_start_request \<Rightarrow> execution_summary exec_result" where
  "exec_start t req =
     (case bt_get (executions t) (start_execution_id req) of
        Some existing \<Rightarrow>
          if ex_workload existing = start_workload req \<and> ex_generation existing = start_generation req \<and>
             ex_attach_mode existing = start_attach_mode req \<and> ex_tty existing = start_tty req
          then (Inr existing, t)
          else (Inl (error_new Err_IdempotencyKeyConflict
                  ''execution id already exists with different metadata''), t)
      | None \<Rightarrow>
          let t' = make_room t in
          if max_executions t' \<le> bt_len (executions t')
          then (Inl (error_new Err_Backpressure ''durable execution table is full''), t')
          else
            let summary = \<lparr>ex_id = start_execution_id req, ex_workload = start_workload req,
                           ex_state = Exec_Pending, ex_exit_code = None, ex_tty = start_tty req,
                           ex_generation = start_generation req, ex_attach_mode = start_attach_mode req,
                           ex_stdout_cursor = None, ex_stderr_cursor = None\<rparr>
            in (Inr summary, t'\<lparr>executions := bt_insert (ex_id summary) summary (executions t')\<rparr>))"

definition exec_attach :: "exec_table \<Rightarrow> exec_attach_request \<Rightarrow> constellation_error + execution_summary" where
  "exec_attach t req =
     bind_result (exec_get t (attach_execution_id req))
       (\<lambda>s. bind_result (ensure_generation s (attach_generation req)) (\<lambda>_. Inr s))"

definition exec_logs :: "exec_table \<Rightarrow> exec_logs_request \<Rightarrow> constellation_error + execution_summary" where
  "exec_logs t req =
     bind_result (exec_get t (logs_execution_id req))
       (\<lambda>s. bind_result (ensure_generation s (logs_generation req)) (\<lambda>_. Inr s))"

text \<open>Assignment through the \<open>&mut ExecutionSummary\<close> of a table entry.\<close>

definition put_summary :: "execution_id \<Rightarrow> execution_summary \<Rightarrow> exec_table \<Rightarrow> exec_table" where
  "put_summary eid s t = t\<lparr>executions := bt_insert eid s (executions t)\<rparr>"

definition exec_cancel :: "exec_table \<Rightarrow> exec_cancel_request \<Rightarrow> bool exec_result" where
  "exec_cancel t req =
     (case bt_get (executions t) (cancel_execution_id req) of
        None \<Rightarrow> (Inr False, t)
      | Some s \<Rightarrow>
          (case ensure_generation s (cancel_generation req) of
             Inl err \<Rightarrow> (Inl err, t)
           | Inr _ \<Rightarrow>
               if exec_is_terminal (ex_state s) then (Inr False, t)
               else (Inr True,
                     remember_terminal (cancel_execution_id req)
                       (put_summary (cancel_execution_id req) (s\<lparr>ex_state := Exec_Cancelled\<rparr>) t))))"

definition exec_mark_running :: "exec_table \<Rightarrow> execution_id \<Rightarrow> unit exec_result" where
  "exec_mark_running t eid =
     (case exec_get t eid of
        Inl err \<Rightarrow> (Inl err, t)
      | Inr s \<Rightarrow>
          if exec_is_terminal (ex_state s)
          then (Inl (error_new Err_Cancelled ''terminal execution cannot be marked running''), t)
          else (Inr (), put_summary eid (s\<lparr>ex_state := Exec_Running\<rparr>) t))"

definition with_cursors ::
    "stream_cursor option \<Rightarrow> stream_cursor option \<Rightarrow> execution_summary \<Rightarrow> execution_summary" where
  "with_cursors out err s =
     s\<lparr>ex_stdout_cursor := (case out of Some c \<Rightarrow> Some c | None \<Rightarrow> ex_stdout_cursor s),
       ex_stderr_cursor := (case err of Some c \<Rightarrow> Some c | None \<Rightarrow> ex_stderr_cursor s)\<rparr>"

definition exec_mark_exited ::
    "exec_table \<Rightarrow> execution_id \<Rightarrow> i32 \<Rightarrow> stream_cursor option \<Rightarrow> stream_cursor option \<Rightarrow> unit exec_result" where
  "exec_mark_exited t eid code out err =
     (case exec_get t eid of
        Inl e \<Rightarrow> (Inl e, t)
      | Inr s \<Rightarrow>
          if exec_is_terminal (ex_state s)
          then (Inl (error_new Err_Cancelled ''terminal execution cannot be marked exited''), t)
          else (Inr (),
                remember_terminal eid
                  (put_summary eid
                     (with_cursors out err (s\<lparr>ex_state := Exec_Exited, ex_exit_code := Some code\<rparr>)) t)))"

definition exec_mark_failed :: "exec_table \<Rightarrow> execution_id \<Rightarrow> unit exec_result" where
  "exec_mark_failed t eid =
     (case exec_get t eid of
        Inl err \<Rightarrow> (Inl err, t)
      | Inr s \<Rightarrow>
          if exec_is_terminal (ex_state s)
          then (Inl (error_new Err_Cancelled ''terminal execution cannot be marked failed''), t)
          else (Inr (), remember_terminal eid (put_summary eid (s\<lparr>ex_state := Exec_Failed\<rparr>) t)))"

definition exec_update_cursors ::
    "exec_table \<Rightarrow> execution_id \<Rightarrow> stream_cursor option \<Rightarrow> stream_cursor option \<Rightarrow> unit exec_result" where
  "exec_update_cursors t eid out err =
     (case exec_get t eid of
        Inl e \<Rightarrow> (Inl e, t)
      | Inr s \<Rightarrow> (Inr (), put_summary eid (with_cursors out err s) t))"

definition exec_remove :: "exec_table \<Rightarrow> execution_id \<Rightarrow> bool \<times> exec_table" where
  "exec_remove t eid =
     (bt_contains (executions t) eid,
      t\<lparr>terminal_ids := bt_remove eid (terminal_ids t),
        terminal_order := filter (\<lambda>entry. entry \<noteq> eid) (terminal_order t),
        executions := bt_remove eid (executions t)\<rparr>)"

datatype exec_call =
    Exec_start exec_start_request
  | Exec_cancel exec_cancel_request
  | Exec_mark_running execution_id
  | Exec_mark_exited execution_id i32 "stream_cursor option" "stream_cursor option"
  | Exec_mark_failed execution_id
  | Exec_update_cursors execution_id "stream_cursor option" "stream_cursor option"
  | Exec_remove execution_id

primrec exec_apply :: "exec_call \<Rightarrow> exec_table \<Rightarrow> exec_table" where
  "exec_apply (Exec_start req) t = snd (exec_start t req)"
| "exec_apply (Exec_cancel req) t = snd (exec_cancel t req)"
| "exec_apply (Exec_mark_running eid) t = snd (exec_mark_running t eid)"
| "exec_apply (Exec_mark_exited eid code out err) t = snd (exec_mark_exited t eid code out err)"
| "exec_apply (Exec_mark_failed eid) t = snd (exec_mark_failed t eid)"
| "exec_apply (Exec_update_cursors eid out err) t = snd (exec_update_cursors t eid out err)"
| "exec_apply (Exec_remove eid) t = snd (exec_remove t eid)"

definition exec_run :: "exec_call list \<Rightarrow> exec_table \<Rightarrow> exec_table" where
  "exec_run calls t = fold exec_apply calls t"


section \<open>Invariant\<close>

definition exec_inv :: "exec_table \<Rightarrow> bool" where
  "exec_inv t \<longleftrightarrow>
     distinct (terminal_order t) \<and>
     (\<forall>k. k \<in> set (terminal_order t) \<longleftrightarrow> bt_contains (terminal_ids t) k) \<and>
     (\<forall>k. bt_contains (terminal_ids t) k \<longleftrightarrow>
        (\<exists>s. bt_get (executions t) k = Some s \<and> exec_is_terminal (ex_state s))) \<and>
     (\<forall>k s. bt_get (executions t) k = Some s \<longrightarrow> ex_id s = k) \<and>
     bt_len (executions t) \<le> max_executions t \<and> 0 < max_executions t"

lemma exec_inv_new: "exec_inv (with_max_executions n)"
  by (simp add: exec_inv_def with_max_executions_def)

lemma evict_oldest:
  assumes "exec_inv t" "terminal_order t = k # rest"
  shows "evict_oldest_terminal t =
    (True, t\<lparr>terminal_ids := bt_remove k (terminal_ids t), executions := bt_remove k (executions t),
            terminal_order := rest\<rparr>)"
proof -
  have "bt_contains (terminal_ids t) k" using assms by (auto simp: exec_inv_def)
  moreover from this have "bt_contains (executions t) k"
    using assms by (auto simp: exec_inv_def bt_contains_def)
  ultimately show ?thesis using assms(2) by (simp add: evict_oldest_terminal_def Let_def)
qed

definition drop_oldest :: "exec_table \<Rightarrow> exec_table" where
  "drop_oldest t =
     (case terminal_order t of
        [] \<Rightarrow> t
      | k # rest \<Rightarrow>
          t\<lparr>terminal_ids := bt_remove k (terminal_ids t), executions := bt_remove k (executions t),
            terminal_order := rest\<rparr>)"

lemma drop_oldest_get:
  assumes "exec_inv t"
  shows "bt_get (executions (drop_oldest t)) j =
    (if terminal_order t \<noteq> [] \<and> j = hd (terminal_order t) then None else bt_get (executions t) j)"
  by (simp add: drop_oldest_def split: list.split)

lemma drop_oldest_len:
  assumes "exec_inv t"
  shows "bt_len (executions (drop_oldest t)) =
    (if terminal_order t = [] then bt_len (executions t) else bt_len (executions t) - 1)"
proof (cases "terminal_order t")
  case (Cons k rest)
  then have "k \<in> set (terminal_order t)" by simp
  with assms have "bt_contains (executions t) k" by (auto simp: exec_inv_def bt_contains_def)
  with Cons show ?thesis by (simp add: drop_oldest_def bt_len_remove)
qed (simp add: drop_oldest_def)

lemma make_room_eq:
  assumes "exec_inv t"
  shows "make_room t = (if bt_len (executions t) < max_executions t then t else drop_oldest t)"
proof (cases "bt_len (executions t) < max_executions t")
  case True
  then show ?thesis by (simp add: make_room.simps)
next
  case False
  show ?thesis
  proof (cases "terminal_order t")
    case Nil
    then have "t\<lparr>terminal_order := []\<rparr> = t" by simp
    with Nil False show ?thesis
      by (simp add: make_room.simps [of t] evict_oldest_terminal_def drop_oldest_def)
  next
    case (Cons k rest)
    have "bt_len (executions (drop_oldest t)) < max_executions (drop_oldest t)"
      using drop_oldest_len [OF assms] assms Cons by (auto simp: exec_inv_def drop_oldest_def)
    then have "make_room (drop_oldest t) = drop_oldest t" by (simp add: make_room.simps)
    moreover have "evict_oldest_terminal t = (True, drop_oldest t)"
      using evict_oldest [OF assms Cons] Cons by (simp add: drop_oldest_def)
    ultimately show ?thesis using False by (simp add: make_room.simps [of t])
  qed
qed

lemma exec_inv_drop:
  assumes "exec_inv t"
  shows "exec_inv (drop_oldest t)"
proof (cases "terminal_order t")
  case (Cons k rest)
  with assms have "distinct (k # rest)" "\<forall>j. j \<in> set (k # rest) \<longleftrightarrow> bt_contains (terminal_ids t) j"
    by (simp_all add: exec_inv_def)
  with assms Cons drop_oldest_len [OF assms] show ?thesis
    by (auto simp: exec_inv_def drop_oldest_def)
qed (use assms in \<open>simp add: drop_oldest_def\<close>)

lemma exec_inv_room: "exec_inv t \<Longrightarrow> exec_inv (make_room t)"
  by (simp add: make_room_eq exec_inv_drop)

text \<open>Overwriting an entry by one with the same terminality.\<close>

lemma exec_inv_put:
  assumes "exec_inv t" "bt_get (executions t) k = Some s" "ex_id s' = ex_id s"
    and "exec_is_terminal (ex_state s') = exec_is_terminal (ex_state s)"
  shows "exec_inv (put_summary k s' t)"
  using assms by (auto simp: exec_inv_def put_summary_def bt_len_insert bt_contains_def)

lemma exec_inv_terminate:
  assumes "exec_inv t" "bt_get (executions t) k = Some s" "ex_id s' = ex_id s"
    and "\<not> exec_is_terminal (ex_state s)" "exec_is_terminal (ex_state s')"
  shows "exec_inv (remember_terminal k (put_summary k s' t))"
proof -
  have "\<not> bt_contains (terminal_ids t) k" using assms by (auto simp: exec_inv_def)
  with assms show ?thesis
    by (auto simp: exec_inv_def put_summary_def remember_terminal_def bt_len_insert bt_contains_def)
qed

lemma exec_inv_start:
  assumes "exec_inv t"
  shows "exec_inv (snd (exec_start t req))"
proof (cases "bt_get (executions t) (start_execution_id req)")
  case None
  then have "bt_get (executions (make_room t)) (start_execution_id req) = None"
    using drop_oldest_get [OF assms] by (simp add: make_room_eq [OF assms])
  with None exec_inv_room [OF assms] show ?thesis
    by (auto simp: exec_start_def Let_def exec_inv_def bt_len_insert exec_is_terminal_def bt_contains_def)
qed (auto simp: exec_start_def assms)

lemma exec_get_Inr: "exec_get t k = Inr s \<longleftrightarrow> bt_get (executions t) k = Some s"
  by (simp add: exec_get_def)

lemma with_cursors_fields [simp]:
  "ex_id (with_cursors out err s) = ex_id s" "ex_state (with_cursors out err s) = ex_state s"
  "ex_exit_code (with_cursors out err s) = ex_exit_code s"
  "ex_generation (with_cursors out err s) = ex_generation s"
  "ex_workload (with_cursors out err s) = ex_workload s"
  by (simp_all add: with_cursors_def)

lemma terminal_states [simp]:
  "\<not> exec_is_terminal Exec_Pending" "\<not> exec_is_terminal Exec_Running" "exec_is_terminal Exec_Exited"
  "exec_is_terminal Exec_Cancelled" "exec_is_terminal Exec_Failed"
  by (simp_all add: exec_is_terminal_def)

lemma exec_inv_apply:
  assumes "exec_inv t"
  shows "exec_inv (exec_apply c t)"
proof (cases c)
  case (Exec_remove k)
  with assms show ?thesis
    by (auto simp: exec_remove_def exec_inv_def bt_len_remove)
qed (use assms in \<open>auto simp: exec_inv_start exec_cancel_def exec_mark_running_def exec_mark_exited_def
       exec_mark_failed_def exec_update_cursors_def exec_get_Inr split: option.split sum.split
       intro: exec_inv_put exec_inv_terminate\<close>)

lemma exec_inv_run: "exec_inv t \<Longrightarrow> exec_inv (exec_run calls t)"
  unfolding exec_run_def by (induction calls arbitrary: t) (simp_all add: exec_inv_apply)


section \<open>The lifecycle of one execution\<close>

definition exec_step :: "exec_state \<Rightarrow> exec_state \<Rightarrow> bool" where
  "exec_step a b \<longleftrightarrow> \<not> exec_is_terminal a \<and> b \<noteq> Exec_Pending"

interpretation exec_lifecycle: lifecycle exec_step exec_is_terminal
  by unfold_locales (simp add: exec_step_def)

text \<open>What one call makes of a retained execution: it is gone, or it kept its identity and moved along
  the lifecycle, and a terminal one kept its outcome.\<close>

definition exec_evolves :: "execution_summary \<Rightarrow> execution_summary \<Rightarrow> bool" where
  "exec_evolves s s' \<longleftrightarrow>
     exec_step\<^sup>*\<^sup>* (ex_state s) (ex_state s') \<and> ex_generation s' = ex_generation s \<and>
     ex_workload s' = ex_workload s \<and>
     (exec_is_terminal (ex_state s) \<longrightarrow> ex_exit_code s' = ex_exit_code s)"

lemma exec_evolves_refl [simp, intro]: "exec_evolves s s"
  by (simp add: exec_evolves_def)

lemma exec_evolves_trans: "exec_evolves a b \<Longrightarrow> exec_evolves b c \<Longrightarrow> exec_evolves a c"
  by (auto simp: exec_evolves_def dest: exec_lifecycle.terminal_final)

lemma exec_evolves_step:
  "\<not> exec_is_terminal (ex_state s) \<Longrightarrow> ex_state s' \<noteq> Exec_Pending \<Longrightarrow> ex_generation s' = ex_generation s \<Longrightarrow>
   ex_workload s' = ex_workload s \<Longrightarrow> exec_evolves s s'"
  by (auto simp: exec_evolves_def exec_step_def)

primrec call_starts :: "execution_id \<Rightarrow> exec_call \<Rightarrow> bool" where
  "call_starts k (Exec_start req) \<longleftrightarrow> start_execution_id req = k"
| "call_starts k (Exec_cancel req) \<longleftrightarrow> False"
| "call_starts k (Exec_mark_running j) \<longleftrightarrow> False"
| "call_starts k (Exec_mark_exited j code out err) \<longleftrightarrow> False"
| "call_starts k (Exec_mark_failed j) \<longleftrightarrow> False"
| "call_starts k (Exec_update_cursors j out err) \<longleftrightarrow> False"
| "call_starts k (Exec_remove j) \<longleftrightarrow> False"

lemma remember_terminal_executions [simp]: "executions (remember_terminal k t) = executions t"
  by (simp add: remember_terminal_def)

lemma with_cursors_evolves [simp]: "exec_evolves s (with_cursors out err s)"
  by (simp add: exec_evolves_def)

lemma start_get:
  assumes "exec_inv t" "bt_get (executions t) k = Some s"
  shows "bt_get (executions (snd (exec_start t req))) k = Some s \<or>
    exec_is_terminal (ex_state s) \<and> start_execution_id req \<noteq> k \<and>
      bt_get (executions (snd (exec_start t req))) k = None"
proof (cases "bt_get (executions t) (start_execution_id req)")
  case None
  then have "k \<noteq> start_execution_id req" using assms(2) by auto
  moreover have "exec_is_terminal (ex_state s)" if "terminal_order t \<noteq> []" "k = hd (terminal_order t)"
  proof -
    have "k \<in> set (terminal_order t)" using that by simp
    with assms show ?thesis by (auto simp: exec_inv_def)
  qed
  ultimately show ?thesis
    using None assms(2) drop_oldest_get [OF assms(1), of k]
    by (auto simp: exec_start_def Let_def make_room_eq [OF assms(1)])
qed (use assms(2) in \<open>simp add: exec_start_def\<close>)

lemma exec_apply_entry:
  assumes "exec_inv t" "bt_get (executions t) k = Some s"
    and "bt_get (executions (exec_apply c t)) k = Some s'"
  shows "exec_evolves s s'"
proof (cases c)
  case (Exec_start req)
  with assms start_get [OF assms(1,2), of req] show ?thesis by auto
next
  case (Exec_remove j)
  with assms show ?thesis by (auto simp: exec_remove_def split: if_splits)
qed (use assms(2,3) in \<open>auto simp: exec_cancel_def exec_mark_running_def exec_mark_exited_def
       exec_mark_failed_def exec_update_cursors_def exec_get_Inr put_summary_def split: option.splits sum.splits if_splits intro: exec_evolves_step\<close>)


lemma exec_apply_absent:
  assumes "exec_inv t" "bt_get (executions t) k = None" "\<not> call_starts k c"
  shows "bt_get (executions (exec_apply c t)) k = None"
proof (cases c)
  case (Exec_start req)
  with assms drop_oldest_get [OF assms(1), of k] show ?thesis
    by (auto simp: exec_start_def Let_def make_room_eq [OF assms(1)] split: option.split)
qed (use assms(2) in \<open>auto simp: exec_cancel_def exec_mark_running_def exec_mark_exited_def exec_remove_def
       exec_mark_failed_def exec_update_cursors_def exec_get_Inr put_summary_def
       split: option.splits sum.splits if_splits\<close>)

lemma exec_run_entry:
  assumes "exec_inv t" "bt_get (executions t) k = Some s" "list_all (\<lambda>c. \<not> call_starts k c) calls"
    and "bt_get (executions (exec_run calls t)) k = Some s'"
  shows "exec_evolves s s'"
  using assms
proof (induction calls arbitrary: t s)
  case (Cons c calls)
  have inv: "exec_inv (exec_apply c t)" by (rule exec_inv_apply [OF Cons.prems(1)])
  have absent: "bt_get (executions (exec_run cs u)) k = None"
    if "exec_inv u" "bt_get (executions u) k = None" "list_all (\<lambda>c. \<not> call_starts k c) cs" for u cs
    using that
  proof (induction cs arbitrary: u)
    case (Cons c cs)
    then show ?case
      using exec_apply_absent [of u k c] exec_inv_apply [of u c] by (simp add: exec_run_def)
  qed (simp add: exec_run_def)
  show ?case
  proof (cases "bt_get (executions (exec_apply c t)) k")
    case None
    with absent [OF inv None] Cons.prems show ?thesis by (simp add: exec_run_def)
  next
    case (Some u)
    with Cons inv exec_apply_entry [OF Cons.prems(1,2) Some] show ?thesis
      by (auto simp: exec_run_def intro: exec_evolves_trans)
  qed
qed (simp add: exec_run_def)


section \<open>Live executions\<close>

definition live_count :: "exec_table \<Rightarrow> nat" where
  "live_count t = bt_count (\<lambda>s. \<not> exec_is_terminal (ex_state s)) (executions t)"

lemma live_count_len:
  assumes "exec_inv t"
  shows "bt_len (executions t) = live_count t + length (terminal_order t)"
proof -
  let ?live = "{k. \<exists>s. bt_get (executions t) k = Some s \<and> \<not> exec_is_terminal (ex_state s)}"
  have order: "set (terminal_order t) = {k. \<exists>s. bt_get (executions t) k = Some s \<and> exec_is_terminal (ex_state s)}"
    using assms by (auto simp: exec_inv_def)
  then have "dom (bt_get (executions t)) = ?live \<union> set (terminal_order t)" by auto
  moreover have "?live \<inter> set (terminal_order t) = {}" using order by auto
  ultimately have "card (dom (bt_get (executions t))) = card ?live + card (set (terminal_order t))"
    by (simp add: card_Un_disjoint)
  then show ?thesis
    using assms by (simp add: bt_len_card live_count_def bt_count_card exec_inv_def distinct_card)
qed

lemma full_iff:
  assumes "exec_inv t"
  shows "max_executions t \<le> live_count t \<longleftrightarrow> max_executions t \<le> bt_len (executions t) \<and> terminal_order t = []"
proof -
  have "bt_len (executions t) \<le> max_executions t" using assms by (simp add: exec_inv_def)
  then show ?thesis using live_count_len [OF assms] by (cases "terminal_order t") auto
qed


section \<open>Properties\<close>

definition demo_exec :: "execution_id \<Rightarrow> exec_start_request" where
  "demo_exec k =
     \<lparr>start_execution_id = k, start_workload = ''vm1'',
      start_generation = \<lparr>guest_boot_id = ''boot-1'', workload_generation = ''gen-1''\<rparr>,
      start_attach_mode = Detached, start_tty = False\<rparr>"

text \<open>However the execution table is driven, its queue and its set of terminal executions agree with
  the stored states, every summary sits under its own id, and the table stays within its cap.\<close>

theorem exec_table_invariant: "exec_inv (exec_run calls (with_max_executions n))"
  by (rule exec_inv_run [OF exec_inv_new])

text \<open>Starting an execution is idempotent and never costs a live one: a known id yields its summary or,
  with other metadata, a conflict; a new id is refused exactly when the table is full of live
  executions; and every live execution is still stored unchanged.\<close>

theorem exec_start_exact:
  assumes "exec_inv t"
  shows "(case bt_get (executions t) (start_execution_id req) of
      Some s \<Rightarrow> exec_start t req =
        (if ex_workload s = start_workload req \<and> ex_generation s = start_generation req \<and>
            ex_attach_mode s = start_attach_mode req \<and> ex_tty s = start_tty req
         then Inr s
         else Inl (error_new Err_IdempotencyKeyConflict ''execution id already exists with different metadata''), t)
    | None \<Rightarrow> is_ok (fst (exec_start t req)) = (live_count t < max_executions t)) \<and>
    (\<forall>k s. bt_get (executions t) k = Some s \<and> \<not> exec_is_terminal (ex_state s) \<longrightarrow>
       bt_get (executions (snd (exec_start t req))) k = Some s)"
proof -
  have "is_ok (fst (exec_start t req)) = (live_count t < max_executions t)"
    if "bt_get (executions t) (start_execution_id req) = None"
  proof -
    have "max_executions (make_room t) \<le> bt_len (executions (make_room t)) \<longleftrightarrow> max_executions t \<le> live_count t"
      using assms drop_oldest_len [OF assms] full_iff [OF assms]
      by (auto simp: make_room_eq exec_inv_def drop_oldest_def split: list.splits)
    with that show ?thesis by (auto simp: exec_start_def Let_def)
  qed
  moreover have "\<forall>k s. bt_get (executions t) k = Some s \<and> \<not> exec_is_terminal (ex_state s) \<longrightarrow>
      bt_get (executions (snd (exec_start t req))) k = Some s"
    using start_get [OF assms] by blast
  moreover have "exec_start t req =
      (if ex_workload s = start_workload req \<and> ex_generation s = start_generation req \<and>
          ex_attach_mode s = start_attach_mode req \<and> ex_tty s = start_tty req
       then Inr s
       else Inl (error_new Err_IdempotencyKeyConflict ''execution id already exists with different metadata''), t)"
    if "bt_get (executions t) (start_execution_id req) = Some s" for s
    using that by (simp add: exec_start_def)
  ultimately show ?thesis by (simp split: option.split)
qed

lemma exec_start_exact_witness:
  "\<not> is_ok (fst (exec_start (exec_run [Exec_start (demo_exec ''e1'')] (with_max_executions 1)) (demo_exec ''e2'')))"
proof -
  let ?t = "exec_run [Exec_start (demo_exec ''e1'')] (with_max_executions 1)"
  have "bt_get (executions ?t) (start_execution_id (demo_exec ''e2'')) = None"
    "\<not> live_count ?t < max_executions ?t" by code_simp+
  with exec_start_exact [OF exec_inv_run [OF exec_inv_new], of "[Exec_start (demo_exec ''e1'')]" 1 "demo_exec ''e2''"]
  show ?thesis by simp
qed

text \<open>A terminal execution is final: as long as it is retained, its state, exit code, workload and
  generation never change again, whatever calls follow; only a fresh start after eviction or
  removal can reuse the id.\<close>

theorem terminal_execution_final:
  assumes "t = exec_run calls (with_max_executions n)"
    and "bt_get (executions t) k = Some s" "exec_is_terminal (ex_state s)"
    and "list_all (\<lambda>c. \<not> call_starts k c) calls'" "bt_get (executions (exec_run calls' t)) k = Some s'"
  shows "ex_state s' = ex_state s \<and> ex_exit_code s' = ex_exit_code s \<and> ex_workload s' = ex_workload s \<and>
    ex_generation s' = ex_generation s"
proof -
  have "exec_evolves s s'"
    using assms exec_inv_run [OF exec_inv_new] by (intro exec_run_entry) auto
  with assms(3) show ?thesis
    by (auto simp: exec_evolves_def dest: exec_lifecycle.terminal_final)
qed

lemma terminal_execution_final_witness:
  "\<exists>s. bt_get (executions (exec_run [Exec_mark_exited ''e1'' 3 None None, Exec_mark_failed ''e1'']
      (exec_run [Exec_start (demo_exec ''e1''), Exec_mark_exited ''e1'' 7 None None] (with_max_executions 2)))) ''e1''
     = Some s \<and> ex_state s = Exec_Exited \<and> ex_exit_code s = Some 7"
proof -
  let ?t = "exec_run [Exec_start (demo_exec ''e1''), Exec_mark_exited ''e1'' 7 None None] (with_max_executions 2)"
  have "map_option (\<lambda>s. (ex_state s, ex_exit_code s)) (bt_get (executions ?t) ''e1'') = Some (Exec_Exited, Some 7)"
    by code_simp
  then obtain s where s: "bt_get (executions ?t) ''e1'' = Some s" "ex_state s = Exec_Exited" "ex_exit_code s = Some 7"
    by auto
  have "bt_contains (executions (exec_run [Exec_mark_exited ''e1'' 3 None None, Exec_mark_failed ''e1''] ?t)) ''e1''"
    by code_simp
  then obtain s' where s': "bt_get (executions (exec_run [Exec_mark_exited ''e1'' 3 None None, Exec_mark_failed ''e1'']
      ?t)) ''e1'' = Some s'" by (auto simp: bt_contains_def)
  from terminal_execution_final [OF refl s(1) _ _ s'] s(2,3) s' show ?thesis by simp
qed

end
