(* ===== verification/Gateway_Ledger.thy ===== *)
theory Gateway_Ledger
  imports Frames
begin

text \<open>
  The gateway's display-session ledger \<open>d2b-gateway/src/ledger.rs\<close> and its error type
  \<open>d2b-gateway/src/error.rs\<close>: idempotent admission, quotas and the session state machine.

  Records are a hash map in the source; its iteration order is visible only to \<open>find\<close> in \<open>open\<close>,
  which by the invariant has at most one match.
\<close>

section \<open>Errors\<close>

datatype handshake_error =
    Hs_BadMac | Hs_StaleGeneration | Hs_Expired | Hs_BindingMismatch | Hs_Replay | Hs_Malformed

datatype gateway_error =
    Gw_NoRealmEntrypoint | Gw_GatewayUnavailable | Gw_Busy | Gw_Conflict | Gw_Internal | Gw_QuotaExceeded
  | Gw_ProviderAllocationFailed | Gw_RelayUnavailable | Gw_DisplayAuthFailed handshake_error
  | Gw_MissingWindowForwarding | Gw_Timeout | Gw_Cancelled | Gw_AuditUnavailable

primrec gateway_error_kind :: "gateway_error \<Rightarrow> error_kind" where
  "gateway_error_kind Gw_NoRealmEntrypoint = Err_NoRealmEntrypoint"
| "gateway_error_kind Gw_GatewayUnavailable = Err_GatewayUnavailable"
| "gateway_error_kind Gw_Busy = Err_OperationInProgress"
| "gateway_error_kind Gw_Conflict = Err_IdempotencyKeyConflict"
| "gateway_error_kind Gw_Internal = Err_GatewayUnavailable"
| "gateway_error_kind Gw_QuotaExceeded = Err_Backpressure"
| "gateway_error_kind Gw_ProviderAllocationFailed = Err_ProviderAllocationFailed"
| "gateway_error_kind Gw_RelayUnavailable = Err_RelayUnavailable"
| "gateway_error_kind (Gw_DisplayAuthFailed e) = Err_AuthenticationFailed"
| "gateway_error_kind Gw_MissingWindowForwarding = Err_UnsupportedFeature"
| "gateway_error_kind Gw_Timeout = Err_Timeout"
| "gateway_error_kind Gw_Cancelled = Err_Cancelled"
| "gateway_error_kind Gw_AuditUnavailable = Err_AuditUnavailable"

primrec gateway_error_slug :: "gateway_error \<Rightarrow> string" where
  "gateway_error_slug Gw_NoRealmEntrypoint = ''missing-realm-entrypoint''"
| "gateway_error_slug Gw_GatewayUnavailable = ''gateway-unavailable''"
| "gateway_error_slug Gw_Busy = ''gateway-busy''"
| "gateway_error_slug Gw_Conflict = ''idempotency-conflict''"
| "gateway_error_slug Gw_Internal = ''gateway-internal''"
| "gateway_error_slug Gw_QuotaExceeded = ''gateway-quota-exceeded''"
| "gateway_error_slug Gw_ProviderAllocationFailed = ''provider-allocation-failed''"
| "gateway_error_slug Gw_RelayUnavailable = ''relay-unavailable''"
| "gateway_error_slug (Gw_DisplayAuthFailed e) = ''display-auth-failed''"
| "gateway_error_slug Gw_MissingWindowForwarding = ''missing-window-forwarding''"
| "gateway_error_slug Gw_Timeout = ''gateway-timeout''"
| "gateway_error_slug Gw_Cancelled = ''gateway-cancelled''"
| "gateway_error_slug Gw_AuditUnavailable = ''audit-unavailable''"

definition gateway_to_constellation :: "gateway_error \<Rightarrow> constellation_error" where
  "gateway_to_constellation e = error_new (gateway_error_kind e) (gateway_error_slug e)"


section \<open>Session states\<close>

datatype session_state =
    Minting | AgentSpawning | ListenerArming | AwaitingHandshake | Running | Degraded | Stopping | Closed_State
  | Failed_State

definition can_transition :: "session_state \<Rightarrow> session_state \<Rightarrow> bool" where
  "can_transition s next \<longleftrightarrow>
     (s, next) \<in>
       {(Minting, ListenerArming), (ListenerArming, AgentSpawning), (AgentSpawning, AwaitingHandshake),
        (AwaitingHandshake, Running), (Running, Degraded), (Degraded, ListenerArming),
        (Minting, Stopping), (AgentSpawning, Stopping), (ListenerArming, Stopping),
        (AwaitingHandshake, Stopping), (Running, Stopping), (Degraded, Stopping), (Stopping, Closed_State),
        (Minting, Failed_State), (AgentSpawning, Failed_State), (ListenerArming, Failed_State),
        (AwaitingHandshake, Failed_State)}"

definition session_is_terminal :: "session_state \<Rightarrow> bool" where
  "session_is_terminal s \<longleftrightarrow> s = Closed_State \<or> s = Failed_State"

interpretation session_lifecycle: lifecycle can_transition session_is_terminal
  by unfold_locales (auto simp: can_transition_def session_is_terminal_def)


section \<open>The ledger\<close>

type_synonym display_session_id = string

record target_key =
  tk_realm :: string
  tk_workload :: string

record ledger_limits =
  max_sessions_per_principal :: nat
  max_sessions_per_realm :: nat
  max_records :: nat

definition default_limits :: ledger_limits where
  "default_limits = \<lparr>max_sessions_per_principal = 8, max_sessions_per_realm = 16, max_records = 256\<rparr>"

record session_record =
  sr_id :: display_session_id
  sr_target_key :: target_key
  sr_principal :: string
  sr_operation_id :: string
  sr_request_hash :: u64
  sr_state :: session_state
  sr_generation :: u64

datatype op_outcome = Op_Accepted display_session_id | Op_Replay display_session_id

record session_ledger =
  limits :: ledger_limits
  generation :: u64
  records :: "(string, session_record) btmap"

definition ledger_new :: "u64 \<Rightarrow> ledger_limits \<Rightarrow> session_ledger" where
  "ledger_new g lim = \<lparr>limits = lim, generation = g, records = bt_empty\<rparr>"

definition active_for_principal :: "session_ledger \<Rightarrow> string \<Rightarrow> nat" where
  "active_for_principal l caller =
     bt_count (\<lambda>r. sr_principal r = caller \<and> \<not> session_is_terminal (sr_state r)) (records l)"

definition active_for_realm :: "session_ledger \<Rightarrow> string \<Rightarrow> nat" where
  "active_for_realm l realm =
     bt_count (\<lambda>r. tk_realm (sr_target_key r) = realm \<and> \<not> session_is_terminal (sr_state r)) (records l)"

definition gc_terminal :: "session_ledger \<Rightarrow> session_ledger" where
  "gc_terminal l = l\<lparr>records := bt_retain (\<lambda>_ r. \<not> session_is_terminal (sr_state r)) (records l)\<rparr>"

definition ledger_open ::
    "session_ledger \<Rightarrow> target_key \<Rightarrow> string \<Rightarrow> string \<Rightarrow> u64 \<Rightarrow> display_session_id \<Rightarrow>
     (gateway_error + op_outcome) \<times> session_ledger" where
  "ledger_open l target caller operation hash new_id =
     (case List.find (\<lambda>r. sr_operation_id r = operation \<and> sr_principal r = caller) (bt_values (records l)) of
        Some existing \<Rightarrow>
          if sr_request_hash existing = hash then (Inr (Op_Replay (sr_id existing)), l)
          else (Inl Gw_Conflict, l)
      | None \<Rightarrow>
          if list_ex (\<lambda>r. sr_target_key r = target \<and> \<not> session_is_terminal (sr_state r)) (bt_values (records l))
          then (Inl Gw_Busy, l)
          else
            let l' = (if max_records (limits l) \<le> bt_len (records l) then gc_terminal l else l) in
            if max_records (limits l') \<le> bt_len (records l') then (Inl Gw_QuotaExceeded, l')
            else if max_sessions_per_principal (limits l') \<le> active_for_principal l' caller \<or>
                    max_sessions_per_realm (limits l') \<le> active_for_realm l' (tk_realm target)
            then (Inl Gw_QuotaExceeded, l')
            else if bt_contains (records l') new_id then (Inl Gw_Internal, l')
            else (Inr (Op_Accepted new_id),
                  l'\<lparr>records := bt_insert new_id
                       \<lparr>sr_id = new_id, sr_target_key = target, sr_principal = caller,
                        sr_operation_id = operation, sr_request_hash = hash, sr_state = Minting,
                        sr_generation = generation l'\<rparr> (records l')\<rparr>))"

definition ledger_transition ::
    "session_ledger \<Rightarrow> display_session_id \<Rightarrow> session_state \<Rightarrow> (gateway_error + unit) \<times> session_ledger" where
  "ledger_transition l sid next =
     (case bt_get (records l) sid of
        None \<Rightarrow> (Inl Gw_Cancelled, l)
      | Some rec \<Rightarrow>
          if \<not> can_transition (sr_state rec) next then (Inl Gw_Cancelled, l)
          else (Inr (), l\<lparr>records := bt_insert sid (rec\<lparr>sr_state := next\<rparr>) (records l)\<rparr>))"

definition ledger_state :: "session_ledger \<Rightarrow> display_session_id \<Rightarrow> session_state option" where
  "ledger_state l sid = map_option sr_state (bt_get (records l) sid)"

definition active_records :: "session_ledger \<Rightarrow> session_record list" where
  "active_records l =
     sort_key sr_id (filter (\<lambda>r. \<not> session_is_terminal (sr_state r)) (bt_values (records l)))"

definition close_record :: "session_record \<Rightarrow> session_record" where
  "close_record r = (if session_is_terminal (sr_state r) then r else r\<lparr>sr_state := Closed_State\<rparr>)"

definition reconcile_restart :: "session_ledger \<Rightarrow> session_record list \<times> session_ledger" where
  "reconcile_restart l =
     (map close_record (filter (\<lambda>r. \<not> session_is_terminal (sr_state r)) (bt_values (records l))),
      l\<lparr>generation := generation l + 1, records := bt_map close_record (records l)\<rparr>)"

datatype ledger_call =
    Ledger_open target_key string string u64 display_session_id
  | Ledger_transition display_session_id session_state
  | Ledger_gc
  | Ledger_restart

primrec ledger_apply :: "ledger_call \<Rightarrow> session_ledger \<Rightarrow> session_ledger" where
  "ledger_apply (Ledger_open target caller operation hash new_id) l =
     snd (ledger_open l target caller operation hash new_id)"
| "ledger_apply (Ledger_transition sid next) l = snd (ledger_transition l sid next)"
| "ledger_apply Ledger_gc l = gc_terminal l"
| "ledger_apply Ledger_restart l = snd (reconcile_restart l)"

definition ledger_run :: "ledger_call list \<Rightarrow> session_ledger \<Rightarrow> session_ledger" where
  "ledger_run calls l = fold ledger_apply calls l"


section \<open>Invariant\<close>

definition ledger_inv :: "session_ledger \<Rightarrow> bool" where
  "ledger_inv l \<longleftrightarrow>
     (\<forall>k r. bt_get (records l) k = Some r \<longrightarrow> sr_id r = k) \<and>
     (\<forall>j k r r'. bt_get (records l) j = Some r \<and> bt_get (records l) k = Some r' \<and>
        sr_operation_id r = sr_operation_id r' \<and> sr_principal r = sr_principal r' \<longrightarrow> j = k) \<and>
     (\<forall>j k r r'. bt_get (records l) j = Some r \<and> bt_get (records l) k = Some r' \<and>
        \<not> session_is_terminal (sr_state r) \<and> \<not> session_is_terminal (sr_state r') \<and>
        sr_target_key r = sr_target_key r' \<longrightarrow> j = k) \<and>
     bt_len (records l) \<le> max_records (limits l) \<and>
     (\<forall>p. active_for_principal l p \<le> max_sessions_per_principal (limits l)) \<and>
     (\<forall>realm. active_for_realm l realm \<le> max_sessions_per_realm (limits l))"

text \<open>A ledger whose records are among those of another, perhaps with a later state that is live only
  where it was live before.\<close>

definition ledger_shrinks :: "session_ledger \<Rightarrow> session_ledger \<Rightarrow> bool" where
  "ledger_shrinks l l' \<longleftrightarrow>
     limits l' = limits l \<and>
     (\<forall>k r'. bt_get (records l') k = Some r' \<longrightarrow>
        (\<exists>r st. bt_get (records l) k = Some r \<and> r' = r\<lparr>sr_state := st\<rparr> \<and>
           (session_is_terminal (sr_state r) \<longrightarrow> session_is_terminal st)))"

lemma ledger_shrinksE:
  assumes "ledger_shrinks l l'" "bt_get (records l') k = Some r'"
  obtains r where "bt_get (records l) k = Some r" "sr_id r' = sr_id r" "sr_operation_id r' = sr_operation_id r"
    "sr_principal r' = sr_principal r" "sr_target_key r' = sr_target_key r"
    "\<not> session_is_terminal (sr_state r') \<Longrightarrow> \<not> session_is_terminal (sr_state r)"
proof -
  obtain r st where "bt_get (records l) k = Some r" "r' = r\<lparr>sr_state := st\<rparr>"
    "session_is_terminal (sr_state r) \<longrightarrow> session_is_terminal st"
    using assms unfolding ledger_shrinks_def by blast
  with that [of r] show thesis by auto
qed

lemma ledger_shrinks_counts:
  assumes "ledger_shrinks l l'"
  shows "bt_len (records l') \<le> bt_len (records l)"
    "active_for_principal l' p \<le> active_for_principal l p" "active_for_realm l' q \<le> active_for_realm l q"
proof -
  have "dom (bt_get (records l')) \<subseteq> dom (bt_get (records l))"
    by (auto elim: ledger_shrinksE [OF assms])
  then show "bt_len (records l') \<le> bt_len (records l)" unfolding bt_len_card by (intro card_mono) simp_all
  show "active_for_principal l' p \<le> active_for_principal l p"
    unfolding active_for_principal_def by (rule bt_count_mono) (auto elim: ledger_shrinksE [OF assms])
  show "active_for_realm l' q \<le> active_for_realm l q"
    unfolding active_for_realm_def by (rule bt_count_mono) (auto elim: ledger_shrinksE [OF assms])
qed

lemma ledger_invD:
  assumes "ledger_inv l"
  shows "bt_get (records l) k = Some r \<Longrightarrow> sr_id r = k"
    "bt_get (records l) j = Some r \<Longrightarrow> bt_get (records l) k = Some r' \<Longrightarrow>
     sr_operation_id r = sr_operation_id r' \<Longrightarrow> sr_principal r = sr_principal r' \<Longrightarrow> j = k"
    "bt_get (records l) j = Some r \<Longrightarrow> bt_get (records l) k = Some r' \<Longrightarrow>
     \<not> session_is_terminal (sr_state r) \<Longrightarrow> \<not> session_is_terminal (sr_state r') \<Longrightarrow>
     sr_target_key r = sr_target_key r' \<Longrightarrow> j = k"
    "bt_len (records l) \<le> max_records (limits l)"
    "active_for_principal l p \<le> max_sessions_per_principal (limits l)"
    "active_for_realm l q \<le> max_sessions_per_realm (limits l)"
  using assms unfolding ledger_inv_def by blast+

lemma ledger_inv_shrinks:
  assumes inv: "ledger_inv l" and shrinks: "ledger_shrinks l l'"
  shows "ledger_inv l'"
  unfolding ledger_inv_def
proof (intro conjI allI impI; (elim conjE)?)
  have lim: "limits l' = limits l" using shrinks by (simp add: ledger_shrinks_def)
  note counts = ledger_shrinks_counts [OF shrinks]
  show "bt_len (records l') \<le> max_records (limits l')"
    unfolding lim by (rule le_trans [OF counts(1) ledger_invD(4) [OF inv]])
  show "active_for_principal l' p \<le> max_sessions_per_principal (limits l')" for p
    unfolding lim by (rule le_trans [OF counts(2) ledger_invD(5) [OF inv]])
  show "active_for_realm l' q \<le> max_sessions_per_realm (limits l')" for q
    unfolding lim by (rule le_trans [OF counts(3) ledger_invD(6) [OF inv]])
  show "sr_id r = k" if "bt_get (records l') k = Some r" for k r
    by (rule ledger_shrinksE [OF shrinks that]) (simp add: ledger_invD(1) [OF inv])
  fix j k r r'
  assume "bt_get (records l') j = Some r" "bt_get (records l') k = Some r'"
  then obtain s s' where s: "bt_get (records l) j = Some s" "bt_get (records l) k = Some s'"
    "sr_operation_id r = sr_operation_id s" "sr_principal r = sr_principal s" "sr_target_key r = sr_target_key s"
    "sr_operation_id r' = sr_operation_id s'" "sr_principal r' = sr_principal s'" "sr_target_key r' = sr_target_key s'"
    "\<not> session_is_terminal (sr_state r) \<longrightarrow> \<not> session_is_terminal (sr_state s)"
    "\<not> session_is_terminal (sr_state r') \<longrightarrow> \<not> session_is_terminal (sr_state s')"
    by (auto elim!: ledger_shrinksE [OF shrinks])
  show "j = k" if "sr_operation_id r = sr_operation_id r'" "sr_principal r = sr_principal r'"
    using that s by (intro ledger_invD(2) [OF inv s(1,2)]) simp_all
  show "j = k" if "\<not> session_is_terminal (sr_state r)" "\<not> session_is_terminal (sr_state r')"
      "sr_target_key r = sr_target_key r'"
    using that s by (intro ledger_invD(3) [OF inv s(1,2)]) simp_all
qed

lemma state_kept [simp]:
  "\<exists>st. r = r\<lparr>sr_state := st\<rparr>" "\<exists>st. r = r\<lparr>sr_state := st\<rparr> \<and> (session_is_terminal (sr_state r) \<longrightarrow> session_is_terminal st)"
  for r :: session_record
  by (rule exI [of _ "sr_state r"], simp)+

lemma ledger_shrinks_gc: "ledger_shrinks l (gc_terminal l)"
  by (auto simp: ledger_shrinks_def gc_terminal_def split: option.splits if_splits)

lemma ledger_shrinks_refl [simp]: "ledger_shrinks l l"
  by (simp add: ledger_shrinks_def)

lemma ledger_shrinks_transition: "ledger_shrinks l (snd (ledger_transition l sid next))"
proof (cases "bt_get (records l) sid")
  case (Some r)
  show ?thesis
  proof (cases "can_transition (sr_state r) next")
    case True
    then have "\<not> session_is_terminal (sr_state r)" using session_lifecycle.terminal_stuck by blast
    with Some True show ?thesis by (auto simp: ledger_transition_def ledger_shrinks_def)
  qed (simp add: ledger_transition_def Some)
qed (simp add: ledger_transition_def)

lemma ledger_shrinks_restart: "ledger_shrinks l (snd (reconcile_restart l))"
proof -
  have "\<exists>st. close_record r = r\<lparr>sr_state := st\<rparr> \<and> (session_is_terminal (sr_state r) \<longrightarrow> session_is_terminal st)" for r
    by (rule exI [of _ "sr_state (close_record r)"]) (simp add: close_record_def)
  then show ?thesis by (auto simp: reconcile_restart_def ledger_shrinks_def)
qed

lemma find_bt_values_None:
  "List.find P (bt_values m) = None \<longleftrightarrow> (\<forall>k v. bt_get m k = Some v \<longrightarrow> \<not> P v)"
  by (auto simp: find_None_iff set_bt_values)

lemma list_ex_bt_values: "list_ex P (bt_values m) \<longleftrightarrow> (\<exists>k v. bt_get m k = Some v \<and> P v)"
  unfolding list_ex_iff Bex_def set_bt_values by blast

text \<open>Admitting a fresh session.\<close>

lemma ledger_inv_admit:
  assumes inv: "ledger_inv l"
    and "\<forall>k r. bt_get (records l) k = Some r \<longrightarrow>
      \<not> (sr_operation_id r = sr_operation_id new \<and> sr_principal r = sr_principal new)"
    and "\<forall>k r. bt_get (records l) k = Some r \<longrightarrow>
      \<not> (sr_target_key r = sr_target_key new \<and> \<not> session_is_terminal (sr_state r))"
    and "bt_len (records l) < max_records (limits l)" "\<not> bt_contains (records l) (sr_id new)"
    and "active_for_principal l (sr_principal new) < max_sessions_per_principal (limits l)"
    and "active_for_realm l (tk_realm (sr_target_key new)) < max_sessions_per_realm (limits l)"
  shows "ledger_inv (l\<lparr>records := bt_insert (sr_id new) new (records l)\<rparr>)"
proof -
  have "active_for_principal (l\<lparr>records := bt_insert (sr_id new) new (records l)\<rparr>) p
      \<le> max_sessions_per_principal (limits l)" for p
    using assms(5,6) ledger_invD(5) [OF inv, of p] by (auto simp: active_for_principal_def bt_count_insert_fresh)
  moreover have "active_for_realm (l\<lparr>records := bt_insert (sr_id new) new (records l)\<rparr>) q
      \<le> max_sessions_per_realm (limits l)" for q
    using assms(5,7) ledger_invD(6) [OF inv, of q] by (auto simp: active_for_realm_def bt_count_insert_fresh)
  moreover have "bt_len (bt_insert (sr_id new) new (records l)) \<le> max_records (limits l)"
    using assms(4,5) by (simp add: bt_len_insert)
  ultimately show ?thesis
    unfolding ledger_inv_def
    by (simp; intro conjI allI impI)
      (use assms(2,3) ledger_invD(1) [OF inv] ledger_invD(2) [OF inv] ledger_invD(3) [OF inv] in metis)+
qed

lemma ledger_inv_open:
  assumes "ledger_inv l"
  shows "ledger_inv (snd (ledger_open l target caller operation hash new_id))"
proof -
  define l' where "l' = (if max_records (limits l) \<le> bt_len (records l) then gc_terminal l else l)"
  have inv': "ledger_inv l'"
    using assms ledger_inv_shrinks [OF assms ledger_shrinks_gc] by (simp add: l'_def)
  have sub: "bt_get (records l) k = Some r" if "bt_get (records l') k = Some r" for k r
    using that by (auto simp: l'_def gc_terminal_def split: if_splits option.splits)
  show ?thesis
  proof (cases "List.find (\<lambda>r. sr_operation_id r = operation \<and> sr_principal r = caller) (bt_values (records l))")
    case None
    then have op: "\<forall>k r. bt_get (records l') k = Some r \<longrightarrow> \<not> (sr_operation_id r = operation \<and> sr_principal r = caller)"
      using sub by (auto simp: find_bt_values_None)
    let ?new = "\<lparr>sr_id = new_id, sr_target_key = target, sr_principal = caller, sr_operation_id = operation,
      sr_request_hash = hash, sr_state = Minting, sr_generation = generation l'\<rparr>"
    have "ledger_inv (l'\<lparr>records := bt_insert new_id ?new (records l')\<rparr>)"
      if "\<not> list_ex (\<lambda>r. sr_target_key r = target \<and> \<not> session_is_terminal (sr_state r)) (bt_values (records l))"
        "\<not> max_records (limits l') \<le> bt_len (records l')" "\<not> bt_contains (records l') new_id"
        "\<not> max_sessions_per_principal (limits l') \<le> active_for_principal l' caller"
        "\<not> max_sessions_per_realm (limits l') \<le> active_for_realm l' (tk_realm target)"
    proof -
      have "\<forall>k r. bt_get (records l') k = Some r \<longrightarrow>
          \<not> (sr_target_key r = target \<and> \<not> session_is_terminal (sr_state r))"
        using that(1) sub unfolding list_ex_bt_values by blast
      with ledger_inv_admit [OF inv', of ?new] op that(2-) show ?thesis by simp
    qed
    with None assms inv' show ?thesis
      by (simp add: ledger_open_def flip: l'_def)
  qed (simp add: ledger_open_def assms)
qed

lemma ledger_inv_apply: "ledger_inv l \<Longrightarrow> ledger_inv (ledger_apply c l)"
  by (cases c) (simp_all add: ledger_inv_open ledger_inv_shrinks [OF _ ledger_shrinks_gc]
      ledger_inv_shrinks [OF _ ledger_shrinks_transition] ledger_inv_shrinks [OF _ ledger_shrinks_restart])

lemma ledger_inv_new: "ledger_inv (ledger_new g lim)"
  by (simp add: ledger_inv_def ledger_new_def active_for_principal_def active_for_realm_def)

lemma ledger_inv_run: "ledger_inv l \<Longrightarrow> ledger_inv (ledger_run calls l)"
  unfolding ledger_run_def by (induction calls arbitrary: l) (simp_all add: ledger_inv_apply)


section \<open>One record through a run\<close>

primrec assigns_id :: "display_session_id \<Rightarrow> ledger_call \<Rightarrow> bool" where
  "assigns_id sid (Ledger_open target caller operation hash new_id) \<longleftrightarrow> new_id = sid"
| "assigns_id sid (Ledger_transition k next) \<longleftrightarrow> False"
| "assigns_id sid Ledger_gc \<longleftrightarrow> False"
| "assigns_id sid Ledger_restart \<longleftrightarrow> False"

lemma ledger_open_get:
  assumes "new_id \<noteq> k"
  shows "bt_get (records (snd (ledger_open l target caller operation hash new_id))) k \<in>
    {bt_get (records l) k, bt_get (records (gc_terminal l)) k}"
  using assms by (auto simp: ledger_open_def Let_def split: option.split)

lemma ledger_apply_get:
  assumes "\<not> assigns_id k c" "bt_get (records (ledger_apply c l)) k = Some r'"
  shows "\<exists>r st. bt_get (records l) k = Some r \<and> r' = r\<lparr>sr_state := st\<rparr>"
proof -
  have shrinks: ?thesis if "ledger_shrinks l l'" "bt_get (records l') k = Some r'" for l'
    using that unfolding ledger_shrinks_def by blast
  show ?thesis
  proof (cases c)
    case (Ledger_open target caller operation hash new_id)
    with assms ledger_open_get [of new_id k l target caller operation hash]
    have "bt_get (records l) k = Some r' \<or> bt_get (records (gc_terminal l)) k = Some r'" by auto
    with shrinks [OF ledger_shrinks_gc] shrinks [OF ledger_shrinks_refl] show ?thesis by blast
  qed (use assms(2) shrinks [OF ledger_shrinks_transition] shrinks [OF ledger_shrinks_gc]
         shrinks [OF ledger_shrinks_restart] in simp_all)
qed

lemma ledger_run_get:
  assumes "list_all (\<lambda>c. \<not> assigns_id k c) calls" "bt_get (records (ledger_run calls l)) k = Some r'"
  shows "\<exists>r st. bt_get (records l) k = Some r \<and> r' = r\<lparr>sr_state := st\<rparr>"
  using assms
proof (induction calls arbitrary: l)
  case Nil
  then show ?case by (simp add: ledger_run_def)
next
  case (Cons c calls)
  have "bt_get (records (ledger_run calls (ledger_apply c l))) k = Some r'" "list_all (\<lambda>c. \<not> assigns_id k c) calls"
    using Cons.prems by (simp_all add: ledger_run_def)
  with Cons.IH obtain r st where "bt_get (records (ledger_apply c l)) k = Some r" "r' = r\<lparr>sr_state := st\<rparr>"
    by blast
  moreover from this(1) Cons.prems obtain r0 st0 where "bt_get (records l) k = Some r0" "r = r0\<lparr>sr_state := st0\<rparr>"
    using ledger_apply_get [of k c l r] by auto
  ultimately show ?case by auto
qed

lemma find_unique:
  assumes "ledger_inv l" "bt_get (records l) k = Some r"
  shows "List.find (\<lambda>x. sr_operation_id x = sr_operation_id r \<and> sr_principal x = sr_principal r)
    (bt_values (records l)) = Some r"
proof -
  let ?P = "\<lambda>x. sr_operation_id x = sr_operation_id r \<and> sr_principal x = sr_principal r"
  have "List.find ?P (bt_values (records l)) \<noteq> None"
    using assms(2) unfolding find_bt_values_None by blast
  then obtain x where x: "List.find ?P (bt_values (records l)) = Some x" by auto
  then have "x \<in> set (bt_values (records l))" "?P x" by (auto simp: find_Some_iff)
  then obtain j where "bt_get (records l) j = Some x" by (auto simp: set_bt_values)
  with ledger_invD(2) [OF assms(1) this assms(2)] \<open>?P x\<close> assms(2) x show ?thesis by simp
qed


lemma ledger_open_accepted:
  assumes "ledger_open l target caller operation hash sid = (Inr (Op_Accepted k), l')"
  shows "k = sid \<and> (\<exists>r. bt_get (records l') sid = Some r \<and> sr_id r = sid \<and> sr_operation_id r = operation \<and>
    sr_principal r = caller \<and> sr_request_hash r = hash \<and> sr_state r = Minting)"
  using assms by (simp add: ledger_open_def Let_def split: option.splits if_splits) (clarify, simp)+


section \<open>Properties\<close>

text \<open>However the ledger is driven, it tracks at most one live session per target, at most one record
  per operation and principal, no more records than configured, and no principal and no realm has
  more live sessions than its quota.\<close>

theorem ledger_invariant: "ledger_inv (ledger_run calls (ledger_new g lim))"
  by (rule ledger_inv_run [OF ledger_inv_new])

text \<open>An accepted open is idempotent while its session is tracked: the same operation of the same
  principal is answered with the original session id if the request hash agrees and as a conflict
  otherwise, whatever happened in between; in both cases nothing changes. Ids are assumed fresh.\<close>

theorem ledger_open_idempotent:
  assumes "ledger_open (ledger_run calls0 (ledger_new g lim)) target caller operation hash sid = (Inr (Op_Accepted sid), l)"
    and "list_all (\<lambda>c. \<not> assigns_id sid c) calls" "ledger_state (ledger_run calls l) sid \<noteq> None"
  shows "ledger_open (ledger_run calls l) target' caller operation hash' sid' =
    (if hash' = hash then Inr (Op_Replay sid) else Inl Gw_Conflict, ledger_run calls l)"
proof -
  let ?l0 = "ledger_run calls0 (ledger_new g lim)"
  have l: "l = snd (ledger_open ?l0 target caller operation hash sid)" using assms(1) by simp
  have "\<exists>r. bt_get (records l) sid = Some r \<and> sr_id r = sid \<and> sr_operation_id r = operation \<and>
      sr_principal r = caller \<and> sr_request_hash r = hash"
    using ledger_open_accepted [OF assms(1)] by blast
  moreover obtain r' where r': "bt_get (records (ledger_run calls l)) sid = Some r'"
    using assms(3) by (auto simp: ledger_state_def)
  moreover have "\<exists>r st. bt_get (records l) sid = Some r \<and> r' = r\<lparr>sr_state := st\<rparr>"
    using ledger_run_get [OF assms(2) r'] .
  ultimately have r: "sr_id r' = sid" "sr_operation_id r' = operation" "sr_principal r' = caller"
    "sr_request_hash r' = hash" by auto
  have "ledger_inv (ledger_run calls l)"
    unfolding l by (intro ledger_inv_run ledger_inv_open ledger_inv_new)
  from find_unique [OF this r'] r show ?thesis by (simp add: ledger_open_def)
qed

definition demo_target :: target_key where
  "demo_target = \<lparr>tk_realm = ''local'', tk_workload = ''vm1''\<rparr>"

lemma ledger_open_idempotent_witness:
  "ledger_open (ledger_run [Ledger_transition ''s1'' ListenerArming]
      (snd (ledger_open (ledger_run [] (ledger_new 1 default_limits)) demo_target ''alice'' ''op1'' 7 ''s1'')))
    demo_target ''alice'' ''op1'' 8 ''s2''
   = (Inl Gw_Conflict, ledger_run [Ledger_transition ''s1'' ListenerArming]
      (snd (ledger_open (ledger_run [] (ledger_new 1 default_limits)) demo_target ''alice'' ''op1'' 7 ''s1'')))"
proof -
  let ?o = "ledger_open (ledger_run [] (ledger_new 1 default_limits)) demo_target ''alice'' ''op1'' 7 ''s1''"
  have "fst ?o = Inr (Op_Accepted ''s1'')" by code_simp
  then have "?o = (Inr (Op_Accepted ''s1''), snd ?o)" by (simp add: prod_eq_iff)
  moreover have "ledger_state (ledger_run [Ledger_transition ''s1'' ListenerArming] (snd ?o)) ''s1'' \<noteq> None" by code_simp
  ultimately show ?thesis
    using ledger_open_idempotent [of "[]" 1 default_limits demo_target "''alice''" "''op1''" 7 "''s1''" "snd ?o"
        "[Ledger_transition ''s1'' ListenerArming]" demo_target 8 "''s2''"] by simp
qed

text \<open>Every session that has not failed can still be brought to the closed state, and one that is
  stopping can reach no other state than closed: teardown is never blocked and never undone.\<close>

theorem sessions_closable:
  "(can_transition\<^sup>*\<^sup>* s Closed_State \<longleftrightarrow> s \<noteq> Failed_State) \<and>
   {t. can_transition\<^sup>+\<^sup>+ Stopping t} = {Closed_State}"
proof
  have step: "can_transition Stopping t \<longleftrightarrow> t = Closed_State" for t by (auto simp: can_transition_def)
  have "can_transition\<^sup>*\<^sup>* s Closed_State" if "s \<noteq> Failed_State"
  proof (cases "s = Closed_State \<or> s = Stopping")
    case False
    with that have "can_transition s Stopping" by (cases s) (simp_all add: can_transition_def)
    moreover have "can_transition Stopping Closed_State" by (simp add: step)
    ultimately show ?thesis by (auto intro: converse_rtranclp_into_rtranclp)
  qed (use step in auto)
  moreover have "t = Failed_State" if "can_transition\<^sup>*\<^sup>* Failed_State t" for t
    using session_lifecycle.terminal_final [OF that] by (simp add: session_is_terminal_def)
  ultimately show "can_transition\<^sup>*\<^sup>* s Closed_State \<longleftrightarrow> s \<noteq> Failed_State" by auto
  have "t = Closed_State" if "can_transition\<^sup>+\<^sup>+ Stopping t" for t
    using that
  proof (induction rule: tranclp_induct)
    case (step y z)
    then show ?case by (simp add: can_transition_def)
  qed (simp add: step)
  then show "{t. can_transition\<^sup>+\<^sup>+ Stopping t} = {Closed_State}" using step by auto
qed

end
