(* ===== verification/Digits.thy ===== *)
theory Digits
  imports Prelude
begin

text \<open>
  Numbers as bytes: the fixed-width encodings \<open>to_be_bytes\<close> and \<open>to_le_bytes\<close> and the decimal digits that
  \<open>Display\<close> prints, with their injectivity. Used by the gateway's credential encoding and by the ids
  the allocator generates.
\<close>

section \<open>Encodings\<close>

text \<open>The \<open>k\<close> low bytes of a number, least significant first; \<open>to_be_bytes\<close> is the reverse.\<close>

primrec le_bytes :: "nat \<Rightarrow> nat \<Rightarrow> string" where
  "le_bytes 0 n = []"
| "le_bytes (Suc k) n = char_of n # le_bytes k (n div 256)"

definition be_bytes :: "nat \<Rightarrow> nat \<Rightarrow> string" where
  "be_bytes k n = rev (le_bytes k n)"

text \<open>Decimal digits, as \<open>Display\<close> prints an unsigned integer.\<close>

fun decimal :: "nat \<Rightarrow> string" where
  "decimal n = (if n < 10 then [char_of (48 + n)] else decimal (n div 10) @ [char_of (48 + n mod 10)])"

declare decimal.simps [simp del]

lemma length_le_bytes [simp]: "length (le_bytes k n) = k"
  by (induction k arbitrary: n) simp_all

lemma length_be_bytes [simp]: "length (be_bytes k n) = k"
  by (simp add: be_bytes_def)

lemma le_bytes_inject: "m < 256 ^ k \<Longrightarrow> n < 256 ^ k \<Longrightarrow> le_bytes k m = le_bytes k n \<longleftrightarrow> m = n"
proof (induction k arbitrary: m n)
  case (Suc k)
  have "m div 256 < 256 ^ k" "n div 256 < 256 ^ k"
    using Suc.prems by (simp_all add: less_mult_imp_div_less mult.commute)
  with Suc.IH have "le_bytes (Suc k) m = le_bytes (Suc k) n \<longleftrightarrow> m mod 256 = n mod 256 \<and> m div 256 = n div 256"
    by (simp add: char_of_eq_iff take_bit_eq_mod)
  then show ?case by (metis div_mult_mod_eq)
qed simp

lemma be_bytes_inject: "m < 256 ^ k \<Longrightarrow> n < 256 ^ k \<Longrightarrow> be_bytes k m = be_bytes k n \<longleftrightarrow> m = n"
  by (simp add: be_bytes_def le_bytes_inject)

lemma of_char_digit: "d < 10 \<Longrightarrow> (of_char (char_of (48 + d) :: char) :: nat) = 48 + d"
  by (simp add: take_bit_eq_mod)

lemma decimal_digits: "c \<in> set (decimal n) \<Longrightarrow> 48 \<le> (of_char c :: nat) \<and> (of_char c :: nat) < 58"
proof (induction n rule: decimal.induct)
  case (1 n)
  show ?case
  proof (cases "n < 10")
    case True
    then have "c = char_of (48 + n)" using "1.prems" by (simp add: decimal.simps [of n])
    with True of_char_digit [OF True] show ?thesis by simp
  next
    case False
    then have "c \<in> set (decimal (n div 10)) \<or> c = char_of (48 + n mod 10)"
      using "1.prems" by (auto simp: decimal.simps [of n])
    with False "1.IH" of_char_digit [of "n mod 10"] show ?thesis by auto
  qed
qed

lemma decimal_inject: "decimal m = decimal n \<longleftrightarrow> m = n"
proof
  show "m = n" if "decimal m = decimal n"
    using that
  proof (induction m arbitrary: n rule: decimal.induct)
    case (1 m)
    have digit: "d = e" if "d < 10" "e < 10" "(char_of (48 + d) :: char) = char_of (48 + e)" for d e :: nat
      using of_char_digit [OF that(1)] of_char_digit [OF that(2)] that(3) by simp
    have nonempty: "decimal k \<noteq> []" for k by (subst decimal.simps) simp
    consider "m < 10" "n < 10" | "\<not> m < 10" "\<not> n < 10"
      using "1.prems" nonempty by (metis append_is_Nil_conv decimal.simps append_eq_Cons_conv list.distinct(1))
    then show ?case
    proof cases
      case 1
      with "1.prems" digit [of m n] show ?thesis by (simp add: decimal.simps [of m] decimal.simps [of n])
    next
      case 2
      with "1.prems" have "decimal (m div 10) = decimal (n div 10)"
        and "(char_of (48 + m mod 10) :: char) = char_of (48 + n mod 10)"
        by (simp_all add: decimal.simps [of m] decimal.simps [of n])
      with 2 "1.IH" digit [of "m mod 10" "n mod 10"] have "m div 10 = n div 10" "m mod 10 = n mod 10" by simp_all
      then show ?thesis by (metis div_mult_mod_eq)
    qed
  qed
qed simp

lemma decimal_nonempty [simp]: "decimal n \<noteq> []"
  by (subst decimal.simps) simp

lemma length_decimal: "n < 10 ^ k \<Longrightarrow> 0 < k \<Longrightarrow> length (decimal n) \<le> k"
proof (induction n arbitrary: k rule: decimal.induct)
  case (1 n)
  show ?case
  proof (cases "n < 10")
    case False
    with "1.prems" obtain j where k: "k = Suc j" "0 < j" by (cases k; cases "k - 1") auto
    with "1.prems" have "n div 10 < 10 ^ j" by (simp add: less_mult_imp_div_less mult.commute)
    with "1.IH" False k show ?thesis by (simp add: decimal.simps [of n])
  qed (use "1.prems" in \<open>simp add: decimal.simps [of n]\<close>)
qed

end
