(* ===== verification/Gateway_Handshake.thy ===== *)
theory Gateway_Handshake
  imports Gateway_Ledger Digits
begin

text \<open>
  The per-session display credential \<open>d2b-gateway/src/handshake.rs\<close>: the binding the MAC covers, its
  canonical encoding, verification, and the one-shot replay guard.

  HMAC-SHA256 (crates \<open>hmac\<close>, \<open>sha2\<close>) and the JSON decoder (\<open>serde_json\<close>) are third-party code: the
  definitions take \<open>hmac\<close>, from a key and a message to a tag, and \<open>decode\<close>, from a frame to a handshake,
  as arguments. Nothing is assumed of them.
\<close>

section \<open>Bindings\<close>

record session_binding =
  sb_realm :: string
  sb_generation :: u64
  sb_session_id :: string
  sb_epoch :: u64
  sb_operation_id :: string
  sb_principal :: string
  sb_workload :: string
  sb_not_after :: u64

record display_handshake =
  dh_binding :: session_binding
  dh_mac :: string

definition binding_new ::
    "realm_path \<Rightarrow> u64 \<Rightarrow> display_session_id \<Rightarrow> u64 \<Rightarrow> operation_id \<Rightarrow> principal_id \<Rightarrow> workload_id \<Rightarrow> u64 \<Rightarrow>
     session_binding" where
  "binding_new realm gen sid epoch operation caller workload not_after =
     \<lparr>sb_realm = target_form realm, sb_generation = gen, sb_session_id = sid, sb_epoch = epoch,
      sb_operation_id = operation, sb_principal = caller, sb_workload = workload, sb_not_after = not_after\<rparr>"

definition binding_replay_key :: "session_binding \<Rightarrow> string" where
  "binding_replay_key b = sb_session_id b @ CHR '':'' # decimal (unat (sb_epoch b))"

text \<open>\<open>put\<close>: the length as a big-endian \<open>u32\<close> (the cast wraps), then the bytes.\<close>

definition put_field :: "string \<Rightarrow> string" where
  "put_field field = be_bytes 4 (length field) @ field"

definition canonical :: "session_binding \<Rightarrow> string" where
  "canonical b =
     put_field ''d2b-display-session-v1'' @ put_field (sb_realm b) @
     put_field (be_bytes 8 (unat (sb_generation b))) @ put_field (sb_session_id b) @
     put_field (be_bytes 8 (unat (sb_epoch b))) @ put_field (sb_operation_id b) @
     put_field (sb_principal b) @ put_field (sb_workload b) @ put_field (be_bytes 8 (unat (sb_not_after b)))"

definition binding_mac :: "(string \<Rightarrow> string \<Rightarrow> string) \<Rightarrow> session_binding \<Rightarrow> string \<Rightarrow> string" where
  "binding_mac hmac b secret = hmac secret (canonical b)"

definition handshake_sign ::
    "(string \<Rightarrow> string \<Rightarrow> string) \<Rightarrow> session_binding \<Rightarrow> string \<Rightarrow> display_handshake" where
  "handshake_sign hmac b secret = \<lparr>dh_binding = b, dh_mac = binding_mac hmac b secret\<rparr>"

text \<open>\<open>SetReplayGuard::claim\<close>\<close>

definition claim :: "string btset \<Rightarrow> string \<Rightarrow> bool \<times> string btset" where
  "claim seen key = (\<not> bt_contains seen key, bt_insert key () seen)"

definition handshake_verify ::
    "(string \<Rightarrow> string \<Rightarrow> string) \<Rightarrow> display_handshake \<Rightarrow> string \<Rightarrow> session_binding \<Rightarrow> u64 \<Rightarrow> u64 \<Rightarrow> string btset \<Rightarrow>
     (handshake_error + unit) \<times> string btset" where
  "handshake_verify hmac hs secret expected current_generation now seen =
     (let b = dh_binding hs in
      if hmac secret (canonical b) \<noteq> dh_mac hs then (Inl Hs_BadMac, seen)
      else if sb_generation b \<noteq> current_generation then (Inl Hs_StaleGeneration, seen)
      else if sb_not_after b \<le> now then (Inl Hs_Expired, seen)
      else if sb_realm b \<noteq> sb_realm expected \<or> sb_session_id b \<noteq> sb_session_id expected \<or>
              sb_epoch b \<noteq> sb_epoch expected \<or> sb_operation_id b \<noteq> sb_operation_id expected \<or>
              sb_principal b \<noteq> sb_principal expected \<or> sb_workload b \<noteq> sb_workload expected \<or>
              sb_not_after b \<noteq> sb_not_after expected \<or> sb_generation b \<noteq> sb_generation expected
      then (Inl Hs_BindingMismatch, seen)
      else case claim seen (binding_replay_key b) of
        (True, seen') \<Rightarrow> (Inr (), seen')
      | (False, seen') \<Rightarrow> (Inl Hs_Replay, seen'))"

definition verify_handshake_frame ::
    "(string \<Rightarrow> string \<Rightarrow> string) \<Rightarrow> (string \<Rightarrow> display_handshake option) \<Rightarrow> string \<Rightarrow> string \<Rightarrow> session_binding \<Rightarrow>
     u64 \<Rightarrow> u64 \<Rightarrow> string btset \<Rightarrow> (handshake_error + unit) \<times> string btset" where
  "verify_handshake_frame hmac decode frame secret expected current_generation now seen =
     (case decode frame of
        None \<Rightarrow> (Inl Hs_Malformed, seen)
      | Some hs \<Rightarrow> handshake_verify hmac hs secret expected current_generation now seen)"

definition encode_handshake_frame :: "(display_handshake \<Rightarrow> string) \<Rightarrow> display_handshake \<Rightarrow> string" where
  "encode_handshake_frame encode hs = be_bytes 4 (length (encode hs)) @ encode hs"


section \<open>Injectivity\<close>

lemma put_field_inject:
  assumes "length v < 2 ^ 32" "length w < 2 ^ 32"
  shows "put_field v @ xs = put_field w @ ys \<longleftrightarrow> v = w \<and> xs = ys"
proof
  assume "put_field v @ xs = put_field w @ ys"
  then have "be_bytes 4 (length v) = be_bytes 4 (length w)" "v @ xs = w @ ys"
    by (simp_all add: put_field_def append_eq_append_conv)
  moreover from this(1) have "length v = length w"
    using assms be_bytes_inject [of "length v" 4 "length w"] by simp
  ultimately show "v = w \<and> xs = ys" by simp
qed simp

lemma put_u64_inject:
  "put_field (be_bytes 8 (unat a)) @ xs = put_field (be_bytes 8 (unat b)) @ ys \<longleftrightarrow> a = b \<and> xs = ys"
  for a b :: u64
proof -
  have bound: "unat c < 256 ^ 8" for c :: u64
    by (rule less_le_trans [OF unsigned_less]) simp
  have "put_field (be_bytes 8 (unat a)) @ xs = put_field (be_bytes 8 (unat b)) @ ys \<longleftrightarrow>
      be_bytes 8 (unat a) = be_bytes 8 (unat b) \<and> xs = ys"
    by (rule put_field_inject) simp_all
  then show ?thesis by (simp add: be_bytes_inject [OF bound bound] flip: word_unat_eq_iff)
qed

definition binding_bounded :: "session_binding \<Rightarrow> bool" where
  "binding_bounded b \<longleftrightarrow>
     length (sb_realm b) < 2 ^ 32 \<and> length (sb_session_id b) < 2 ^ 32 \<and> length (sb_operation_id b) < 2 ^ 32 \<and>
     length (sb_principal b) < 2 ^ 32 \<and> length (sb_workload b) < 2 ^ 32"

lemma replay_key_inject:
  "binding_replay_key a = binding_replay_key b \<longleftrightarrow> sb_session_id a = sb_session_id b \<and> sb_epoch a = sb_epoch b"
proof
  assume eq: "binding_replay_key a = binding_replay_key b"
  have no_colon: "CHR '':'' \<notin> set (rev (decimal n))" for n
    using decimal_digits [of "CHR '':''" n] by auto
  have "rev (decimal (unat (sb_epoch a))) @ CHR '':'' # rev (sb_session_id a) =
      rev (decimal (unat (sb_epoch b))) @ CHR '':'' # rev (sb_session_id b)"
    using arg_cong [OF eq, of rev] by (simp add: binding_replay_key_def)
  then have "rev (decimal (unat (sb_epoch a))) = rev (decimal (unat (sb_epoch b)))"
    "rev (sb_session_id a) = rev (sb_session_id b)"
    using split_at_separator [OF no_colon no_colon] by blast+
  then show "sb_session_id a = sb_session_id b \<and> sb_epoch a = sb_epoch b"
    by (simp add: decimal_inject flip: word_unat_eq_iff)
qed (simp add: binding_replay_key_def)


lemma binding_eqI:
  "a = b \<longleftrightarrow> sb_realm a = sb_realm b \<and> sb_session_id a = sb_session_id b \<and> sb_epoch a = sb_epoch b \<and>
     sb_operation_id a = sb_operation_id b \<and> sb_principal a = sb_principal b \<and> sb_workload a = sb_workload b \<and>
     sb_not_after a = sb_not_after b \<and> sb_generation a = sb_generation b" for a b :: session_binding
  by auto

lemma claim_eq: "claim seen key = (\<not> bt_contains seen key, if bt_contains seen key then seen else bt_insert key () seen)"
  by (auto simp: claim_def bt_contains_def intro: bt_insert_same)

lemma handshake_verify_cases:
  "handshake_verify hmac hs secret expected gen now seen =
     (if dh_binding hs = expected \<and> dh_mac hs = hmac secret (canonical expected) \<and> sb_generation expected = gen \<and>
         now < sb_not_after expected \<and> \<not> bt_contains seen (binding_replay_key expected)
      then (Inr (), bt_insert (binding_replay_key expected) () seen)
      else (Inl (if hmac secret (canonical (dh_binding hs)) \<noteq> dh_mac hs then Hs_BadMac
                 else if sb_generation (dh_binding hs) \<noteq> gen then Hs_StaleGeneration
                 else if sb_not_after (dh_binding hs) \<le> now then Hs_Expired
                 else if dh_binding hs \<noteq> expected then Hs_BindingMismatch else Hs_Replay), seen))"
proof -
  let ?b = "dh_binding hs"
  have mismatch: "(sb_realm ?b \<noteq> sb_realm expected \<or> sb_session_id ?b \<noteq> sb_session_id expected \<or>
      sb_epoch ?b \<noteq> sb_epoch expected \<or> sb_operation_id ?b \<noteq> sb_operation_id expected \<or>
      sb_principal ?b \<noteq> sb_principal expected \<or> sb_workload ?b \<noteq> sb_workload expected \<or>
      sb_not_after ?b \<noteq> sb_not_after expected \<or> sb_generation ?b \<noteq> sb_generation expected) \<longleftrightarrow> ?b \<noteq> expected"
    unfolding binding_eqI by blast
  show ?thesis
    unfolding handshake_verify_def Let_def mismatch claim_eq by (auto simp: not_less)
qed


section \<open>Properties\<close>

text \<open>The bytes under the session MAC determine the binding: no field can be shifted into another.\<close>

theorem canonical_identifies:
  assumes "binding_bounded a" "binding_bounded b"
  shows "canonical a = canonical b \<longleftrightarrow> a = b"
proof -
  have last: "put_field (be_bytes 8 (unat m)) = put_field (be_bytes 8 (unat n)) \<longleftrightarrow> m = n" for m n :: u64
    using put_u64_inject [of m "[]" n "[]"] by simp
  have "canonical a = canonical b \<longleftrightarrow>
      sb_realm a = sb_realm b \<and> sb_generation a = sb_generation b \<and> sb_session_id a = sb_session_id b \<and>
      sb_epoch a = sb_epoch b \<and> sb_operation_id a = sb_operation_id b \<and> sb_principal a = sb_principal b \<and>
      sb_workload a = sb_workload b \<and> sb_not_after a = sb_not_after b"
    using assms unfolding canonical_def binding_bounded_def
    by (simp only: same_append_eq put_field_inject put_u64_inject last)
  then show ?thesis unfolding binding_eqI by blast
qed

definition demo_binding :: session_binding where
  "demo_binding = binding_new local 1 ''s1'' 0 ''op1'' ''alice'' ''vm1'' 100"

lemma canonical_identifies_witness:
  "canonical demo_binding \<noteq> canonical (demo_binding\<lparr>sb_epoch := 1\<rparr>)"
proof -
  have "binding_bounded demo_binding" "binding_bounded (demo_binding\<lparr>sb_epoch := 1\<rparr>)"
    using length_forms(1) [of local]
    by (simp_all add: binding_bounded_def demo_binding_def binding_new_def MAX_REALM_PATH_BYTES_def)
  from canonical_identifies [OF this] show ?thesis by (simp add: demo_binding_def binding_new_def)
qed

text \<open>Display bytes are admitted exactly when the handshake carries the authorized binding and its MAC
  under the session secret, the binding belongs to the gateway's current generation and has not
  expired, and its session and epoch were not claimed before; a refused attempt does not use up
  the credential.\<close>

theorem handshake_admission_exact:
  "(is_ok (fst (handshake_verify hmac hs secret expected gen now seen)) \<longleftrightarrow>
      hs = handshake_sign hmac expected secret \<and> sb_generation expected = gen \<and> now < sb_not_after expected \<and>
      \<not> bt_contains seen (binding_replay_key expected)) \<and>
   (if is_ok (fst (handshake_verify hmac hs secret expected gen now seen))
    then snd (handshake_verify hmac hs secret expected gen now seen) = bt_insert (binding_replay_key expected) () seen
    else snd (handshake_verify hmac hs secret expected gen now seen) = seen)"
  by (cases hs) (auto simp: handshake_verify_cases handshake_sign_def binding_mac_def)

text \<open>The bindings of the handshakes that a sequence of attempts gets admitted.\<close>

primrec admitted ::
    "(string \<Rightarrow> string \<Rightarrow> string) \<Rightarrow> (display_handshake \<times> string \<times> session_binding \<times> u64 \<times> u64) list \<Rightarrow> string btset \<Rightarrow>
     session_binding list" where
  "admitted hmac [] seen = []"
| "admitted hmac (attempt # rest) seen =
     (case attempt of (hs, secret, expected, gen, now) \<Rightarrow>
       (case handshake_verify hmac hs secret expected gen now seen of
          (Inr _, seen') \<Rightarrow> dh_binding hs # admitted hmac rest seen'
        | (Inl _, seen') \<Rightarrow> admitted hmac rest seen'))"

lemma admitted_fresh:
  "distinct (map binding_replay_key (admitted hmac attempts seen)) \<and>
   (\<forall>b \<in> set (admitted hmac attempts seen). \<not> bt_contains seen (binding_replay_key b))"
proof (induction attempts arbitrary: seen)
  case (Cons attempt rest)
  obtain hs secret expected gen now where a: "attempt = (hs, secret, expected, gen, now)" by (cases attempt)
  show ?case
  proof (cases "is_ok (fst (handshake_verify hmac hs secret expected gen now seen))")
    case True
    then have "handshake_verify hmac hs secret expected gen now seen = (Inr (), bt_insert (binding_replay_key expected) () seen)"
      "dh_binding hs = expected" "\<not> bt_contains seen (binding_replay_key expected)"
      by (auto simp: handshake_verify_cases split: if_splits)
    with a Cons.IH [of "bt_insert (binding_replay_key expected) () seen"] show ?thesis by auto
  next
    case False
    then obtain err where "handshake_verify hmac hs secret expected gen now seen = (Inl err, seen)"
      by (auto simp: handshake_verify_cases split: if_splits)
    with a Cons.IH [of seen] show ?thesis by simp
  qed
qed simp

text \<open>The guard afterwards holds exactly the keys of what was admitted.\<close>

lemma admitted_append:
  "\<exists>seen'. (\<forall>k. bt_contains seen' k \<longleftrightarrow> bt_contains seen k \<or> k \<in> binding_replay_key ` set (admitted hmac attempts seen)) \<and>
     (\<forall>rest. admitted hmac (attempts @ rest) seen = admitted hmac attempts seen @ admitted hmac rest seen')"
proof (induction attempts arbitrary: seen)
  case Nil
  then show ?case by (intro exI [of _ seen]) simp
next
  case (Cons attempt attempts)
  obtain hs secret expected gen now where a: "attempt = (hs, secret, expected, gen, now)" by (cases attempt)
  show ?case
  proof (cases "is_ok (fst (handshake_verify hmac hs secret expected gen now seen))")
    case True
    then have v: "handshake_verify hmac hs secret expected gen now seen = (Inr (), bt_insert (binding_replay_key expected) () seen)"
      "dh_binding hs = expected"
      by (auto simp: handshake_verify_cases split: if_splits)
    obtain seen' where "\<forall>k. bt_contains seen' k \<longleftrightarrow> bt_contains (bt_insert (binding_replay_key expected) () seen) k \<or>
        k \<in> binding_replay_key ` set (admitted hmac attempts (bt_insert (binding_replay_key expected) () seen))"
      "\<forall>rest. admitted hmac (attempts @ rest) (bt_insert (binding_replay_key expected) () seen) =
        admitted hmac attempts (bt_insert (binding_replay_key expected) () seen) @ admitted hmac rest seen'"
      using Cons.IH [of "bt_insert (binding_replay_key expected) () seen"] by blast
    with a v show ?thesis by (intro exI [of _ seen']) auto
  next
    case False
    then obtain err where "handshake_verify hmac hs secret expected gen now seen = (Inl err, seen)"
      by (auto simp: handshake_verify_cases split: if_splits)
    with a Cons.IH [of seen] show ?thesis by simp
  qed
qed

text \<open>C33. A credential admits one stream: however many handshakes arrive, for whatever sessions, secrets and
  times, no two that are admitted share their session id and epoch, and a signed handshake for a
  session and epoch that none of them used is still admitted afterwards while it is valid.\<close>

theorem credential_one_shot:
  "let used = map (\<lambda>b. (sb_session_id b, sb_epoch b)) (admitted hmac attempts bt_empty) in
   distinct used \<and>
   (now < sb_not_after b \<and> (sb_session_id b, sb_epoch b) \<notin> set used \<longrightarrow>
      admitted hmac (attempts @ [(handshake_sign hmac b secret, secret, b, sb_generation b, now)]) bt_empty =
      admitted hmac attempts bt_empty @ [b])"
proof -
  let ?key = "\<lambda>b. (sb_session_id b, sb_epoch b)" and ?bs = "admitted hmac attempts bt_empty"
  have key: "?key x = ?key y \<longleftrightarrow> binding_replay_key x = binding_replay_key y" for x y by (simp add: replay_key_inject)
  have "distinct (map binding_replay_key ?bs)" using admitted_fresh [of hmac attempts bt_empty] by simp
  then have "distinct (map ?key ?bs)" unfolding distinct_map inj_on_def key .
  moreover have "admitted hmac (attempts @ [(handshake_sign hmac b secret, secret, b, sb_generation b, now)]) bt_empty =
      ?bs @ [b]" if "now < sb_not_after b" "?key b \<notin> ?key ` set ?bs"
  proof -
    obtain seen' where seen': "\<forall>k. bt_contains seen' k \<longleftrightarrow> k \<in> binding_replay_key ` set ?bs"
      "\<forall>rest. admitted hmac (attempts @ rest) bt_empty = ?bs @ admitted hmac rest seen'"
      using admitted_append [of bt_empty hmac attempts] by auto
    have "\<not> bt_contains seen' (binding_replay_key b)" using that(2) seen'(1) unfolding image_iff key by simp
    with that(1) seen'(2) show ?thesis
      by (simp add: handshake_verify_cases handshake_sign_def binding_mac_def)
  qed
  ultimately show ?thesis by (simp add: Let_def)
qed

lemma credential_one_shot_witness:
  "admitted (@) ([(handshake_sign (@) demo_binding ''k'', ''k'', demo_binding, 1, 5)] @
      [(handshake_sign (@) (demo_binding\<lparr>sb_epoch := 1\<rparr>) ''k'', ''k'', demo_binding\<lparr>sb_epoch := 1\<rparr>,
        sb_generation (demo_binding\<lparr>sb_epoch := 1\<rparr>), 6)]) bt_empty =
   admitted (@) [(handshake_sign (@) demo_binding ''k'', ''k'', demo_binding, 1, 5)] bt_empty @
     [demo_binding\<lparr>sb_epoch := 1\<rparr>]"
proof -
  have "map (\<lambda>b. (sb_session_id b, sb_epoch b))
      (admitted (@) [(handshake_sign (@) demo_binding ''k'', ''k'', demo_binding, 1, 5)] bt_empty) = [(''s1'', 0)]"
    by (simp add: handshake_verify_cases handshake_sign_def binding_mac_def) (simp add: demo_binding_def binding_new_def)
  moreover have "sb_session_id (demo_binding\<lparr>sb_epoch := 1\<rparr>) = ''s1''" "6 < sb_not_after (demo_binding\<lparr>sb_epoch := 1\<rparr>)"
    by (simp_all add: demo_binding_def binding_new_def)
  ultimately show ?thesis
    using credential_one_shot [of "(@)" "[(handshake_sign (@) demo_binding ''k'', ''k'', demo_binding, 1, 5)]" 6
        "demo_binding\<lparr>sb_epoch := 1\<rparr>" "''k''"] unfolding Let_def by simp
qed

end
