(* ===== verification/Audit_Records.thy ===== *)
theory Audit_Records
  imports Frames
begin

text \<open>
  Audit metadata of \<open>d2b-realm-core/src/audit.rs\<close>: hash markers, chain links and their verification,
  sink health, the decoders of authorization scopes and admission records, and the post-auth
  envelope. The hashes themselves are computed elsewhere; \<open>verify\<close> compares with recomputed ones.
\<close>

section \<open>Hash chain\<close>

datatype audit_stream_kind = Audit_Gateway | Audit_RemoteNode | Audit_Daemon

datatype audit_hash_error = AuditHash_Empty | AuditHash_BadShape

type_synonym audit_hash = string

definition AUDIT_HASH_PREFIX :: string where
  "AUDIT_HASH_PREFIX = ''sha256:''"

definition AUDIT_HASH_HEX_LEN :: nat where
  "AUDIT_HASH_HEX_LEN = 64"

definition is_lower_hex :: "char \<Rightarrow> bool" where
  "is_lower_hex c \<longleftrightarrow> is_ascii_digit c \<or> c \<in> set ''abcdef''"

definition audit_hash_parse :: "string \<Rightarrow> audit_hash_error + audit_hash" where
  "audit_hash_parse raw =
     (if raw = [] then Inl AuditHash_Empty
      else if take (length AUDIT_HASH_PREFIX) raw \<noteq> AUDIT_HASH_PREFIX then Inl AuditHash_BadShape
      else let hex = drop (length AUDIT_HASH_PREFIX) raw in
        if length hex \<noteq> AUDIT_HASH_HEX_LEN \<or> \<not> list_all is_lower_hex hex then Inl AuditHash_BadShape
        else Inr raw)"

record audit_chain_link =
  link_sequence :: u64
  link_previous_hash :: audit_hash
  link_payload_hash :: audit_hash
  link_record_hash :: audit_hash

record audit_chain_record =
  acr_stream :: audit_stream_kind
  acr_realm :: realm_path
  acr_node :: node_id
  acr_operation_id :: operation_id
  acr_link :: audit_chain_link

datatype audit_chain_check_failure = PreviousHashMismatch | PayloadHashMismatch | RecordHashMismatch

datatype audit_chain_check_result = Chain_Verified | Chain_Failed audit_chain_check_failure

definition link_verify ::
    "audit_chain_link \<Rightarrow> audit_hash \<Rightarrow> audit_hash \<Rightarrow> audit_hash \<Rightarrow> audit_chain_check_result" where
  "link_verify l previous payload record =
     (if link_previous_hash l \<noteq> previous then Chain_Failed PreviousHashMismatch
      else if link_payload_hash l \<noteq> payload then Chain_Failed PayloadHashMismatch
      else if link_record_hash l \<noteq> record then Chain_Failed RecordHashMismatch
      else Chain_Verified)"

definition chain_record_verify ::
    "audit_chain_record \<Rightarrow> audit_hash \<Rightarrow> audit_hash \<Rightarrow> audit_hash \<Rightarrow> audit_chain_check_result" where
  "chain_record_verify r = link_verify (acr_link r)"

primrec chain_is_fail_closed :: "audit_chain_check_result \<Rightarrow> bool" where
  "chain_is_fail_closed Chain_Verified = False"
| "chain_is_fail_closed (Chain_Failed failure) = True"

lemma link_verify_iff:
  "link_verify l previous payload rec = Chain_Verified \<longleftrightarrow>
     link_previous_hash l = previous \<and> link_payload_hash l = payload \<and> link_record_hash l = rec"
  by (simp add: link_verify_def)


section \<open>Sink health\<close>

datatype audit_retention_floor_reason = WindowBelowFloor | EvidenceMissing | Floor_SinkUnavailable

datatype audit_retention_floor_status =
    Floor_Met | Floor_BelowFloor audit_retention_floor_reason | Floor_Unknown audit_retention_floor_reason

definition floor_is_fail_closed :: "audit_retention_floor_status \<Rightarrow> bool" where
  "floor_is_fail_closed s \<longleftrightarrow> s \<noteq> Floor_Met"

datatype audit_sink_health_reason =
    Sink_Backpressure | Sink_ChainVerificationFailed | Sink_Missing | Sink_Unavailable_Reason | Sink_WriteFailed

datatype audit_sink_health =
    Sink_Ok audit_stream_kind audit_retention_floor_status
  | Sink_Degraded audit_stream_kind audit_sink_health_reason audit_retention_floor_status
  | Sink_Unavailable audit_stream_kind audit_sink_health_reason audit_retention_floor_status

primrec sink_retention_floor :: "audit_sink_health \<Rightarrow> audit_retention_floor_status" where
  "sink_retention_floor (Sink_Ok stream fl) = fl"
| "sink_retention_floor (Sink_Degraded stream reason fl) = fl"
| "sink_retention_floor (Sink_Unavailable stream reason fl) = fl"

primrec sink_is_degraded :: "audit_sink_health \<Rightarrow> bool" where
  "sink_is_degraded (Sink_Ok stream fl) = False"
| "sink_is_degraded (Sink_Degraded stream reason fl) = True"
| "sink_is_degraded (Sink_Unavailable stream reason fl) = True"

definition sink_is_fail_closed :: "audit_sink_health \<Rightarrow> bool" where
  "sink_is_fail_closed h \<longleftrightarrow>
     (case h of Sink_Unavailable _ _ _ \<Rightarrow> True | _ \<Rightarrow> False) \<or>
     floor_is_fail_closed (sink_retention_floor h) \<or>
     (case h of Sink_Degraded _ reason _ \<Rightarrow> reason = Sink_ChainVerificationFailed | _ \<Rightarrow> False)"


section \<open>Scopes and records\<close>

datatype scope_tag =
    Tag_Capability | Tag_NodeControl | Tag_Enrollment | Tag_KeyRotation | Tag_Revocation | Tag_Recovery | Tag_Health

definition reject_scope_capability :: "capability option \<Rightarrow> authorization_scope \<Rightarrow> authorization_scope option" where
  "reject_scope_capability cap scope = (if cap \<noteq> None then None else Some scope)"

primrec decode_scope :: "scope_tag \<Rightarrow> capability option \<Rightarrow> authorization_scope option" where
  "decode_scope Tag_Capability cap = map_option Scope_Capability cap"
| "decode_scope Tag_NodeControl cap = reject_scope_capability cap Scope_NodeControl"
| "decode_scope Tag_Enrollment cap = reject_scope_capability cap Scope_Enrollment"
| "decode_scope Tag_KeyRotation cap = reject_scope_capability cap Scope_KeyRotation"
| "decode_scope Tag_Revocation cap = reject_scope_capability cap Scope_Revocation"
| "decode_scope Tag_Recovery cap = reject_scope_capability cap Scope_Recovery"
| "decode_scope Tag_Health cap = reject_scope_capability cap Scope_Health"

text \<open>The serialized form of a scope: its tag and, for a capability scope, the capability.\<close>

primrec encode_scope :: "authorization_scope \<Rightarrow> scope_tag \<times> capability option" where
  "encode_scope (Scope_Capability cap) = (Tag_Capability, Some cap)"
| "encode_scope Scope_NodeControl = (Tag_NodeControl, None)"
| "encode_scope Scope_Enrollment = (Tag_Enrollment, None)"
| "encode_scope Scope_KeyRotation = (Tag_KeyRotation, None)"
| "encode_scope Scope_Revocation = (Tag_Revocation, None)"
| "encode_scope Scope_Recovery = (Tag_Recovery, None)"
| "encode_scope Scope_Health = (Tag_Health, None)"

lemma decode_encode_scope: "decode_scope tag cap = Some scope \<longleftrightarrow> encode_scope scope = (tag, cap)"
  by (cases tag; cases scope; cases cap) (auto simp: reject_scope_capability_def)

definition decode_admission_audit_record :: "admission_audit_record \<Rightarrow> admission_audit_record option" where
  "decode_admission_audit_record raw = (if aar_decision raw \<noteq> Deny then None else Some raw)"

record audit_envelope =
  ae_operation_id :: operation_id
  ae_correlation_id :: correlation_id
  ae_realm :: realm_path
  ae_principal :: principal_id
  ae_node :: node_id
  ae_workload :: "workload_id option"
  ae_stream :: "stream_id option"
  ae_execution :: "string option"
  ae_scope :: authorization_scope
  ae_decision :: authz_decision
  ae_trace :: "trace_context option"

definition post_auth ::
    "operation_id \<Rightarrow> correlation_id \<Rightarrow> realm_path \<Rightarrow> principal_id \<Rightarrow> node_id \<Rightarrow> authorization_scope \<Rightarrow> authz_decision \<Rightarrow>
     audit_envelope" where
  "post_auth operation correlation realm caller node scope decision =
     \<lparr>ae_operation_id = operation, ae_correlation_id = correlation, ae_realm = realm, ae_principal = caller,
      ae_node = node, ae_workload = None, ae_stream = None, ae_execution = None, ae_scope = scope,
      ae_decision = decision, ae_trace = None\<rparr>"

definition envelope_with_workload :: "audit_envelope \<Rightarrow> workload_id \<Rightarrow> audit_envelope" where
  "envelope_with_workload e w = e\<lparr>ae_workload := Some w\<rparr>"

definition envelope_with_stream :: "audit_envelope \<Rightarrow> stream_id \<Rightarrow> audit_envelope" where
  "envelope_with_stream e s = e\<lparr>ae_stream := Some s\<rparr>"

definition envelope_with_execution :: "audit_envelope \<Rightarrow> string \<Rightarrow> audit_envelope" where
  "envelope_with_execution e x = e\<lparr>ae_execution := Some x\<rparr>"

definition envelope_with_trace :: "audit_envelope \<Rightarrow> trace_context \<Rightarrow> audit_envelope" where
  "envelope_with_trace e t = e\<lparr>ae_trace := Some t\<rparr>"

end
