(* ===== verification/Gateway_Orchestrator.thy ===== *)
theory Gateway_Orchestrator
  imports Gateway_Handshake Audit_Records
begin

text \<open>
  The display-session orchestrator \<open>d2b-gateway/src/orchestrator.rs\<close> with the audit events of
  \<open>d2b-gateway/src/audit.rs\<close> and the values of \<open>types.rs\<close>.

  The injected dependencies (\<open>GatewayDeps\<close>) are parameters: a \<open>gateway_deps\<close> record holds what each of
  them answers. \<open>open\<close> and \<open>close\<close> are async; the ledger lock is released at every \<open>await\<close>, so each is
  cut there into segments (\<open>open_start\<close>, \<open>after_arm\<close>, \<open>after_spawn\<close>, \<open>after_handshake\<close>; \<open>close_begin\<close>,
  \<open>close_end\<close>). \<open>gateway_open\<close> and \<open>gateway_close\<close> run the segments in sequence; \<open>gateway_run\<close>
  interleaves the segments of any number of opens and closes. Every call of a dependency leaves an
  effect in a trace, from which the resources still held are read. The teardown calls after a failed
  spawn or handshake, whose answers are ignored, belong to the segment of the failure. Mutex poisoning
  is not modelled.
\<close>

section \<open>Values\<close>

type_synonym agent_handle = string
type_synonym listener_handle = string
type_synonym app_command = "string list"

definition app_command_new :: "string list \<Rightarrow> app_command option" where
  "app_command_new argv = (if argv = [] \<or> list_ex (\<lambda>a. a = []) argv then None else Some argv)"

definition DEFAULT_SESSION_TTL_SECS :: u64 where
  "DEFAULT_SESSION_TTL_SECS = 120"

record display_session_context =
  dsc_session_id :: display_session_id
  dsc_operation_id :: operation_id
  dsc_realm :: realm_path
  dsc_generation :: u64
  dsc_peer_principal :: principal_id

record context_seed =
  seed_realm :: realm_path
  seed_operation_id :: operation_id
  seed_correlation_id :: correlation_id
  seed_principal :: principal_id
  seed_node :: node_id
  seed_workload :: workload_id

record agent_spawn_request =
  spawn_ctx :: display_session_context
  spawn_binding :: session_binding
  spawn_secret :: string
  spawn_app :: app_command

record open_session =
  os_session_id :: display_session_id
  os_agent :: agent_handle
  os_listener :: listener_handle

datatype gateway_audit_kind =
    DisplaySessionOpenAdmitted | DisplaySessionOpenDenied | DisplaySessionRunning | DisplaySessionClosed

record gateway_audit_event =
  gae_kind :: gateway_audit_kind
  gae_envelope :: audit_envelope
  gae_session_id :: "display_session_id option"
  gae_state :: "session_state option"
  gae_error_slug :: "string option"

definition display_envelope ::
    "operation_id \<Rightarrow> correlation_id \<Rightarrow> realm_path \<Rightarrow> principal_id \<Rightarrow> node_id \<Rightarrow> workload_id \<Rightarrow> authz_decision \<Rightarrow>
     audit_envelope" where
  "display_envelope operation correlation realm caller node workload decision =
     envelope_with_workload
       (post_auth operation correlation realm caller node (Scope_Capability Cap_WindowForwarding) decision)
       workload"

definition seed_envelope :: "context_seed \<Rightarrow> authz_decision \<Rightarrow> audit_envelope" where
  "seed_envelope seed decision =
     display_envelope (seed_operation_id seed) (seed_correlation_id seed) (seed_realm seed) (seed_principal seed)
       (seed_node seed) (seed_workload seed) decision"

definition open_admitted_event :: "context_seed \<Rightarrow> display_session_id \<Rightarrow> session_state \<Rightarrow> gateway_audit_event" where
  "open_admitted_event seed sid st =
     \<lparr>gae_kind = DisplaySessionOpenAdmitted, gae_envelope = seed_envelope seed Allow, gae_session_id = Some sid,
      gae_state = Some st, gae_error_slug = None\<rparr>"

definition open_denied_event :: "context_seed \<Rightarrow> gateway_error \<Rightarrow> gateway_audit_event" where
  "open_denied_event seed err =
     \<lparr>gae_kind = DisplaySessionOpenDenied, gae_envelope = seed_envelope seed Deny, gae_session_id = None,
      gae_state = None, gae_error_slug = Some (gateway_error_slug err)\<rparr>"

definition running_event :: "context_seed \<Rightarrow> display_session_id \<Rightarrow> gateway_audit_event" where
  "running_event seed sid =
     \<lparr>gae_kind = DisplaySessionRunning, gae_envelope = seed_envelope seed Allow, gae_session_id = Some sid,
      gae_state = Some Running, gae_error_slug = None\<rparr>"


section \<open>Dependencies and effects\<close>

text \<open>The answers of the injected dependencies during one operation.\<close>

record gateway_deps =
  dep_new_session_id :: display_session_id
  dep_new_secret :: string
  dep_now_unix :: u64
  dep_record :: "gateway_audit_event \<Rightarrow> gateway_error + unit"
  dep_arm :: "display_session_context \<Rightarrow> session_binding \<Rightarrow> string \<Rightarrow> gateway_error + listener_handle"
  dep_await_handshake :: "listener_handle \<Rightarrow> gateway_error + unit"
  dep_close :: "listener_handle \<Rightarrow> gateway_error + unit"
  dep_spawn_agent :: "agent_spawn_request \<Rightarrow> gateway_error + agent_handle"
  dep_cleanup :: "agent_handle \<Rightarrow> gateway_error + unit"

datatype effect =
    Eff_Audit gateway_audit_event "gateway_error + unit"
  | Eff_Arm display_session_context session_binding string "gateway_error + listener_handle"
  | Eff_Spawn agent_spawn_request "gateway_error + agent_handle"
  | Eff_Await listener_handle "gateway_error + unit"
  | Eff_Close listener_handle
  | Eff_Cleanup agent_handle

text \<open>The listeners and agents a trace leaves behind: acquired and not released since.\<close>

primrec listeners_after :: "effect \<Rightarrow> listener_handle set \<Rightarrow> listener_handle set" where
  "listeners_after (Eff_Audit event answer) ls = ls"
| "listeners_after (Eff_Arm ctx binding secret answer) ls = (case answer of Inr l \<Rightarrow> insert l ls | Inl _ \<Rightarrow> ls)"
| "listeners_after (Eff_Spawn req answer) ls = ls"
| "listeners_after (Eff_Await l answer) ls = ls"
| "listeners_after (Eff_Close l) ls = ls - {l}"
| "listeners_after (Eff_Cleanup a) ls = ls"

primrec agents_after :: "effect \<Rightarrow> agent_handle set \<Rightarrow> agent_handle set" where
  "agents_after (Eff_Audit event answer) as = as"
| "agents_after (Eff_Arm ctx binding secret answer) as = as"
| "agents_after (Eff_Spawn req answer) as = (case answer of Inr a \<Rightarrow> insert a as | Inl _ \<Rightarrow> as)"
| "agents_after (Eff_Await l answer) as = as"
| "agents_after (Eff_Close l) as = as"
| "agents_after (Eff_Cleanup a) as = as - {a}"

definition held_listeners :: "effect list \<Rightarrow> listener_handle set" where
  "held_listeners es = fold listeners_after es {}"

definition held_agents :: "effect list \<Rightarrow> agent_handle set" where
  "held_agents es = fold agents_after es {}"


section \<open>Opening a session\<close>

text \<open>The locals of \<open>open\<close> that live across its await points.\<close>

record open_task =
  ot_seed :: context_seed
  ot_ctx :: display_session_context
  ot_binding :: session_binding
  ot_secret :: string
  ot_app :: app_command

abbreviation ot_id :: "open_task \<Rightarrow> display_session_id" where
  "ot_id t \<equiv> dsc_session_id (ot_ctx t)"

text \<open>Where an open stands: awaiting \<open>arm\<close>, \<open>spawn_agent\<close> or \<open>await_handshake\<close>, or returned.\<close>

datatype open_progress =
    Awaiting_Arm
  | Awaiting_Spawn listener_handle
  | Awaiting_Verified listener_handle agent_handle
  | Returned "gateway_error + open_session"

type_synonym segment_result = "open_progress \<times> session_ledger \<times> effect list"

definition mint :: "gateway_deps \<Rightarrow> session_ledger \<Rightarrow> context_seed \<Rightarrow> app_command \<Rightarrow> display_session_id \<Rightarrow> open_task" where
  "mint deps l seed app sid =
     \<lparr>ot_seed = seed,
      ot_ctx = \<lparr>dsc_session_id = sid, dsc_operation_id = seed_operation_id seed, dsc_realm = seed_realm seed,
                dsc_generation = generation l, dsc_peer_principal = seed_principal seed\<rparr>,
      ot_binding = binding_new (seed_realm seed) (generation l) sid 0 (seed_operation_id seed)
        (seed_principal seed) (seed_workload seed) (sat_add (dep_now_unix deps) DEFAULT_SESSION_TTL_SECS),
      ot_secret = dep_new_secret deps, ot_app = app\<rparr>"

definition fail_session :: "session_ledger \<Rightarrow> display_session_id \<Rightarrow> session_ledger" where
  "fail_session l sid = snd (ledger_transition l sid Failed_State)"

text \<open>An error of \<open>drive_open\<close>, with the compensation \<open>open\<close> runs for it.\<close>

definition drive_failed :: "open_task \<Rightarrow> gateway_error \<Rightarrow> session_ledger \<Rightarrow> effect list \<Rightarrow> segment_result" where
  "drive_failed t err l es = (Returned (Inl err), fail_session l (ot_id t), es)"

text \<open>\<open>transition(id, next)?\<close> inside \<open>drive_open\<close>, continuing to the next await point.\<close>

definition drive_transition ::
    "open_task \<Rightarrow> session_state \<Rightarrow> open_progress \<Rightarrow> session_ledger \<Rightarrow> effect list \<Rightarrow> segment_result" where
  "drive_transition t next p l es =
     (case ledger_transition l (ot_id t) next of
        (Inl err, l') \<Rightarrow> drive_failed t err l' es
      | (Inr _, l') \<Rightarrow> (p, l', es))"

datatype open_started = Start_Returned "gateway_error + open_session" | Start_Admitted open_task

definition open_admit ::
    "gateway_deps \<Rightarrow> session_ledger \<Rightarrow> target_key \<Rightarrow> context_seed \<Rightarrow> app_command \<Rightarrow> u64 \<Rightarrow>
     open_started \<times> session_ledger \<times> effect list" where
  "open_admit deps l target seed app hash =
     (case ledger_open l target (seed_principal seed) (seed_operation_id seed) hash (dep_new_session_id deps) of
        (Inl err, l') \<Rightarrow>
          let event = open_denied_event seed err; answer = dep_record deps event in
          (Start_Returned (case answer of Inl e \<Rightarrow> Inl e | Inr _ \<Rightarrow> Inl err), l', [Eff_Audit event answer])
      | (Inr (Op_Replay sid), l') \<Rightarrow>
          (Start_Returned (Inr \<lparr>os_session_id = sid, os_agent = [], os_listener = []\<rparr>), l', [])
      | (Inr (Op_Accepted sid), l') \<Rightarrow>
          let event = open_admitted_event seed sid Minting; answer = dep_record deps event in
          ((case answer of
              Inl e \<Rightarrow> Start_Returned (Inl e)
            | Inr _ \<Rightarrow> Start_Admitted (mint deps l' seed app sid)), l', [Eff_Audit event answer]))"

text \<open>The segment up to the call of \<open>arm\<close>.\<close>

definition begin_arm :: "open_task \<Rightarrow> session_ledger \<Rightarrow> segment_result" where
  "begin_arm t l = drive_transition t ListenerArming Awaiting_Arm l []"

definition after_arm :: "gateway_deps \<Rightarrow> open_task \<Rightarrow> session_ledger \<Rightarrow> segment_result" where
  "after_arm deps t l =
     (let answer = dep_arm deps (ot_ctx t) (ot_binding t) (ot_secret t);
          es = [Eff_Arm (ot_ctx t) (ot_binding t) (ot_secret t) answer]
      in case answer of
           Inl err \<Rightarrow> drive_failed t err l es
         | Inr listener \<Rightarrow> drive_transition t AgentSpawning (Awaiting_Spawn listener) l es)"

definition spawn_request :: "open_task \<Rightarrow> agent_spawn_request" where
  "spawn_request t =
     \<lparr>spawn_ctx = ot_ctx t, spawn_binding = ot_binding t, spawn_secret = ot_secret t, spawn_app = ot_app t\<rparr>"

definition after_spawn :: "gateway_deps \<Rightarrow> open_task \<Rightarrow> listener_handle \<Rightarrow> session_ledger \<Rightarrow> segment_result" where
  "after_spawn deps t listener l =
     (let answer = dep_spawn_agent deps (spawn_request t); es = [Eff_Spawn (spawn_request t) answer]
      in case answer of
           Inl err \<Rightarrow> drive_failed t err l (es @ [Eff_Close listener])
         | Inr agent \<Rightarrow> drive_transition t AwaitingHandshake (Awaiting_Verified listener agent) l es)"

definition audit_running :: "gateway_deps \<Rightarrow> open_task \<Rightarrow> open_session \<Rightarrow> session_ledger \<Rightarrow> effect list \<Rightarrow> segment_result" where
  "audit_running deps t opened l es =
     (let event = running_event (ot_seed t) (os_session_id opened); answer = dep_record deps event
      in (Returned (case answer of Inl e \<Rightarrow> Inl e | Inr _ \<Rightarrow> Inr opened), l, es @ [Eff_Audit event answer]))"

definition after_handshake ::
    "gateway_deps \<Rightarrow> open_task \<Rightarrow> listener_handle \<Rightarrow> agent_handle \<Rightarrow> session_ledger \<Rightarrow> segment_result" where
  "after_handshake deps t listener agent l =
     (let answer = dep_await_handshake deps listener; es = [Eff_Await listener answer]
      in case answer of
           Inl err \<Rightarrow> drive_failed t err l (es @ [Eff_Cleanup agent, Eff_Close listener])
         | Inr _ \<Rightarrow>
             (case ledger_transition l (ot_id t) Running of
                (Inl err, l') \<Rightarrow> drive_failed t err l' es
              | (Inr _, l') \<Rightarrow>
                  audit_running deps t \<lparr>os_session_id = ot_id t, os_agent = agent, os_listener = listener\<rparr> l' es))"

text \<open>One open resumed at its await point.\<close>

primrec advance :: "gateway_deps \<Rightarrow> open_task \<Rightarrow> open_progress \<Rightarrow> session_ledger \<Rightarrow> segment_result" where
  "advance deps t Awaiting_Arm l = after_arm deps t l"
| "advance deps t (Awaiting_Spawn listener) l = after_spawn deps t listener l"
| "advance deps t (Awaiting_Verified listener agent) l = after_handshake deps t listener agent l"
| "advance deps t (Returned result) l = (Returned result, l, [])"

definition and_then :: "segment_result \<Rightarrow> (open_progress \<Rightarrow> session_ledger \<Rightarrow> segment_result) \<Rightarrow> segment_result" where
  "and_then r next = (case r of (p, l, es) \<Rightarrow> case next p l of (p', l', es') \<Rightarrow> (p', l', es @ es'))"

definition drive_open :: "gateway_deps \<Rightarrow> open_task \<Rightarrow> session_ledger \<Rightarrow> segment_result" where
  "drive_open deps t l =
     and_then (and_then (and_then (begin_arm t l) (advance deps t)) (advance deps t)) (advance deps t)"

text \<open>\<open>open\<close> with nothing else running: three await points, each resumed at once.\<close>

definition gateway_open ::
    "gateway_deps \<Rightarrow> session_ledger \<Rightarrow> target_key \<Rightarrow> context_seed \<Rightarrow> app_command \<Rightarrow> u64 \<Rightarrow> segment_result" where
  "gateway_open deps l target seed app hash =
     (case open_admit deps l target seed app hash of
        (Start_Returned result, l', es) \<Rightarrow> (Returned result, l', es)
      | (Start_Admitted t, l', es) \<Rightarrow> (case drive_open deps t l' of (p, l'', es') \<Rightarrow> (p, l'', es @ es')))"


section \<open>Closing a session\<close>

definition close_begin :: "session_ledger \<Rightarrow> open_session \<Rightarrow> session_ledger" where
  "close_begin l opened = snd (ledger_transition l (os_session_id opened) Stopping)"

definition close_effects :: "open_session \<Rightarrow> effect list" where
  "close_effects opened = [Eff_Close (os_listener opened), Eff_Cleanup (os_agent opened)]"

definition close_end :: "session_ledger \<Rightarrow> open_session \<Rightarrow> session_ledger" where
  "close_end l opened = snd (ledger_transition l (os_session_id opened) Closed_State)"

definition close_result :: "gateway_deps \<Rightarrow> open_session \<Rightarrow> gateway_error + unit" where
  "close_result deps opened =
     bind_result (dep_close deps (os_listener opened)) (\<lambda>_. dep_cleanup deps (os_agent opened))"

definition gateway_close ::
    "gateway_deps \<Rightarrow> session_ledger \<Rightarrow> open_session \<Rightarrow> (gateway_error + unit) \<times> session_ledger \<times> effect list" where
  "gateway_close deps l opened =
     (close_result deps opened, close_end (close_begin l opened) opened, close_effects opened)"


section \<open>Listing sessions\<close>

record display_session_summary =
  dss_session_id :: display_session_id
  dss_state :: session_state
  dss_generation :: u64
  dss_realm :: realm_path
  dss_workload :: workload_id
  dss_operation_id :: operation_id
  dss_peer_principal :: principal_id

primrec collect_options :: "'a option list \<Rightarrow> 'a list option" where
  "collect_options [] = Some []"
| "collect_options (x # xs) =
     (case x of None \<Rightarrow> None | Some v \<Rightarrow> map_option ((#) v) (collect_options xs))"

primrec collect_results :: "('e + 'a) list \<Rightarrow> 'e + 'a list" where
  "collect_results [] = Inr []"
| "collect_results (x # xs) = bind_result x (\<lambda>v. bind_result (collect_results xs) (\<lambda>vs. Inr (v # vs)))"

definition result_ok :: "'e + 'a \<Rightarrow> 'a option" where
  "result_ok r = (case r of Inl _ \<Rightarrow> None | Inr v \<Rightarrow> Some v)"

definition parse_target_realm :: "string \<Rightarrow> gateway_error + realm_path" where
  "parse_target_realm target =
     (case collect_options (map (\<lambda>label. result_ok (parse_label_id label)) (str_split (CHR ''.'') target)) of
        None \<Rightarrow> Inl Gw_Internal
      | Some ls \<Rightarrow> ok_or (realm_path_new ls) Gw_Internal)"

definition summary_from_record :: "session_record \<Rightarrow> gateway_error + display_session_summary" where
  "summary_from_record r =
     bind_result (parse_target_realm (tk_realm (sr_target_key r))) (\<lambda>realm.
     bind_result (ok_or (result_ok (parse_label_id (tk_workload (sr_target_key r)))) Gw_Internal) (\<lambda>workload.
     bind_result (ok_or (result_ok (parse_opaque_id (sr_operation_id r))) Gw_Internal) (\<lambda>operation.
     bind_result (ok_or (result_ok (parse_opaque_id (sr_principal r))) Gw_Internal) (\<lambda>caller.
     Inr \<lparr>dss_session_id = sr_id r, dss_state = sr_state r, dss_generation = sr_generation r, dss_realm = realm,
          dss_workload = workload, dss_operation_id = operation, dss_peer_principal = caller\<rparr>))))"

definition list_sessions :: "session_ledger \<Rightarrow> gateway_error + display_session_summary list" where
  "list_sessions l = collect_results (map summary_from_record (active_records l))"


section \<open>Interleaved opens and closes\<close>

record gateway_world =
  w_ledger :: session_ledger
  w_opens :: "(open_task \<times> open_progress) list"
  w_closing :: "open_session list"
  w_effects :: "effect list"

definition gateway_new :: "u64 \<Rightarrow> ledger_limits \<Rightarrow> gateway_world" where
  "gateway_new g lim = \<lparr>w_ledger = ledger_new g lim, w_opens = [], w_closing = [], w_effects = []\<rparr>"

datatype gateway_event =
    Ev_Open gateway_deps target_key context_seed app_command u64
  | Ev_Advance nat gateway_deps
  | Ev_Close open_session
  | Ev_Close_End nat

definition apply_open ::
    "gateway_deps \<Rightarrow> target_key \<Rightarrow> context_seed \<Rightarrow> app_command \<Rightarrow> u64 \<Rightarrow> gateway_world \<Rightarrow> gateway_world" where
  "apply_open deps target seed app hash w =
     (case open_admit deps (w_ledger w) target seed app hash of
        (Start_Returned _, l, es) \<Rightarrow> w\<lparr>w_ledger := l, w_effects := w_effects w @ es\<rparr>
      | (Start_Admitted t, l, es) \<Rightarrow>
          (case begin_arm t l of (p, l', es') \<Rightarrow>
             w\<lparr>w_ledger := l', w_opens := w_opens w @ [(t, p)], w_effects := w_effects w @ es @ es'\<rparr>))"

definition apply_advance :: "nat \<Rightarrow> gateway_deps \<Rightarrow> gateway_world \<Rightarrow> gateway_world" where
  "apply_advance i deps w =
     (if i < length (w_opens w) then
        (case w_opens w ! i of (t, p) \<Rightarrow>
           case advance deps t p (w_ledger w) of (p', l, es) \<Rightarrow>
             w\<lparr>w_ledger := l, w_opens := (w_opens w)[i := (t, p')], w_effects := w_effects w @ es\<rparr>)
      else w)"

primrec gateway_apply :: "gateway_event \<Rightarrow> gateway_world \<Rightarrow> gateway_world" where
  "gateway_apply (Ev_Open deps target seed app hash) w = apply_open deps target seed app hash w"
| "gateway_apply (Ev_Advance i deps) w = apply_advance i deps w"
| "gateway_apply (Ev_Close opened) w =
     w\<lparr>w_ledger := close_begin (w_ledger w) opened, w_closing := w_closing w @ [opened]\<rparr>"
| "gateway_apply (Ev_Close_End i) w =
     (if i < length (w_closing w) then
        let opened = w_closing w ! i in
        w\<lparr>w_ledger := close_end (w_ledger w) opened,
          w_closing := take i (w_closing w) @ drop (Suc i) (w_closing w),
          w_effects := w_effects w @ close_effects opened\<rparr>
      else w)"

definition gateway_run :: "gateway_event list \<Rightarrow> gateway_world \<Rightarrow> gateway_world" where
  "gateway_run events w = fold gateway_apply events w"

lemma gateway_run_simps [simp]:
  "gateway_run [] w = w" "gateway_run (e # es) w = gateway_run es (gateway_apply e w)"
  by (simp_all add: gateway_run_def)


section \<open>The orchestrator drives the ledger\<close>

text \<open>A ledger that ledger operations alone produce from another.\<close>

definition driven :: "session_ledger \<Rightarrow> session_ledger \<Rightarrow> bool" where
  "driven l l' \<longleftrightarrow> (\<exists>calls. l' = ledger_run calls l)"

lemma driven_refl [simp]: "driven l l"
  unfolding driven_def by (rule exI [of _ "[]"]) (simp add: ledger_run_def)

lemma driven_trans: "driven l l' \<Longrightarrow> driven l' l'' \<Longrightarrow> driven l l''"
  unfolding driven_def ledger_run_def by (metis comp_apply fold_append)

lemma driven_transition [simp]: "driven l (snd (ledger_transition l sid next))"
  unfolding driven_def by (rule exI [of _ "[Ledger_transition sid next]"]) (simp add: ledger_run_def)

lemma driven_open [simp]: "driven l (snd (ledger_open l target caller operation hash new_id))"
  unfolding driven_def
  by (rule exI [of _ "[Ledger_open target caller operation hash new_id]"]) (simp add: ledger_run_def)

lemma driven_transitionD: "ledger_transition l sid next = (r, l') \<Longrightarrow> driven l l'"
  using driven_transition [of l sid "next"] by simp

lemma driven_drive_failed: "driven l (fst (snd (drive_failed t err l es)))"
  by (simp add: drive_failed_def fail_session_def)

lemma driven_drive_transition: "driven l (fst (snd (drive_transition t next p l es)))"
  by (auto simp: drive_transition_def dest: driven_transitionD split: prod.split sum.split
      intro: driven_trans [OF _ driven_drive_failed])

lemma driven_advance: "driven l (fst (snd (advance deps t p l)))"
  by (cases p)
    (auto simp: after_arm_def after_spawn_def after_handshake_def audit_running_def Let_def
      driven_drive_failed driven_drive_transition dest: driven_transitionD
      split: sum.split prod.split intro: driven_trans [OF _ driven_drive_failed])

lemma driven_open_admit: "driven l (fst (snd (open_admit deps l target seed app hash)))"
proof -
  obtain r l' where r: "ledger_open l target (seed_principal seed) (seed_operation_id seed) hash
      (dep_new_session_id deps) = (r, l')" by fastforce
  then have "driven l l'"
    using driven_open [of l target "seed_principal seed" "seed_operation_id seed" hash "dep_new_session_id deps"]
    by simp
  then show ?thesis by (simp add: open_admit_def r Let_def split: sum.split op_outcome.split)
qed

lemma driven_apply: "driven (w_ledger w) (w_ledger (gateway_apply e w))"
proof (cases e)
  case (Ev_Open deps target seed app hash)
  obtain s l es where s: "open_admit deps (w_ledger w) target seed app hash = (s, l, es)"
    by (cases "open_admit deps (w_ledger w) target seed app hash") auto
  have l: "driven (w_ledger w) l" using driven_open_admit [of "w_ledger w" deps target seed app hash] by (simp add: s)
  show ?thesis
  proof (cases s)
    case (Start_Admitted t)
    have "driven l (fst (snd (begin_arm t l)))" by (simp add: begin_arm_def driven_drive_transition)
    with l Start_Admitted s Ev_Open show ?thesis
      by (auto simp: apply_open_def split: prod.split intro: driven_trans)
  qed (simp add: Ev_Open apply_open_def s l)
next
  case (Ev_Advance i deps)
  then show ?thesis
    using driven_advance [of "w_ledger w" deps "fst (w_opens w ! i)" "snd (w_opens w ! i)"]
    by (auto simp: apply_advance_def split: prod.split)
qed (simp_all add: close_begin_def close_end_def Let_def)

lemma driven_run: "driven (w_ledger w) (w_ledger (gateway_run events w))"
  by (induction events arbitrary: w) (auto intro: driven_trans [OF driven_apply])


section \<open>What led to a running session\<close>

definition admitted_effect :: "open_task \<Rightarrow> effect" where
  "admitted_effect t = Eff_Audit (open_admitted_event (ot_seed t) (ot_id t) Minting) (Inr ())"

definition armed_effect :: "open_task \<Rightarrow> listener_handle \<Rightarrow> effect" where
  "armed_effect t listener = Eff_Arm (ot_ctx t) (ot_binding t) (ot_secret t) (Inr listener)"

definition spawned_effect :: "open_task \<Rightarrow> agent_handle \<Rightarrow> effect" where
  "spawned_effect t agent = Eff_Spawn (spawn_request t) (Inr agent)"

text \<open>The effects an open has left behind when it stands at an await point.\<close>

primrec progress_trace :: "open_task \<Rightarrow> open_progress \<Rightarrow> effect list" where
  "progress_trace t Awaiting_Arm = [admitted_effect t]"
| "progress_trace t (Awaiting_Spawn listener) = [admitted_effect t, armed_effect t listener]"
| "progress_trace t (Awaiting_Verified listener agent) =
     [admitted_effect t, armed_effect t listener, spawned_effect t agent]"
| "progress_trace t (Returned result) = []"

definition open_trace :: "open_task \<Rightarrow> listener_handle \<Rightarrow> agent_handle \<Rightarrow> effect list" where
  "open_trace t listener agent =
     [admitted_effect t, armed_effect t listener, spawned_effect t agent, Eff_Await listener (Inr ())]"

text \<open>The credential of an open is bound to its session, realm, operation, principal and workload.\<close>

definition task_bound :: "open_task \<Rightarrow> bool" where
  "task_bound t \<longleftrightarrow>
     (\<exists>not_after. ot_binding t =
        binding_new (seed_realm (ot_seed t)) (dsc_generation (ot_ctx t)) (ot_id t) 0
          (seed_operation_id (ot_seed t)) (seed_principal (ot_seed t)) (seed_workload (ot_seed t)) not_after)"

lemma subseq_extend: "subseq xs es \<Longrightarrow> subseq xs (es @ es')"
  using list_emb_append_mono [of "(=)" xs es "[]" es'] by simp

lemma subseq_snoc: "subseq xs es \<Longrightarrow> subseq (xs @ [e]) (es @ e # es')"
  by (rule list_emb_append_mono) simp_all

lemmas subseq_steps = subseq_extend subseq_snoc [of "[a]" for a, simplified] subseq_snoc [of "[a, b]" for a b, simplified]
  subseq_snoc [of "[a, b, c]" for a b c, simplified]

lemma ledger_state_transition:
  "ledger_state (snd (ledger_transition l sid st)) k =
     (if k = sid \<and> fst (ledger_transition l sid st) = Inr () then Some st else ledger_state l k)"
  by (simp add: ledger_transition_def ledger_state_def split: option.split)

lemma transition_running:
  "ledger_transition l sid st = (r, l') \<Longrightarrow> ledger_state l' k = Some Running \<Longrightarrow>
   ledger_state l k = Some Running \<or> (st = Running \<and> k = sid \<and> r = Inr ())"
  using ledger_state_transition [of l sid st k] by (auto split: if_splits)

lemma ledger_state_gc: "ledger_state (gc_terminal l) k \<in> {None, ledger_state l k}"
  by (simp add: ledger_state_def gc_terminal_def split: option.split)

lemma ledger_state_open:
  "ledger_state (snd (ledger_open l target caller operation hash new_id)) k \<in>
     {None, ledger_state l k, Some Minting}"
proof (cases "k = new_id")
  case False
  with ledger_open_get [of new_id k l target caller operation hash] ledger_state_gc [of l k]
  show ?thesis by (auto simp: ledger_state_def)
next
  case True
  have "bt_get (records (snd (ledger_open l target caller operation hash k))) k \<in>
      {bt_get (records l) k, bt_get (records (gc_terminal l)) k} \<or>
      ledger_state (snd (ledger_open l target caller operation hash k)) k = Some Minting"
    by (auto simp: ledger_open_def ledger_state_def Let_def split: option.split)
  with True ledger_state_gc [of l k] show ?thesis by (auto simp: ledger_state_def)
qed

lemma drive_failed_running:
  "drive_failed t err l es = (p, l', es') \<Longrightarrow>
   es' = es \<and> p = Returned (Inl err) \<and> (ledger_state l' k = Some Running \<longrightarrow> ledger_state l k = Some Running)"
  using transition_running [of l "ot_id t" Failed_State _ _ k]
  by (auto simp: drive_failed_def fail_session_def prod_eq_iff)

lemma drive_transition_cases:
  assumes "drive_transition t st p l es = (p', l', es')" "st \<noteq> Running"
  shows "es' = es \<and> (p' = p \<or> (\<exists>err. p' = Returned (Inl err))) \<and>
    (ledger_state l' k = Some Running \<longrightarrow> ledger_state l k = Some Running)"
proof -
  obtain r m where r: "ledger_transition l (ot_id t) st = (r, m)" by fastforce
  with assms transition_running [OF r, of k] show ?thesis
    by (cases r) (auto simp: drive_transition_def dest: drive_failed_running [where k = k])
qed

lemma advance_traced:
  assumes "advance deps t p l = (p', l', es')" "subseq (progress_trace t p) es"
  shows "subseq (progress_trace t p') (es @ es')"
    "ledger_state l' k = Some Running \<Longrightarrow> ledger_state l k = Some Running \<or>
       k = ot_id t \<and> (\<exists>listener agent. subseq (open_trace t listener agent) (es @ es'))"
proof -
  have "subseq (progress_trace t p') (es @ es') \<and>
    (ledger_state l' k = Some Running \<longrightarrow> ledger_state l k = Some Running \<or>
       k = ot_id t \<and> (\<exists>listener agent. subseq (open_trace t listener agent) (es @ es')))"
  proof (cases p)
    case Awaiting_Arm
    with assms show ?thesis
      by (auto simp: after_arm_def Let_def armed_effect_def subseq_steps split: sum.splits
          dest!: drive_failed_running [where k = k] drive_transition_cases [where k = k])
  next
    case (Awaiting_Spawn listener)
    with assms show ?thesis
      by (auto simp: after_spawn_def Let_def spawned_effect_def subseq_steps split: sum.splits
          dest!: drive_failed_running [where k = k] drive_transition_cases [where k = k])
  next
    case (Awaiting_Verified listener agent)
    obtain r m where r: "ledger_transition l (ot_id t) Running = (r, m)" by fastforce
    have "subseq (open_trace t listener agent) (es @ Eff_Await listener (Inr ()) # es'')" for es''
      using assms(2) Awaiting_Verified by (simp add: open_trace_def subseq_steps)
    with assms Awaiting_Verified r transition_running [OF r, of k] show ?thesis
      by (auto simp: after_handshake_def audit_running_def Let_def split: sum.splits
          dest!: drive_failed_running [where k = k])
  next
    case (Returned result)
    with assms show ?thesis by simp
  qed
  then show "subseq (progress_trace t p') (es @ es')"
    "ledger_state l' k = Some Running \<Longrightarrow> ledger_state l k = Some Running \<or>
       k = ot_id t \<and> (\<exists>listener agent. subseq (open_trace t listener agent) (es @ es'))"
    by blast+
qed


definition world_traced :: "gateway_world \<Rightarrow> bool" where
  "world_traced w \<longleftrightarrow>
     (\<forall>(t, p) \<in> set (w_opens w). task_bound t \<and> subseq (progress_trace t p) (w_effects w)) \<and>
     (\<forall>sid. ledger_state (w_ledger w) sid = Some Running \<longrightarrow>
        (\<exists>t listener agent. task_bound t \<and> ot_id t = sid \<and> subseq (open_trace t listener agent) (w_effects w)))"

text \<open>A step that appends effects keeps the traced opens and needs to account only for what is new.\<close>

lemma world_traced_step:
  assumes "world_traced w" "w_effects w' = w_effects w @ es"
    and "\<And>t p. (t, p) \<in> set (w_opens w') \<Longrightarrow> (t, p) \<in> set (w_opens w) \<or>
      task_bound t \<and> subseq (progress_trace t p) (w_effects w')"
    and "\<And>sid. ledger_state (w_ledger w') sid = Some Running \<Longrightarrow> ledger_state (w_ledger w) sid = Some Running \<or>
      (\<exists>t listener agent. task_bound t \<and> ot_id t = sid \<and> subseq (open_trace t listener agent) (w_effects w'))"
  shows "world_traced w'"
  unfolding world_traced_def
proof (intro conjI allI impI ballI)
  fix tp
  assume mem: "tp \<in> set (w_opens w')"
  obtain t p where "tp = (t, p)" by fastforce
  with mem have tp: "tp = (t, p)" "(t, p) \<in> set (w_opens w')" by simp_all
  from assms(3) [OF tp(2)] assms(1) have "task_bound t \<and> subseq (progress_trace t p) (w_effects w')"
    by (auto simp: world_traced_def assms(2) intro: subseq_extend)
  then show "case tp of (t, p) \<Rightarrow> task_bound t \<and> subseq (progress_trace t p) (w_effects w')" by (simp add: tp(1))
next
  fix sid
  assume "ledger_state (w_ledger w') sid = Some Running"
  from assms(4) [OF this]
  show "\<exists>t listener agent. task_bound t \<and> ot_id t = sid \<and> subseq (open_trace t listener agent) (w_effects w')"
  proof
    assume "ledger_state (w_ledger w) sid = Some Running"
    with assms(1) obtain t listener agent where
      "task_bound t" "ot_id t = sid" "subseq (open_trace t listener agent) (w_effects w)"
      unfolding world_traced_def by blast
    then show ?thesis using subseq_extend assms(2) by metis
  qed
qed

lemma task_bound_mint: "task_bound (mint deps l seed app sid)" "ot_seed (mint deps l seed app sid) = seed"
  "ot_id (mint deps l seed app sid) = sid"
  by (auto simp: task_bound_def mint_def Let_def)

lemma open_admit_cases:
  assumes "open_admit deps l target seed app hash = (s, l', es)"
  shows "ledger_state l' k = Some Running \<Longrightarrow> ledger_state l k = Some Running"
    "s = Start_Admitted t \<Longrightarrow> task_bound t \<and> es = [admitted_effect t]"
proof -
  let ?o = "ledger_open l target (seed_principal seed) (seed_operation_id seed) hash (dep_new_session_id deps)"
  have "l' = snd ?o"
    using assms by (auto simp: open_admit_def Let_def split: prod.splits sum.splits op_outcome.splits)
  then show "ledger_state l' k = Some Running \<Longrightarrow> ledger_state l k = Some Running"
    using ledger_state_open [of l target "seed_principal seed" "seed_operation_id seed" hash "dep_new_session_id deps" k]
    by auto
  show "s = Start_Admitted t \<Longrightarrow> task_bound t \<and> es = [admitted_effect t]"
    using assms
    by (auto simp: open_admit_def Let_def admitted_effect_def task_bound_mint
        split: prod.splits sum.splits op_outcome.splits)
qed

lemma world_traced_open:
  assumes "world_traced w"
  shows "world_traced (apply_open deps target seed app hash w)"
proof -
  obtain s l es where s: "open_admit deps (w_ledger w) target seed app hash = (s, l, es)"
    by (cases "open_admit deps (w_ledger w) target seed app hash") auto
  note admit = open_admit_cases [OF s]
  show ?thesis
  proof (cases s)
    case (Start_Returned result)
    then show ?thesis
      by (intro world_traced_step [OF assms, where es = es]) (simp_all add: apply_open_def s admit(1))
  next
    case (Start_Admitted t)
    obtain p l' es' where b: "begin_arm t l = (p, l', es')" by (cases "begin_arm t l") auto
    have begun: "es' = [] \<and> (p = Awaiting_Arm \<or> (\<exists>err. p = Returned (Inl err))) \<and>
        (ledger_state l' k = Some Running \<longrightarrow> ledger_state l k = Some Running)" for k
      using drive_transition_cases [OF b [unfolded begin_arm_def], of k] by simp
    have w': "apply_open deps target seed app hash w =
        w\<lparr>w_ledger := l', w_opens := w_opens w @ [(t, p)], w_effects := w_effects w @ es @ es'\<rparr>"
      by (simp add: apply_open_def s Start_Admitted b)
    have "es' = []" "p = Awaiting_Arm \<or> (\<exists>err. p = Returned (Inl err))" using begun by blast+
    then have "subseq (progress_trace t p) (w_effects w @ es @ es')"
      using admit(2) [OF Start_Admitted] subseq_snoc [of "[]" "w_effects w"] by auto
    then show ?thesis
      unfolding w' using admit(2) [OF Start_Admitted] admit(1) begun
      by (intro world_traced_step [OF assms, where es = "es @ es'"]; simp) blast+
  qed
qed

lemma world_traced_advance:
  assumes "world_traced w"
  shows "world_traced (apply_advance i deps w)"
proof (cases "i < length (w_opens w)")
  case True
  obtain t p where tp: "w_opens w ! i = (t, p)" by fastforce
  obtain p' l es where a: "advance deps t p (w_ledger w) = (p', l, es)"
    by (cases "advance deps t p (w_ledger w)") auto
  have "(t, p) \<in> set (w_opens w)" using True tp by (metis nth_mem)
  with assms have t: "task_bound t" "subseq (progress_trace t p) (w_effects w)"
    by (auto simp: world_traced_def)
  have w': "apply_advance i deps w =
      w\<lparr>w_ledger := l, w_opens := (w_opens w)[i := (t, p')], w_effects := w_effects w @ es\<rparr>"
    by (simp add: apply_advance_def True tp a)
  show ?thesis
    unfolding w'
  proof (rule world_traced_step [OF assms, where es = es], goal_cases)
    case (2 u q)
    then have "(u, q) = (t, p') \<or> (u, q) \<in> set (w_opens w)"
      using set_update_subset_insert [of "w_opens w" i "(t, p')"] by auto
    with advance_traced(1) [OF a t(2)] t(1) show ?case by auto
  next
    case (3 sid)
    with advance_traced(2) [OF a t(2), of sid] t(1) show ?case by auto
  qed simp
qed (simp add: apply_advance_def assms)

lemma world_traced_apply: "world_traced w \<Longrightarrow> world_traced (gateway_apply e w)"
proof (cases e)
  case (Ev_Close opened)
  assume "world_traced w"
  then show ?thesis
    unfolding Ev_Close
    by (rule world_traced_step [where es = "[]"])
      (auto simp: close_begin_def ledger_state_transition split: if_splits)
next
  case (Ev_Close_End i)
  assume w: "world_traced w"
  show ?thesis
  proof (cases "i < length (w_closing w)")
    case True
    with w show ?thesis
      unfolding Ev_Close_End
      by (intro world_traced_step [OF w, where es = "close_effects (w_closing w ! i)"])
        (auto simp: close_end_def ledger_state_transition Let_def split: if_splits)
  qed (simp add: Ev_Close_End w)
qed (simp_all add: world_traced_open world_traced_advance)

lemma world_traced_run: "world_traced w \<Longrightarrow> world_traced (gateway_run events w)"
  by (induction events arbitrary: w) (simp_all add: world_traced_apply)

lemma world_traced_new: "world_traced (gateway_new g lim)"
  by (simp add: world_traced_def gateway_new_def ledger_new_def ledger_state_def)


section \<open>One open, alone\<close>

lemma transition_ok:
  assumes "ledger_state l sid = Some s" "can_transition s st"
  obtains l' where "ledger_transition l sid st = (Inr (), l')" "ledger_state l' sid = Some st"
    "\<And>k. k \<noteq> sid \<Longrightarrow> ledger_state l' k = ledger_state l k"
proof -
  have "fst (ledger_transition l sid st) = Inr ()"
    using assms by (auto simp: ledger_transition_def ledger_state_def)
  then show thesis
    using that [of "snd (ledger_transition l sid st)"] by (simp add: ledger_state_transition prod_eq_iff)
qed

lemma fail_session_state:
  assumes "ledger_state l sid = Some s" "can_transition s Failed_State"
  shows "ledger_state (fail_session l sid) k = (if k = sid then Some Failed_State else ledger_state l k)"
proof -
  have "fst (ledger_transition l sid Failed_State) = Inr ()"
    using transition_ok [OF assms] by (metis fst_conv)
  then show ?thesis by (simp add: fail_session_def ledger_state_transition)
qed


definition session_live :: "session_ledger \<Rightarrow> display_session_id \<Rightarrow> bool" where
  "session_live l sid \<longleftrightarrow> (case ledger_state l sid of None \<Rightarrow> False | Some s \<Rightarrow> \<not> session_is_terminal s)"

lemma held_simps [simp]:
  "held_listeners [] = {}" "held_agents [] = {}"
  "held_listeners (Eff_Audit event answer # es) = held_listeners es"
  "held_agents (Eff_Audit event answer # es) = held_agents es"
  by (simp_all add: held_listeners_def held_agents_def)

text \<open>The rest of an open whose session has just been admitted.\<close>

lemma drive_open_exact:
  assumes "ledger_state l (ot_id t) = Some Minting" "\<And>event. dep_record deps event = Inr ()"
    and "drive_open deps t l = (p, l', es)"
  shows "((\<exists>opened. p = Returned (Inr opened) \<and> os_session_id opened = ot_id t \<and>
        ledger_state l' (ot_id t) = Some Running \<and>
        held_listeners es = {os_listener opened} \<and> held_agents es = {os_agent opened}) \<or>
      (\<exists>err. p = Returned (Inl err) \<and> ledger_state l' (ot_id t) = Some Failed_State \<and>
        held_listeners es = {} \<and> held_agents es = {})) \<and>
    (\<forall>k. k \<noteq> ot_id t \<longrightarrow> ledger_state l' k = ledger_state l k)"
proof -
  have steps: "can_transition Minting ListenerArming" "can_transition ListenerArming AgentSpawning"
    "can_transition AgentSpawning AwaitingHandshake" "can_transition AwaitingHandshake Running"
    by (simp_all add: can_transition_def)
  obtain l1 where l1: "ledger_transition l (ot_id t) ListenerArming = (Inr (), l1)"
    "ledger_state l1 (ot_id t) = Some ListenerArming" "\<And>k. k \<noteq> ot_id t \<Longrightarrow> ledger_state l1 k = ledger_state l k"
    by (rule transition_ok [OF assms(1) steps(1)]) (rule that)
  obtain l2 where l2: "ledger_transition l1 (ot_id t) AgentSpawning = (Inr (), l2)"
    "ledger_state l2 (ot_id t) = Some AgentSpawning" "\<And>k. k \<noteq> ot_id t \<Longrightarrow> ledger_state l2 k = ledger_state l1 k"
    by (rule transition_ok [OF l1(2) steps(2)]) (rule that)
  obtain l3 where l3: "ledger_transition l2 (ot_id t) AwaitingHandshake = (Inr (), l3)"
    "ledger_state l3 (ot_id t) = Some AwaitingHandshake" "\<And>k. k \<noteq> ot_id t \<Longrightarrow> ledger_state l3 k = ledger_state l2 k"
    by (rule transition_ok [OF l2(2) steps(3)]) (rule that)
  obtain l4 where l4: "ledger_transition l3 (ot_id t) Running = (Inr (), l4)"
    "ledger_state l4 (ot_id t) = Some Running" "\<And>k. k \<noteq> ot_id t \<Longrightarrow> ledger_state l4 k = ledger_state l3 k"
    by (rule transition_ok [OF l3(2) steps(4)]) (rule that)
  have failed: "ledger_state (fail_session m (ot_id t)) k =
      (if k = ot_id t then Some Failed_State else ledger_state m k)"
    if "ledger_state m (ot_id t) = Some st" "st \<in> {ListenerArming, AgentSpawning, AwaitingHandshake}" for m st k
    using that by (intro fail_session_state [OF that(1)]) (auto simp: can_transition_def)
  note segments = drive_open_def begin_arm_def and_then_def drive_transition_def drive_failed_def after_arm_def
    after_spawn_def after_handshake_def audit_running_def Let_def held_listeners_def held_agents_def assms(2)
  show ?thesis
  proof (cases "dep_arm deps (ot_ctx t) (ot_binding t) (ot_secret t)")
    case (Inl err)
    with assms(3) show ?thesis by (auto simp: segments l1 failed [OF l1(2)])
  next
    case (Inr listener)
    note arm = this
    show ?thesis
    proof (cases "dep_spawn_agent deps (spawn_request t)")
      case (Inl err)
      with assms(3) arm show ?thesis by (auto simp: segments l1 l2 failed [OF l2(2)])
    next
      case (Inr agent)
      with assms(3) arm l4 show ?thesis
        by (cases "dep_await_handshake deps listener") (auto simp: segments l1 l2 l3 failed [OF l3(2)])
    qed
  qed
qed

lemma session_live_shrinks:
  "ledger_state l' k \<in> {None, ledger_state l k} \<Longrightarrow> session_live l' k \<Longrightarrow> session_live l k"
  by (auto simp: session_live_def)

lemma ledger_open_refused_live:
  assumes "ledger_open l target caller operation hash new_id = (Inl err, l')" "session_live l' k"
  shows "session_live l k"
proof -
  have "l' = l \<or> l' = gc_terminal l"
    using assms(1) by (auto simp: ledger_open_def Let_def split: option.splits if_splits)
  then show ?thesis using assms(2) session_live_shrinks ledger_state_gc [of l k] by auto
qed


section \<open>Properties\<close>

text \<open>C5. However opens and closes interleave at their await points and whatever the dependencies answer,
  the orchestrator only ever applies ledger operations: its ledger is one the ledger alone could have
  reached, so one live session per target, one record per operation and every quota hold.\<close>

theorem gateway_refines_ledger:
  "ledger_inv (w_ledger (gateway_run events (gateway_new g lim))) \<and>
   (\<exists>calls. w_ledger (gateway_run events (gateway_new g lim)) = ledger_run calls (ledger_new g lim))"
proof -
  obtain calls where "w_ledger (gateway_run events (gateway_new g lim)) = ledger_run calls (ledger_new g lim)"
    using driven_run [of "gateway_new g lim" events] by (auto simp: driven_def gateway_new_def)
  then show ?thesis using ledger_inv_run [OF ledger_inv_new] by auto
qed

text \<open>C25. However opens and closes interleave, a session is running only if, in this order, its admission
  was recorded in the audit trail, a listener was armed with a credential bound to that session, realm,
  operation, principal and workload, the agent was spawned with the same credential, and that listener
  reported a verified handshake.\<close>

theorem running_only_after_handshake:
  assumes "ledger_state (w_ledger (gateway_run events (gateway_new g lim))) sid = Some Running"
  shows "\<exists>t listener agent. task_bound t \<and> ot_id t = sid \<and>
    subseq (open_trace t listener agent) (w_effects (gateway_run events (gateway_new g lim)))"
  using world_traced_run [OF world_traced_new, of events g lim] assms unfolding world_traced_def by blast



definition demo_seed :: context_seed where
  "demo_seed = \<lparr>seed_realm = local, seed_operation_id = ''op1'', seed_correlation_id = ''corr1'',
     seed_principal = ''alice'', seed_node = ''gateway'', seed_workload = ''vm1''\<rparr>"

text \<open>Dependencies that all succeed, the audit sink refusing events of the given kinds.\<close>

definition demo_deps :: "gateway_audit_kind list \<Rightarrow> gateway_deps" where
  "demo_deps refused =
     \<lparr>dep_new_session_id = ''s1'', dep_new_secret = ''k'', dep_now_unix = 1000,
      dep_record = (\<lambda>event. if gae_kind event \<in> set refused then Inl Gw_AuditUnavailable else Inr ()),
      dep_arm = (\<lambda>ctx binding secret. Inr ''listener''), dep_await_handshake = (\<lambda>_. Inr ()),
      dep_close = (\<lambda>_. Inr ()), dep_spawn_agent = (\<lambda>_. Inr ''agent''), dep_cleanup = (\<lambda>_. Inr ())\<rparr>"

definition demo_opened :: "gateway_audit_kind list \<Rightarrow> segment_result" where
  "demo_opened refused = gateway_open (demo_deps refused) (ledger_new 1 default_limits) demo_target demo_seed [''foot''] 7"

definition demo_ledger :: "session_state list \<Rightarrow> session_ledger" where
  "demo_ledger sts =
     fold (\<lambda>st l. snd (ledger_transition l ''s1'' st)) sts
       (snd (ledger_open (ledger_new 1 default_limits) demo_target ''alice'' ''op1'' 7 ''s1''))"

lemma demo_ledger_open:
  "ledger_open (ledger_new 1 default_limits) demo_target ''alice'' ''op1'' 7 ''s1'' =
     (Inr (Op_Accepted ''s1''), demo_ledger [])"
proof -
  have "fst (ledger_open (ledger_new 1 default_limits) demo_target ''alice'' ''op1'' 7 ''s1'') =
      Inr (Op_Accepted ''s1'')" by code_simp
  then show ?thesis by (simp add: demo_ledger_def prod_eq_iff)
qed

lemma demo_ledger_steps:
  "ledger_transition (demo_ledger []) ''s1'' ListenerArming = (Inr (), demo_ledger [ListenerArming])"
  "ledger_transition (demo_ledger [ListenerArming]) ''s1'' AgentSpawning =
     (Inr (), demo_ledger [ListenerArming, AgentSpawning])"
  "ledger_transition (demo_ledger [ListenerArming, AgentSpawning]) ''s1'' AwaitingHandshake =
     (Inr (), demo_ledger [ListenerArming, AgentSpawning, AwaitingHandshake])"
  "ledger_transition (demo_ledger [ListenerArming, AgentSpawning, AwaitingHandshake]) ''s1'' Running =
     (Inr (), demo_ledger [ListenerArming, AgentSpawning, AwaitingHandshake, Running])"
  by code_simp+

abbreviation demo_running :: session_ledger where
  "demo_running \<equiv> demo_ledger [ListenerArming, AgentSpawning, AwaitingHandshake, Running]"

lemma demo_deps_simps [simp]:
  "dep_new_session_id (demo_deps r) = ''s1''" "dep_arm (demo_deps r) ctx binding secret = Inr ''listener''"
  "dep_spawn_agent (demo_deps r) req = Inr ''agent''" "dep_await_handshake (demo_deps r) listener = Inr ()"
  "dep_close (demo_deps r) listener = Inr ()" "dep_cleanup (demo_deps r) agent = Inr ()"
  "dep_record (demo_deps r) event = (if gae_kind event \<in> set r then Inl Gw_AuditUnavailable else Inr ())"
  by (simp_all add: demo_deps_def)

lemmas demo_segments = open_admit_def demo_ledger_open demo_ledger_steps demo_seed_def begin_arm_def drive_transition_def
  after_arm_def after_spawn_def after_handshake_def audit_running_def task_bound_mint open_admitted_event_def
  running_event_def Let_def

lemma demo_opened_eq:
  assumes "DisplaySessionOpenAdmitted \<notin> set refused"
  shows "fst (demo_opened refused) =
      Returned (if DisplaySessionRunning \<in> set refused then Inl Gw_AuditUnavailable
                else Inr \<lparr>os_session_id = ''s1'', os_agent = ''agent'', os_listener = ''listener''\<rparr>)"
    "fst (snd (demo_opened refused)) = demo_running"
    "held_listeners (snd (snd (demo_opened refused)) @ es) = fold listeners_after es {''listener''}"
    "held_agents (snd (snd (demo_opened refused)) @ es) = fold agents_after es {''agent''}"
    "snd (snd (demo_opened refused)) \<noteq> []"
  using assms
  by (simp_all add: demo_opened_def gateway_open_def drive_open_def and_then_def demo_segments held_listeners_def
      held_agents_def)

lemma demo_running_state: "ledger_state demo_running ''s1'' = Some Running"
  by code_simp

definition demo_events :: "gateway_event list" where
  "demo_events = Ev_Open (demo_deps []) demo_target demo_seed [''foot''] 7 # replicate 3 (Ev_Advance 0 (demo_deps []))"

lemma running_only_after_handshake_witness:
  "\<exists>t listener agent. task_bound t \<and> ot_id t = ''s1'' \<and>
     subseq (open_trace t listener agent) (w_effects (gateway_run demo_events (gateway_new 1 default_limits)))"
proof (rule running_only_after_handshake)
  have "w_ledger (gateway_run demo_events (gateway_new 1 default_limits)) = demo_running"
    by (simp add: demo_events_def numeral_3_eq_3 gateway_new_def apply_open_def apply_advance_def demo_segments)
  then show "ledger_state (w_ledger (gateway_run demo_events (gateway_new 1 default_limits))) ''s1'' = Some Running"
    by (simp add: demo_running_state)
qed





section \<open>Listing\<close>

lemma collect_options_Some: "collect_options (map Some xs) = Some xs"
  by (induction xs) simp_all

lemma result_ok_label: "valid_realm_id l \<Longrightarrow> result_ok (parse_label_id l) = Some l"
  by (auto simp: valid_realm_id_def result_ok_def parse_label_id_def id_parse_def split: if_splits)

lemma parse_target_form: "parse_target_realm (target_form p) = Inr p"
proof -
  have "str_split (CHR ''.'') (target_form p) = labels p"
    unfolding target_form_def by (rule str_split_join) (simp_all add: labels_no_separator labels_bounds)
  moreover have "map (\<lambda>label. result_ok (parse_label_id label)) (labels p) = map Some (labels p)"
    using labels_bounds(4) [of p] by (simp add: list_all_iff result_ok_label)
  ultimately have "collect_options (map (\<lambda>label. result_ok (parse_label_id label)) (str_split (CHR ''.'') (target_form p))) =
      Some (labels p)"
    by (simp only: collect_options_Some)
  then show ?thesis by (simp add: parse_target_realm_def)
qed

text \<open>Records written by \<open>open\<close> for valid identifiers are all listed, in the order of \<open>active_records\<close>.\<close>

lemma summary_from_record_ok:
  assumes "tk_realm (sr_target_key r) = target_form realm" "parse_label_id (tk_workload (sr_target_key r)) = Inr w"
    and "parse_opaque_id (sr_operation_id r) = Inr operation" "parse_opaque_id (sr_principal r) = Inr caller"
  shows "summary_from_record r =
    Inr \<lparr>dss_session_id = sr_id r, dss_state = sr_state r, dss_generation = sr_generation r, dss_realm = realm,
         dss_workload = w, dss_operation_id = operation, dss_peer_principal = caller\<rparr>"
  using assms by (simp add: summary_from_record_def parse_target_form result_ok_def)

lemma list_sessions_complete:
  assumes "\<And>r. r \<in> set (active_records l) \<Longrightarrow> is_ok (summary_from_record r)"
  shows "\<exists>ss. list_sessions l = Inr ss \<and> length ss = length (active_records l)"
proof -
  have "\<exists>ss. collect_results (map summary_from_record rs) = Inr ss \<and> length ss = length rs"
    if "\<And>r. r \<in> set rs \<Longrightarrow> is_ok (summary_from_record r)" for rs
    using that
  proof (induction rs)
    case (Cons r rs)
    then obtain ss where "collect_results (map summary_from_record rs) = Inr ss" "length ss = length rs" by auto
    moreover obtain v where "summary_from_record r = Inr v"
      using Cons.prems [of r] by (cases "summary_from_record r") auto
    ultimately show ?case by simp
  qed simp
  with assms show ?thesis unfolding list_sessions_def by blast
qed

end
