(* ===== verification/Allocator_Model.thy ===== *)
theory Allocator_Model
  imports Frames "HOL-Library.Product_Lexorder"
begin

text \<open>
  The data of the local-root host-resource allocator, \<open>d2b-realm-core/src/allocator.rs\<close>: resource kinds,
  lease requests and their acquisition order, leases and their life cycle, results, observations and
  reconciliation records, with the checks of the custom decoders.

  A struct with a derived \<open>Ord\<close> that the code sorts by (\<open>ResourceAcquisitionKey\<close>) is a tuple of its fields in
  declaration order. The decoders of \<open>LeaseAllocationResult\<close> and \<open>ReconciliationDecision\<close> read a sequence of
  keyed values; the JSON syntax below that is not modelled.
\<close>

section \<open>Resources\<close>

definition MAX_ALLOCATOR_REQUEST_RESOURCES :: nat where
  "MAX_ALLOCATOR_REQUEST_RESOURCES = 32"

definition MAX_ALLOCATOR_CONFLICTS :: nat where
  "MAX_ALLOCATOR_CONFLICTS = 16"

definition MAX_RECONCILIATION_RECORDS :: nat where
  "MAX_RECONCILIATION_RECORDS = 128"

definition MAX_ALLOCATOR_EVENTS :: nat where
  "MAX_ALLOCATOR_EVENTS = 128"

datatype host_resource_kind =
    Res_Bridge | Res_Tap | Res_VethPair | Res_NftablesTable | Res_NftablesPartition | Res_CgroupSubtree
  | Res_HostFilePartition | Res_NamespaceBoundary

primrec kind_metric_label :: "host_resource_kind \<Rightarrow> string" where
  "kind_metric_label Res_Bridge = ''bridge''"
| "kind_metric_label Res_Tap = ''tap''"
| "kind_metric_label Res_VethPair = ''veth-pair''"
| "kind_metric_label Res_NftablesTable = ''nftables-table''"
| "kind_metric_label Res_NftablesPartition = ''nftables-partition''"
| "kind_metric_label Res_CgroupSubtree = ''cgroup-subtree''"
| "kind_metric_label Res_HostFilePartition = ''host-file-partition''"
| "kind_metric_label Res_NamespaceBoundary = ''namespace-boundary''"

text \<open>The derived order of the enum: declaration order.\<close>

primrec kind_rank :: "host_resource_kind \<Rightarrow> nat" where
  "kind_rank Res_Bridge = 0"
| "kind_rank Res_Tap = 1"
| "kind_rank Res_VethPair = 2"
| "kind_rank Res_NftablesTable = 3"
| "kind_rank Res_NftablesPartition = 4"
| "kind_rank Res_CgroupSubtree = 5"
| "kind_rank Res_HostFilePartition = 6"
| "kind_rank Res_NamespaceBoundary = 7"

lemma kind_rank_inject: "kind_rank j = kind_rank k \<Longrightarrow> j = k"
  by (cases j; cases k) simp_all

instantiation host_resource_kind :: linorder
begin

definition less_eq_host_resource_kind :: "host_resource_kind \<Rightarrow> host_resource_kind \<Rightarrow> bool" where
  "less_eq_host_resource_kind j k \<longleftrightarrow> kind_rank j \<le> kind_rank k"

definition less_host_resource_kind :: "host_resource_kind \<Rightarrow> host_resource_kind \<Rightarrow> bool" where
  "less_host_resource_kind j k \<longleftrightarrow> kind_rank j < kind_rank k"

instance
  by standard (auto simp: less_eq_host_resource_kind_def less_host_resource_kind_def intro: kind_rank_inject)

end

record lease_owner =
  lo_realm :: realm_path
  lo_controller_generation :: string
  lo_node :: "node_id option"

datatype resource_share_mode = Exclusive | SharedPartition

text \<open>\<open>share_rank\<close> of \<open>allocator_engine.rs\<close> orders the modes.\<close>

primrec share_rank :: "resource_share_mode \<Rightarrow> nat" where
  "share_rank Exclusive = 0"
| "share_rank SharedPartition = 1"

instantiation resource_share_mode :: linorder
begin

definition less_eq_resource_share_mode :: "resource_share_mode \<Rightarrow> resource_share_mode \<Rightarrow> bool" where
  "less_eq_resource_share_mode j k \<longleftrightarrow> share_rank j \<le> share_rank k"

definition less_resource_share_mode :: "resource_share_mode \<Rightarrow> resource_share_mode \<Rightarrow> bool" where
  "less_resource_share_mode j k \<longleftrightarrow> share_rank j < share_rank k"

instance
proof
  fix j k :: resource_share_mode
  show "j \<le> k \<Longrightarrow> k \<le> j \<Longrightarrow> j = k"
    by (cases j; cases k) (simp_all add: less_eq_resource_share_mode_def)
qed (auto simp: less_eq_resource_share_mode_def less_resource_share_mode_def)

end

text \<open>Phase and ordinal.\<close>

type_synonym resource_acquisition_order = "u16 \<times> u16"

text \<open>Order, kind and resource id.\<close>

type_synonym resource_acquisition_key = "resource_acquisition_order \<times> host_resource_kind \<times> host_resource_id"

record lease_resource_request =
  lrr_resource_id :: host_resource_id
  lrr_kind :: host_resource_kind
  lrr_share :: resource_share_mode
  lrr_acquisition_order :: resource_acquisition_order

definition acquisition_key :: "lease_resource_request \<Rightarrow> resource_acquisition_key" where
  "acquisition_key r = (lrr_acquisition_order r, lrr_kind r, lrr_resource_id r)"

record lease_allocation_request =
  lar_operation_id :: operation_id
  lar_correlation_id :: correlation_id
  lar_idempotency_key :: idempotency_key
  lar_owner :: lease_owner
  lar_resources :: "lease_resource_request list"
  lar_trace :: "trace_context option"

definition acquisition_order :: "lease_allocation_request \<Rightarrow> resource_acquisition_key list" where
  "acquisition_order req = sort (map acquisition_key (lar_resources req))"

text \<open>The loop that inserts ids into a set and stops at the first one already there.\<close>

primrec has_duplicate :: "'a::linorder btset \<Rightarrow> 'a list \<Rightarrow> bool" where
  "has_duplicate seen [] \<longleftrightarrow> False"
| "has_duplicate seen (x # xs) \<longleftrightarrow> bt_contains seen x \<or> has_duplicate (bt_insert x () seen) xs"

lemma has_duplicate_iff:
  "has_duplicate seen xs \<longleftrightarrow> \<not> distinct xs \<or> (\<exists>x \<in> set xs. bt_contains seen x)"
  by (induction xs arbitrary: seen) auto

definition validate_len :: "'a list \<Rightarrow> nat \<Rightarrow> bool" where
  "validate_len items n \<longleftrightarrow> length items \<le> n"

definition validate_len_non_empty :: "'a list \<Rightarrow> nat \<Rightarrow> bool" where
  "validate_len_non_empty items n \<longleftrightarrow> items \<noteq> [] \<and> validate_len items n"

definition validate_resource_requests :: "lease_resource_request list \<Rightarrow> bool" where
  "validate_resource_requests rs \<longleftrightarrow>
     validate_len_non_empty rs MAX_ALLOCATOR_REQUEST_RESOURCES \<and>
     \<not> has_duplicate bt_empty (map lrr_resource_id rs)"

definition decode_lease_allocation_request :: "lease_allocation_request \<Rightarrow> lease_allocation_request option" where
  "decode_lease_allocation_request raw =
     (if validate_resource_requests (lar_resources raw) then Some raw else None)"


section \<open>Leases\<close>

datatype resource_delegation =
    Del_OpaqueName host_resource_id | Del_FileDescriptor host_resource_id | Del_PartitionId host_resource_id
  | Del_NamespaceHandle host_resource_id

record granted_host_resource =
  ghr_resource_id :: host_resource_id
  ghr_kind :: host_resource_kind
  ghr_share :: resource_share_mode
  ghr_delegation :: resource_delegation
  ghr_acquisition_order :: resource_acquisition_order

datatype allocator_lease_state = Lease_Granted | Lease_Reconciled | Lease_Quarantined | Lease_Reclaimed | Lease_Denied

definition lease_is_terminal :: "allocator_lease_state \<Rightarrow> bool" where
  "lease_is_terminal s \<longleftrightarrow> s = Lease_Reclaimed \<or> s = Lease_Denied"

definition can_transition_to :: "allocator_lease_state \<Rightarrow> allocator_lease_state \<Rightarrow> bool" where
  "can_transition_to s next \<longleftrightarrow>
     (s, next) \<in>
       {(Lease_Granted, Lease_Reconciled), (Lease_Granted, Lease_Quarantined), (Lease_Granted, Lease_Reclaimed),
        (Lease_Reconciled, Lease_Quarantined), (Lease_Reconciled, Lease_Reclaimed),
        (Lease_Quarantined, Lease_Reconciled), (Lease_Quarantined, Lease_Reclaimed)}"

interpretation lease_lifecycle: lifecycle can_transition_to lease_is_terminal
  by unfold_locales (auto simp: can_transition_to_def lease_is_terminal_def)

record allocator_lease =
  al_lease_id :: lease_id
  al_owner :: lease_owner
  al_state :: allocator_lease_state
  al_resources :: "granted_host_resource list"

definition validate_granted_resources :: "granted_host_resource list \<Rightarrow> bool" where
  "validate_granted_resources rs \<longleftrightarrow>
     validate_len_non_empty rs MAX_ALLOCATOR_REQUEST_RESOURCES \<and>
     \<not> has_duplicate bt_empty (map ghr_resource_id rs)"

definition decode_allocator_lease :: "allocator_lease \<Rightarrow> allocator_lease option" where
  "decode_allocator_lease raw = (if validate_granted_resources (al_resources raw) then Some raw else None)"


section \<open>Results\<close>

datatype allocator_reason_code =
    Rsn_ResourceConflict | Rsn_OwnershipConflict | Rsn_AcquisitionOrderViolation | Rsn_InvalidRequest
  | Rsn_CapacityExhausted | Rsn_DriftDetected | Rsn_ReconcileMismatch | Rsn_OwnerNotLive | Rsn_PolicyDenied
  | Rsn_UnsupportedKind | Rsn_StorageContractViolation | Rsn_KernelStateUnknown

primrec reason_metric_label :: "allocator_reason_code \<Rightarrow> string" where
  "reason_metric_label Rsn_ResourceConflict = ''resource-conflict''"
| "reason_metric_label Rsn_OwnershipConflict = ''ownership-conflict''"
| "reason_metric_label Rsn_AcquisitionOrderViolation = ''acquisition-order-violation''"
| "reason_metric_label Rsn_InvalidRequest = ''invalid-request''"
| "reason_metric_label Rsn_CapacityExhausted = ''capacity-exhausted''"
| "reason_metric_label Rsn_DriftDetected = ''drift-detected''"
| "reason_metric_label Rsn_ReconcileMismatch = ''reconcile-mismatch''"
| "reason_metric_label Rsn_OwnerNotLive = ''owner-not-live''"
| "reason_metric_label Rsn_PolicyDenied = ''policy-denied''"
| "reason_metric_label Rsn_UnsupportedKind = ''unsupported-kind''"
| "reason_metric_label Rsn_StorageContractViolation = ''storage-contract-violation''"
| "reason_metric_label Rsn_KernelStateUnknown = ''kernel-state-unknown''"

record allocator_conflict =
  ac_resource_id :: host_resource_id
  ac_kind :: host_resource_kind
  ac_reason :: allocator_reason_code
  ac_existing_lease :: "lease_id option"

datatype lease_allocation_result =
    Alloc_Granted allocator_lease
  | Alloc_Denied allocator_reason_code "allocator_conflict list"

record lease_allocation_response =
  lresp_operation_id :: operation_id
  lresp_correlation_id :: correlation_id
  lresp_result :: lease_allocation_result

text \<open>Decoding a result: the keyed values in the order they arrive, \<open>None\<close> for a null.\<close>

datatype alloc_status = Status_Granted | Status_Denied

datatype result_field =
    Field_Status alloc_status
  | Field_Lease "allocator_lease option"
  | Field_Reason "allocator_reason_code option"
  | Field_Conflicts "allocator_conflict list option"
  | Field_Unknown string

record raw_result =
  raw_status :: "alloc_status option"
  raw_lease :: "allocator_lease option option"
  raw_reason :: "allocator_reason_code option option"
  raw_conflicts :: "allocator_conflict list option option"

primrec read_result_field :: "result_field \<Rightarrow> raw_result \<Rightarrow> raw_result option" where
  "read_result_field (Field_Status s) raw =
     (if raw_status raw \<noteq> None then None else Some (raw\<lparr>raw_status := Some s\<rparr>))"
| "read_result_field (Field_Lease v) raw =
     (if raw_lease raw \<noteq> None then None
      else case v of
        None \<Rightarrow> Some (raw\<lparr>raw_lease := Some None\<rparr>)
      | Some lease \<Rightarrow> map_option (\<lambda>l. raw\<lparr>raw_lease := Some (Some l)\<rparr>) (decode_allocator_lease lease))"
| "read_result_field (Field_Reason v) raw =
     (if raw_reason raw \<noteq> None then None else Some (raw\<lparr>raw_reason := Some v\<rparr>))"
| "read_result_field (Field_Conflicts v) raw =
     (if raw_conflicts raw \<noteq> None then None else Some (raw\<lparr>raw_conflicts := Some v\<rparr>))"
| "read_result_field (Field_Unknown name) raw = None"

primrec read_result_fields :: "result_field list \<Rightarrow> raw_result \<Rightarrow> raw_result option" where
  "read_result_fields [] raw = Some raw"
| "read_result_fields (f # fs) raw = Option.bind (read_result_field f raw) (read_result_fields fs)"

definition finish_result :: "raw_result \<Rightarrow> lease_allocation_result option" where
  "finish_result raw =
     (case raw_status raw of
        None \<Rightarrow> None
      | Some Status_Granted \<Rightarrow>
          if raw_reason raw \<noteq> None \<or> raw_conflicts raw \<noteq> None then None
          else (case raw_lease raw of Some (Some lease) \<Rightarrow> Some (Alloc_Granted lease) | _ \<Rightarrow> None)
      | Some Status_Denied \<Rightarrow>
          if raw_lease raw \<noteq> None then None
          else (case (raw_reason raw, raw_conflicts raw) of
                  (Some (Some reason), Some (Some conflicts)) \<Rightarrow>
                    if validate_len conflicts MAX_ALLOCATOR_CONFLICTS then Some (Alloc_Denied reason conflicts) else None
                | _ \<Rightarrow> None))"

definition decode_lease_allocation_result :: "result_field list \<Rightarrow> lease_allocation_result option" where
  "decode_lease_allocation_result fs =
     Option.bind (read_result_fields fs \<lparr>raw_status = None, raw_lease = None, raw_reason = None, raw_conflicts = None\<rparr>)
       finish_result"

text \<open>The serialized fields of a result.\<close>

primrec result_fields :: "lease_allocation_result \<Rightarrow> result_field list" where
  "result_fields (Alloc_Granted lease) = [Field_Status Status_Granted, Field_Lease (Some lease)]"
| "result_fields (Alloc_Denied reason conflicts) =
     [Field_Status Status_Denied, Field_Reason (Some reason), Field_Conflicts (Some conflicts)]"

primrec well_formed_result :: "lease_allocation_result \<Rightarrow> bool" where
  "well_formed_result (Alloc_Granted lease) \<longleftrightarrow> validate_granted_resources (al_resources lease)"
| "well_formed_result (Alloc_Denied reason conflicts) \<longleftrightarrow> validate_len conflicts MAX_ALLOCATOR_CONFLICTS"

lemma decode_result_fields: "well_formed_result r \<Longrightarrow> decode_lease_allocation_result (result_fields r) = Some r"
  by (cases r) (simp_all add: decode_lease_allocation_result_def finish_result_def decode_allocator_lease_def)


section \<open>Events, observations and reconciliation\<close>

datatype allocator_event_kind =
    AllocEv_Grant | AllocEv_Denial | AllocEv_Conflict | AllocEv_Reconciliation | AllocEv_Reclamation
  | AllocEv_Quarantine

primrec event_metric_label :: "allocator_event_kind \<Rightarrow> string" where
  "event_metric_label AllocEv_Grant = ''grant''"
| "event_metric_label AllocEv_Denial = ''denial''"
| "event_metric_label AllocEv_Conflict = ''conflict''"
| "event_metric_label AllocEv_Reconciliation = ''reconciliation''"
| "event_metric_label AllocEv_Reclamation = ''reclamation''"
| "event_metric_label AllocEv_Quarantine = ''quarantine''"

record allocator_event_metadata =
  aem_operation_id :: operation_id
  aem_correlation_id :: correlation_id
  aem_owner :: lease_owner
  aem_event :: allocator_event_kind
  aem_resource_kind :: "host_resource_kind option"
  aem_reason :: "allocator_reason_code option"
  aem_trace :: "trace_context option"

record persisted_resource_lease =
  prl_lease_id :: lease_id
  prl_owner :: lease_owner
  prl_state :: allocator_lease_state

datatype resource_observation_source =
    Src_KernelNetlink | Src_NftablesApi | Src_CgroupFs | Src_HostFilesystem | Src_NamespaceRegistry
  | Src_AllocatorLedger

datatype observed_resource_state = Obs_Present | Obs_Missing | Obs_ForeignOwner | Obs_Ambiguous | Obs_Inaccessible

record observed_host_resource =
  ohr_resource_id :: host_resource_id
  ohr_kind :: host_resource_kind
  ohr_source :: resource_observation_source
  ohr_state :: observed_resource_state

datatype reconciliation_decision =
    Rec_Reconciled
  | Rec_Quarantine allocator_reason_code
  | Rec_Reclaim allocator_reason_code
  | Rec_Deny allocator_reason_code

definition decision_is_fail_closed :: "reconciliation_decision \<Rightarrow> bool" where
  "decision_is_fail_closed d \<longleftrightarrow>
     (case d of Rec_Quarantine _ \<Rightarrow> True | Rec_Deny _ \<Rightarrow> True | Rec_Reclaim _ \<Rightarrow> True | _ \<Rightarrow> False)"

datatype decision_tag = Tag_Reconciled | Tag_Quarantine | Tag_Reclaim | Tag_Deny

datatype decision_field =
    Field_Decision decision_tag
  | Field_DecisionReason "allocator_reason_code option"
  | Field_DecisionUnknown string

type_synonym raw_decision = "decision_tag option \<times> allocator_reason_code option option"

fun read_decision_field :: "decision_field \<Rightarrow> raw_decision \<Rightarrow> raw_decision option" where
  "read_decision_field (Field_Decision t) (tag, reason) = (if tag \<noteq> None then None else Some (Some t, reason))"
| "read_decision_field (Field_DecisionReason v) (tag, reason) = (if reason \<noteq> None then None else Some (tag, Some v))"
| "read_decision_field (Field_DecisionUnknown name) raw = None"

primrec read_decision_fields :: "decision_field list \<Rightarrow> raw_decision \<Rightarrow> raw_decision option" where
  "read_decision_fields [] raw = Some raw"
| "read_decision_fields (f # fs) raw = Option.bind (read_decision_field f raw) (read_decision_fields fs)"

definition finish_decision :: "raw_decision \<Rightarrow> reconciliation_decision option" where
  "finish_decision raw =
     (case raw of (tag, reason) \<Rightarrow>
        let value = (case reason of Some v \<Rightarrow> v | None \<Rightarrow> None) in
        case tag of
          None \<Rightarrow> None
        | Some Tag_Reconciled \<Rightarrow> if reason \<noteq> None then None else Some Rec_Reconciled
        | Some Tag_Quarantine \<Rightarrow> map_option Rec_Quarantine value
        | Some Tag_Reclaim \<Rightarrow> map_option Rec_Reclaim value
        | Some Tag_Deny \<Rightarrow> map_option Rec_Deny value)"

definition decode_reconciliation_decision :: "decision_field list \<Rightarrow> reconciliation_decision option" where
  "decode_reconciliation_decision fs = Option.bind (read_decision_fields fs (None, None)) finish_decision"

primrec decision_fields :: "reconciliation_decision \<Rightarrow> decision_field list" where
  "decision_fields Rec_Reconciled = [Field_Decision Tag_Reconciled]"
| "decision_fields (Rec_Quarantine r) = [Field_Decision Tag_Quarantine, Field_DecisionReason (Some r)]"
| "decision_fields (Rec_Reclaim r) = [Field_Decision Tag_Reclaim, Field_DecisionReason (Some r)]"
| "decision_fields (Rec_Deny r) = [Field_Decision Tag_Deny, Field_DecisionReason (Some r)]"

lemma decode_decision_fields: "decode_reconciliation_decision (decision_fields d) = Some d"
  by (cases d) (simp_all add: decode_reconciliation_decision_def finish_decision_def)

record reconciliation_record =
  rr_resource_id :: host_resource_id
  rr_kind :: host_resource_kind
  rr_persisted :: "persisted_resource_lease option"
  rr_observed :: observed_host_resource
  rr_decision :: reconciliation_decision

record reconciliation_report =
  rep_operation_id :: operation_id
  rep_correlation_id :: correlation_id
  rep_records :: "reconciliation_record list"
  rep_events :: "allocator_event_metadata list"

definition decode_reconciliation_report :: "reconciliation_report \<Rightarrow> reconciliation_report option" where
  "decode_reconciliation_report raw =
     (if validate_len (rep_records raw) MAX_RECONCILIATION_RECORDS \<and> validate_len (rep_events raw) MAX_ALLOCATOR_EVENTS
      then Some raw else None)"

end
