(* ===== verification/Allocator_Engine.thy ===== *)
theory Allocator_Engine
  imports Allocator_Model Digits "HOL-Library.Option_ord"
begin

text \<open>
  The local-root allocator engine \<open>d2b-realm-core/src/allocator_engine.rs\<close>: allocation with mandatory
  idempotency, conflict detection against leases and host observations, reconciliation, and the bounded
  events and metrics of both.

  The engine is a record of the ledger, the observed host state and the live owners. \<open>allocate\<close> is a
  partial function of it: \<open>None\<close> stands for the loop of \<open>next_lease_id\<close> not returning or its \<open>expect\<close>
  panicking. The \<open>u64\<close> sequence number wraps.
\<close>

section \<open>Decisions\<close>

datatype allocator_engine_outcome =
    Out_Granted | Out_Denied | Out_Reconciled | Out_Reclaimed | Out_Quarantined | Out_Preserved
  | Out_IdempotentReplay

primrec outcome_metric_label :: "allocator_engine_outcome \<Rightarrow> string" where
  "outcome_metric_label Out_Granted = ''granted''"
| "outcome_metric_label Out_Denied = ''denied''"
| "outcome_metric_label Out_Reconciled = ''reconciled''"
| "outcome_metric_label Out_Reclaimed = ''reclaimed''"
| "outcome_metric_label Out_Quarantined = ''quarantined''"
| "outcome_metric_label Out_Preserved = ''preserved''"
| "outcome_metric_label Out_IdempotentReplay = ''idempotent-replay''"

datatype allocator_engine_decision =
    Dec_Grant
  | Dec_DenyConflict allocator_reason_code
  | Dec_Reclaim allocator_reason_code
  | Dec_Quarantine allocator_reason_code
  | Dec_Preserve allocator_reason_code
  | Dec_Reconcile

primrec decision_reason :: "allocator_engine_decision \<Rightarrow> allocator_reason_code option" where
  "decision_reason Dec_Grant = None"
| "decision_reason (Dec_DenyConflict r) = Some r"
| "decision_reason (Dec_Reclaim r) = Some r"
| "decision_reason (Dec_Quarantine r) = Some r"
| "decision_reason (Dec_Preserve r) = Some r"
| "decision_reason Dec_Reconcile = None"

primrec decision_event_kind :: "allocator_engine_decision \<Rightarrow> allocator_event_kind" where
  "decision_event_kind Dec_Grant = AllocEv_Grant"
| "decision_event_kind (Dec_DenyConflict r) = AllocEv_Denial"
| "decision_event_kind (Dec_Reclaim r) = AllocEv_Reclamation"
| "decision_event_kind (Dec_Quarantine r) = AllocEv_Quarantine"
| "decision_event_kind (Dec_Preserve r) = AllocEv_Reconciliation"
| "decision_event_kind Dec_Reconcile = AllocEv_Reconciliation"

primrec decision_outcome :: "allocator_engine_decision \<Rightarrow> allocator_engine_outcome" where
  "decision_outcome Dec_Grant = Out_Granted"
| "decision_outcome (Dec_DenyConflict r) = Out_Denied"
| "decision_outcome (Dec_Reclaim r) = Out_Reclaimed"
| "decision_outcome (Dec_Quarantine r) = Out_Quarantined"
| "decision_outcome (Dec_Preserve r) = Out_Preserved"
| "decision_outcome Dec_Reconcile = Out_Reconciled"

primrec to_reconciliation_decision :: "allocator_engine_decision \<Rightarrow> reconciliation_decision" where
  "to_reconciliation_decision Dec_Grant = Rec_Reconciled"
| "to_reconciliation_decision (Dec_DenyConflict r) = Rec_Deny r"
| "to_reconciliation_decision (Dec_Reclaim r) = Rec_Reclaim r"
| "to_reconciliation_decision (Dec_Quarantine r) = Rec_Quarantine r"
| "to_reconciliation_decision (Dec_Preserve r) = Rec_Deny r"
| "to_reconciliation_decision Dec_Reconcile = Rec_Reconciled"


section \<open>Metrics and events\<close>

record allocator_metric_event =
  ame_event :: allocator_event_kind
  ame_outcome :: allocator_engine_outcome
  ame_resource_kind :: "host_resource_kind option"
  ame_reason :: "allocator_reason_code option"
  ame_count :: u64

text \<open>The labels in declaration order, compared by the derived \<open>Ord\<close>.\<close>

type_synonym allocator_metric_labels = "string \<times> string \<times> string option \<times> string option"

definition metric_new ::
    "allocator_event_kind \<Rightarrow> allocator_engine_outcome \<Rightarrow> host_resource_kind option \<Rightarrow> allocator_reason_code option \<Rightarrow>
     allocator_metric_event" where
  "metric_new event outcome kind reason =
     \<lparr>ame_event = event, ame_outcome = outcome, ame_resource_kind = kind, ame_reason = reason, ame_count = 1\<rparr>"

definition metric_labels :: "allocator_metric_event \<Rightarrow> allocator_metric_labels" where
  "metric_labels m =
     (event_metric_label (ame_event m), outcome_metric_label (ame_outcome m),
      map_option kind_metric_label (ame_resource_kind m), map_option reason_metric_label (ame_reason m))"

definition metric_from_decision ::
    "allocator_engine_decision \<Rightarrow> host_resource_kind option \<Rightarrow> allocator_metric_event" where
  "metric_from_decision d kind = metric_new (decision_event_kind d) (decision_outcome d) kind (decision_reason d)"

definition first_of :: "'a list \<Rightarrow> 'a option" where
  "first_of xs = (case xs of [] \<Rightarrow> None | x # _ \<Rightarrow> Some x)"

primrec metric_from_replay_result :: "lease_allocation_result \<Rightarrow> allocator_metric_event" where
  "metric_from_replay_result (Alloc_Granted lease) =
     metric_new AllocEv_Grant Out_IdempotentReplay (map_option ghr_kind (first_of (al_resources lease))) None"
| "metric_from_replay_result (Alloc_Denied reason conflicts) =
     metric_new AllocEv_Denial Out_IdempotentReplay (map_option ac_kind (first_of conflicts)) (Some reason)"

definition aggregate_metric ::
    "allocator_metric_event \<Rightarrow> (allocator_metric_labels, allocator_metric_event) btmap \<Rightarrow>
     (allocator_metric_labels, allocator_metric_event) btmap" where
  "aggregate_metric m agg =
     (case bt_get agg (metric_labels m) of
        Some existing \<Rightarrow>
          bt_insert (metric_labels m) (existing\<lparr>ame_count := sat_add (ame_count existing) (ame_count m)\<rparr>) agg
      | None \<Rightarrow> bt_insert (metric_labels m) m agg)"

definition bounded_metrics :: "allocator_metric_event list \<Rightarrow> allocator_metric_event list" where
  "bounded_metrics ms = take MAX_ALLOCATOR_EVENTS (bt_values (fold aggregate_metric ms bt_empty))"

definition bounded_events :: "allocator_event_metadata list \<Rightarrow> allocator_event_metadata list" where
  "bounded_events es = take MAX_ALLOCATOR_EVENTS es"

definition event_metadata ::
    "operation_id \<Rightarrow> correlation_id \<Rightarrow> lease_owner \<Rightarrow> allocator_engine_decision \<Rightarrow> host_resource_kind option \<Rightarrow>
     trace_context option \<Rightarrow> allocator_event_metadata" where
  "event_metadata operation correlation owner d kind trace =
     \<lparr>aem_operation_id = operation, aem_correlation_id = correlation, aem_owner = owner,
      aem_event = decision_event_kind d, aem_resource_kind = kind, aem_reason = decision_reason d, aem_trace = trace\<rparr>"


section \<open>The engine\<close>

record allocator_allocation_decision =
  aad_resource_id :: host_resource_id
  aad_kind :: host_resource_kind
  aad_decision :: allocator_engine_decision

record allocator_engine_allocation =
  aea_response :: lease_allocation_response
  aea_decisions :: "allocator_allocation_decision list"
  aea_events :: "allocator_event_metadata list"
  aea_metrics :: "allocator_metric_event list"
  aea_acquired :: "resource_acquisition_key list"

record allocator_reconciliation_action =
  ara_resource_id :: host_resource_id
  ara_kind :: host_resource_kind
  ara_persisted :: "persisted_resource_lease option"
  ara_observed :: observed_host_resource
  ara_decision :: allocator_engine_decision

record allocator_engine_reconciliation =
  aer_report :: reconciliation_report
  aer_actions :: "allocator_reconciliation_action list"
  aer_metrics :: "allocator_metric_event list"

text \<open>\<open>RequestedResourceSignature\<close>: the acquisition key, then the share mode by rank.\<close>

type_synonym requested_resource_signature = "resource_acquisition_key \<times> resource_share_mode"

record allocation_request_signature =
  ars_owner :: lease_owner
  ars_resources :: "requested_resource_signature list"

definition signature_from_request :: "lease_allocation_request \<Rightarrow> allocation_request_signature" where
  "signature_from_request req =
     \<lparr>ars_owner = lar_owner req,
      ars_resources = sort (map (\<lambda>r. (acquisition_key r, lrr_share r)) (lar_resources req))\<rparr>"

record allocator_idempotency_record =
  air_key :: idempotency_key
  air_signature :: allocation_request_signature
  air_result :: lease_allocation_result

record fake_allocator_ledger =
  led_leases :: "allocator_lease list"
  led_idempotency :: "allocator_idempotency_record list"
  led_next_lease_sequence :: u64

definition allocator_ledger_new :: "allocator_lease list \<Rightarrow> fake_allocator_ledger" where
  "allocator_ledger_new leases = \<lparr>led_leases = leases, led_idempotency = [], led_next_lease_sequence = 1\<rparr>"

definition remember_idempotency ::
    "fake_allocator_ledger \<Rightarrow> idempotency_key \<Rightarrow> allocation_request_signature \<Rightarrow> lease_allocation_result \<Rightarrow>
     fake_allocator_ledger" where
  "remember_idempotency led key sig result =
     led\<lparr>led_idempotency := led_idempotency led @ [\<lparr>air_key = key, air_signature = sig, air_result = result\<rparr>]\<rparr>"

definition idempotency_record :: "fake_allocator_ledger \<Rightarrow> idempotency_key \<Rightarrow> allocator_idempotency_record option" where
  "idempotency_record led key = List.find (\<lambda>r. air_key r = key) (led_idempotency led)"

definition lease_candidate :: "u64 \<Rightarrow> string" where
  "lease_candidate seq = ''lease-engine-'' @ decimal (unat seq)"

partial_function (option) lease_id_from :: "string list \<Rightarrow> u64 \<Rightarrow> (lease_id \<times> u64) option" where
  "lease_id_from existing seq =
     (if lease_candidate seq \<in> set existing then lease_id_from existing (seq + 1)
      else case parse_opaque_id (lease_candidate seq) of
        Inl _ \<Rightarrow> None
      | Inr lid \<Rightarrow> Some (lid, seq + 1))"

definition next_lease_id :: "fake_allocator_ledger \<Rightarrow> (lease_id \<times> fake_allocator_ledger) option" where
  "next_lease_id led =
     map_option (\<lambda>(lid, seq). (lid, led\<lparr>led_next_lease_sequence := seq\<rparr>))
       (lease_id_from (map al_lease_id (led_leases led)) (led_next_lease_sequence led))"

record allocator_engine =
  eng_allocator_owner :: lease_owner
  eng_ledger :: fake_allocator_ledger
  eng_observed :: "observed_host_resource list"
  eng_live_owners :: "lease_owner list"

definition is_live :: "allocator_engine \<Rightarrow> lease_owner \<Rightarrow> bool" where
  "is_live e owner \<longleftrightarrow> owner \<in> set (eng_live_owners e)"

definition has_duplicate_requested_resources :: "lease_allocation_request \<Rightarrow> bool" where
  "has_duplicate_requested_resources req \<longleftrightarrow> has_duplicate bt_empty (map lrr_resource_id (lar_resources req))"

definition delegation_for :: "host_resource_kind \<Rightarrow> resource_share_mode \<Rightarrow> host_resource_id \<Rightarrow> resource_delegation" where
  "delegation_for kind share rid =
     (if share = SharedPartition then Del_PartitionId rid
      else if kind = Res_NftablesPartition \<or> kind = Res_HostFilePartition then Del_PartitionId rid
      else if kind = Res_NamespaceBoundary then Del_NamespaceHandle rid
      else Del_OpaqueName rid)"

definition granted_resource :: "lease_resource_request \<Rightarrow> granted_host_resource" where
  "granted_resource r =
     \<lparr>ghr_resource_id = lrr_resource_id r, ghr_kind = lrr_kind r, ghr_share = lrr_share r,
      ghr_delegation = delegation_for (lrr_kind r) (lrr_share r) (lrr_resource_id r),
      ghr_acquisition_order = lrr_acquisition_order r\<rparr>"

definition grant_resources_in_order :: "lease_allocation_request \<Rightarrow> granted_host_resource list" where
  "grant_resources_in_order req =
     (let by_id = fold (\<lambda>r. bt_insert (lrr_resource_id r) r) (lar_resources req) bt_empty in
      List.map_filter (\<lambda>(order, kind, rid). map_option granted_resource (bt_get by_id rid)) (acquisition_order req))"

definition lease_holds :: "allocator_lease \<Rightarrow> host_resource_kind \<Rightarrow> host_resource_id \<Rightarrow> bool" where
  "lease_holds lease kind rid \<longleftrightarrow> list_ex (\<lambda>g. ghr_kind g = kind \<and> ghr_resource_id g = rid) (al_resources lease)"

definition persisted_conflict :: "allocator_engine \<Rightarrow> lease_owner \<Rightarrow> resource_acquisition_key \<Rightarrow> allocator_conflict option" where
  "persisted_conflict e owner key =
     (case key of (order, kind, rid) \<Rightarrow>
        map_option
          (\<lambda>lease. \<lparr>ac_resource_id = rid, ac_kind = kind,
             ac_reason = (if al_owner lease = owner then Rsn_OwnershipConflict else Rsn_ResourceConflict),
             ac_existing_lease = Some (al_lease_id lease)\<rparr>)
          (List.find (\<lambda>lease. lease_holds lease kind rid)
             (filter (\<lambda>lease. \<not> lease_is_terminal (al_state lease)) (led_leases (eng_ledger e)))))"

primrec observed_reason :: "observed_resource_state \<Rightarrow> allocator_reason_code option" where
  "observed_reason Obs_Missing = None"
| "observed_reason Obs_Present = Some Rsn_ResourceConflict"
| "observed_reason Obs_ForeignOwner = Some Rsn_OwnershipConflict"
| "observed_reason Obs_Ambiguous = Some Rsn_KernelStateUnknown"
| "observed_reason Obs_Inaccessible = Some Rsn_KernelStateUnknown"

definition observed_conflict :: "allocator_engine \<Rightarrow> resource_acquisition_key \<Rightarrow> allocator_conflict option" where
  "observed_conflict e key =
     (case key of (order, kind, rid) \<Rightarrow>
        map_option
          (\<lambda>reason. \<lparr>ac_resource_id = rid, ac_kind = kind, ac_reason = reason, ac_existing_lease = None\<rparr>)
          (Option.bind (List.find (\<lambda>ob. ohr_kind ob = kind \<and> ohr_resource_id ob = rid) (eng_observed e))
             (\<lambda>ob. observed_reason (ohr_state ob))))"

definition option_list :: "'a option \<Rightarrow> 'a list" where
  "option_list x = (case x of None \<Rightarrow> [] | Some v \<Rightarrow> [v])"

text \<open>The loop of \<open>allocation_conflicts\<close>, with the conflicts found so far.\<close>

primrec collect_conflicts ::
    "allocator_engine \<Rightarrow> lease_owner \<Rightarrow> resource_acquisition_key list \<Rightarrow> allocator_conflict list \<Rightarrow> allocator_conflict list" where
  "collect_conflicts e owner [] found = found"
| "collect_conflicts e owner (key # keys) found =
     (let found' = found @ option_list (persisted_conflict e owner key) @ option_list (observed_conflict e key) in
      if MAX_ALLOCATOR_CONFLICTS \<le> length found' then found' else collect_conflicts e owner keys found')"

definition allocation_conflicts :: "allocator_engine \<Rightarrow> lease_allocation_request \<Rightarrow> allocator_conflict list" where
  "allocation_conflicts e req = collect_conflicts e (lar_owner req) (acquisition_order req) []"

definition respond :: "lease_allocation_request \<Rightarrow> lease_allocation_result \<Rightarrow> lease_allocation_response" where
  "respond req result =
     \<lparr>lresp_operation_id = lar_operation_id req, lresp_correlation_id = lar_correlation_id req, lresp_result = result\<rparr>"

definition allocation_outcome ::
    "lease_allocation_request \<Rightarrow> lease_allocation_result \<Rightarrow> allocator_allocation_decision list \<Rightarrow> allocator_engine_allocation" where
  "allocation_outcome req result decisions =
     \<lparr>aea_response = respond req result, aea_decisions = decisions,
      aea_events = bounded_events
        (map (\<lambda>d. event_metadata (lar_operation_id req) (lar_correlation_id req) (lar_owner req) (aad_decision d)
                    (Some (aad_kind d)) (lar_trace req)) decisions),
      aea_metrics = bounded_metrics (map (\<lambda>d. metric_from_decision (aad_decision d) (Some (aad_kind d))) decisions),
      aea_acquired = acquisition_order req\<rparr>"

definition deny_request ::
    "allocator_engine \<Rightarrow> lease_allocation_request \<Rightarrow> allocator_reason_code \<Rightarrow> allocator_conflict list \<Rightarrow>
     allocator_engine_allocation \<times> allocator_engine" where
  "deny_request e req reason conflicts0 =
     (let conflicts = take MAX_ALLOCATOR_CONFLICTS conflicts0;
          decisions =
            (if conflicts = []
             then map (\<lambda>r. \<lparr>aad_resource_id = lrr_resource_id r, aad_kind = lrr_kind r,
                            aad_decision = Dec_DenyConflict reason\<rparr>) (lar_resources req)
             else map (\<lambda>c. \<lparr>aad_resource_id = ac_resource_id c, aad_kind = ac_kind c,
                            aad_decision = Dec_DenyConflict (ac_reason c)\<rparr>) conflicts);
          result = Alloc_Denied reason conflicts
      in (allocation_outcome req result decisions,
          if idempotency_record (eng_ledger e) (lar_idempotency_key req) = None
          then e\<lparr>eng_ledger := remember_idempotency (eng_ledger e) (lar_idempotency_key req)
                   (signature_from_request req) result\<rparr>
          else e))"

definition replay_allocation :: "lease_allocation_request \<Rightarrow> lease_allocation_result \<Rightarrow> allocator_engine_allocation" where
  "replay_allocation req result =
     \<lparr>aea_response = respond req result, aea_decisions = [], aea_events = [],
      aea_metrics = [metric_from_replay_result result], aea_acquired = acquisition_order req\<rparr>"

text \<open>The grant at the end of \<open>allocate\<close>.\<close>

definition grant_request ::
    "allocator_engine \<Rightarrow> lease_allocation_request \<Rightarrow> (allocator_engine_allocation \<times> allocator_engine) option" where
  "grant_request e req =
     map_option
       (\<lambda>(lid, led).
          let lease = \<lparr>al_lease_id = lid, al_owner = lar_owner req, al_state = Lease_Granted,
                       al_resources = grant_resources_in_order req\<rparr>;
              result = Alloc_Granted lease
          in (allocation_outcome req result
                (map (\<lambda>r. \<lparr>aad_resource_id = lrr_resource_id r, aad_kind = lrr_kind r, aad_decision = Dec_Grant\<rparr>)
                   (lar_resources req)),
              e\<lparr>eng_ledger := remember_idempotency (led\<lparr>led_leases := led_leases led @ [lease]\<rparr>)
                  (lar_idempotency_key req) (signature_from_request req) result\<rparr>))
       (next_lease_id (eng_ledger e))"

definition allocate ::
    "allocator_engine \<Rightarrow> lease_allocation_request \<Rightarrow> (allocator_engine_allocation \<times> allocator_engine) option" where
  "allocate e req =
     (case idempotency_record (eng_ledger e) (lar_idempotency_key req) of
        Some record \<Rightarrow>
          if air_signature record = signature_from_request req
          then Some (replay_allocation req (air_result record), e)
          else Some (deny_request e req Rsn_InvalidRequest [])
      | None \<Rightarrow>
          if \<not> is_live e (lar_owner req) then Some (deny_request e req Rsn_OwnerNotLive [])
          else if lar_resources req = [] \<or> MAX_ALLOCATOR_REQUEST_RESOURCES < length (lar_resources req)
          then Some (deny_request e req Rsn_InvalidRequest [])
          else if has_duplicate_requested_resources req then Some (deny_request e req Rsn_InvalidRequest [])
          else let conflicts = allocation_conflicts e req in
            if conflicts \<noteq> [] then Some (deny_request e req Rsn_ResourceConflict conflicts)
            else grant_request e req)"


section \<open>Reconciliation\<close>

record resource_pair =
  rp_persisted :: "persisted_resource_lease list"
  rp_observed :: "observed_host_resource option"

type_synonym resource_key = "host_resource_kind \<times> host_resource_id"

definition pair_at :: "(resource_key, resource_pair) btmap \<Rightarrow> resource_key \<Rightarrow> resource_pair" where
  "pair_at m key = (case bt_get m key of None \<Rightarrow> \<lparr>rp_persisted = [], rp_observed = None\<rparr> | Some p \<Rightarrow> p)"

definition persisted_lease :: "allocator_lease \<Rightarrow> persisted_resource_lease" where
  "persisted_lease lease = \<lparr>prl_lease_id = al_lease_id lease, prl_owner = al_owner lease, prl_state = al_state lease\<rparr>"

definition add_persisted ::
    "allocator_lease \<Rightarrow> granted_host_resource \<Rightarrow> (resource_key, resource_pair) btmap \<Rightarrow> (resource_key, resource_pair) btmap" where
  "add_persisted lease g m =
     (let key = (ghr_kind g, ghr_resource_id g); p = pair_at m key in
      bt_insert key (p\<lparr>rp_persisted := rp_persisted p @ [persisted_lease lease]\<rparr>) m)"

definition add_observed ::
    "observed_host_resource \<Rightarrow> (resource_key, resource_pair) btmap \<Rightarrow> (resource_key, resource_pair) btmap" where
  "add_observed ob m =
     (let key = (ohr_kind ob, ohr_resource_id ob) in bt_insert key ((pair_at m key)\<lparr>rp_observed := Some ob\<rparr>) m)"

definition resource_pairs :: "allocator_engine \<Rightarrow> (resource_key, resource_pair) btmap" where
  "resource_pairs e =
     fold add_observed (eng_observed e)
       (fold (\<lambda>lease. fold (add_persisted lease) (al_resources lease)) (led_leases (eng_ledger e)) bt_empty)"

definition decide_reconciliation ::
    "allocator_engine \<Rightarrow> persisted_resource_lease list \<Rightarrow> observed_host_resource \<Rightarrow> allocator_engine_decision" where
  "decide_reconciliation e persisted ob =
     (if 1 < length persisted then Dec_Quarantine Rsn_StorageContractViolation
      else case persisted of
        [] \<Rightarrow>
          (case ohr_state ob of
             Obs_Missing \<Rightarrow> Dec_Reconcile
           | Obs_Present \<Rightarrow> Dec_Preserve Rsn_ResourceConflict
           | Obs_ForeignOwner \<Rightarrow> Dec_Preserve Rsn_OwnershipConflict
           | _ \<Rightarrow> Dec_Quarantine Rsn_KernelStateUnknown)
      | p # _ \<Rightarrow>
          if lease_is_terminal (prl_state p) then
            (case ohr_state ob of
               Obs_Missing \<Rightarrow> Dec_Reconcile
             | Obs_Present \<Rightarrow> Dec_Preserve Rsn_OwnershipConflict
             | Obs_ForeignOwner \<Rightarrow> Dec_Preserve Rsn_OwnershipConflict
             | _ \<Rightarrow> Dec_Quarantine Rsn_KernelStateUnknown)
          else if \<not> is_live e (prl_owner p) then Dec_Reclaim Rsn_OwnerNotLive
          else
            (case ohr_state ob of
               Obs_Present \<Rightarrow> Dec_Reconcile
             | Obs_Missing \<Rightarrow> Dec_Reclaim Rsn_DriftDetected
             | Obs_ForeignOwner \<Rightarrow> Dec_Quarantine Rsn_DriftDetected
             | _ \<Rightarrow> Dec_Quarantine Rsn_KernelStateUnknown))"

definition reconciliation_action ::
    "allocator_engine \<Rightarrow> resource_key \<times> resource_pair \<Rightarrow> allocator_reconciliation_action" where
  "reconciliation_action e entry =
     (case entry of ((kind, rid), pair) \<Rightarrow>
        let ob = (case rp_observed pair of
                    Some ob \<Rightarrow> ob
                  | None \<Rightarrow> \<lparr>ohr_resource_id = rid, ohr_kind = kind, ohr_source = Src_AllocatorLedger,
                             ohr_state = Obs_Missing\<rparr>)
        in \<lparr>ara_resource_id = rid, ara_kind = kind, ara_persisted = first_of (rp_persisted pair), ara_observed = ob,
            ara_decision = decide_reconciliation e (rp_persisted pair) ob\<rparr>)"

definition reconciliation_actions :: "allocator_engine \<Rightarrow> allocator_reconciliation_action list" where
  "reconciliation_actions e = map (reconciliation_action e) (bt_entries (resource_pairs e))"

definition reconcile :: "allocator_engine \<Rightarrow> operation_id \<Rightarrow> correlation_id \<Rightarrow> allocator_engine_reconciliation" where
  "reconcile e operation correlation =
     (let actions = reconciliation_actions e in
      \<lparr>aer_report =
         \<lparr>rep_operation_id = operation, rep_correlation_id = correlation,
          rep_records =
            map (\<lambda>a. \<lparr>rr_resource_id = ara_resource_id a, rr_kind = ara_kind a, rr_persisted = ara_persisted a,
                      rr_observed = ara_observed a, rr_decision = to_reconciliation_decision (ara_decision a)\<rparr>)
              (take MAX_RECONCILIATION_RECORDS actions),
          rep_events =
            bounded_events
              (map (\<lambda>a. event_metadata operation correlation
                          (case ara_persisted a of Some p \<Rightarrow> prl_owner p | None \<Rightarrow> eng_allocator_owner e)
                          (ara_decision a) (Some (ara_kind a)) None) actions)\<rparr>,
       aer_actions = actions,
       aer_metrics = bounded_metrics (map (\<lambda>a. metric_from_decision (ara_decision a) (Some (ara_kind a))) actions)\<rparr>)"

end
