(* ===== verification/Allocator_Ids.thy ===== *)
theory Allocator_Ids
  imports Allocator_Engine
begin

text \<open>
  The lease ids of \<open>FakeAllocatorLedger::next_lease_id\<close> in \<open>allocator_engine.rs\<close>: every candidate is a valid
  identifier, so the \<open>expect\<close> never panics, and the loop over candidates returns a fresh one although its
  sequence number wraps.
\<close>

section \<open>Generated lease ids\<close>

lemma lease_candidate_inject [simp]: "lease_candidate s = lease_candidate t \<longleftrightarrow> s = t"
  by (simp add: lease_candidate_def decimal_inject word_unat_eq_iff)

lemma decimal_is_digit: "c \<in> set (decimal n) \<Longrightarrow> is_ascii_digit c"
  using decimal_digits [of c n] by (simp add: is_ascii_digit_def less_eq_char_def)

lemma digit_not_lowercase: "is_ascii_digit c \<Longrightarrow> \<not> is_ascii_lowercase c"
  by (simp add: is_ascii_digit_def is_ascii_lowercase_def less_eq_char_def)

lemma sublist_append_disjoint:
  assumes "sublist pat (xs @ ys)" "set pat \<inter> set ys = {}"
  shows "sublist pat xs"
  using assms unfolding sublist_append
proof (elim disjE exE conjE)
  assume "sublist pat ys"
  from set_mono_sublist [OF this] assms(2) have "set pat = {}" by (metis Int_absorb2)
  then show ?thesis by simp
next
  fix p q
  assume pq: "pat = p @ q" "suffix p xs" "prefix q ys"
  from set_mono_prefix [OF pq(3)] assms(2) pq(1) have "set q = {}" by (metis Int_absorb2 Int_empty_right Int_Un_distrib2 Un_empty set_append)
  with pq show ?thesis by (simp add: suffix_imp_sublist)
qed

lemma filter_decimal:
  "filter (\<lambda>c. c \<notin> set ''-_.'') (decimal n) = decimal n" "map to_lowercase (decimal n) = decimal n"
proof -
  have "c \<notin> set ''-_.'' \<and> to_lowercase c = c" if "c \<in> set (decimal n)" for c
    using decimal_is_digit [OF that]
    by (auto simp: is_ascii_digit_def to_lowercase_def is_ascii_uppercase_def less_eq_char_def)
  then show "filter (\<lambda>c. c \<notin> set ''-_.'') (decimal n) = decimal n" "map to_lowercase (decimal n) = decimal n"
    by (auto simp: filter_id_conv intro: map_idI)
qed

lemma lease_candidate_parses [simp]: "parse_opaque_id (lease_candidate seq) = Inr (lease_candidate seq)"
proof -
  let ?ds = "decimal (unat seq)"
  have len: "length ?ds \<le> 20"
  proof (rule length_decimal)
    show "unat seq < 10 ^ 20" by (rule less_le_trans [OF unsigned_less]) simp
  qed simp
  have marker: "\<not> str_contains (''leaseengine'' @ ?ds) pat" if "pat \<in> set SECRET_MARKERS" for pat
  proof
    assume "str_contains (''leaseengine'' @ ?ds) pat"
    moreover have "set pat \<inter> set ?ds = {}"
    proof -
      have "list_all is_ascii_lowercase pat"
        using that unfolding SECRET_MARKERS_def by (simp, elim disjE; simp; code_simp)
      then show ?thesis
        using decimal_is_digit [of _ "unat seq"] digit_not_lowercase by (auto simp: list_all_iff)
    qed
    ultimately have "str_contains ''leaseengine'' pat"
      unfolding str_contains_iff by (rule sublist_append_disjoint)
    with that show False unfolding SECRET_MARKERS_def by (simp, elim disjE; simp)
  qed
  have compact: "map to_lowercase (filter (\<lambda>c. c \<notin> set ''-_.'') (lease_candidate seq)) = ''leaseengine'' @ ?ds"
    using filter_decimal [of "unat seq"]
    by (simp add: lease_candidate_def to_lowercase_def is_ascii_uppercase_def less_eq_char_def)
  have chars: "list_all (\<lambda>c. is_ascii_alphanumeric c \<or> c \<in> set ''-_.'') (lease_candidate seq)"
    using decimal_is_digit [of _ "unat seq"]
    by (auto simp: lease_candidate_def list_all_iff is_ascii_alphanumeric_def is_ascii_lowercase_def less_eq_char_def)
  have dots: "\<not> str_contains (lease_candidate seq) ''..''"
  proof
    assume "str_contains (lease_candidate seq) ''..''"
    then have "CHR ''.'' \<in> set (lease_candidate seq)"
      unfolding str_contains_iff using set_mono_sublist by fastforce
    then show False
      using decimal_is_digit [of "CHR ''.''" "unat seq"]
      by (simp add: lease_candidate_def is_ascii_digit_def less_eq_char_def)
  qed
  have "is_opaque_token (lease_candidate seq)"
    using compact chars dots marker
    by (auto simp: is_opaque_token_def lease_candidate_def list_ex_iff is_ascii_alphanumeric_def
        is_ascii_lowercase_def less_eq_char_def Let_def split: list.split)
  then show ?thesis
    using len by (simp add: parse_opaque_id_def id_parse_def MAX_ID_LEN_def) (simp add: lease_candidate_def)
qed

lemma lease_id_from_hit:
  "(\<forall>j < n. lease_candidate (seq + of_nat j) \<in> set ids) \<Longrightarrow> lease_candidate (seq + of_nat n) \<notin> set ids \<Longrightarrow>
   lease_id_from ids seq = Some (lease_candidate (seq + of_nat n), seq + of_nat n + 1)"
proof (induction n arbitrary: seq)
  case 0
  then show ?case by (simp add: lease_id_from.simps [of ids seq])
next
  case (Suc n)
  have "lease_candidate seq \<in> set ids" using Suc.prems(1) [rule_format, of 0] by simp
  moreover have "lease_id_from ids (seq + 1) =
      Some (lease_candidate (seq + 1 + of_nat n), seq + 1 + of_nat n + 1)"
  proof (rule Suc.IH)
    show "\<forall>j < n. lease_candidate (seq + 1 + of_nat j) \<in> set ids"
      using Suc.prems(1) by (auto simp: ac_simps dest: spec [of _ "Suc _"])
    show "lease_candidate (seq + 1 + of_nat n) \<notin> set ids" using Suc.prems(2) by (simp add: ac_simps)
  qed
  ultimately show ?case by (simp add: lease_id_from.simps [of ids seq] ac_simps)
qed

text \<open>Fewer than \<open>2\<^sup>6\<^sup>4\<close> ids cannot block that many consecutive candidates.\<close>

lemma free_candidate:
  assumes "length ids < 2 ^ 64"
  shows "\<exists>n \<le> length ids. lease_candidate (seq + of_nat n) \<notin> set ids"
proof (rule ccontr)
  assume "\<not> ?thesis"
  then have "(\<lambda>n. lease_candidate (seq + of_nat n)) ` {..length ids} \<subseteq> set ids" by auto
  then have "card ((\<lambda>n. lease_candidate (seq + of_nat n)) ` {..length ids}) \<le> length ids"
    using card_mono card_length le_trans by (metis List.finite_set)
  moreover have "inj_on (\<lambda>n. lease_candidate (seq + of_nat n)) {..length ids}"
  proof (rule inj_onI)
    fix m n
    assume "m \<in> {..length ids}" "n \<in> {..length ids}"
      "lease_candidate (seq + of_nat m) = lease_candidate (seq + of_nat n)"
    then have "(of_nat m :: u64) = of_nat n" "m < 2 ^ 64" "n < 2 ^ 64" using assms by auto
    then show "m = n" by (simp add: word_of_nat_eq_iff take_bit_nat_eq_self)
  qed
  ultimately show False by (simp add: card_image)
qed

lemma first_free_candidate:
  assumes "length ids < 2 ^ 64"
  obtains n where "n \<le> length ids" "\<forall>j < n. lease_candidate (seq + of_nat j) \<in> set ids"
    "lease_candidate (seq + of_nat n) \<notin> set ids"
proof -
  define n where "n = (LEAST n. lease_candidate (seq + of_nat n) \<notin> set ids)"
  obtain m where m: "m \<le> length ids" "lease_candidate (seq + of_nat m) \<notin> set ids"
    using free_candidate [OF assms] by blast
  have "lease_candidate (seq + of_nat n) \<notin> set ids" unfolding n_def using m(2) by (rule LeastI)
  moreover have "\<forall>j < n. lease_candidate (seq + of_nat j) \<in> set ids"
    unfolding n_def using not_less_Least by blast
  moreover have "n \<le> length ids" using m Least_le [of _ m] unfolding n_def by (meson le_trans)
  ultimately show thesis using that by blast
qed

lemma lease_id_from_total:
  assumes "length ids < 2 ^ 64"
  obtains lid seq' where "lease_id_from ids seq = Some (lid, seq')" "lid \<notin> set ids"
  using first_free_candidate [OF assms, of seq] lease_id_from_hit that by metis

lemma lease_id_from_fresh: "lease_id_from ids seq = Some r \<Longrightarrow> fst r \<notin> set ids"
  by (erule lease_id_from.raw_induct [where P = "\<lambda>ids seq r. fst r \<notin> set ids", rotated])
    (auto split: if_splits sum.splits)

lemma next_lease_id_fresh:
  assumes "next_lease_id led = Some (lid, led')"
  shows "lid \<notin> set (map al_lease_id (led_leases led))" "led_leases led' = led_leases led"
    "led_idempotency led' = led_idempotency led"
  using assms lease_id_from_fresh by (fastforce simp: next_lease_id_def)+

text \<open>C27. The search for a lease id terminates: with fewer than 2 to the 64 leases, whatever the (wrapping)
  sequence number, the loop returns after skipping at most as many candidates as there are leases. It
  returns the first candidate that no lease carries, which always parses as a lease id (so it never
  panics), moves the sequence number just past it and changes nothing else of the ledger.\<close>

theorem next_lease_id_returns:
  assumes "length (led_leases led) < 2 ^ 64"
  shows "\<exists>n \<le> length (led_leases led).
    next_lease_id led = Some (lease_candidate (led_next_lease_sequence led + of_nat n),
      led\<lparr>led_next_lease_sequence := led_next_lease_sequence led + of_nat n + 1\<rparr>) \<and>
    (\<forall>j < n. lease_candidate (led_next_lease_sequence led + of_nat j) \<in> al_lease_id ` set (led_leases led)) \<and>
    lease_candidate (led_next_lease_sequence led + of_nat n) \<notin> al_lease_id ` set (led_leases led)"
proof -
  have "length (map al_lease_id (led_leases led)) < 2 ^ 64" using assms by simp
  from first_free_candidate [OF this, of "led_next_lease_sequence led"] obtain n where
    "n \<le> length (map al_lease_id (led_leases led))"
    and n: "\<forall>j < n. lease_candidate (led_next_lease_sequence led + of_nat j) \<in> set (map al_lease_id (led_leases led))"
      "lease_candidate (led_next_lease_sequence led + of_nat n) \<notin> set (map al_lease_id (led_leases led))"
    by blast
  with lease_id_from_hit [OF n] show ?thesis by (intro exI [of _ n]) (simp add: next_lease_id_def)
qed

text \<open>A ledger whose first two ids are taken: the third is found.\<close>

definition taken_ledger :: fake_allocator_ledger where
  "taken_ledger = allocator_ledger_new
     (map (\<lambda>seq. \<lparr>al_lease_id = lease_candidate seq,
            al_owner = \<lparr>lo_realm = local, lo_controller_generation = ''g1'', lo_node = None\<rparr>,
            al_state = Lease_Granted, al_resources = []\<rparr>) [1, 2])"

theorem next_lease_id_returns_witness:
  "next_lease_id taken_ledger = Some (lease_candidate 3, taken_ledger\<lparr>led_next_lease_sequence := 4\<rparr>)"
proof -
  have seq: "led_next_lease_sequence taken_ledger = 1"
    and ids: "al_lease_id ` set (led_leases taken_ledger) = {lease_candidate 1, lease_candidate 2}"
    and len: "length (led_leases taken_ledger) = 2"
    by (simp_all add: taken_ledger_def allocator_ledger_new_def)
  from len have "length (led_leases taken_ledger) < 2 ^ 64" by simp
  from next_lease_id_returns [OF this, unfolded seq ids len] obtain n where
    "n \<le> 2" "lease_candidate (1 + of_nat n) \<notin> {lease_candidate 1, lease_candidate 2}"
    "next_lease_id taken_ledger = Some (lease_candidate (1 + of_nat n),
       taken_ledger\<lparr>led_next_lease_sequence := 1 + of_nat n + 1\<rparr>)"
    by blast
  moreover from this have "n = 2" by (cases n; cases "n - 1") auto
  ultimately show ?thesis by simp
qed

end
