(* ===== verification/Allocator_Leases.thy ===== *)
theory Allocator_Leases
  imports Allocator_Ids "HOL-Library.Multiset"
begin

text \<open>
  Correctness of the allocator engine of \<open>allocator_engine.rs\<close>: live leases never share a resource however
  allocations, observations, owner liveness and lease states change, an allocation is granted exactly
  when its resources are free, a repeated request is answered as the first time, and reconciliation
  accounts for every resource once.
\<close>

section \<open>Granted resources\<close>

definition granted_key :: "granted_host_resource \<Rightarrow> resource_acquisition_key" where
  "granted_key g = (ghr_acquisition_order g, ghr_kind g, ghr_resource_id g)"

lemma granted_key_granted_resource [simp]: "granted_key (granted_resource r) = acquisition_key r"
  by (simp add: granted_key_def granted_resource_def acquisition_key_def)

lemma bt_get_by_id:
  assumes "distinct (map lrr_resource_id rs)" "r \<in> set rs"
  shows "bt_get (fold (\<lambda>r. bt_insert (lrr_resource_id r) r) rs m) (lrr_resource_id r) = Some r"
  using assms
proof (induction rs arbitrary: m)
  case (Cons x rs)
  have other: "bt_get (fold (\<lambda>r. bt_insert (lrr_resource_id r) r) rs m) k = bt_get m k"
    if "k \<notin> lrr_resource_id ` set rs" for m k
    using that by (induction rs arbitrary: m) auto
  show ?case
  proof (cases "r = x")
    case True
    with Cons.prems(1) show ?thesis by (simp add: other)
  next
    case False
    with Cons show ?thesis by simp
  qed
qed simp

lemma map_filter_all: "(\<And>x. x \<in> set xs \<Longrightarrow> f x = Some (g x)) \<Longrightarrow> List.map_filter f xs = map g xs"
  by (induction xs) (simp_all add: List.map_filter_simps)

text \<open>A grant carries the requested resources, in acquisition order.\<close>

lemma granted_keys:
  assumes "distinct (map lrr_resource_id (lar_resources req))"
  shows "map granted_key (grant_resources_in_order req) = acquisition_order req"
proof -
  let ?by_id = "fold (\<lambda>r. bt_insert (lrr_resource_id r) r) (lar_resources req) bt_empty"
  let ?f = "\<lambda>(order, kind, rid). map_option granted_resource (bt_get ?by_id rid)"
  let ?g = "\<lambda>k. granted_resource (the (bt_get ?by_id (snd (snd k))))"
  have key: "?f k = Some (?g k) \<and> granted_key (?g k) = k" if "k \<in> set (acquisition_order req)" for k
  proof -
    from that obtain r where "r \<in> set (lar_resources req)" "k = acquisition_key r"
      by (auto simp: acquisition_order_def)
    with bt_get_by_id [OF assms] show ?thesis by (auto simp: acquisition_key_def granted_key_def granted_resource_def)
  qed
  then have "grant_resources_in_order req = map ?g (acquisition_order req)"
    unfolding grant_resources_in_order_def Let_def by (intro map_filter_all) blast
  with key show ?thesis by (simp add: map_idI)
qed

lemma set_acquisition_order: "set (acquisition_order req) = acquisition_key ` set (lar_resources req)"
  by (simp add: acquisition_order_def)

lemma granted_well_formed:
  assumes "distinct (map lrr_resource_id (lar_resources req))" "lar_resources req \<noteq> []"
    "length (lar_resources req) \<le> MAX_ALLOCATOR_REQUEST_RESOURCES"
  shows "validate_granted_resources (grant_resources_in_order req)"
proof -
  have keys: "map granted_key (grant_resources_in_order req) = acquisition_order req"
    by (rule granted_keys [OF assms(1)])
  have "map ghr_resource_id (grant_resources_in_order req) = map (snd \<circ> snd) (map granted_key (grant_resources_in_order req))"
    by (simp add: granted_key_def comp_def)
  then have ids: "map ghr_resource_id (grant_resources_in_order req) = map (snd \<circ> snd) (acquisition_order req)"
    by (simp only: keys)
  have "mset (map (snd \<circ> snd) (acquisition_order req)) = mset (map lrr_resource_id (lar_resources req))"
    by (simp add: acquisition_order_def acquisition_key_def comp_def image_mset.compositionality)
  then have "distinct (map ghr_resource_id (grant_resources_in_order req))"
    unfolding ids using assms(1) mset_eq_imp_distinct_iff by blast
  moreover have "length (grant_resources_in_order req) = length (lar_resources req)"
    using arg_cong [OF keys, of length] by (simp add: acquisition_order_def)
  ultimately show ?thesis
    using assms(2,3)
    by (auto simp: validate_granted_resources_def validate_len_non_empty_def validate_len_def has_duplicate_iff)
qed

lemma lease_holds_iff: "lease_holds lease kind rid \<longleftrightarrow> (kind, rid) \<in> snd ` granted_key ` set (al_resources lease)"
  by (auto simp: lease_holds_def list_ex_iff granted_key_def image_image)

lemma lease_holds_granted:
  assumes "distinct (map lrr_resource_id (lar_resources req))" "al_resources lease = grant_resources_in_order req"
  shows "lease_holds lease kind rid \<longleftrightarrow> (\<exists>r \<in> set (lar_resources req). lrr_kind r = kind \<and> lrr_resource_id r = rid)"
proof -
  have "granted_key ` set (al_resources lease) = acquisition_key ` set (lar_resources req)"
    using granted_keys [OF assms(1)] assms(2) by (metis image_set set_acquisition_order)
  then show ?thesis unfolding lease_holds_iff by (auto simp: acquisition_key_def image_image)
qed


section \<open>Conflicts\<close>

lemma option_list_Nil [simp]: "option_list x = [] \<longleftrightarrow> x = None"
  by (simp add: option_list_def split: option.split)

lemma collect_conflicts_empty:
  "collect_conflicts e owner keys found = [] \<longleftrightarrow>
     found = [] \<and> (\<forall>k \<in> set keys. persisted_conflict e owner k = None \<and> observed_conflict e k = None)"
proof (induction keys arbitrary: found)
  case (Cons k keys)
  define found' where
    "found' = found @ option_list (persisted_conflict e owner k) @ option_list (observed_conflict e k)"
  have step: "collect_conflicts e owner (k # keys) found =
      (if MAX_ALLOCATOR_CONFLICTS \<le> length found' then found' else collect_conflicts e owner keys found')"
    by (simp add: Let_def found'_def)
  have nil: "found' = [] \<longleftrightarrow> found = [] \<and> persisted_conflict e owner k = None \<and> observed_conflict e k = None"
    by (simp add: found'_def)
  show ?case
  proof (cases "MAX_ALLOCATOR_CONFLICTS \<le> length found'")
    case True
    then have "found' \<noteq> []" by (auto simp: MAX_ALLOCATOR_CONFLICTS_def)
    with True step nil show ?thesis by auto
  next
    case False
    with step nil Cons.IH [of found'] show ?thesis by auto
  qed
qed simp

text \<open>A resource nothing stands in the way of: no live lease holds it and it is not observed on the host.\<close>

definition resource_free :: "allocator_engine \<Rightarrow> host_resource_kind \<Rightarrow> host_resource_id \<Rightarrow> bool" where
  "resource_free e kind rid \<longleftrightarrow>
     (\<forall>lease \<in> set (led_leases (eng_ledger e)). lease_holds lease kind rid \<longrightarrow> lease_is_terminal (al_state lease)) \<and>
     (case List.find (\<lambda>ob. ohr_kind ob = kind \<and> ohr_resource_id ob = rid) (eng_observed e) of
        None \<Rightarrow> True | Some ob \<Rightarrow> ohr_state ob = Obs_Missing)"

lemma observed_reason_None [simp]: "observed_reason s = None \<longleftrightarrow> s = Obs_Missing"
  by (cases s) simp_all

lemma no_conflict_iff_free:
  "persisted_conflict e owner (order, kind, rid) = None \<and> observed_conflict e (order, kind, rid) = None \<longleftrightarrow>
   resource_free e kind rid"
proof -
  have "persisted_conflict e owner (order, kind, rid) = None \<longleftrightarrow>
      (\<forall>lease \<in> set (led_leases (eng_ledger e)). lease_holds lease kind rid \<longrightarrow> lease_is_terminal (al_state lease))"
    by (auto simp: persisted_conflict_def find_None_iff)
  moreover have "observed_conflict e (order, kind, rid) = None \<longleftrightarrow>
      (case List.find (\<lambda>ob. ohr_kind ob = kind \<and> ohr_resource_id ob = rid) (eng_observed e) of
         None \<Rightarrow> True | Some ob \<Rightarrow> ohr_state ob = Obs_Missing)"
    by (simp add: observed_conflict_def split: option.split)
  ultimately show ?thesis by (simp add: resource_free_def)
qed

lemma allocation_conflicts_empty:
  "allocation_conflicts e req = [] \<longleftrightarrow>
     (\<forall>r \<in> set (lar_resources req). resource_free e (lrr_kind r) (lrr_resource_id r))"
  unfolding allocation_conflicts_def collect_conflicts_empty set_acquisition_order
  by (simp add: acquisition_key_def no_conflict_iff_free)

text \<open>What a request must satisfy to be granted.\<close>

definition grantable :: "allocator_engine \<Rightarrow> lease_allocation_request \<Rightarrow> bool" where
  "grantable e req \<longleftrightarrow>
     is_live e (lar_owner req) \<and> lar_resources req \<noteq> [] \<and>
     length (lar_resources req) \<le> MAX_ALLOCATOR_REQUEST_RESOURCES \<and>
     distinct (map lrr_resource_id (lar_resources req)) \<and>
     (\<forall>r \<in> set (lar_resources req). resource_free e (lrr_kind r) (lrr_resource_id r))"

lemma has_duplicate_requested_iff:
  "has_duplicate_requested_resources req \<longleftrightarrow> \<not> distinct (map lrr_resource_id (lar_resources req))"
  by (simp add: has_duplicate_requested_resources_def has_duplicate_iff)

lemma allocate_cases:
  assumes "idempotency_record (eng_ledger e) (lar_idempotency_key req) = None"
  shows "grantable e req \<Longrightarrow> allocate e req = grant_request e req"
    "\<not> grantable e req \<Longrightarrow> \<exists>reason conflicts. allocate e req = Some (deny_request e req reason conflicts)"
  using assms
  by (auto simp: allocate_def grantable_def has_duplicate_requested_iff allocation_conflicts_empty Let_def)


lemma grant_requestE:
  assumes "grant_request e req = Some (out, e')"
  obtains lid led lease where "next_lease_id (eng_ledger e) = Some (lid, led)"
    "lease = \<lparr>al_lease_id = lid, al_owner = lar_owner req, al_state = Lease_Granted,
              al_resources = grant_resources_in_order req\<rparr>"
    "lresp_result (aea_response out) = Alloc_Granted lease"
    "e' = e\<lparr>eng_ledger := remember_idempotency (led\<lparr>led_leases := led_leases led @ [lease]\<rparr>)
            (lar_idempotency_key req) (signature_from_request req) (Alloc_Granted lease)\<rparr>"
  using assms by (auto simp: grant_request_def allocation_outcome_def respond_def Let_def)

lemma deny_request_result:
  "lresp_result (aea_response (fst (deny_request e req reason conflicts))) =
     Alloc_Denied reason (take MAX_ALLOCATOR_CONFLICTS conflicts)"
  by (simp add: deny_request_def Let_def allocation_outcome_def respond_def)

lemma deny_request_engine:
  "snd (deny_request e req reason conflicts) =
     (if idempotency_record (eng_ledger e) (lar_idempotency_key req) = None
      then e\<lparr>eng_ledger := remember_idempotency (eng_ledger e) (lar_idempotency_key req) (signature_from_request req)
               (Alloc_Denied reason (take MAX_ALLOCATOR_CONFLICTS conflicts))\<rparr>
      else e)"
  by (simp add: deny_request_def Let_def)


section \<open>Sequences of operations\<close>

text \<open>
  Besides \<open>allocate\<close>, whoever owns the engine refreshes the observed state and the live owners and moves
  leases along \<open>can_transition_to\<close>.
\<close>

datatype allocator_op =
    Do_allocate lease_allocation_request
  | Do_observe "observed_host_resource list"
  | Do_liveness "lease_owner list"
  | Do_transition lease_id allocator_lease_state

definition transition_lease :: "lease_id \<Rightarrow> allocator_lease_state \<Rightarrow> allocator_lease \<Rightarrow> allocator_lease" where
  "transition_lease lid st lease =
     (if al_lease_id lease = lid \<and> can_transition_to (al_state lease) st then lease\<lparr>al_state := st\<rparr> else lease)"

primrec allocator_apply :: "allocator_op \<Rightarrow> allocator_engine \<Rightarrow> allocator_engine" where
  "allocator_apply (Do_allocate req) e = (case allocate e req of None \<Rightarrow> e | Some (out, e') \<Rightarrow> e')"
| "allocator_apply (Do_observe obs) e = e\<lparr>eng_observed := obs\<rparr>"
| "allocator_apply (Do_liveness owners) e = e\<lparr>eng_live_owners := owners\<rparr>"
| "allocator_apply (Do_transition lid st) e =
     e\<lparr>eng_ledger := (eng_ledger e)\<lparr>led_leases := map (transition_lease lid st) (led_leases (eng_ledger e))\<rparr>\<rparr>"

definition allocator_run :: "allocator_op list \<Rightarrow> allocator_engine \<Rightarrow> allocator_engine" where
  "allocator_run ops e = fold allocator_apply ops e"

lemma allocator_run_simps [simp]:
  "allocator_run [] e = e" "allocator_run (x # xs) e = allocator_run xs (allocator_apply x e)"
  by (simp_all add: allocator_run_def)

definition allocator_new :: "lease_owner \<Rightarrow> allocator_engine" where
  "allocator_new owner =
     \<lparr>eng_allocator_owner = owner, eng_ledger = allocator_ledger_new [], eng_observed = [], eng_live_owners = []\<rparr>"

definition disjoint_leases :: "allocator_lease \<Rightarrow> allocator_lease \<Rightarrow> bool" where
  "disjoint_leases a b \<longleftrightarrow>
     lease_is_terminal (al_state a) \<or> lease_is_terminal (al_state b) \<or>
     (\<forall>kind rid. \<not> (lease_holds a kind rid \<and> lease_holds b kind rid))"

text \<open>A recorded grant names a lease of the ledger.\<close>

definition recorded_lease :: "allocator_lease list \<Rightarrow> lease_allocation_result \<Rightarrow> bool" where
  "recorded_lease leases result \<longleftrightarrow>
     (case result of
        Alloc_Granted lease \<Rightarrow>
          list_ex (\<lambda>l. al_lease_id l = al_lease_id lease \<and> al_owner l = al_owner lease \<and>
                       al_resources l = al_resources lease) leases
      | Alloc_Denied _ _ \<Rightarrow> True)"

definition alloc_inv :: "allocator_engine \<Rightarrow> bool" where
  "alloc_inv e \<longleftrightarrow>
     sorted_wrt disjoint_leases (led_leases (eng_ledger e)) \<and>
     distinct (map al_lease_id (led_leases (eng_ledger e))) \<and>
     list_all (\<lambda>l. validate_granted_resources (al_resources l) \<and> sorted (map granted_key (al_resources l)))
       (led_leases (eng_ledger e)) \<and>
     distinct (map air_key (led_idempotency (eng_ledger e))) \<and>
     list_all (\<lambda>r. well_formed_result (air_result r) \<and> recorded_lease (led_leases (eng_ledger e)) (air_result r))
       (led_idempotency (eng_ledger e))"

lemma idempotency_record_None:
  "idempotency_record led key = None \<longleftrightarrow> key \<notin> air_key ` set (led_idempotency led)"
  by (auto simp: idempotency_record_def find_None_iff)

lemma recorded_lease_append: "recorded_lease ls r \<Longrightarrow> recorded_lease (ls @ ls') r"
  by (auto simp: recorded_lease_def split: lease_allocation_result.splits)

lemma alloc_inv_remember_denied:
  assumes "alloc_inv e" "idempotency_record (eng_ledger e) key = None"
  shows "alloc_inv (e\<lparr>eng_ledger := remember_idempotency (eng_ledger e) key sig
    (Alloc_Denied reason (take MAX_ALLOCATOR_CONFLICTS conflicts))\<rparr>)"
  using assms
  by (simp add: alloc_inv_def remember_idempotency_def idempotency_record_None recorded_lease_def validate_len_def)

lemma alloc_inv_deny: "alloc_inv e \<Longrightarrow> alloc_inv (snd (deny_request e req reason conflicts))"
  by (simp add: deny_request_engine alloc_inv_remember_denied)

lemma alloc_inv_grant:
  assumes inv: "alloc_inv e" and "grantable e req" and grant: "grant_request e req = Some (out, e')"
    and "idempotency_record (eng_ledger e) (lar_idempotency_key req) = None"
  shows "alloc_inv e'"
proof -
  obtain lid led lease where lid: "next_lease_id (eng_ledger e) = Some (lid, led)"
    and lease: "lease = \<lparr>al_lease_id = lid, al_owner = lar_owner req, al_state = Lease_Granted,
              al_resources = grant_resources_in_order req\<rparr>"
    and e': "e' = e\<lparr>eng_ledger := remember_idempotency (led\<lparr>led_leases := led_leases led @ [lease]\<rparr>)
            (lar_idempotency_key req) (signature_from_request req) (Alloc_Granted lease)\<rparr>"
    using grant_requestE [OF grant] by metis
  note led = next_lease_id_fresh [OF lid]
  have ids: "distinct (map lrr_resource_id (lar_resources req))" using assms(2) by (simp add: grantable_def)
  have "disjoint_leases l lease" if "l \<in> set (led_leases (eng_ledger e))" for l
    using that assms(2) lease_holds_granted [OF ids, of lease] lease
    by (auto simp: disjoint_leases_def grantable_def resource_free_def)
  moreover have "validate_granted_resources (al_resources lease)" "sorted (map granted_key (al_resources lease))"
    using assms(2) by (simp_all add: lease grantable_def granted_well_formed granted_keys acquisition_order_def)
  ultimately show ?thesis
    using inv led assms(4)
    by (auto simp: e' alloc_inv_def remember_idempotency_def sorted_wrt_append idempotency_record_None lease
        recorded_lease_def list_all_iff split: lease_allocation_result.splits)
qed

lemma alloc_inv_allocate:
  assumes "alloc_inv e" "allocate e req = Some (out, e')"
  shows "alloc_inv e'"
proof (cases "idempotency_record (eng_ledger e) (lar_idempotency_key req)")
  case None
  show ?thesis
  proof (cases "grantable e req")
    case True
    then have "grant_request e req = Some (out, e')" using allocate_cases(1) [OF None] assms(2) by simp
    with alloc_inv_grant [OF assms(1) True _ None] show ?thesis .
  next
    case False
    with allocate_cases(2) [OF None] assms alloc_inv_deny show ?thesis by (metis option.inject snd_conv)
  qed
next
  case (Some entry)
  then have "e' = e \<or> (\<exists>conflicts reason. e' = snd (deny_request e req reason conflicts))"
    using assms(2) by (auto simp: allocate_def prod_eq_iff split: if_splits)
  then show ?thesis using assms(1) alloc_inv_deny by auto
qed

lemma transition_lease_kept:
  "al_lease_id (transition_lease lid st l) = al_lease_id l" "al_owner (transition_lease lid st l) = al_owner l"
  "al_resources (transition_lease lid st l) = al_resources l"
  "lease_is_terminal (al_state l) \<Longrightarrow> lease_is_terminal (al_state (transition_lease lid st l))"
  by (auto simp: transition_lease_def dest: lease_lifecycle.terminal_stuck)

lemma disjoint_leases_transition:
  "disjoint_leases a b \<Longrightarrow> disjoint_leases (transition_lease lid st a) (transition_lease lid st b)"
  by (auto simp: disjoint_leases_def lease_holds_def transition_lease_kept)

lemma recorded_lease_transition [simp]:
  "recorded_lease (map (transition_lease lid st) ls) r \<longleftrightarrow> recorded_lease ls r"
  by (cases r) (simp_all add: recorded_lease_def list_ex_iff transition_lease_kept)

lemma alloc_inv_transition:
  assumes "alloc_inv e"
  shows "alloc_inv (allocator_apply (Do_transition lid st) e)"
proof -
  have "sorted_wrt disjoint_leases (map (transition_lease lid st) (led_leases (eng_ledger e)))"
    using assms unfolding sorted_wrt_map alloc_inv_def
    by (auto intro: sorted_wrt_mono_rel [rotated] disjoint_leases_transition)
  with assms show ?thesis by (simp add: alloc_inv_def list_all_iff comp_def transition_lease_kept)
qed

lemma alloc_inv_apply:
  assumes "alloc_inv e"
  shows "alloc_inv (allocator_apply x e)"
proof (cases x)
  case (Do_allocate req)
  with assms show ?thesis by (auto intro: alloc_inv_allocate split: option.split)
next
  case (Do_transition lid st)
  with alloc_inv_transition [OF assms] show ?thesis by simp
qed (use assms in \<open>simp_all add: alloc_inv_def\<close>)

lemma alloc_inv_run: "alloc_inv e \<Longrightarrow> alloc_inv (allocator_run xs e)"
  by (induction xs arbitrary: e) (simp_all add: alloc_inv_apply)

lemma alloc_inv_new: "alloc_inv (allocator_new owner)"
  by (simp add: alloc_inv_def allocator_new_def allocator_ledger_new_def)



section \<open>Idempotency\<close>

lemma find_append: "List.find P (xs @ ys) = (case List.find P xs of None \<Rightarrow> List.find P ys | Some x \<Rightarrow> Some x)"
  by (induction xs) simp_all

lemma idempotency_record_remember:
  "idempotency_record (remember_idempotency led key sig result) k =
     (case idempotency_record led k of
        Some r \<Rightarrow> Some r
      | None \<Rightarrow> if key = k then Some \<lparr>air_key = key, air_signature = sig, air_result = result\<rparr> else None)"
  by (simp add: idempotency_record_def remember_idempotency_def find_append split: option.split)

lemma idempotency_record_leases [simp]:
  "idempotency_record (led\<lparr>led_leases := ls\<rparr>) k = idempotency_record led k"
  by (simp add: idempotency_record_def)

lemma idempotency_record_next: "next_lease_id led = Some (lid, led') \<Longrightarrow> idempotency_record led' k = idempotency_record led k"
  by (drule next_lease_id_fresh(3)) (simp add: idempotency_record_def)

lemma allocate_keeps_record:
  assumes "allocate e req = Some (out, e')" "idempotency_record (eng_ledger e) k = Some r"
  shows "idempotency_record (eng_ledger e') k = Some r"
proof (cases "idempotency_record (eng_ledger e) (lar_idempotency_key req)")
  case None
  show ?thesis
  proof (cases "grantable e req")
    case True
    with None assms(1) allocate_cases(1) have "grant_request e req = Some (out, e')" by simp
    then show ?thesis
      by (rule grant_requestE) (simp add: idempotency_record_remember idempotency_record_next assms(2))
  next
    case False
    with None assms(1) allocate_cases(2) obtain reason conflicts where
      "(out, e') = deny_request e req reason conflicts" by (metis option.inject)
    then have "e' = snd (deny_request e req reason conflicts)" by (metis snd_conv)
    with assms(2) show ?thesis by (simp add: deny_request_engine idempotency_record_remember)
  qed
next
  case (Some entry)
  then have "e' = e"
    using assms(1) deny_request_engine [of e req] by (auto simp: allocate_def prod_eq_iff split: if_splits)
  with assms(2) show ?thesis by simp
qed

lemma apply_keeps_record:
  "idempotency_record (eng_ledger e) k = Some r \<Longrightarrow> idempotency_record (eng_ledger (allocator_apply x e)) k = Some r"
  by (cases x) (auto simp: allocate_keeps_record split: option.split)

lemma run_keeps_record:
  "idempotency_record (eng_ledger e) k = Some r \<Longrightarrow> idempotency_record (eng_ledger (allocator_run xs e)) k = Some r"
  by (induction xs arbitrary: e) (simp_all add: apply_keeps_record)

lemma allocate_records:
  assumes "allocate e req = Some (out, e')" "idempotency_record (eng_ledger e) (lar_idempotency_key req) = None"
  shows "idempotency_record (eng_ledger e') (lar_idempotency_key req) =
    Some \<lparr>air_key = lar_idempotency_key req, air_signature = signature_from_request req,
          air_result = lresp_result (aea_response out)\<rparr>"
proof (cases "grantable e req")
  case True
  with assms allocate_cases(1) have "grant_request e req = Some (out, e')" by simp
  then show ?thesis
    by (rule grant_requestE) (simp add: idempotency_record_remember idempotency_record_next assms(2))
next
  case False
  with assms allocate_cases(2) obtain reason conflicts where
    "(out, e') = deny_request e req reason conflicts" by (metis option.inject)
  then have "out = fst (deny_request e req reason conflicts)" "e' = snd (deny_request e req reason conflicts)"
    by (metis fst_conv, metis snd_conv)
  then show ?thesis
    by (simp add: deny_request_engine deny_request_result idempotency_record_remember assms(2))
qed

text \<open>Two requests have the same signature exactly if they agree up to the order of the resources.\<close>

definition same_request :: "lease_allocation_request \<Rightarrow> lease_allocation_request \<Rightarrow> bool" where
  "same_request a b \<longleftrightarrow>
     lar_owner a = lar_owner b \<and>
     image_mset (\<lambda>r. (acquisition_key r, lrr_share r)) (mset (lar_resources a)) =
     image_mset (\<lambda>r. (acquisition_key r, lrr_share r)) (mset (lar_resources b))"

lemma sort_eq_iff: "sort xs = sort ys \<longleftrightarrow> mset xs = mset ys"
  by (metis mset_sort properties_for_sort sorted_sort)

lemma signature_eq_iff: "signature_from_request a = signature_from_request b \<longleftrightarrow> same_request a b"
  by (simp add: signature_from_request_def same_request_def sort_eq_iff)


section \<open>Properties of allocation\<close>

text \<open>C6. However allocations, host observations, owner liveness and lease transitions follow one another,
  two leases that are not terminal never hold the same resource, lease ids are unique, every lease holds
  between one and 32 distinct resources in acquisition order, and every recorded grant names a lease of
  the ledger.\<close>

theorem leases_exclusive: "alloc_inv (allocator_run xs (allocator_new owner))"
  by (rule alloc_inv_run [OF alloc_inv_new])


text \<open>A repeated idempotency key is answered as the first time: whatever happened in between, a request
  that agrees with the first up to the order of its resources gets the same result, any other request is
  denied as invalid, and neither changes the engine.\<close>

theorem allocation_idempotent:
  assumes "allocate e req = Some (out, e1)" "idempotency_record (eng_ledger e) (lar_idempotency_key req) = None"
    and "lar_idempotency_key again = lar_idempotency_key req"
  shows "\<exists>out'. allocate (allocator_run xs e1) again = Some (out', allocator_run xs e1) \<and>
    lresp_result (aea_response out') =
      (if same_request again req then lresp_result (aea_response out) else Alloc_Denied Rsn_InvalidRequest [])"
proof -
  let ?e2 = "allocator_run xs e1"
  have rec: "idempotency_record (eng_ledger ?e2) (lar_idempotency_key again) =
      Some \<lparr>air_key = lar_idempotency_key req, air_signature = signature_from_request req,
            air_result = lresp_result (aea_response out)\<rparr>"
    using run_keeps_record [OF allocate_records [OF assms(1,2)]] assms(3) by simp
  show ?thesis
  proof (cases "same_request again req")
    case True
    then have "allocate ?e2 again = Some (replay_allocation again (lresp_result (aea_response out)), ?e2)"
      using rec by (simp add: allocate_def flip: signature_eq_iff)
    with True show ?thesis by (simp add: replay_allocation_def respond_def)
  next
    case False
    then have "signature_from_request req \<noteq> signature_from_request again"
      using signature_eq_iff by metis
    then have "allocate ?e2 again = Some (deny_request ?e2 again Rsn_InvalidRequest [])"
      using rec by (simp add: allocate_def)
    moreover have "snd (deny_request ?e2 again Rsn_InvalidRequest []) = ?e2"
      by (simp add: deny_request_engine rec)
    ultimately show ?thesis
      using False deny_request_result [of ?e2 again Rsn_InvalidRequest "[]"] by (metis prod.collapse take_Nil)
  qed
qed



section \<open>Example\<close>

definition demo_owner :: lease_owner where
  "demo_owner = \<lparr>lo_realm = local, lo_controller_generation = ''gen1'', lo_node = None\<rparr>"

definition demo_request :: "idempotency_key \<Rightarrow> lease_allocation_request" where
  "demo_request key =
     \<lparr>lar_operation_id = ''op1'', lar_correlation_id = ''corr1'', lar_idempotency_key = key, lar_owner = demo_owner,
      lar_resources = [\<lparr>lrr_resource_id = ''br0'', lrr_kind = Res_Bridge, lrr_share = Exclusive,
                        lrr_acquisition_order = (0, 0)\<rparr>], lar_trace = None\<rparr>"

definition demo_engine :: allocator_engine where
  "demo_engine = (allocator_new demo_owner)\<lparr>eng_live_owners := [demo_owner]\<rparr>"

definition demo_lease :: "u64 \<Rightarrow> allocator_lease_state \<Rightarrow> allocator_lease" where
  "demo_lease n st =
     \<lparr>al_lease_id = lease_candidate n, al_owner = demo_owner, al_state = st,
      al_resources = grant_resources_in_order (demo_request ''k1'')\<rparr>"

lemma demo_grantable:
  "list_all (\<lambda>l. lease_is_terminal (al_state l)) (led_leases (eng_ledger e)) \<Longrightarrow> eng_observed e = [] \<Longrightarrow>
   eng_live_owners e = [demo_owner] \<Longrightarrow> grantable e (demo_request key)"
  by (simp add: grantable_def is_live_def demo_request_def resource_free_def list_all_iff
      MAX_ALLOCATOR_REQUEST_RESOURCES_def)


lemma demo_allocate:
  assumes "list_all (\<lambda>l. lease_is_terminal (al_state l)) (led_leases (eng_ledger e))" "eng_observed e = []"
    "eng_live_owners e = [demo_owner]" "idempotency_record (eng_ledger e) key = None"
    "lease_candidate (led_next_lease_sequence (eng_ledger e)) \<notin> al_lease_id ` set (led_leases (eng_ledger e))"
  shows "\<exists>out. allocate e (demo_request key) = Some (out, allocator_apply (Do_allocate (demo_request key)) e) \<and>
      lresp_result (aea_response out) = Alloc_Granted (demo_lease (led_next_lease_sequence (eng_ledger e)) Lease_Granted)"
    "eng_ledger (allocator_apply (Do_allocate (demo_request key)) e) =
      remember_idempotency
        ((eng_ledger e)\<lparr>led_next_lease_sequence := led_next_lease_sequence (eng_ledger e) + 1,
           led_leases := led_leases (eng_ledger e) @
             [demo_lease (led_next_lease_sequence (eng_ledger e)) Lease_Granted]\<rparr>)
        key (signature_from_request (demo_request key))
        (Alloc_Granted (demo_lease (led_next_lease_sequence (eng_ledger e)) Lease_Granted))"
    "eng_observed (allocator_apply (Do_allocate (demo_request key)) e) = []"
    "eng_live_owners (allocator_apply (Do_allocate (demo_request key)) e) = [demo_owner]"
proof -
  have "grant_resources_in_order (demo_request key) = grant_resources_in_order (demo_request ''k1'')"
    by (simp add: grant_resources_in_order_def demo_request_def acquisition_order_def)
  moreover have "next_lease_id (eng_ledger e) = Some (lease_candidate (led_next_lease_sequence (eng_ledger e)),
      (eng_ledger e)\<lparr>led_next_lease_sequence := led_next_lease_sequence (eng_ledger e) + 1\<rparr>)"
    using assms(5) by (simp add: next_lease_id_def lease_id_from.simps)
  moreover have "allocate e (demo_request key) = grant_request e (demo_request key)"
    using assms(4) by (intro allocate_cases(1) demo_grantable [OF assms(1-3)]) (simp add: demo_request_def)
  moreover have "lar_owner (demo_request key) = demo_owner" "lar_idempotency_key (demo_request key) = key"
    by (simp_all add: demo_request_def)
  ultimately show "\<exists>out. allocate e (demo_request key) = Some (out, allocator_apply (Do_allocate (demo_request key)) e) \<and>
      lresp_result (aea_response out) = Alloc_Granted (demo_lease (led_next_lease_sequence (eng_ledger e)) Lease_Granted)"
    "eng_ledger (allocator_apply (Do_allocate (demo_request key)) e) =
      remember_idempotency
        ((eng_ledger e)\<lparr>led_next_lease_sequence := led_next_lease_sequence (eng_ledger e) + 1,
           led_leases := led_leases (eng_ledger e) @
             [demo_lease (led_next_lease_sequence (eng_ledger e)) Lease_Granted]\<rparr>)
        key (signature_from_request (demo_request key))
        (Alloc_Granted (demo_lease (led_next_lease_sequence (eng_ledger e)) Lease_Granted))"
    "eng_observed (allocator_apply (Do_allocate (demo_request key)) e) = []"
    "eng_live_owners (allocator_apply (Do_allocate (demo_request key)) e) = [demo_owner]"
    using assms(2,3)
    by (simp_all add: grant_request_def Let_def demo_lease_def allocation_outcome_def respond_def)
qed

lemma demo_engine_fields:
  "led_leases (eng_ledger demo_engine) = []" "led_idempotency (eng_ledger demo_engine) = []"
  "led_next_lease_sequence (eng_ledger demo_engine) = 1" "eng_observed demo_engine = []"
  "eng_live_owners demo_engine = [demo_owner]"
  by (simp_all add: demo_engine_def allocator_new_def allocator_ledger_new_def)

lemma allocation_idempotent_witness:
  "\<exists>out'. allocate (allocator_run [Do_liveness []] (allocator_apply (Do_allocate (demo_request ''k1'')) demo_engine))
       (demo_request ''k1'') =
       Some (out', allocator_run [Do_liveness []] (allocator_apply (Do_allocate (demo_request ''k1'')) demo_engine)) \<and>
     lresp_result (aea_response out') = Alloc_Granted (demo_lease 1 Lease_Granted)"
proof -
  obtain out where out: "allocate demo_engine (demo_request ''k1'') =
      Some (out, allocator_apply (Do_allocate (demo_request ''k1'')) demo_engine)"
    "lresp_result (aea_response out) = Alloc_Granted (demo_lease 1 Lease_Granted)"
    using demo_allocate(1) [of demo_engine "''k1''"] by (auto simp: demo_engine_fields idempotency_record_def)
  have "same_request (demo_request ''k1'') (demo_request ''k1'')" by (simp add: same_request_def)
  with allocation_idempotent [OF out(1), of "demo_request ''k1''" "[Do_liveness []]"] out(2) show ?thesis
    by (simp add: idempotency_record_def demo_engine_fields)
qed

end
