(* ===== verification/Allocator_Reconcile.thy ===== *)
theory Allocator_Reconcile
  imports Allocator_Leases
begin

text \<open>
  Reconciliation of the allocator engine (\<open>reconcile\<close> and \<open>bounded_metrics\<close> of \<open>allocator_engine.rs\<close>): which
  resources a report covers, and that the aggregated metrics account for every action.
\<close>

section \<open>Covered resources\<close>

lemma dom_bt_empty [simp]: "dom (bt_get bt_empty) = {}"
  by (simp add: dom_def)

lemma dom_insert_fold:
  assumes "\<And>x m. dom (bt_get (f x m)) = insert (k x) (dom (bt_get m))"
  shows "dom (bt_get (fold f xs m)) = k ` set xs \<union> dom (bt_get m)"
  by (induction xs arbitrary: m) (auto simp: assms)

definition lease_keys :: "allocator_lease \<Rightarrow> resource_key set" where
  "lease_keys lease = (\<lambda>g. (ghr_kind g, ghr_resource_id g)) ` set (al_resources lease)"

lemma dom_add_persisted:
  "dom (bt_get (fold (add_persisted lease) (al_resources lease) m)) = lease_keys lease \<union> dom (bt_get m)"
  unfolding lease_keys_def by (rule dom_insert_fold) (simp add: add_persisted_def Let_def dom_bt_insert)

lemma dom_add_leases:
  "dom (bt_get (fold (\<lambda>lease. fold (add_persisted lease) (al_resources lease)) leases m)) =
     \<Union> (lease_keys ` set leases) \<union> dom (bt_get m)"
  by (induction leases arbitrary: m) (auto simp: dom_add_persisted)

lemma dom_resource_pairs:
  "dom (bt_get (resource_pairs e)) =
     \<Union> (lease_keys ` set (led_leases (eng_ledger e))) \<union>
     (\<lambda>ob. (ohr_kind ob, ohr_resource_id ob)) ` set (eng_observed e)"
proof -
  have obs: "dom (bt_get (fold add_observed obs m)) = (\<lambda>ob. (ohr_kind ob, ohr_resource_id ob)) ` set obs \<union> dom (bt_get m)"
    for obs m
    by (rule dom_insert_fold) (simp add: add_observed_def Let_def dom_bt_insert)
  show ?thesis unfolding resource_pairs_def obs dom_add_leases by (simp add: Un_commute)
qed

lemma action_key: "(ara_kind (reconciliation_action e entry), ara_resource_id (reconciliation_action e entry)) = fst entry"
  by (cases entry) (auto simp: reconciliation_action_def Let_def split: prod.split)

lemma action_keys: "map (\<lambda>a. (ara_kind a, ara_resource_id a)) (reconciliation_actions e) = bt_keys (resource_pairs e)"
  by (simp add: reconciliation_actions_def bt_keys_def comp_def action_key)


section \<open>Metrics\<close>

lemma sum_bt_values: "sum_list (map f (bt_values m)) = (\<Sum>k \<in> dom (bt_get m). f (the (bt_get m k)))"
proof -
  have "bt_values m = map (\<lambda>k. the (bt_get m k)) (bt_keys m)"
    unfolding bt_values_def bt_keys_def map_map
    by (rule map_cong) (auto simp: set_bt_entries)
  then have "sum_list (map f (bt_values m)) = sum_list (map (\<lambda>k. f (the (bt_get m k))) (bt_keys m))"
    by (simp add: comp_def)
  also have "\<dots> = (\<Sum>k \<in> set (bt_keys m). f (the (bt_get m k)))"
    by (rule sum_list_distinct_conv_sum_set) simp
  finally show ?thesis by (simp add: set_bt_keys)
qed

definition metric_total :: "(allocator_metric_labels, allocator_metric_event) btmap \<Rightarrow> nat" where
  "metric_total agg = sum_list (map (\<lambda>m. unat (ame_count m)) (bt_values agg))"

lemma metric_total_aggregate:
  assumes "ame_count m = 1" "metric_total agg < 2 ^ 64 - 1"
  shows "metric_total (aggregate_metric m agg) = metric_total agg + 1"
proof (cases "bt_get agg (metric_labels m)")
  case None
  then have "metric_labels m \<notin> dom (bt_get agg)" by auto
  then have "metric_total (bt_insert (metric_labels m) m agg) = metric_total agg + unat (ame_count m)"
    unfolding metric_total_def sum_bt_values dom_bt_insert
    by (subst sum.insert) (auto intro!: sum.cong)
  with None assms(1) show ?thesis by (simp add: aggregate_metric_def)
next
  case (Some old)
  let ?k = "metric_labels m"
  let ?new = "old\<lparr>ame_count := sat_add (ame_count old) (ame_count m)\<rparr>"
  have k: "?k \<in> dom (bt_get agg)" using Some by auto
  have rest: "(\<Sum>k \<in> dom (bt_get agg) - {?k}. unat (ame_count (the (bt_get (bt_insert ?k ?new agg) k)))) =
      (\<Sum>k \<in> dom (bt_get agg) - {?k}. unat (ame_count (the (bt_get agg k))))"
    by (rule sum.cong) auto
  have total: "metric_total agg =
      unat (ame_count old) + (\<Sum>k \<in> dom (bt_get agg) - {?k}. unat (ame_count (the (bt_get agg k))))"
    unfolding metric_total_def sum_bt_values by (subst sum.remove [OF _ k]) (simp_all add: Some)
  then have "unat (ame_count old) < 2 ^ 64 - 1" using assms(2) by linarith
  then have "unat (sat_add (ame_count old) (ame_count m)) = unat (ame_count old) + 1"
    using assms(1) by (subst unat_sat_add_room) simp_all
  moreover have "metric_total (bt_insert ?k ?new agg) =
      unat (ame_count ?new) + (\<Sum>k \<in> dom (bt_get agg) - {?k}. unat (ame_count (the (bt_get agg k))))"
  proof -
    have "dom (bt_get (bt_insert ?k ?new agg)) = dom (bt_get agg)"
      using k by (simp only: dom_bt_insert insert_absorb)
    then have "metric_total (bt_insert ?k ?new agg) =
        (\<Sum>k \<in> dom (bt_get agg). unat (ame_count (the (bt_get (bt_insert ?k ?new agg) k))))"
      unfolding metric_total_def sum_bt_values by (rule sum.cong) (rule refl)
    also have "\<dots> = unat (ame_count (the (bt_get (bt_insert ?k ?new agg) ?k))) +
        (\<Sum>k \<in> dom (bt_get agg) - {?k}. unat (ame_count (the (bt_get (bt_insert ?k ?new agg) k))))"
      by (rule sum.remove [OF finite_dom_bt k])
    finally show ?thesis unfolding rest by simp
  qed
  ultimately show ?thesis using total Some by (simp add: aggregate_metric_def)
qed

lemma metric_total_fold:
  "list_all (\<lambda>m. ame_count m = 1) ms \<Longrightarrow> metric_total agg + length ms < 2 ^ 64 \<Longrightarrow>
   metric_total (fold aggregate_metric ms agg) = metric_total agg + length ms"
  by (induction ms arbitrary: agg) (simp_all add: metric_total_aggregate)

lemma dom_aggregate: "dom (bt_get (fold aggregate_metric ms agg)) = metric_labels ` set ms \<union> dom (bt_get agg)"
  by (rule dom_insert_fold) (simp add: aggregate_metric_def dom_bt_insert split: option.split)

text \<open>The decisions reconciliation can take: few enough that aggregation never reaches the bound.\<close>

definition reconcile_decisions :: "allocator_engine_decision list" where
  "reconcile_decisions =
     [Dec_Reconcile, Dec_Preserve Rsn_ResourceConflict, Dec_Preserve Rsn_OwnershipConflict,
      Dec_Reclaim Rsn_OwnerNotLive, Dec_Reclaim Rsn_DriftDetected, Dec_Quarantine Rsn_DriftDetected,
      Dec_Quarantine Rsn_KernelStateUnknown, Dec_Quarantine Rsn_StorageContractViolation]"

lemma decide_reconciliation_range: "decide_reconciliation e ps ob \<in> set reconcile_decisions"
  by (auto simp: decide_reconciliation_def reconcile_decisions_def split: list.split observed_resource_state.split)

definition resource_kinds :: "host_resource_kind list" where
  "resource_kinds =
     [Res_Bridge, Res_Tap, Res_VethPair, Res_NftablesTable, Res_NftablesPartition, Res_CgroupSubtree,
      Res_HostFilePartition, Res_NamespaceBoundary]"

lemma resource_kinds_all: "kind \<in> set resource_kinds"
  by (cases kind) (simp_all add: resource_kinds_def)

lemma reconcile_metrics_few:
  assumes "ms = map (\<lambda>a. metric_from_decision (ara_decision a) (Some (ara_kind a))) (reconciliation_actions e)"
  shows "bt_len (fold aggregate_metric ms bt_empty) \<le> 64"
proof -
  let ?labels = "map (\<lambda>(d, k). metric_labels (metric_from_decision d (Some k))) (List.product reconcile_decisions resource_kinds)"
  have "metric_labels ` set ms \<subseteq> set ?labels"
  proof
    fix x
    assume "x \<in> metric_labels ` set ms"
    then obtain entry where "entry \<in> set (bt_entries (resource_pairs e))"
      "x = metric_labels (metric_from_decision (ara_decision (reconciliation_action e entry))
             (Some (ara_kind (reconciliation_action e entry))))"
      using assms by (auto simp: reconciliation_actions_def)
    moreover have "ara_decision (reconciliation_action e entry) \<in> set reconcile_decisions"
      by (auto simp: reconciliation_action_def Let_def decide_reconciliation_range split: prod.split)
    ultimately show "x \<in> set ?labels" using resource_kinds_all by auto
  qed
  then have "card (metric_labels ` set ms) \<le> length ?labels"
    by (meson List.finite_set card_length card_mono le_trans)
  also have "\<dots> = 64" by (simp add: length_product reconcile_decisions_def resource_kinds_def)
  finally show ?thesis by (simp add: bt_len_card dom_aggregate)
qed

lemma bt_len_values: "length (bt_values m) = bt_len m"
  by (simp add: bt_values_def bt_len_def)


section \<open>Properties\<close>

lemma lease_keys_iff: "(kind, rid) \<in> lease_keys lease \<longleftrightarrow> lease_holds lease kind rid"
  by (auto simp: lease_keys_def lease_holds_def list_ex_iff)

lemma reconcile_metrics_total:
  assumes "length (reconciliation_actions e) < 2 ^ 64"
  shows "sum_list (map (\<lambda>m. unat (ame_count m)) (aer_metrics (reconcile e operation correlation))) =
    length (reconciliation_actions e)"
proof -
  let ?ms = "map (\<lambda>a. metric_from_decision (ara_decision a) (Some (ara_kind a))) (reconciliation_actions e)"
  have "bt_len (fold aggregate_metric ?ms bt_empty) \<le> MAX_ALLOCATOR_EVENTS"
    using reconcile_metrics_few [OF refl, of e] by (simp add: MAX_ALLOCATOR_EVENTS_def)
  then have "aer_metrics (reconcile e operation correlation) = bt_values (fold aggregate_metric ?ms bt_empty)"
    by (simp add: reconcile_def Let_def bounded_metrics_def bt_len_values)
  moreover have "metric_total (bt_empty :: (allocator_metric_labels, allocator_metric_event) btmap) = 0"
    by (simp add: metric_total_def sum_bt_values)
  moreover have "list_all (\<lambda>m. ame_count m = 1) ?ms"
    by (simp add: list_all_iff metric_from_decision_def metric_new_def)
  ultimately show ?thesis
    using metric_total_fold [of ?ms bt_empty] assms unfolding metric_total_def [of "fold _ _ _"] by simp
qed

text \<open>Reconciliation accounts for every resource exactly once: in ascending order of kind and id there is
  one action for each resource that a lease holds or the host shows and none for any other, the report it
  sends stays within the bounds its receivers check, and the metrics, although aggregated and bounded, add
  up to the number of actions.\<close>

theorem reconcile_accounts:
  assumes "length (aer_actions (reconcile e operation correlation)) < 2 ^ 64"
  shows "sorted_wrt (<) (map (\<lambda>a. (ara_kind a, ara_resource_id a)) (aer_actions (reconcile e operation correlation))) \<and>
    (\<forall>kind rid.
       (kind, rid) \<in> set (map (\<lambda>a. (ara_kind a, ara_resource_id a)) (aer_actions (reconcile e operation correlation))) \<longleftrightarrow>
       (\<exists>lease \<in> set (led_leases (eng_ledger e)). lease_holds lease kind rid) \<or>
       (\<exists>ob \<in> set (eng_observed e). ohr_kind ob = kind \<and> ohr_resource_id ob = rid)) \<and>
    decode_reconciliation_report (aer_report (reconcile e operation correlation)) =
      Some (aer_report (reconcile e operation correlation)) \<and>
    sum_list (map (\<lambda>m. unat (ame_count m)) (aer_metrics (reconcile e operation correlation))) =
      length (aer_actions (reconcile e operation correlation))"
proof (intro conjI allI)
  have actions: "aer_actions (reconcile e operation correlation) = reconciliation_actions e"
    by (simp add: reconcile_def Let_def)
  show "sorted_wrt (<) (map (\<lambda>a. (ara_kind a, ara_resource_id a)) (aer_actions (reconcile e operation correlation)))"
    unfolding actions action_keys by (rule sorted_bt_keys)
  show "(kind, rid) \<in> set (map (\<lambda>a. (ara_kind a, ara_resource_id a)) (aer_actions (reconcile e operation correlation))) \<longleftrightarrow>
      (\<exists>lease \<in> set (led_leases (eng_ledger e)). lease_holds lease kind rid) \<or>
      (\<exists>ob \<in> set (eng_observed e). ohr_kind ob = kind \<and> ohr_resource_id ob = rid)" for kind rid
    unfolding actions action_keys set_bt_keys dom_resource_pairs by (auto simp: lease_keys_iff)
  show "decode_reconciliation_report (aer_report (reconcile e operation correlation)) =
      Some (aer_report (reconcile e operation correlation))"
    by (simp add: decode_reconciliation_report_def reconcile_def Let_def validate_len_def bounded_events_def)
  show "sum_list (map (\<lambda>m. unat (ame_count m)) (aer_metrics (reconcile e operation correlation))) =
      length (aer_actions (reconcile e operation correlation))"
    unfolding actions using assms reconcile_metrics_total actions by metis
qed

definition observed_engine :: allocator_engine where
  "observed_engine = demo_engine\<lparr>eng_observed :=
     [\<lparr>ohr_resource_id = ''tap0'', ohr_kind = Res_Tap, ohr_source = Src_KernelNetlink, ohr_state = Obs_Present\<rparr>,
      \<lparr>ohr_resource_id = ''br0'', ohr_kind = Res_Bridge, ohr_source = Src_KernelNetlink, ohr_state = Obs_Missing\<rparr>]\<rparr>"

lemma reconcile_accounts_witness:
  "length (aer_actions (reconcile observed_engine ''op1'' ''corr1'')) = 2 \<and>
   sum_list (map (\<lambda>m. unat (ame_count m)) (aer_metrics (reconcile observed_engine ''op1'' ''corr1''))) = 2"
proof -
  have "length (reconciliation_actions observed_engine) = 2" by code_simp
  then have len: "length (aer_actions (reconcile observed_engine ''op1'' ''corr1'')) = 2"
    by (simp add: reconcile_def Let_def)
  then have "length (aer_actions (reconcile observed_engine ''op1'' ''corr1'')) < 2 ^ 64" by simp
  from reconcile_accounts [OF this] len show ?thesis by metis
qed

lemma distinct_set_singleton:
  assumes "set xs = {x}" "distinct xs"
  shows "xs = [x]"
proof (cases xs)
  case (Cons y ys)
  then have "y = x" "x \<notin> set ys" "set ys \<subseteq> {x}" using assms by auto
  moreover from this(2,3) have "set ys = {}" by (metis insertI1 subset_singletonD)
  ultimately show ?thesis using Cons by simp
qed (use assms in simp)

definition reissue_ops :: "allocator_op list" where
  "reissue_ops =
     [Do_liveness [demo_owner], Do_allocate (demo_request ''k1''),
      Do_transition ''lease-engine-1'' Lease_Reclaimed, Do_allocate (demo_request ''k2''),
      Do_observe [\<lparr>ohr_resource_id = ''br0'', ohr_kind = Res_Bridge, ohr_source = Src_KernelNetlink,
                   ohr_state = Obs_Present\<rparr>]]"

definition reissued_engine :: allocator_engine where
  "reissued_engine = allocator_run reissue_ops (allocator_new demo_owner)"

lemma reissued_engine_fields:
  "led_leases (eng_ledger reissued_engine) = [demo_lease 1 Lease_Reclaimed, demo_lease 2 Lease_Granted]"
  "eng_live_owners reissued_engine = [demo_owner]"
  "eng_observed reissued_engine =
     [\<lparr>ohr_resource_id = ''br0'', ohr_kind = Res_Bridge, ohr_source = Src_KernelNetlink, ohr_state = Obs_Present\<rparr>]"
proof -
  define e1 where "e1 = allocator_apply (Do_allocate (demo_request ''k1'')) demo_engine"
  define e2 where "e2 = allocator_apply (Do_transition ''lease-engine-1'' Lease_Reclaimed) e1"
  define e3 where "e3 = allocator_apply (Do_allocate (demo_request ''k2'')) e2"
  have run: "reissued_engine = allocator_apply (Do_observe [\<lparr>ohr_resource_id = ''br0'', ohr_kind = Res_Bridge,
      ohr_source = Src_KernelNetlink, ohr_state = Obs_Present\<rparr>]) e3"
    by (simp add: reissued_engine_def reissue_ops_def e1_def e2_def e3_def demo_engine_def del: allocator_apply.simps(1))
  have "char_of (49 :: nat) = CHR ''1''" by code_simp
  then have "lease_candidate 1 = ''lease-engine-1''" by (simp add: lease_candidate_def decimal.simps)
  have e1: "eng_ledger e1 = remember_idempotency
      ((eng_ledger demo_engine)\<lparr>led_next_lease_sequence := 2, led_leases := [demo_lease 1 Lease_Granted]\<rparr>)
      ''k1'' (signature_from_request (demo_request ''k1'')) (Alloc_Granted (demo_lease 1 Lease_Granted))"
    "eng_observed e1 = []" "eng_live_owners e1 = [demo_owner]"
    unfolding e1_def
    by (subst demo_allocate(2); simp add: demo_engine_fields idempotency_record_def)
      (subst demo_allocate(3,4); simp add: demo_engine_fields idempotency_record_def)+
  have e2: "led_leases (eng_ledger e2) = [demo_lease 1 Lease_Reclaimed]" "led_next_lease_sequence (eng_ledger e2) = 2"
    "idempotency_record (eng_ledger e2) ''k2'' = None" "eng_observed e2 = []" "eng_live_owners e2 = [demo_owner]"
    using \<open>lease_candidate 1 = _\<close>
    by (simp_all add: e2_def e1 remember_idempotency_def transition_lease_def demo_lease_def can_transition_to_def
        idempotency_record_def demo_engine_fields)
  have e3: "led_leases (eng_ledger e3) = [demo_lease 1 Lease_Reclaimed, demo_lease 2 Lease_Granted]"
    "eng_live_owners e3 = [demo_owner]"
    unfolding e3_def
    by (subst demo_allocate(2); simp add: e2 remember_idempotency_def demo_lease_def lease_is_terminal_def)
      (subst demo_allocate(4); simp add: e2 demo_lease_def lease_is_terminal_def)
  show "led_leases (eng_ledger reissued_engine) = [demo_lease 1 Lease_Reclaimed, demo_lease 2 Lease_Granted]"
    "eng_live_owners reissued_engine = [demo_owner]"
    "eng_observed reissued_engine =
     [\<lparr>ohr_resource_id = ''br0'', ohr_kind = Res_Bridge, ohr_source = Src_KernelNetlink, ohr_state = Obs_Present\<rparr>]"
    by (simp_all add: run e3)
qed


end
