(* ===== verification/Console_Ring.thy ===== *)
theory Console_Ring
  imports Prelude
begin

text \<open>
  The console ring buffer \<open>d2b-core/src/console_ring.rs\<close>: a fixed array written and read in at most two
  segments, with monotonic stream offsets. The model keeps the array, the head and the length as the code
  does; \<open>None\<close> of a push stands for a panic (a slice out of range). The main result is that the buffer
  refines the unbounded console stream: a read answers from the last \<open>capacity\<close> bytes ever written.
\<close>

section \<open>The buffer\<close>

record ring_buffer =
  rb_data :: "u8 list"
  rb_capacity :: nat
  rb_head :: nat
  rb_len :: nat
  rb_base_offset :: u64
  rb_total_written :: u64
  rb_is_eof :: bool

definition ring_new :: "nat \<Rightarrow> ring_buffer option" where
  "ring_new capacity =
     (if capacity = 0 then None
      else Some \<lparr>rb_data = replicate capacity 0, rb_capacity = capacity, rb_head = 0, rb_len = 0,
             rb_base_offset = 0, rb_total_written = 0, rb_is_eof = False\<rparr>)"

text \<open>\<open>data[i..i + xs.len()].copy_from_slice(xs)\<close> and \<open>data[i..j]\<close>.\<close>

definition copy_into :: "nat \<Rightarrow> u8 list \<Rightarrow> u8 list \<Rightarrow> u8 list option" where
  "copy_into i xs data =
     (if i + length xs \<le> length data then Some (take i data @ xs @ drop (i + length xs) data) else None)"

definition slice :: "nat \<Rightarrow> nat \<Rightarrow> u8 list \<Rightarrow> u8 list option" where
  "slice i j data = (if i \<le> j \<and> j \<le> length data then Some (take (j - i) (drop i data)) else None)"

text \<open>The two-segment write of \<open>push_bytes\<close> at the head.\<close>

definition write_segments :: "ring_buffer \<Rightarrow> u8 list \<Rightarrow> u8 list option" where
  "write_segments r xs =
     (let n = min (rb_capacity r - rb_head r) (length xs) in
      Option.bind (copy_into (rb_head r) (take n xs) (rb_data r))
        (\<lambda>data. if n < length xs then copy_into 0 (drop n xs) data else Some data))"

definition push_bytes :: "ring_buffer \<Rightarrow> u8 list \<Rightarrow> ring_buffer option" where
  "push_bytes r bytes =
     (if bytes = [] then Some r
      else
        let incoming = length bytes;
            skip = (if rb_capacity r \<le> incoming then incoming - rb_capacity r else 0);
            effective = drop skip bytes;
            evict = rb_len r + length effective - rb_capacity r
        in map_option
             (\<lambda>data. r\<lparr>rb_data := data,
                rb_head := (rb_head r + length effective) mod rb_capacity r,
                rb_len := rb_len r - evict + length effective,
                rb_base_offset := sat_add (rb_base_offset r) (of_nat (skip + evict)),
                rb_total_written := sat_add (rb_total_written r) (of_nat incoming)\<rparr>)
             (write_segments r effective))"

record ring_read_result =
  rrr_actual_offset :: u64
  rrr_data :: "u8 list"
  rrr_base_offset :: u64
  rrr_dropped_bytes :: u64
  rrr_is_eof :: bool

definition dropped_bytes :: "ring_buffer \<Rightarrow> u64" where
  "dropped_bytes r = rb_base_offset r"

definition read_result :: "ring_buffer \<Rightarrow> u64 \<Rightarrow> u8 list \<Rightarrow> bool \<Rightarrow> ring_read_result" where
  "read_result r offset data eof =
     \<lparr>rrr_actual_offset = offset, rrr_data = data, rrr_base_offset = rb_base_offset r,
      rrr_dropped_bytes = dropped_bytes r, rrr_is_eof = eof\<rparr>"

text \<open>The two-segment copy of \<open>read_at\<close> from a physical position.\<close>

definition read_segments :: "ring_buffer \<Rightarrow> nat \<Rightarrow> nat \<Rightarrow> u8 list option" where
  "read_segments r start n =
     (let first = min (rb_capacity r - start) n in
      Option.bind (slice start (start + first) (rb_data r))
        (\<lambda>xs. if first < n then map_option (\<lambda>ys. xs @ ys) (slice 0 (n - first) (rb_data r)) else Some xs))"

text \<open>The outer option of a read is a panic, the inner one the answer of the method.\<close>

definition read_at :: "ring_buffer \<Rightarrow> u64 \<Rightarrow> u64 \<Rightarrow> ring_read_result option option" where
  "read_at r offset max_len =
     (let actual = max offset (rb_base_offset r);
          at_end = (if rb_is_eof r then Some (read_result r (rb_total_written r) [] True) else None)
      in if rb_len r = 0 then Some at_end
         else if rb_total_written r \<le> actual then Some at_end
         else
           let available = unat (rb_total_written r - actual);
               read_len = unat (min (of_nat available :: u64) max_len)
           in if read_len = 0 then Some (Some (read_result r actual [] (rb_is_eof r)))
              else
                let start_in_ring = unat (rb_total_written r - of_nat (rb_len r) - rb_base_offset r)
                      + unat (actual - rb_base_offset r);
                    tail_start = (rb_head r + rb_capacity r - rb_len r) mod rb_capacity r;
                    phys_start = (tail_start + start_in_ring) mod rb_capacity r
                in map_option (\<lambda>chunk. Some (read_result r actual chunk (rb_is_eof r)))
                     (read_segments r phys_start read_len))"


section \<open>The two segments as a circular window\<close>

lemma nth_copy_into:
  assumes "copy_into i xs data = Some data'"
  shows "length data' = length data"
    "p < length data \<Longrightarrow> data' ! p = (if i \<le> p \<and> p < i + length xs then xs ! (p - i) else data ! p)"
  using assms by (auto simp: copy_into_def nth_append split: if_splits)

lemma copy_into_Some: "i + length xs \<le> length data \<Longrightarrow> \<exists>data'. copy_into i xs data = Some data'"
  by (simp add: copy_into_def)

lemma mod_window:
  assumes "h < (c::nat)" "i < c"
  shows "(h + i) mod c = (if h + i < c then h + i else h + i - c)"
  using assms by (simp add: mod_if)

lemma write_segments_Some:
  assumes "rb_head r < rb_capacity r" "length (rb_data r) = rb_capacity r" "length xs \<le> rb_capacity r"
  obtains data where "write_segments r xs = Some data" "length data = rb_capacity r"
    "\<And>i. i < rb_capacity r \<Longrightarrow>
       data ! ((rb_head r + i) mod rb_capacity r) =
         (if i < length xs then xs ! i else rb_data r ! ((rb_head r + i) mod rb_capacity r))"
proof -
  define n where "n = min (rb_capacity r - rb_head r) (length xs)"
  have "length (take n xs) \<le> rb_capacity r - rb_head r" by (simp add: n_def)
  with assms have "rb_head r + length (take n xs) \<le> length (rb_data r)" by linarith
  then obtain d1 where d1: "copy_into (rb_head r) (take n xs) (rb_data r) = Some d1"
    using copy_into_Some by blast
  note c1 = nth_copy_into [OF d1]
  have "length (drop n xs) \<le> length d1" using assms(2,3) c1(1) by simp
  then obtain d2 where d2: "(if n < length xs then copy_into 0 (drop n xs) d1 else Some d1) = Some d2"
    using copy_into_Some [of 0 "drop n xs" d1] by (cases "n < length xs") auto
  have len: "length d2 = rb_capacity r"
    using d2 c1(1) assms(2) by (auto split: if_splits dest: nth_copy_into(1))
  have nth: "d2 ! p = (if n < length xs \<and> p < length xs - n then xs ! (n + p) else d1 ! p)"
    if "p < rb_capacity r" for p
    using d2 nth_copy_into(2) [of 0 "drop n xs" d1 d2 p] that c1(1) assms(2) by (auto split: if_splits)
  have "d2 ! ((rb_head r + i) mod rb_capacity r) =
      (if i < length xs then xs ! i else rb_data r ! ((rb_head r + i) mod rb_capacity r))"
    if i: "i < rb_capacity r" for i
  proof (cases "rb_head r + i < rb_capacity r")
    case True
    then show ?thesis
      using nth [of "rb_head r + i"] c1(2) [of "rb_head r + i"] assms i
      by (auto simp: n_def min_def split: if_splits)
  next
    case False
    then show ?thesis
      using nth [of "rb_head r + i - rb_capacity r"] c1(2) [of "rb_head r + i - rb_capacity r"] assms i
      by (auto simp: mod_window n_def min_def split: if_splits)
  qed
  then show thesis
    using that [of d2] d1 d2 len by (simp add: write_segments_def Let_def flip: n_def)
qed

lemma read_segments_Some:
  assumes "start < rb_capacity r" "length (rb_data r) = rb_capacity r" "n \<le> rb_capacity r"
  shows "read_segments r start n = Some (map (\<lambda>i. rb_data r ! ((start + i) mod rb_capacity r)) [0..<n])"
proof -
  define f where "f = min (rb_capacity r - start) n"
  have "slice start (start + f) (rb_data r) = Some (map (\<lambda>i. rb_data r ! ((start + i) mod rb_capacity r)) [0..<f])"
    using assms by (auto simp: slice_def f_def list_eq_iff_nth_eq)
  moreover have "slice 0 (n - f) (rb_data r) = Some (map (\<lambda>i. rb_data r ! ((start + i) mod rb_capacity r)) [f..<n])"
    if "f < n"
    using assms that by (auto simp: slice_def f_def list_eq_iff_nth_eq mod_if)
  moreover have "[0..<n] = [0..<f] @ [f..<n]" using upt_add_eq_append [of 0 f "n - f"] by (simp add: f_def)
  ultimately show ?thesis by (auto simp: read_segments_def Let_def f_def [symmetric])
qed


section \<open>The console stream\<close>

text \<open>What the buffer stands for: everything written so far and whether the stream has ended.\<close>

definition stream_base :: "nat \<Rightarrow> u8 list \<Rightarrow> nat" where
  "stream_base capacity s = length s - capacity"

definition stream_read :: "nat \<Rightarrow> u8 list \<Rightarrow> bool \<Rightarrow> u64 \<Rightarrow> u64 \<Rightarrow> ring_read_result option" where
  "stream_read capacity s eof offset max_len =
     (let base = stream_base capacity s;
          actual = max (unat offset) base
      in if length s \<le> actual
         then if eof
              then Some \<lparr>rrr_actual_offset = of_nat (length s), rrr_data = [], rrr_base_offset = of_nat base,
                     rrr_dropped_bytes = of_nat base, rrr_is_eof = True\<rparr>
              else None
         else Some \<lparr>rrr_actual_offset = of_nat actual, rrr_data = take (unat max_len) (drop actual s),
                rrr_base_offset = of_nat base, rrr_dropped_bytes = of_nat base, rrr_is_eof = eof\<rparr>)"

text \<open>The buffer holds the tail of the stream: its \<open>k\<close>-th last byte sits \<open>k\<close> places before the head.\<close>

definition ring_abs :: "ring_buffer \<Rightarrow> u8 list \<Rightarrow> bool" where
  "ring_abs r s \<longleftrightarrow>
     0 < rb_capacity r \<and> rb_head r < rb_capacity r \<and> length (rb_data r) = rb_capacity r \<and>
     rb_len r = min (rb_capacity r) (length s) \<and> length s < 2 ^ 64 \<and>
     rb_total_written r = of_nat (length s) \<and> rb_base_offset r = of_nat (stream_base (rb_capacity r) s) \<and>
     (\<forall>k. 0 < k \<and> k \<le> rb_len r \<longrightarrow>
        rb_data r ! ((rb_head r + rb_capacity r - k) mod rb_capacity r) = s ! (length s - k))"

lemma ring_abs_new: "0 < c \<Longrightarrow> ring_new c = Some r \<Longrightarrow> ring_abs r [] \<and> rb_capacity r = c \<and> \<not> rb_is_eof r"
  by (auto simp: ring_new_def ring_abs_def stream_base_def)

lemma sat_add_of_nat:
  assumes "m + n < 2 ^ 64"
  shows "sat_add (of_nat m) (of_nat n) = (of_nat (m + n) :: u64)"
proof -
  have "unat (of_nat m :: u64) = m" "unat (of_nat n :: u64) = n"
    using assms by (simp_all add: unat_of_nat take_bit_nat_eq_self)
  with assms have "unat (sat_add (of_nat m) (of_nat n :: u64)) = m + n"
    by (simp add: unat_sat_add_room)
  also have "\<dots> = unat (of_nat (m + n) :: u64)"
    using assms by (simp add: unat_of_nat take_bit_nat_eq_self del: of_nat_add)
  finally show ?thesis by (rule word_unat_eq_iff [THEN iffD2])
qed

text \<open>After \<open>xs\<close>, the tail of \<open>bytes\<close>, is written at the head: the new bytes are the last of the stream, and the
  bytes that stay keep their distance from the end.\<close>

lemma head_before:
  assumes "k \<le> (c::nat)"
  shows "((h + m) mod c + c - k) mod c = (h + m + (c - k)) mod c"
  using assms mod_add_left_eq [of "h + m" c "c - k"] by simp

lemma window_push_new:
  assumes "\<And>i. i < c \<Longrightarrow> d ! ((h + i) mod c) = (if i < length xs then xs ! i else data ! ((h + i) mod c))"
    and "length xs \<le> c" "length xs = min c (length bytes)" "xs = drop skip bytes" "0 < k" "k \<le> length xs"
  shows "d ! (((h + length xs) mod c + c - k) mod c) = (s @ bytes) ! (length (s @ bytes) - k)"
proof -
  have "h + length xs + (c - k) = h + (length xs - k) + c" using assms(2,6) by simp
  then have "((h + length xs) mod c + c - k) mod c = (h + (length xs - k)) mod c"
    using head_before [of k c h "length xs"] assms(2,6) by (metis le_trans mod_add_self2)
  moreover have "length xs - k < length xs" using assms(5,6) by linarith
  then have "d ! ((h + (length xs - k)) mod c) = xs ! (length xs - k)"
    using assms(1) [of "length xs - k"] assms(2) by (simp only: less_le_trans if_True)
  moreover have "xs ! (length xs - k) = bytes ! (length bytes - k)"
    using assms(5,6) by (simp add: assms(4))
  moreover have "length (s @ bytes) - k = length s + (length bytes - k)" using assms(3,6) by simp
  then have "(s @ bytes) ! (length (s @ bytes) - k) = bytes ! (length bytes - k)"
    by (simp only: nth_append_length_plus)
  ultimately show ?thesis by simp
qed

lemma window_push_old:
  assumes "\<And>i. i < c \<Longrightarrow> d ! ((h + i) mod c) = (if i < length xs then xs ! i else data ! ((h + i) mod c))"
    and "\<And>k. 0 < k \<Longrightarrow> k \<le> len \<Longrightarrow> data ! ((h + c - k) mod c) = s ! (length s - k)"
    and "len = min c (length s)" "length xs = min c (length bytes)" "length xs < k" "k \<le> c"
    "k \<le> length s + length bytes"
  shows "d ! (((h + length xs) mod c + c - k) mod c) = (s @ bytes) ! (length (s @ bytes) - k)"
proof -
  define j where "j = k - length xs"
  have j: "0 < j" "j + length xs = k" using assms(5) by (simp_all add: j_def)
  have b: "length xs = length bytes" using assms(4-6) by simp
  then have "j \<le> len" using j assms(3,6,7) by simp
  have "h + length xs + (c - k) = h + (c - j)" "h + (c - j) = h + c - j" using j assms(6) by linarith+
  then have pos: "((h + length xs) mod c + c - k) mod c = (h + (c - j)) mod c" "(h + (c - j)) mod c = (h + c - j) mod c"
    using head_before [OF assms(6), of h "length xs"] by metis+
  have "\<not> c - j < length xs" "c - j < c" using j assms(6) by linarith+
  then have "d ! (((h + length xs) mod c + c - k) mod c) = data ! ((h + c - j) mod c)"
    using assms(1) [of "c - j"] pos by simp
  also have "\<dots> = s ! (length s - j)" using assms(2) [OF j(1) \<open>j \<le> len\<close>] .
  also have "length s - j = length (s @ bytes) - k" using j b by simp
  also have "length (s @ bytes) - k < length s" using j b assms(7) unfolding length_append by linarith
  then have "s ! (length (s @ bytes) - k) = (s @ bytes) ! (length (s @ bytes) - k)"
    by (simp only: nth_append if_True)
  finally show ?thesis .
qed

lemma ring_abs_push:
  assumes "ring_abs r s" "length s + length bytes < 2 ^ 64"
  obtains r' where "push_bytes r bytes = Some r'" "ring_abs r' (s @ bytes)"
    "rb_capacity r' = rb_capacity r" "rb_is_eof r' = rb_is_eof r"
proof (cases "bytes = []")
  case True
  then show thesis using that [of r] assms(1) by (simp add: push_bytes_def)
next
  case False
  define c where "c = rb_capacity r"
  define skip where "skip = (if c \<le> length bytes then length bytes - c else 0)"
  define xs where "xs = drop skip bytes"
  define evict where "evict = rb_len r + length xs - c"
  have r: "0 < c" "rb_head r < c" "length (rb_data r) = c" "rb_len r = min c (length s)"
    "rb_total_written r = of_nat (length s)" "rb_base_offset r = of_nat (length s - c)"
    and data: "\<And>k. 0 < k \<Longrightarrow> k \<le> rb_len r \<Longrightarrow> rb_data r ! ((rb_head r + c - k) mod c) = s ! (length s - k)"
    using assms(1) by (auto simp: ring_abs_def c_def stream_base_def)
  have xs: "length xs \<le> c" "length xs = min c (length bytes)" by (auto simp: xs_def skip_def)
  obtain d where d: "write_segments r xs = Some d" "length d = c"
    and nth: "\<And>i. i < c \<Longrightarrow>
       d ! ((rb_head r + i) mod c) = (if i < length xs then xs ! i else rb_data r ! ((rb_head r + i) mod c))"
    using write_segments_Some [of r xs] r(2,3) xs(1) unfolding c_def by metis
  define r' where "r' = r\<lparr>rb_data := d, rb_head := (rb_head r + length xs) mod c,
      rb_len := rb_len r - evict + length xs, rb_base_offset := sat_add (rb_base_offset r) (of_nat (skip + evict)),
      rb_total_written := sat_add (rb_total_written r) (of_nat (length bytes))\<rparr>"
  have push: "push_bytes r bytes = Some r'"
    unfolding push_bytes_def Let_def c_def [symmetric] skip_def [symmetric] xs_def [symmetric] evict_def [symmetric]
    using False d(1) by (simp add: r'_def)
  have len: "rb_len r' = min c (length (s @ bytes))"
    using xs r(4) by (auto simp: r'_def evict_def)
  have base: "length s - c + (skip + evict) = length (s @ bytes) - c"
    using xs r(4) by (auto simp: evict_def skip_def)
  have last: "d ! ((rb_head r' + c - k) mod c) = (s @ bytes) ! (length (s @ bytes) - k)"
    if "0 < k" "k \<le> rb_len r'" for k
    using window_push_new [OF nth xs xs_def, where k = k and s = s] window_push_old [OF nth data r(4) xs(2), where k = k]
      that len by (cases "k \<le> length xs") (auto simp: r'_def)
  have "ring_abs r' (s @ bytes)"
    unfolding ring_abs_def
    using r d(2) len last assms(2) base sat_add_of_nat [of "length s" "length bytes"]
      sat_add_of_nat [of "length s - c" "skip + evict"]
    by (simp add: r'_def stream_base_def c_def [symmetric] del: of_nat_add)
  then show thesis using that [OF push] by (simp add: r'_def)
qed


lemma tail_bytes:
  assumes "ring_abs r s" "stream_base (rb_capacity r) s \<le> a" "a + n \<le> length s"
  shows "read_segments r (((rb_head r + rb_capacity r - rb_len r) mod rb_capacity r +
      (a - stream_base (rb_capacity r) s)) mod rb_capacity r) n = Some (take n (drop a s))"
proof -
  define c where "c = rb_capacity r"
  define b where "b = length s - c"
  define ps where "ps = ((rb_head r + c - rb_len r) mod c + (a - b)) mod c"
  have r: "0 < c" "length (rb_data r) = c" "rb_len r = min c (length s)" "b \<le> a"
    and data: "\<And>k. 0 < k \<Longrightarrow> k \<le> rb_len r \<Longrightarrow> rb_data r ! ((rb_head r + c - k) mod c) = s ! (length s - k)"
    using assms(1,2) by (auto simp: ring_abs_def c_def b_def stream_base_def)
  have bytes: "rb_data r ! ((ps + i) mod c) = s ! (a + i)" if "i < n" for i
  proof -
    have "a + i < length s" "b + rb_len r = length s" "rb_len r \<le> c"
      using that assms(3) r(3) by (auto simp: b_def)
    then have "rb_head r + c - rb_len r + (a - b) + i = rb_head r + c - (length s - (a + i))"
      using r(4) by linarith
    then have "(ps + i) mod c = (rb_head r + c - (length s - (a + i))) mod c"
      by (simp add: ps_def mod_simps)
    moreover have "0 < length s - (a + i)" "length s - (a + i) \<le> rb_len r"
      using \<open>a + i < length s\<close> \<open>b + rb_len r = length s\<close> r(4) by linarith+
    ultimately show ?thesis using data [of "length s - (a + i)"] \<open>a + i < length s\<close> by simp
  qed
  have "n \<le> c" using assms(3) r(4) by (simp add: b_def)
  then have "read_segments r ps n = Some (map (\<lambda>i. rb_data r ! ((ps + i) mod c)) [0..<n])"
    using read_segments_Some [of ps r n] r(1,2) by (simp add: ps_def c_def)
  also have "map (\<lambda>i. rb_data r ! ((ps + i) mod c)) [0..<n] = take n (drop a s)"
    using bytes assms(3) by (auto simp: list_eq_iff_nth_eq)
  finally show ?thesis by (simp add: ps_def b_def stream_base_def c_def)
qed

lemma read_at_abs:
  assumes "ring_abs r s"
  shows "read_at r offset max_len = Some (stream_read (rb_capacity r) s (rb_is_eof r) offset max_len)"
proof -
  define c where "c = rb_capacity r"
  define b where "b = length s - c"
  define a where "a = max (unat offset) b"
  have r: "0 < c" "rb_head r < c" "length (rb_data r) = c" "rb_len r = min c (length s)" "length s < 2 ^ 64"
    "rb_total_written r = of_nat (length s)" "rb_base_offset r = of_nat b"
    and data: "\<And>k. 0 < k \<Longrightarrow> k \<le> rb_len r \<Longrightarrow> rb_data r ! ((rb_head r + c - k) mod c) = s ! (length s - k)"
    using assms by (auto simp: ring_abs_def c_def b_def stream_base_def)
  have unat: "unat (of_nat (length s) :: u64) = length s" "unat (of_nat b :: u64) = b"
    using r(5) by (simp_all add: b_def unat_of_nat take_bit_nat_eq_self)
  have a: "max offset (rb_base_offset r) = of_nat a" "unat (of_nat a :: u64) = a"
    using unat(2) by (auto simp: a_def r(7) max_def word_le_nat_alt)
  have le: "rb_total_written r \<le> of_nat a \<longleftrightarrow> length s \<le> a"
    using unat(1) a(2) by (simp add: word_le_nat_alt r(6))
  show ?thesis
  proof (cases "length s \<le> a")
    case True
    then show ?thesis
      using a(1) le
      by (simp add: read_at_def stream_read_def read_result_def dropped_bytes_def Let_def stream_base_def r(6,7)
          flip: c_def b_def a_def)
  next
    case False
    then have nonempty: "rb_len r \<noteq> 0" "b \<le> a" "length s - a \<le> c" using r(1,4) by (auto simp: a_def b_def)
    have avail: "unat (rb_total_written r - of_nat a) = length s - a"
      using False unat(1) a(2) by (simp add: unat_sub word_le_nat_alt r(6))
    define n where "n = min (length s - a) (unat max_len)"
    have n: "unat (min (of_nat (length s - a) :: u64) max_len) = n"
      using r(5) by (simp add: n_def min_def word_le_nat_alt unat_of_nat take_bit_nat_eq_self)
    have start: "unat (rb_total_written r - of_nat (rb_len r) - rb_base_offset r) = 0"
    proof -
      have "rb_total_written r - of_nat (rb_len r) = of_nat (length s - rb_len r)"
        using r(4) by (simp add: r(6))
      also have "length s - rb_len r = b" using r(4) by (simp add: b_def min_def)
      finally show ?thesis by (simp add: r(7))
    qed
    have off: "unat (of_nat a - rb_base_offset r) = a - b"
      using nonempty(2) unat(2) a(2) by (simp add: unat_sub word_le_nat_alt r(7))
    define ps where "ps = ((rb_head r + c - rb_len r) mod c + (a - b)) mod c"
    have seg: "read_segments r ps n = Some (take (unat max_len) (drop a s))"
    proof -
      have "take n (drop a s) = take (unat max_len) (drop a s)" by (simp add: n_def min_def)
      moreover have "a + n \<le> length s" using False by (simp add: n_def)
      ultimately show ?thesis
        using tail_bytes [OF assms, of a n] nonempty(2) by (simp add: ps_def b_def stream_base_def flip: c_def)
    qed
    have "n = 0 \<Longrightarrow> take (unat max_len) (drop a s) = []" using False by (auto simp: n_def)
    then show ?thesis
      unfolding read_at_def stream_read_def Let_def a(1) avail n
      using False le nonempty(1) start off seg
      by (auto simp: read_result_def dropped_bytes_def stream_base_def r(7) simp flip: c_def b_def a_def ps_def)
  qed
qed


section \<open>The contract of a console ring\<close>

text \<open>The drainer appends chunks and marks the end of the stream.\<close>

datatype ring_op = Ring_Push "u8 list" | Ring_Eof

primrec ring_apply :: "ring_op \<Rightarrow> ring_buffer \<Rightarrow> ring_buffer option" where
  "ring_apply (Ring_Push bytes) r = push_bytes r bytes"
| "ring_apply Ring_Eof r = Some (r\<lparr>rb_is_eof := True\<rparr>)"

primrec op_bytes :: "ring_op \<Rightarrow> u8 list" where
  "op_bytes (Ring_Push bytes) = bytes"
| "op_bytes Ring_Eof = []"

definition written :: "ring_op list \<Rightarrow> u8 list" where
  "written xs = concat (map op_bytes xs)"

lemma written_simps [simp]: "written [] = []" "written (x # xs) = op_bytes x @ written xs"
  by (simp_all add: written_def)

primrec run_ops :: "('x \<Rightarrow> 'r \<Rightarrow> 'r option) \<Rightarrow> 'x list \<Rightarrow> 'r \<Rightarrow> 'r option" where
  "run_ops f [] r = Some r"
| "run_ops f (x # xs) r = Option.bind (f x r) (run_ops f xs)"

text \<open>What a console ring promises: it represents a stream of which it keeps the last \<open>window\<close> bytes.\<close>

locale stream_window =
  fixes represents :: "nat \<Rightarrow> 'r \<Rightarrow> u8 list \<Rightarrow> bool \<Rightarrow> bool"
    and app :: "ring_op \<Rightarrow> 'r \<Rightarrow> 'r option"
    and read :: "'r \<Rightarrow> u64 \<Rightarrow> u64 \<Rightarrow> ring_read_result option option"
  assumes represents_bounds: "represents window r s eof \<Longrightarrow> 0 < window \<and> length s < 2 ^ 64"
    and app_represents: "represents window r s eof \<Longrightarrow> length s + length (op_bytes x) < 2 ^ 64 \<Longrightarrow>
      \<exists>r'. app x r = Some r' \<and> represents window r' (s @ op_bytes x) (eof \<or> Ring_Eof = x)"
    and read_represents: "represents window r s eof \<Longrightarrow>
      read r offset max_len = Some (stream_read window s eof offset max_len)"
begin

lemma run_represents:
  "represents window r s eof \<Longrightarrow> length s + length (written xs) < 2 ^ 64 \<Longrightarrow>
   \<exists>r'. run_ops app xs r = Some r' \<and> represents window r' (s @ written xs) (eof \<or> Ring_Eof \<in> set xs)"
proof (induction xs arbitrary: r s eof)
  case (Cons x xs)
  obtain r1 where r1: "app x r = Some r1" "represents window r1 (s @ op_bytes x) (eof \<or> Ring_Eof = x)"
    using app_represents [OF Cons.prems(1), of x] Cons.prems(2) by auto
  with Cons.IH [OF r1(2)] Cons.prems(2) show ?case by auto
qed simp

end

definition ring_represents :: "nat \<Rightarrow> ring_buffer \<Rightarrow> u8 list \<Rightarrow> bool \<Rightarrow> bool" where
  "ring_represents window r s eof \<longleftrightarrow> ring_abs r s \<and> rb_capacity r = window \<and> rb_is_eof r = eof"

lemma ring_represents_new: "0 < window \<Longrightarrow> ring_new window = Some r \<Longrightarrow> ring_represents window r [] False"
  using ring_abs_new by (simp add: ring_represents_def)

interpretation console_ring: stream_window ring_represents ring_apply read_at
proof
  fix window r s eof x
  assume r: "ring_represents window r s eof" and len: "length s + length (op_bytes x) < 2 ^ 64"
  show "\<exists>r'. ring_apply x r = Some r' \<and> ring_represents window r' (s @ op_bytes x) (eof \<or> Ring_Eof = x)"
  proof (cases x)
    case (Ring_Push bytes)
    then obtain r' where "push_bytes r bytes = Some r'" "ring_abs r' (s @ bytes)"
      "rb_capacity r' = rb_capacity r" "rb_is_eof r' = rb_is_eof r"
      using ring_abs_push [of r s bytes] r len by (auto simp: ring_represents_def)
    with r Ring_Push show ?thesis by (auto simp: ring_represents_def)
  next
    case Ring_Eof
    with r show ?thesis by (auto simp: ring_represents_def ring_abs_def)
  qed
qed (auto simp: ring_represents_def ring_abs_def read_at_abs)


section \<open>Properties\<close>

text \<open>C10. The ring buffer refines the unbounded console stream. However the drainer appends chunks (of any
  size, also above the capacity) and ends the stream, no push and no read panics, and a read at any
  offset answers exactly from the last bytes of everything written, at most the capacity: it starts at
  the requested offset or at the oldest byte still held, returns up to the requested number of bytes, and
  reports how many bytes were dropped.\<close>

theorem ring_refines_stream:
  assumes "0 < capacity" "length (written xs) < 2 ^ 64"
  shows "\<exists>r r'. ring_new capacity = Some r \<and> run_ops ring_apply xs r = Some r' \<and>
    (\<forall>offset max_len.
       read_at r' offset max_len =
         Some (stream_read capacity (written xs) (Ring_Eof \<in> set xs) offset max_len))"
proof -
  obtain r where r: "ring_new capacity = Some r" using assms(1) by (simp add: ring_new_def)
  from console_ring.run_represents [OF ring_represents_new [OF assms(1) r], of xs] assms(2)
  show ?thesis using r console_ring.read_represents by fastforce
qed

text \<open>Six bytes into four: the read at offset 0 starts at offset 2.\<close>

lemma ring_refines_stream_witness:
  "\<exists>r r'. ring_new 4 = Some r \<and> run_ops ring_apply [Ring_Push [1, 2, 3], Ring_Push [4, 5, 6]] r = Some r' \<and>
     read_at r' 0 3 = Some (Some \<lparr>rrr_actual_offset = 2, rrr_data = [3, 4, 5], rrr_base_offset = 2,
       rrr_dropped_bytes = 2, rrr_is_eof = False\<rparr>)"
proof -
  have "stream_read 4 (written [Ring_Push [1, 2, 3], Ring_Push [4, 5, 6]]) False 0 3 =
      Some \<lparr>rrr_actual_offset = 2, rrr_data = [3, 4, 5], rrr_base_offset = 2, rrr_dropped_bytes = 2, rrr_is_eof = False\<rparr>"
    by (simp add: stream_read_def stream_base_def Let_def)
  then show ?thesis
    using ring_refines_stream [of 4 "[Ring_Push [1, 2, 3], Ring_Push [4, 5, 6]]"] by simp metis
qed

end
