(* ===== verification/Base64_Codec.thy ===== *)
theory Base64_Codec
  imports Prelude
begin

unbundle bit_operations_syntax

text \<open>
  The base64 codec \<open>d2b-core/src/base64_codec.rs\<close> that carries console and configuration bytes in JSON
  strings: encoding three bytes at a time, decoding four symbols at a time with strict padding. The decoder
  accepts exactly the encodings: it inverts the encoder, and no other string decodes.
\<close>

section \<open>Encoding\<close>

definition ENCODE_TABLE :: string where
  "ENCODE_TABLE = ''ABCDEFGHIJKLMNOPQRSTUVWXYZabcdefghijklmnopqrstuvwxyz0123456789+/''"

definition PAD :: char where
  "PAD = CHR ''=''"

text \<open>\<open>slice::chunks\<close>.\<close>

function chunks :: "nat \<Rightarrow> 'a list \<Rightarrow> 'a list list" where
  "chunks n xs = (if n = 0 \<or> xs = [] then [] else take n xs # chunks n (drop n xs))"
  by auto
termination
  by (relation "measure (length \<circ> snd)") auto

declare chunks.simps [simp del]

definition symbol :: "u32 \<Rightarrow> char" where
  "symbol x = ENCODE_TABLE ! unat (x AND 0x3f)"

definition byte_at :: "u8 list \<Rightarrow> nat \<Rightarrow> u32" where
  "byte_at chunk i = (if i < length chunk then ucast (chunk ! i) else 0)"

definition encode_chunk :: "u8 list \<Rightarrow> string" where
  "encode_chunk chunk =
     (let triple = push_bit 16 (byte_at chunk 0) OR push_bit 8 (byte_at chunk 1) OR byte_at chunk 2 in
      [symbol (drop_bit 18 triple), symbol (drop_bit 12 triple),
       if 1 < length chunk then symbol (drop_bit 6 triple) else PAD,
       if 2 < length chunk then symbol triple else PAD])"

definition encode :: "u8 list \<Rightarrow> string" where
  "encode input = concat (map encode_chunk (chunks 3 input))"


section \<open>Decoding\<close>

datatype base64_error = DecodeError

definition decode_symbol :: "char \<Rightarrow> base64_error + u8" where
  "decode_symbol c =
     (let byte = of_char c :: u8 in
      if CHR ''A'' \<le> c \<and> c \<le> CHR ''Z'' then Inr (byte - of_char CHR ''A'')
      else if CHR ''a'' \<le> c \<and> c \<le> CHR ''z'' then Inr (byte - of_char CHR ''a'' + 26)
      else if CHR ''0'' \<le> c \<and> c \<le> CHR ''9'' then Inr (byte - of_char CHR ''0'' + 52)
      else if c = CHR ''+'' then Inr 62
      else if c = CHR ''/'' then Inr 63
      else Inl DecodeError)"

text \<open>The loop over one quad: position, the symbols so far and the number of pads.\<close>

primrec scan_quad :: "bool \<Rightarrow> string \<Rightarrow> nat \<Rightarrow> u8 list \<times> nat \<Rightarrow> base64_error + (u8 list \<times> nat)" where
  "scan_quad is_last [] i st = Inr st"
| "scan_quad is_last (b # bs) i st =
     (case st of (buf, pad) \<Rightarrow>
        if b = PAD
        then if i < 2 \<or> \<not> is_last then Inl DecodeError else scan_quad is_last bs (i + 1) (buf @ [0], pad + 1)
        else if 0 < pad then Inl DecodeError
        else bind_result (decode_symbol b) (\<lambda>v. scan_quad is_last bs (i + 1) (buf @ [v], pad)))"

definition quad_triple :: "u8 list \<Rightarrow> u32" where
  "quad_triple buf =
     push_bit 18 (ucast (buf ! 0)) OR push_bit 12 (ucast (buf ! 1)) OR push_bit 6 (ucast (buf ! 2)) OR ucast (buf ! 3)"

definition decode_quad :: "bool \<Rightarrow> string \<Rightarrow> base64_error + u8 list" where
  "decode_quad is_last quad =
     bind_result (scan_quad is_last quad 0 ([], 0))
       (\<lambda>(buf, pad).
          let triple = quad_triple buf in
          if pad = 1 \<and> triple AND 0xff \<noteq> 0 \<or> pad = 2 \<and> triple AND 0xffff \<noteq> 0 then Inl DecodeError
          else Inr ([ucast (drop_bit 16 triple)] @
                    (if pad < 2 then [ucast (drop_bit 8 triple)] else []) @
                    (if pad < 1 then [ucast triple] else [])))"

fun decode_quads :: "string list \<Rightarrow> base64_error + u8 list" where
  "decode_quads [] = Inr []"
| "decode_quads (quad # quads) =
     bind_result (decode_quad (quads = []) quad)
       (\<lambda>out. bind_result (decode_quads quads) (\<lambda>rest. Inr (out @ rest)))"

definition decode :: "string \<Rightarrow> base64_error + u8 list" where
  "decode input = (if length input mod 4 \<noteq> 0 then Inl DecodeError else decode_quads (chunks 4 input))"


section \<open>Symbols\<close>

lemma decode_table: "map decode_symbol ENCODE_TABLE = map (\<lambda>i. Inr (of_nat i)) [0..<64]"
  by code_simp

lemma length_table [simp]: "length ENCODE_TABLE = 64"
  by (simp add: ENCODE_TABLE_def)

lemma table_ranges:
  "ENCODE_TABLE = map char_of [65..<91::nat] @ map char_of [97..<123] @ map char_of [48..<58] @ ''+/''"
  by code_simp

lemma pad_not_symbol: "PAD \<notin> set ENCODE_TABLE"
  by (simp add: ENCODE_TABLE_def PAD_def)

lemma decode_symbol_table: "i < 64 \<Longrightarrow> decode_symbol (ENCODE_TABLE ! i) = Inr (of_nat i)"
  using arg_cong [OF decode_table, of "\<lambda>xs. xs ! i"] by simp

lemma in_char_range: "m \<le> (of_char c :: nat) \<Longrightarrow> of_char c < n \<Longrightarrow> c \<in> set (map char_of [m..<n])"
  by (auto intro!: image_eqI [of _ _ "of_char c"])

lemma decode_symbol_in_table: "decode_symbol c = Inr v \<Longrightarrow> c \<in> set ENCODE_TABLE"
proof -
  assume "decode_symbol c = Inr v"
  then consider "65 \<le> (of_char c :: nat) \<and> of_char c < (91::nat)" | "97 \<le> (of_char c :: nat) \<and> of_char c < (123::nat)"
    | "48 \<le> (of_char c :: nat) \<and> of_char c < (58::nat)" | "c \<in> set ''+/''"
    by (auto simp: decode_symbol_def Let_def less_eq_char_def split: if_splits)
  then show ?thesis
    unfolding table_ranges set_append using in_char_range by cases blast+
qed

lemma decode_symbol_Inr: "decode_symbol c = Inr v \<longleftrightarrow> v < 64 \<and> c = ENCODE_TABLE ! unat v"
proof
  assume c: "decode_symbol c = Inr v"
  then obtain i where i: "i < 64" "c = ENCODE_TABLE ! i"
    using decode_symbol_in_table by (metis in_set_conv_nth length_table)
  with c have "v = of_nat i" using decode_symbol_table by simp
  with i show "v < 64 \<and> c = ENCODE_TABLE ! unat v"
    by (simp add: word_less_nat_alt unat_of_nat take_bit_nat_eq_self)
next
  assume "v < 64 \<and> c = ENCODE_TABLE ! unat v"
  then show "decode_symbol c = Inr v" using decode_symbol_table [of "unat v"] by (simp add: word_less_nat_alt)
qed

lemma and_mask6: "x AND 0x3f = take_bit 6 x" for x :: "'a::len word"
proof -
  have "(0x3f :: 'a word) = mask 6" by (simp add: mask_eq_exp_minus_1)
  then show ?thesis by (simp add: take_bit_eq_mask)
qed

lemma decode_symbol_symbol: "decode_symbol (symbol x) = Inr (ucast (x AND 0x3f))"
proof -
  have "unat (x AND 0x3f) < 64" by (simp add: and_mask6 unsigned_take_bit_eq) (rule order_less_le_trans [OF take_bit_nat_less_exp]; simp)
  then show ?thesis unfolding symbol_def by (simp add: decode_symbol_table)
qed

lemma symbol_not_pad [simp]: "symbol x \<noteq> PAD"
  using decode_symbol_symbol [of x] pad_not_symbol decode_symbol_in_table by metis


section \<open>Triples\<close>

definition triple_of :: "u8 \<Rightarrow> u8 \<Rightarrow> u8 \<Rightarrow> u32" where
  "triple_of b0 b1 b2 = push_bit 16 (ucast b0) OR push_bit 8 (ucast b1) OR ucast b2"

lemma bit_u8 [simp]: "8 \<le> n \<Longrightarrow> \<not> bit b n" for b :: u8
  using bit_imp_le_length [of b n] by auto

lemma bit_symbol: "v < 64 \<Longrightarrow> 6 \<le> n \<Longrightarrow> \<not> bit v n" for v :: u8
proof -
  assume "v < 64" "6 \<le> n"
  then have "take_bit 6 v = v"
    by (simp add: word_unat_eq_iff unsigned_take_bit_eq word_less_nat_alt take_bit_nat_eq_self)
  with \<open>6 \<le> n\<close> show ?thesis by (metis bit_take_bit_iff not_le)
qed

lemma triple_bytes:
  "ucast (drop_bit 16 (triple_of b0 b1 b2)) = b0" "ucast (drop_bit 8 (triple_of b0 b1 b2)) = b1"
  "ucast (triple_of b0 b1 b2) = b2"
  by (rule bit_word_eqI; simp add: triple_of_def bit_simps)+

lemma sextets: obtains "n < (6::nat)" | "6 \<le> n" "n < 12" | "12 \<le> n" "n < 18" | "18 \<le> n" "n < 24" | "24 \<le> n"
  by linarith

lemma quad_of_triple:
  "quad_triple [ucast (drop_bit 18 (triple_of b0 b1 b2) AND 0x3f), ucast (drop_bit 12 (triple_of b0 b1 b2) AND 0x3f),
     ucast (drop_bit 6 (triple_of b0 b1 b2) AND 0x3f), ucast (triple_of b0 b1 b2 AND 0x3f)] = triple_of b0 b1 b2"
proof (rule bit_word_eqI)
  fix n
  assume "n < LENGTH(32)"
  then show "bit (quad_triple [ucast (drop_bit 18 (triple_of b0 b1 b2) AND 0x3f),
      ucast (drop_bit 12 (triple_of b0 b1 b2) AND 0x3f), ucast (drop_bit 6 (triple_of b0 b1 b2) AND 0x3f),
      ucast (triple_of b0 b1 b2 AND 0x3f)]) n = bit (triple_of b0 b1 b2) n"
    by (cases n rule: sextets) (simp_all add: triple_of_def quad_triple_def and_mask6 bit_simps less_diff_conv2)
qed

lemma triple_of_quad:
  assumes "v0 < 64" "v1 < 64" "v2 < 64" "v3 < 64"
  shows "triple_of (ucast (drop_bit 16 (quad_triple [v0, v1, v2, v3]))) (ucast (drop_bit 8 (quad_triple [v0, v1, v2, v3])))
      (ucast (quad_triple [v0, v1, v2, v3])) = quad_triple [v0, v1, v2, v3]"
proof (rule bit_word_eqI)
  fix n
  assume "n < LENGTH(32)"
  then show "bit (triple_of (ucast (drop_bit 16 (quad_triple [v0, v1, v2, v3])))
      (ucast (drop_bit 8 (quad_triple [v0, v1, v2, v3]))) (ucast (quad_triple [v0, v1, v2, v3]))) n =
      bit (quad_triple [v0, v1, v2, v3]) n"
    using bit_symbol [OF assms(1)]
    by (cases "n < 8"; cases "n < 16"; cases "n < 24") (simp_all add: triple_of_def quad_triple_def bit_simps less_diff_conv2)
qed

lemma sextets_of_quad:
  assumes "v0 < 64" "v1 < 64" "v2 < 64" "v3 < 64"
  shows "drop_bit 18 (quad_triple [v0, v1, v2, v3]) AND 0x3f = ucast v0"
    "drop_bit 12 (quad_triple [v0, v1, v2, v3]) AND 0x3f = ucast v1"
    "drop_bit 6 (quad_triple [v0, v1, v2, v3]) AND 0x3f = ucast v2"
    "quad_triple [v0, v1, v2, v3] AND 0x3f = ucast v3"
proof -
  show "drop_bit 18 (quad_triple [v0, v1, v2, v3]) AND 0x3f = ucast v0"
    "drop_bit 12 (quad_triple [v0, v1, v2, v3]) AND 0x3f = ucast v1"
    "drop_bit 6 (quad_triple [v0, v1, v2, v3]) AND 0x3f = ucast v2"
    "quad_triple [v0, v1, v2, v3] AND 0x3f = ucast v3"
    by (rule bit_word_eqI, rename_tac n, case_tac "n < 6";
        simp add: quad_triple_def and_mask6 bit_simps assms bit_symbol)+
qed



section \<open>Quads\<close>

lemma encode_chunk_simps:
  "encode_chunk [b0, b1, b2] =
     [symbol (drop_bit 18 (triple_of b0 b1 b2)), symbol (drop_bit 12 (triple_of b0 b1 b2)),
      symbol (drop_bit 6 (triple_of b0 b1 b2)), symbol (triple_of b0 b1 b2)]"
  "encode_chunk [b0, b1] =
     [symbol (drop_bit 18 (triple_of b0 b1 0)), symbol (drop_bit 12 (triple_of b0 b1 0)),
      symbol (drop_bit 6 (triple_of b0 b1 0)), PAD]"
  "encode_chunk [b0] =
     [symbol (drop_bit 18 (triple_of b0 0 0)), symbol (drop_bit 12 (triple_of b0 0 0)), PAD, PAD]"
  by (simp_all add: encode_chunk_def byte_at_def triple_of_def Let_def)

lemma scan_quad_symbols:
  assumes "c0 \<noteq> PAD" "c1 \<noteq> PAD" "decode_symbol c0 = Inr v0" "decode_symbol c1 = Inr v1"
  shows "c2 \<noteq> PAD \<Longrightarrow> c3 \<noteq> PAD \<Longrightarrow> decode_symbol c2 = Inr v2 \<Longrightarrow> decode_symbol c3 = Inr v3 \<Longrightarrow>
      scan_quad is_last [c0, c1, c2, c3] 0 ([], 0) = Inr ([v0, v1, v2, v3], 0)"
    "c2 \<noteq> PAD \<Longrightarrow> decode_symbol c2 = Inr v2 \<Longrightarrow> scan_quad True [c0, c1, c2, PAD] 0 ([], 0) = Inr ([v0, v1, v2, 0], 1)"
    "scan_quad True [c0, c1, PAD, PAD] 0 ([], 0) = Inr ([v0, v1, 0, 0], 2)"
  using assms by simp_all

lemma zero_tail:
  "triple_of b0 b1 0 AND 0x3f = 0" "triple_of b0 b1 0 AND 0xff = 0"
  "drop_bit 6 (triple_of b0 0 0) AND 0x3f = 0" "triple_of b0 0 0 AND 0xffff = 0"
proof -
  have m: "(0xff :: u32) = mask 8" "(0xffff :: u32) = mask 16" by (simp_all add: mask_eq_exp_minus_1)
  show "triple_of b0 b1 0 AND 0x3f = 0" "triple_of b0 b1 0 AND 0xff = 0"
    "drop_bit 6 (triple_of b0 0 0) AND 0x3f = 0" "triple_of b0 0 0 AND 0xffff = 0"
    unfolding m and_mask6 by (rule bit_word_eqI; auto simp: triple_of_def bit_simps)+
qed

lemma low_bytes_zero:
  fixes t :: u32
  shows "t AND 0xff = 0 \<Longrightarrow> (ucast t :: u8) = 0" "t AND 0xffff = 0 \<Longrightarrow> (ucast t :: u8) = 0"
    "t AND 0xffff = 0 \<Longrightarrow> (ucast (drop_bit 8 t) :: u8) = 0"
proof -
  have m: "(0xff :: u32) = mask 8" "(0xffff :: u32) = mask 16" by (simp_all add: mask_eq_exp_minus_1)
  have bit: "t AND mask k = 0 \<Longrightarrow> n < k \<Longrightarrow> n < 32 \<Longrightarrow> \<not> bit t n" for k n
    using bit_eq_iff [of "t AND mask k" 0] by (auto simp: bit_simps)
  show "t AND 0xff = 0 \<Longrightarrow> (ucast t :: u8) = 0" "t AND 0xffff = 0 \<Longrightarrow> (ucast t :: u8) = 0"
    "t AND 0xffff = 0 \<Longrightarrow> (ucast (drop_bit 8 t) :: u8) = 0"
    unfolding m by (rule bit_word_eqI; simp add: bit bit_simps)+
qed

lemma decode_encode_chunk:
  assumes "0 < length chunk" "length chunk \<le> 3" "length chunk = 3 \<or> is_last"
  shows "decode_quad is_last (encode_chunk chunk) = Inr chunk"
proof -
  note scan = scan_quad_symbols [OF symbol_not_pad symbol_not_pad decode_symbol_symbol decode_symbol_symbol]
  consider b0 b1 b2 where "chunk = [b0, b1, b2]" | b0 b1 where "chunk = [b0, b1]" is_last | b0 where "chunk = [b0]" is_last
    using assms by (auto simp: length_Suc_conv numeral_eq_Suc le_Suc_eq)
  then show ?thesis
  proof cases
    case (1 b0 b1 b2)
    then show ?thesis
      by (simp add: encode_chunk_simps decode_quad_def scan(1) [OF symbol_not_pad symbol_not_pad decode_symbol_symbol
          decode_symbol_symbol] quad_of_triple triple_bytes Let_def del: scan_quad.simps)
  next
    case (2 b0 b1)
    then show ?thesis
      using quad_of_triple [of b0 b1 0] triple_bytes [of b0 b1 0] zero_tail(1,2) [of b0 b1]
      by (simp add: encode_chunk_simps decode_quad_def scan(2) [OF symbol_not_pad decode_symbol_symbol] Let_def
          del: scan_quad.simps)
  next
    case (3 b0)
    then show ?thesis
      using quad_of_triple [of b0 0 0] triple_bytes [of b0 0 0] zero_tail(1) [of b0 0] zero_tail(3,4) [of b0]
      by (simp add: encode_chunk_simps decode_quad_def scan(3) Let_def del: scan_quad.simps)
  qed
qed

text \<open>The shapes the scan accepts.\<close>

lemma scan_quad_cases:
  assumes "scan_quad is_last [c0, c1, c2, c3] 0 ([], 0) = Inr (buf, pad)"
  obtains
    (full) v0 v1 v2 v3 where "decode_symbol c0 = Inr v0" "decode_symbol c1 = Inr v1" "decode_symbol c2 = Inr v2"
      "decode_symbol c3 = Inr v3" "buf = [v0, v1, v2, v3]" "pad = 0"
  | (one) v0 v1 v2 where "decode_symbol c0 = Inr v0" "decode_symbol c1 = Inr v1" "decode_symbol c2 = Inr v2"
      "c3 = PAD" is_last "buf = [v0, v1, v2, 0]" "pad = 1"
  | (two) v0 v1 where "decode_symbol c0 = Inr v0" "decode_symbol c1 = Inr v1" "c2 = PAD" "c3 = PAD" is_last
      "buf = [v0, v1, 0, 0]" "pad = 2"
  using assms by (auto simp: bind_result_eq_Inr split: if_splits)

lemma unat_ucast_u8 [simp]: "unat (ucast v :: u32) = unat v" for v :: u8
  by (simp add: unsigned_ucast_eq) (rule take_bit_nat_eq_self, rule less_le_trans [OF unsigned_less], simp)

lemma symbol_of: "decode_symbol c = Inr v \<Longrightarrow> x AND 0x3f = ucast v \<Longrightarrow> symbol x = c"
  by (simp add: decode_symbol_Inr symbol_def)

lemma encode_decode_quad:
  assumes "decode_quad is_last [c0, c1, c2, c3] = Inr out"
  shows "encode_chunk out = [c0, c1, c2, c3]" "0 < length out" "length out \<le> 3" "length out = 3 \<or> is_last"
proof -
  obtain buf pad where scan: "scan_quad is_last [c0, c1, c2, c3] 0 ([], 0) = Inr (buf, pad)"
    and canonical: "pad = 1 \<longrightarrow> quad_triple buf AND 0xff = 0" "pad = 2 \<longrightarrow> quad_triple buf AND 0xffff = 0"
    and out: "out = [ucast (drop_bit 16 (quad_triple buf))] @
        (if pad < 2 then [ucast (drop_bit 8 (quad_triple buf))] else []) @ (if pad < 1 then [ucast (quad_triple buf)] else [])"
    using assms by (auto simp: decode_quad_def bind_result_eq_Inr Let_def split: if_splits simp del: scan_quad.simps)
  have v: "decode_symbol c = Inr v \<Longrightarrow> v < 64" for c v by (simp add: decode_symbol_Inr)
  from scan have "encode_chunk out = [c0, c1, c2, c3] \<and> 0 < length out \<and> length out \<le> 3 \<and> (length out = 3 \<or> is_last)"
  proof (cases rule: scan_quad_cases)
    case (full v0 v1 v2 v3)
    note q = v [OF full(1)] v [OF full(2)] v [OF full(3)] v [OF full(4)]
    show ?thesis
      using symbol_of [OF full(1) sextets_of_quad(1) [OF q]] symbol_of [OF full(2) sextets_of_quad(2) [OF q]]
        symbol_of [OF full(3) sextets_of_quad(3) [OF q]] symbol_of [OF full(4) sextets_of_quad(4) [OF q]]
      by (simp add: out full(5,6) encode_chunk_simps triple_of_quad [OF q])
  next
    case (one v0 v1 v2)
    have q: "v0 < 64" "v1 < 64" "v2 < 64" "(0::u8) < 64" using v one(1-3) by simp_all
    have "ucast (quad_triple buf) = (0 :: u8)" using canonical(1) one(7) low_bytes_zero(1) by blast
    with triple_of_quad [OF q] show ?thesis
      using symbol_of [OF one(1) sextets_of_quad(1) [OF q]] symbol_of [OF one(2) sextets_of_quad(2) [OF q]]
        symbol_of [OF one(3) sextets_of_quad(3) [OF q]] one(4,5)
      by (simp add: out one(6,7) encode_chunk_simps)
  next
    case (two v0 v1)
    have q: "v0 < 64" "v1 < 64" "(0::u8) < 64" "(0::u8) < 64" using v two(1,2) by simp_all
    have "ucast (quad_triple buf) = (0 :: u8)" "ucast (drop_bit 8 (quad_triple buf)) = (0 :: u8)"
      using canonical(2) two(7) low_bytes_zero(2,3) by blast+
    with triple_of_quad [OF q] show ?thesis
      using symbol_of [OF two(1) sextets_of_quad(1) [OF q]] symbol_of [OF two(2) sextets_of_quad(2) [OF q]] two(3-5)
      by (simp add: out two(6,7) encode_chunk_simps)
  qed
  then show "encode_chunk out = [c0, c1, c2, c3]" "0 < length out" "length out \<le> 3" "length out = 3 \<or> is_last"
    by blast+
qed



section \<open>Whole strings\<close>

lemma chunks_Nil [simp]: "chunks n [] = []"
  by (simp add: chunks.simps)

lemma chunks_step: "0 < n \<Longrightarrow> xs \<noteq> [] \<Longrightarrow> chunks n xs = take n xs # chunks n (drop n xs)"
  by (subst chunks.simps) simp

lemma chunks_append: "0 < length q \<Longrightarrow> chunks (length q) (q @ rest) = q # chunks (length q) rest"
  using chunks_step [of "length q" "q @ rest"] by auto

lemma chunks_eq_Nil: "0 < n \<Longrightarrow> chunks n xs = [] \<longleftrightarrow> xs = []"
  by (cases "xs = []") (simp_all add: chunks_step)

lemma concat_chunks: "0 < n \<Longrightarrow> concat (chunks n xs) = xs"
proof (induction n xs rule: chunks.induct)
  case (1 n xs)
  then show ?case by (cases "xs = []") (simp_all add: chunks_step)
qed

lemma length_in_chunks: "length xs mod n = 0 \<Longrightarrow> c \<in> set (chunks n xs) \<Longrightarrow> length c = n"
proof (induction n xs rule: chunks.induct)
  case (1 n xs)
  show ?case
  proof (cases "n = 0 \<or> xs = []")
    case False
    then have "n \<le> length xs" using 1(2) by (metis dvd_imp_le length_greater_0_conv mod_eq_0_iff_dvd)
    then have "length (drop n xs) mod n = 0" using 1(2) by (simp add: le_mod_geq)
    with 1 False \<open>n \<le> length xs\<close> show ?thesis by (auto simp: chunks_step)
  next
    case True
    then have "chunks n xs = []" by (subst chunks.simps) simp
    with 1(3) show ?thesis by simp
  qed
qed

lemma length_encode_chunk [simp]: "length (encode_chunk c) = 4"
  by (simp add: encode_chunk_def Let_def)

lemma encode_step: "b \<noteq> [] \<Longrightarrow> encode b = encode_chunk (take 3 b) @ encode (drop 3 b)"
  by (simp add: encode_def chunks_step)

lemma encode_eq_Nil: "encode b = [] \<longleftrightarrow> b = []"
  by (cases "b = []") (simp add: encode_def, metis encode_step append_is_Nil_conv length_encode_chunk list.size(3) zero_neq_numeral)

lemma encode_append3: "length a = 3 \<Longrightarrow> encode (a @ b) = encode_chunk a @ encode b"
  using encode_step [of "a @ b"] by (cases a) auto

lemma encode_short: "0 < length a \<Longrightarrow> length a \<le> 3 \<Longrightarrow> encode a = encode_chunk a"
  using encode_step [of a] by (auto simp: encode_def)

lemma length_encode: "length (encode b) mod 4 = 0"
proof (induction "3::nat" b rule: chunks.induct)
  case (1 b)
  then show ?case by (cases "b = []") (simp_all add: encode_def [of "[]"] encode_step)
qed

lemma decode_quads_encode: "decode_quads (chunks 4 (encode b)) = Inr b"
proof (induction "3::nat" b rule: chunks.induct)
  case (1 b)
  show ?case
  proof (cases "b = []")
    case False
    have "decode_quad (drop 3 b = []) (encode_chunk (take 3 b)) = Inr (take 3 b)"
      using False by (intro decode_encode_chunk) auto
    then show ?thesis
      using 1 False chunks_append [of "encode_chunk (take 3 b)" "encode (drop 3 b)"]
      by (simp add: encode_step [of b] chunks_eq_Nil encode_eq_Nil del: drop_eq_Nil)
  qed (simp add: encode_def)
qed

lemma encode_decode_quads:
  "decode_quads qs = Inr b \<Longrightarrow> \<forall>q \<in> set qs. length q = 4 \<Longrightarrow> encode b = concat qs"
proof (induction qs arbitrary: b)
  case (Cons q qs)
  then obtain out rest where out: "decode_quad (qs = []) q = Inr out" "decode_quads qs = Inr rest" "b = out @ rest"
    by (auto simp: bind_result_eq_Inr)
  obtain c0 c1 c2 c3 where q: "q = [c0, c1, c2, c3]"
    using Cons.prems(2) by (auto simp: numeral_eq_Suc length_Suc_conv)
  note chunk = encode_decode_quad [OF out(1) [unfolded q]]
  have rest: "encode rest = concat qs" using Cons.IH [OF out(2)] Cons.prems(2) by simp
  show ?case
  proof (cases "qs = []")
    case True
    with out(2) chunk show ?thesis by (simp add: out(3) q encode_short)
  next
    case False
    with chunk rest show ?thesis by (simp add: out(3) q encode_append3)
  qed
qed (simp add: encode_def)


lemma decode_encode [simp]: "decode (encode b) = Inr b"
  using decode_quads_encode [of b] length_encode [of b] by (simp add: decode_def)


section \<open>Properties\<close>

text \<open>C13. Base64 decoding accepts exactly the encodings: a string decodes to some bytes if and only if it is
  the encoding of those bytes. So decoding inverts encoding, and malformed lengths, foreign characters,
  misplaced padding and non-canonical trailing bits are all refused.\<close>

theorem decode_iff_encode: "decode s = Inr b \<longleftrightarrow> encode b = s"
proof
  assume "decode s = Inr b"
  then have "length s mod 4 = 0" "decode_quads (chunks 4 s) = Inr b" by (auto simp: decode_def split: if_splits)
  then have "encode b = concat (chunks 4 s)" by (intro encode_decode_quads ballI length_in_chunks)
  then show "encode b = s" by (simp add: concat_chunks)
next
  assume "encode b = s"
  then show "decode s = Inr b" by auto
qed

end
