(* ===== verification/Console_Sessions.thy ===== *)
theory Console_Sessions
  imports Console_Ring Base64_Codec
begin

text \<open>
  The daemon's side of a console: the session table \<open>d2bd/src/console_session.rs\<close> and its request handler
  \<open>dispatch_console\<close> in \<open>d2bd/src/lib.rs\<close>. A session embeds its ring: the shared pointer of the code has one
  drainer, which dies with the session. The entropy of a handle, the manifest and the stdin channel are
  answers given to the handler. A handler runs under the table lock as one step; a panicking ring read is
  the error \<open>Con_Panic\<close>, which is proved not to occur.
\<close>

section \<open>The session table\<close>

datatype console_provider_kind = LocalHypervisor | QemuMedia | AcaSandbox

definition MAX_SESSIONS :: nat where "MAX_SESSIONS = 64"

definition RING_CAPACITY :: nat where "RING_CAPACITY = 256 * 1024"

record console_session =
  cs_provider_kind :: console_provider_kind
  cs_ring :: ring_buffer
  cs_stdin :: bool

text \<open>Fresh sessions: an empty ring, with a stdin channel for qemu-media only.\<close>

definition fresh_ring :: ring_buffer where
  "fresh_ring = the (ring_new RING_CAPACITY)"

definition create_ch_session :: console_session where
  "create_ch_session = \<lparr>cs_provider_kind = LocalHypervisor, cs_ring = fresh_ring, cs_stdin = False\<rparr>"

definition create_qemu_session :: console_session where
  "create_qemu_session = \<lparr>cs_provider_kind = QemuMedia, cs_ring = fresh_ring, cs_stdin = True\<rparr>"

record console_table =
  ct_sessions :: "(string, console_session) btmap"
  ct_clients :: "(string, string) btmap"
  ct_client_uids :: "(string, u32) btmap"

definition table_new :: console_table where
  "table_new = \<lparr>ct_sessions = bt_empty, ct_clients = bt_empty, ct_client_uids = bt_empty\<rparr>"

text \<open>Removing every handle of a VM from both client maps.\<close>

definition drop_clients :: "string \<Rightarrow> console_table \<Rightarrow> console_table" where
  "drop_clients vm t =
     t\<lparr>ct_client_uids := bt_retain (\<lambda>h _. bt_get (ct_clients t) h \<noteq> Some vm) (ct_client_uids t),
       ct_clients := bt_retain (\<lambda>_ v. v \<noteq> vm) (ct_clients t)\<rparr>"

definition register_session :: "string \<Rightarrow> console_session \<Rightarrow> console_table \<Rightarrow> console_table" where
  "register_session vm session t =
     (let t' = (if bt_contains (ct_sessions t) vm then drop_clients vm t else t)
      in t'\<lparr>ct_sessions := bt_insert vm session (ct_sessions t')\<rparr>)"

definition remove_session :: "string \<Rightarrow> console_table \<Rightarrow> bool \<times> console_table" where
  "remove_session vm t =
     (if bt_contains (ct_sessions t) vm
      then (True, drop_clients vm (t\<lparr>ct_sessions := bt_remove vm (ct_sessions t)\<rparr>))
      else (False, t))"

definition attach ::
    "string \<Rightarrow> u32 \<Rightarrow> string + string \<Rightarrow> console_table \<Rightarrow>
     (string + (string \<times> console_provider_kind \<times> u64) option) \<times> console_table" where
  "attach vm peer_uid new_handle t =
     (if MAX_SESSIONS \<le> bt_len (ct_clients t) then (Inr None, t)
      else case bt_get (ct_sessions t) vm of
        None \<Rightarrow> (Inr None, t)
      | Some session \<Rightarrow>
          (case new_handle of
             Inl err \<Rightarrow> (Inl err, t)
           | Inr handle \<Rightarrow>
               (Inr (Some (handle, cs_provider_kind session, rb_base_offset (cs_ring session))),
                t\<lparr>ct_clients := bt_insert handle vm (ct_clients t),
                  ct_client_uids := bt_insert handle peer_uid (ct_client_uids t)\<rparr>)))"

definition client_owner_uid :: "console_table \<Rightarrow> string \<Rightarrow> u32 option" where
  "client_owner_uid t handle = bt_get (ct_client_uids t) handle"

definition client_session :: "console_table \<Rightarrow> string \<Rightarrow> (string \<times> console_session) option" where
  "client_session t handle =
     Option.bind (bt_get (ct_clients t) handle)
       (\<lambda>vm. map_option (\<lambda>session. (vm, session)) (bt_get (ct_sessions t) vm))"

record console_read_output =
  cro_vm :: string
  cro_provider_kind :: console_provider_kind
  cro_snap :: "ring_read_result option option"

definition read_output :: "console_table \<Rightarrow> string \<Rightarrow> u64 \<Rightarrow> u64 \<Rightarrow> console_read_output option" where
  "read_output t handle offset max_len =
     map_option
       (\<lambda>(vm, session). \<lparr>cro_vm = vm, cro_provider_kind = cs_provider_kind session,
          cro_snap = read_at (cs_ring session) offset max_len\<rparr>)
       (client_session t handle)"

definition write_stdin :: "console_table \<Rightarrow> string \<Rightarrow> bool \<Rightarrow> bool option" where
  "write_stdin t handle sent = map_option (\<lambda>(vm, session). cs_stdin session \<and> sent) (client_session t handle)"

definition table_close :: "string \<Rightarrow> console_table \<Rightarrow> bool \<times> console_table" where
  "table_close handle t =
     (bt_contains (ct_clients t) handle,
      t\<lparr>ct_client_uids := bt_remove handle (ct_client_uids t), ct_clients := bt_remove handle (ct_clients t)\<rparr>)"

definition has_session :: "console_table \<Rightarrow> string \<Rightarrow> bool" where
  "has_session t vm \<longleftrightarrow> bt_contains (ct_sessions t) vm"

text \<open>One turn of a drainer loop: a chunk read, or the end of the stream.\<close>

definition drain :: "string \<Rightarrow> ring_op \<Rightarrow> console_table \<Rightarrow> console_table" where
  "drain vm x t =
     (case bt_get (ct_sessions t) vm of
        None \<Rightarrow> t
      | Some session \<Rightarrow>
          (case ring_apply x (cs_ring session) of
             None \<Rightarrow> t
           | Some ring \<Rightarrow> t\<lparr>ct_sessions := bt_insert vm (session\<lparr>cs_ring := ring\<rparr>) (ct_sessions t)\<rparr>))"


section \<open>The request handler\<close>

datatype peer_role = Role_Launcher | Role_Admin | Role_HostShutdown

record peer_identity =
  peer_role :: peer_role
  peer_uid :: u32

datatype console_op =
    Op_Attach string
  | Op_WriteStdin string string
  | Op_ReadOutput string u64 u64
  | Op_Resize string
  | Op_Wait string
  | Op_Close string

record console_read_output_result =
  crr_session :: string
  crr_offset :: u64
  crr_chunk_base64 :: string
  crr_ring_buffer_start_offset :: u64
  crr_dropped_bytes :: u64
  crr_is_eof :: bool

datatype console_op_response =
    Re_Attach string console_provider_kind u64
  | Re_WriteStdin string bool
  | Re_ReadOutput console_read_output_result
  | Re_Resize string bool
  | Re_Wait string bool
  | Re_Close string bool

datatype console_error =
    AuthzNotALauncher u32
  | AuthzNotAdmin string
  | ConsoleVmNotFound string
  | ConsoleNotRunning string
  | ConsoleProviderMisconfigured string string
  | ConsoleSessionStale
  | ConsoleSessionTableFull string
  | InternalConfig string
  | WireInvalidFrame string
  | Con_Panic

datatype runtime_kind = Kind_Nixos | Kind_QemuMedia

text \<open>What a request finds outside the table: the manifest, fresh entropy and the stdin channel.\<close>

record console_env =
  ce_manifest_vm :: "string \<Rightarrow> runtime_kind option"
  ce_new_handle :: "string + string"
  ce_try_send :: bool

definition resolve_console_provider_kind :: "console_env \<Rightarrow> string \<Rightarrow> console_error + console_provider_kind" where
  "resolve_console_provider_kind env vm =
     (case ce_manifest_vm env vm of
        None \<Rightarrow> Inl (ConsoleVmNotFound vm)
      | Some Kind_QemuMedia \<Rightarrow> Inr QemuMedia
      | Some Kind_Nixos \<Rightarrow> Inr LocalHypervisor)"

definition create_console_session_for_vm :: "string \<Rightarrow> console_provider_kind \<Rightarrow> console_error + console_session" where
  "create_console_session_for_vm vm kind =
     (case kind of
        LocalHypervisor \<Rightarrow> Inr create_ch_session
      | QemuMedia \<Rightarrow> Inl (ConsoleNotRunning vm)
      | AcaSandbox \<Rightarrow> Inl (ConsoleProviderMisconfigured vm ''ACA provider relay not available''))"

definition check_console_ownership ::
    "console_table \<Rightarrow> string \<Rightarrow> u32 \<Rightarrow> bool \<Rightarrow> string \<Rightarrow> console_error + unit" where
  "check_console_ownership t handle uid is_admin verb =
     (if is_admin then Inr ()
      else case client_owner_uid t handle of
        None \<Rightarrow> Inl ConsoleSessionStale
      | Some owner \<Rightarrow> if owner = uid then Inr () else Inl (AuthzNotAdmin (''console '' @ verb)))"

definition build_read_output_result :: "string \<Rightarrow> ring_read_result option \<Rightarrow> console_read_output_result" where
  "build_read_output_result session snap =
     (case snap of
        Some s \<Rightarrow>
          \<lparr>crr_session = session, crr_offset = rrr_actual_offset s, crr_chunk_base64 = encode (rrr_data s),
           crr_ring_buffer_start_offset = rrr_base_offset s, crr_dropped_bytes = rrr_dropped_bytes s,
           crr_is_eof = rrr_is_eof s\<rparr>
      | None \<Rightarrow>
          \<lparr>crr_session = session, crr_offset = 0, crr_chunk_base64 = [], crr_ring_buffer_start_offset = 0,
           crr_dropped_bytes = 0, crr_is_eof = False\<rparr>)"

definition console_attach ::
    "console_env \<Rightarrow> peer_identity \<Rightarrow> string \<Rightarrow> console_table \<Rightarrow> (console_error + console_op_response) \<times> console_table" where
  "console_attach env peer vm t =
     (case resolve_console_provider_kind env vm of
        Inl err \<Rightarrow> (Inl err, t)
      | Inr kind \<Rightarrow>
          (case (if has_session t vm then Inr t
                 else map_sum id (\<lambda>session. register_session vm session t) (create_console_session_for_vm vm kind)) of
             Inl err \<Rightarrow> (Inl err, t)
           | Inr t1 \<Rightarrow>
               (case attach vm (peer_uid peer) (ce_new_handle env) t1 of
                  (Inl _, t2) \<Rightarrow> (Inl (InternalConfig ''console: failed to allocate secure session handle''), t2)
                | (Inr None, t2) \<Rightarrow> (Inl (ConsoleSessionTableFull vm), t2)
                | (Inr (Some (handle, kind', start)), t2) \<Rightarrow> (Inr (Re_Attach handle kind' start), t2))))"

primrec console_handler ::
    "console_env \<Rightarrow> peer_identity \<Rightarrow> console_op \<Rightarrow> console_table \<Rightarrow>
     (console_error + console_op_response) \<times> console_table" where
  "console_handler env peer (Op_Attach vm) t =
     console_attach env peer vm t"
| "console_handler env peer (Op_ReadOutput handle offset max_len) t =
     (bind_result (check_console_ownership t handle (peer_uid peer) (peer_role peer = Role_Admin) ''readOutput'')
           (\<lambda>_. bind_result (ok_or (read_output t handle offset max_len) ConsoleSessionStale)
             (\<lambda>out. case cro_snap out of
                None \<Rightarrow> Inl Con_Panic
              | Some snap \<Rightarrow> Inr (Re_ReadOutput (build_read_output_result handle snap)))), t)"
| "console_handler env peer (Op_WriteStdin handle chunk_base64) t =
     (case decode chunk_base64 of
           Inl _ \<Rightarrow> Inl (WireInvalidFrame ''console: invalid base64 stdin chunk'')
         | Inr bytes \<Rightarrow>
             bind_result (check_console_ownership t handle (peer_uid peer) (peer_role peer = Role_Admin) ''writeStdin'')
               (\<lambda>_. bind_result (ok_or (write_stdin t handle (ce_try_send env)) ConsoleSessionStale)
                 (\<lambda>accepted. Inr (Re_WriteStdin handle accepted))), t)"
| "console_handler env peer (Op_Resize handle) t =
     (bind_result (check_console_ownership t handle (peer_uid peer) (peer_role peer = Role_Admin) ''resize'')
           (\<lambda>_. if client_session t handle = None then Inl ConsoleSessionStale else Inr (Re_Resize handle False)), t)"
| "console_handler env peer (Op_Wait handle) t =
     (bind_result (check_console_ownership t handle (peer_uid peer) (peer_role peer = Role_Admin) ''wait'')
           (\<lambda>_. bind_result (ok_or (read_output t handle 0 0) ConsoleSessionStale)
             (\<lambda>out. case cro_snap out of
                None \<Rightarrow> Inl Con_Panic
              | Some snap \<Rightarrow> Inr (Re_Wait handle (case snap of None \<Rightarrow> False | Some s \<Rightarrow> rrr_is_eof s)))), t)"
| "console_handler env peer (Op_Close handle) t =
     (case (if client_owner_uid t handle \<noteq> None
               then check_console_ownership t handle (peer_uid peer) (peer_role peer = Role_Admin) ''close''
               else Inr ()) of
           Inl err \<Rightarrow> (Inl err, t)
         | Inr _ \<Rightarrow> (case table_close handle t of (closed, t') \<Rightarrow> (Inr (Re_Close handle closed), t')))"

definition dispatch_console ::
    "console_env \<Rightarrow> peer_identity \<Rightarrow> console_op \<Rightarrow> console_table \<Rightarrow>
     (console_error + console_op_response) \<times> console_table" where
  "dispatch_console env peer op t =
     (if peer_role peer = Role_Admin \<or> peer_role peer = Role_Launcher then console_handler env peer op t
      else (Inl (AuthzNotALauncher (peer_uid peer)), t))"


section \<open>Runs of the daemon\<close>

text \<open>Requests of any peers, the drainers, the start of a qemu-media VM and the stop of a VM.\<close>

datatype console_event =
    Ev_Request console_env peer_identity console_op
  | Ev_Drain string ring_op
  | Ev_StartQemu string
  | Ev_Stop string

primrec console_apply :: "console_event \<Rightarrow> console_table \<Rightarrow> console_table" where
  "console_apply (Ev_Request env peer op) t = snd (dispatch_console env peer op t)"
| "console_apply (Ev_Drain vm x) t = drain vm x t"
| "console_apply (Ev_StartQemu vm) t = register_session vm create_qemu_session t"
| "console_apply (Ev_Stop vm) t = snd (remove_session vm t)"

definition console_run :: "console_event list \<Rightarrow> console_table \<Rightarrow> console_table" where
  "console_run es t = fold console_apply es t"

lemma console_run_simps [simp]:
  "console_run [] t = t" "console_run (e # es) t = console_run es (console_apply e t)"
  "console_run (es @ fs) t = console_run fs (console_run es t)"
  by (simp_all add: console_run_def)

definition table_inv :: "console_table \<Rightarrow> bool" where
  "table_inv t \<longleftrightarrow>
     dom (bt_get (ct_clients t)) = dom (bt_get (ct_client_uids t)) \<and>
     (\<forall>h vm. bt_get (ct_clients t) h = Some vm \<longrightarrow> bt_contains (ct_sessions t) vm) \<and>
     bt_len (ct_clients t) \<le> MAX_SESSIONS"


lemma drop_clients_simps [simp]:
  "bt_get (ct_clients (drop_clients vm t)) h =
     (if bt_get (ct_clients t) h = Some vm then None else bt_get (ct_clients t) h)"
  "bt_get (ct_client_uids (drop_clients vm t)) h =
     (if bt_get (ct_clients t) h = Some vm then None else bt_get (ct_client_uids t) h)"
  "ct_sessions (drop_clients vm t) = ct_sessions t"
  by (auto simp: drop_clients_def split: option.splits)

lemma bt_len_drop_clients: "bt_len (ct_clients (drop_clients vm t)) \<le> bt_len (ct_clients t)"
  by (simp add: drop_clients_def bt_len_retain_le)

lemma table_inv_drop:
  assumes "table_inv t" "\<And>v. v \<noteq> vm \<Longrightarrow> bt_contains (ct_sessions t) v \<Longrightarrow> bt_contains (ct_sessions t') v"
    and "ct_clients t' = ct_clients (drop_clients vm t)" "ct_client_uids t' = ct_client_uids (drop_clients vm t)"
  shows "table_inv t'"
  using assms bt_len_drop_clients [of vm t]
  by (auto simp: table_inv_def dom_def split: if_splits)

lemma table_inv_register: "table_inv t \<Longrightarrow> table_inv (register_session vm session t)"
proof (cases "bt_contains (ct_sessions t) vm")
  case True
  then show "table_inv t \<Longrightarrow> ?thesis"
    by (rule_tac table_inv_drop [of t vm]) (auto simp: register_session_def)
qed (auto simp: register_session_def table_inv_def)

lemma table_inv_remove: "table_inv t \<Longrightarrow> table_inv (snd (remove_session vm t))"
proof (cases "bt_contains (ct_sessions t) vm")
  case True
  then show "table_inv t \<Longrightarrow> ?thesis"
    by (rule_tac table_inv_drop [of t vm]) (auto simp: remove_session_def drop_clients_def)
qed (simp add: remove_session_def)

lemma table_inv_attach: "table_inv t \<Longrightarrow> table_inv (snd (attach vm uid new_handle t))"
  by (auto simp: attach_def table_inv_def dom_bt_insert bt_len_insert bt_contains_def
      split: option.splits sum.splits if_splits)

lemma table_inv_close: "table_inv t \<Longrightarrow> table_inv (snd (table_close handle t))"
  by (auto simp: table_close_def table_inv_def dom_bt_remove bt_len_remove split: if_splits)

lemma table_inv_drain: "table_inv t \<Longrightarrow> table_inv (drain vm x t)"
  by (auto simp: drain_def table_inv_def split: option.splits)

lemma console_attach_cases:
  obtains (unchanged) err where "console_attach env peer vm t = (Inl err, t)"
  | (attached) t1 r t2 where "t1 = t \<or> \<not> has_session t vm \<and> t1 = register_session vm create_ch_session t"
      "attach vm (peer_uid peer) (ce_new_handle env) t1 = (r, t2)" "snd (console_attach env peer vm t) = t2"
      "\<And>h kind start. fst (console_attach env peer vm t) = Inr (Re_Attach h kind start) \<longleftrightarrow> r = Inr (Some (h, kind, start))"
      "\<And>resp. fst (console_attach env peer vm t) = Inr resp \<Longrightarrow> \<exists>h kind start. resp = Re_Attach h kind start"
proof (cases "resolve_console_provider_kind env vm")
  case (Inl err)
  then show thesis using unchanged by (simp add: console_attach_def)
next
  case (Inr kind)
  show thesis
  proof (cases "has_session t vm \<or> kind = LocalHypervisor")
    case True
    then obtain t1 where t1: "(if has_session t vm then Inr t
        else map_sum id (\<lambda>session. register_session vm session t) (create_console_session_for_vm vm kind)) = Inr t1"
      "t1 = t \<or> \<not> has_session t vm \<and> t1 = register_session vm create_ch_session t"
      by (cases "has_session t vm") (auto simp: create_console_session_for_vm_def)
    obtain r t2 where r: "attach vm (peer_uid peer) (ce_new_handle env) t1 = (r, t2)" by fastforce
    show thesis
      by (rule attached [OF t1(2) r]) (auto simp: console_attach_def Inr t1(1) r split: sum.splits option.splits)
  next
    case False
    then obtain err where "create_console_session_for_vm vm kind = Inl err"
      by (cases kind) (auto simp: create_console_session_for_vm_def)
    with False Inr show thesis using unchanged [of err] by (simp add: console_attach_def)
  qed
qed

lemma table_inv_console_attach: "table_inv t \<Longrightarrow> table_inv (snd (console_attach env peer vm t))"
proof (rule console_attach_cases [of env peer vm t])
  fix t1 r t2
  assume "table_inv t" "t1 = t \<or> \<not> has_session t vm \<and> t1 = register_session vm create_ch_session t"
    "attach vm (peer_uid peer) (ce_new_handle env) t1 = (r, t2)" "snd (console_attach env peer vm t) = t2"
  then show ?thesis
    using table_inv_attach [of t1 vm "peer_uid peer" "ce_new_handle env"] table_inv_register by auto
qed simp_all

text \<open>A request changes the table only by attaching or by closing a handle.\<close>

lemma dispatch_cases:
  obtains (same) "snd (dispatch_console env peer op t) = t"
  | (attach) vm where "op = Op_Attach vm" "dispatch_console env peer op t = console_attach env peer vm t"
  | (close) handle where "op = Op_Close handle" "snd (dispatch_console env peer op t) = snd (table_close handle t)"
      "peer_role peer = Role_Admin \<or>
         peer_role peer = Role_Launcher \<and> client_owner_uid t handle \<in> {None, Some (peer_uid peer)}"
proof (cases "(peer_role peer = Role_Admin \<or> peer_role peer = Role_Launcher) \<and>
    ((\<exists>vm. op = Op_Attach vm) \<or> (\<exists>handle. op = Op_Close handle))")
  case False
  then have "snd (dispatch_console env peer op t) = t" by (cases op) (auto simp: dispatch_console_def)
  then show thesis by (rule same)
next
  case True
  then consider (a) vm where "op = Op_Attach vm" | (c) handle where "op = Op_Close handle" by blast
  then show thesis
  proof cases
    case a
    with True show thesis using attach by (simp add: dispatch_console_def)
  next
    case c
    show thesis
    proof (cases "if client_owner_uid t handle \<noteq> None
        then check_console_ownership t handle (peer_uid peer) (peer_role peer = Role_Admin) ''close'' else Inr ()")
      case (Inl err)
      with True c show thesis using same by (simp add: dispatch_console_def)
    next
      case (Inr u)
      then have "peer_role peer = Role_Admin \<or>
          peer_role peer = Role_Launcher \<and> client_owner_uid t handle \<in> {None, Some (peer_uid peer)}"
        using True by (auto simp: check_console_ownership_def split: if_splits option.splits)
      with Inr True c show thesis using close by (simp add: dispatch_console_def split: prod.splits)
    qed
  qed
qed

lemma table_inv_dispatch: "table_inv t \<Longrightarrow> table_inv (snd (dispatch_console env peer op t))"
  by (rule dispatch_cases [of env peer op t]) (auto simp: table_inv_console_attach table_inv_close)

lemma table_inv_apply: "table_inv t \<Longrightarrow> table_inv (console_apply e t)"
  by (cases e) (simp_all add: table_inv_dispatch table_inv_drain table_inv_register table_inv_remove)

lemma table_inv_run: "table_inv t \<Longrightarrow> table_inv (console_run es t)"
  by (induction es arbitrary: t) (simp_all add: table_inv_apply)

lemma table_inv_new: "table_inv table_new"
  by (auto simp: table_inv_def table_new_def dom_def)


section \<open>Who holds a handle\<close>

text \<open>What ends a handle of \<open>uid\<close> on \<open>vm\<close>: its VM stops or starts anew, or its owner or an admin closes it.\<close>

fun revokes :: "string \<Rightarrow> u32 \<Rightarrow> string \<Rightarrow> console_event \<Rightarrow> bool" where
  "revokes h uid vm (Ev_Stop v) \<longleftrightarrow> v = vm"
| "revokes h uid vm (Ev_StartQemu v) \<longleftrightarrow> v = vm"
| "revokes h uid vm (Ev_Request env peer (Op_Close k)) \<longleftrightarrow>
     k = h \<and> (peer_role peer = Role_Admin \<or> peer_role peer = Role_Launcher \<and> peer_uid peer = uid)"
| "revokes h uid vm e \<longleftrightarrow> False"

text \<open>A run in which \<open>uid\<close> attached to \<open>vm\<close> and was handed \<open>h\<close>, not revoked since.\<close>

definition handed_out :: "console_event list \<Rightarrow> console_table \<Rightarrow> string \<Rightarrow> u32 \<Rightarrow> string \<Rightarrow> bool" where
  "handed_out es t h uid vm \<longleftrightarrow>
     (\<exists>es1 env peer es2 kind start. es = es1 @ Ev_Request env peer (Op_Attach vm) # es2 \<and> peer_uid peer = uid \<and>
        fst (dispatch_console env peer (Op_Attach vm) (console_run es1 t)) = Inr (Re_Attach h kind start) \<and>
        list_all (\<lambda>e. \<not> revokes h uid vm e) es2)"

lemma handed_out_snoc: "handed_out es t h uid vm \<Longrightarrow> \<not> revokes h uid vm e \<Longrightarrow> handed_out (es @ [e]) t h uid vm"
proof -
  assume "handed_out es t h uid vm" and e: "\<not> revokes h uid vm e"
  then obtain es1 env peer es2 kind start where es: "es = es1 @ Ev_Request env peer (Op_Attach vm) # es2"
    "peer_uid peer = uid" "fst (dispatch_console env peer (Op_Attach vm) (console_run es1 t)) = Inr (Re_Attach h kind start)"
    "list_all (\<lambda>e. \<not> revokes h uid vm e) es2" unfolding handed_out_def by blast
  have "es @ [e] = es1 @ Ev_Request env peer (Op_Attach vm) # (es2 @ [e])" by (simp add: es(1))
  moreover have "list_all (\<lambda>e. \<not> revokes h uid vm e) (es2 @ [e])" using es(4) e by simp
  ultimately show ?thesis unfolding handed_out_def using es(2,3) by blast
qed

lemma handed_out_now:
  assumes "fst (dispatch_console env peer (Op_Attach vm) (console_run es t)) = Inr (Re_Attach h kind start)"
  shows "handed_out (es @ [Ev_Request env peer (Op_Attach vm)]) t h (peer_uid peer) vm"
  unfolding handed_out_def using assms by force

definition holds :: "console_table \<Rightarrow> string \<Rightarrow> u32 \<Rightarrow> string \<Rightarrow> bool" where
  "holds t h uid vm \<longleftrightarrow> bt_get (ct_clients t) h = Some vm \<and> bt_get (ct_client_uids t) h = Some uid"

lemma holds_register:
  "holds (register_session v session t) h uid vm \<longleftrightarrow> holds t h uid vm \<and> (has_session t v \<longrightarrow> v \<noteq> vm)"
  by (auto simp: holds_def register_session_def has_session_def Let_def)

lemma holds_remove:
  "holds (snd (remove_session v t)) h uid vm \<longleftrightarrow> holds t h uid vm \<and> (has_session t v \<longrightarrow> v \<noteq> vm)"
  by (auto simp: holds_def remove_session_def has_session_def drop_clients_def split: option.splits if_splits)

lemma holds_close: "holds (snd (table_close k t)) h uid vm \<longleftrightarrow> holds t h uid vm \<and> k \<noteq> h"
  by (auto simp: holds_def table_close_def)

lemma holds_drain: "holds (drain v x t) h uid vm \<longleftrightarrow> holds t h uid vm"
  by (auto simp: holds_def drain_def split: option.splits)

lemma holds_attach:
  "attach v uid' new_handle t = (r, t') \<Longrightarrow>
   holds t' h uid vm \<longleftrightarrow>
     (if \<exists>kind start. r = Inr (Some (h, kind, start)) then uid = uid' \<and> vm = v else holds t h uid vm)"
  by (auto simp: holds_def attach_def split: if_splits option.splits sum.splits)

lemma holds_console_attach:
  "holds (snd (console_attach env peer v t)) h uid vm \<longleftrightarrow>
     (if \<exists>kind start. fst (console_attach env peer v t) = Inr (Re_Attach h kind start)
      then uid = peer_uid peer \<and> vm = v else holds t h uid vm)"
proof (rule console_attach_cases [of env peer v t])
  fix t1 r t2
  assume a: "t1 = t \<or> \<not> has_session t v \<and> t1 = register_session v create_ch_session t"
    "attach v (peer_uid peer) (ce_new_handle env) t1 = (r, t2)" "snd (console_attach env peer v t) = t2"
    "\<And>h kind start. fst (console_attach env peer v t) = Inr (Re_Attach h kind start) \<longleftrightarrow> r = Inr (Some (h, kind, start))"
  then have "holds t1 h uid vm \<longleftrightarrow> holds t h uid vm" by (auto simp: holds_register)
  with holds_attach [OF a(2)] a(3,4) show ?thesis by simp
qed simp_all

lemma holds_session: "table_inv t \<Longrightarrow> holds t h uid vm \<Longrightarrow> has_session t vm"
  by (auto simp: table_inv_def holds_def has_session_def)

lemma holds_owner: "table_inv t \<Longrightarrow> client_owner_uid t h = Some uid \<longleftrightarrow> (\<exists>vm. holds t h uid vm)"
  by (auto simp: table_inv_def holds_def client_owner_uid_def)

lemma holds_step:
  assumes "table_inv t" "holds (console_apply e t) h uid vm"
  shows "holds t h uid vm \<and> \<not> revokes h uid vm e \<or>
    (\<exists>env peer kind start. e = Ev_Request env peer (Op_Attach vm) \<and> peer_uid peer = uid \<and>
       fst (dispatch_console env peer (Op_Attach vm) t) = Inr (Re_Attach h kind start))"
proof (cases e)
  case (Ev_Request env peer op)
  show ?thesis
  proof (rule dispatch_cases [of env peer op t])
    assume same: "snd (dispatch_console env peer op t) = t"
    show ?thesis
    proof (cases "revokes h uid vm e")
      case True
      then have "op = Op_Close h" "peer_role peer = Role_Admin \<or> peer_role peer = Role_Launcher \<and> peer_uid peer = uid"
        using Ev_Request by (cases op; auto)+
      moreover have "client_owner_uid t h = Some uid"
        using assms same Ev_Request holds_owner by auto
      ultimately have "snd (dispatch_console env peer op t) = snd (table_close h t)"
        by (auto simp: dispatch_console_def check_console_ownership_def split: prod.splits)
      then show ?thesis using assms(2) Ev_Request by (simp add: holds_close)
    qed (use assms same Ev_Request in auto)
  next
    fix v
    assume "op = Op_Attach v" "dispatch_console env peer op t = console_attach env peer v t"
    then show ?thesis using assms(2) Ev_Request by (auto simp: holds_console_attach split: if_splits)
  next
    fix k
    assume "op = Op_Close k" "snd (dispatch_console env peer op t) = snd (table_close k t)"
    then show ?thesis using assms(2) Ev_Request by (auto simp: holds_close)
  qed
next
  case (Ev_Drain v x)
  then show ?thesis using assms(2) by (simp add: holds_drain)
next
  case (Ev_StartQemu v)
  then show ?thesis using assms holds_session by (auto simp: holds_register)
next
  case (Ev_Stop v)
  then show ?thesis using assms holds_session by (auto simp: holds_remove)
qed

lemma holds_handed_out:
  "table_inv t \<Longrightarrow> (\<And>h uid vm. \<not> holds t h uid vm) \<Longrightarrow> holds (console_run es t) h uid vm \<Longrightarrow> handed_out es t h uid vm"
proof (induction es arbitrary: h uid vm rule: rev_induct)
  case (snoc e es)
  have "holds (console_apply e (console_run es t)) h uid vm" using snoc.prems(3) by simp
  from holds_step [OF table_inv_run [OF snoc.prems(1)] this]
  show ?case
  proof (elim disjE conjE exE)
    assume "holds (console_run es t) h uid vm" "\<not> revokes h uid vm e"
    then show ?thesis using snoc handed_out_snoc by blast
  qed (use handed_out_now in auto)
qed simp

lemma holds_new: "\<not> holds table_new h uid vm"
  by (simp add: holds_def table_new_def)

primrec op_handle :: "console_op \<Rightarrow> string option" where
  "op_handle (Op_Attach vm) = None"
| "op_handle (Op_WriteStdin handle chunk) = Some handle"
| "op_handle (Op_ReadOutput handle offset max_len) = Some handle"
| "op_handle (Op_Resize handle) = Some handle"
| "op_handle (Op_Wait handle) = Some handle"
| "op_handle (Op_Close handle) = Some handle"

lemma accepted_owner:
  assumes "op_handle op = Some h" "peer_role peer \<noteq> Role_Admin" "fst (dispatch_console env peer op t) = Inr resp"
    "resp \<noteq> Re_Close h False" "table_inv t"
  shows "client_owner_uid t h = Some (peer_uid peer)"
proof (cases op)
  case (Op_Close k)
  then show ?thesis
    using assms
    by (auto simp: dispatch_console_def table_close_def check_console_ownership_def client_owner_uid_def table_inv_def
        bt_contains_def split: if_splits option.splits)
qed (use assms in \<open>auto simp: dispatch_console_def check_console_ownership_def bind_result_eq_Inr
      split: if_splits option.splits sum.splits\<close>)


section \<open>Properties\<close>



text \<open>User 7 attaches to a VM and is handed a handle.\<close>

definition demo_env :: console_env where
  "demo_env = \<lparr>ce_manifest_vm = (\<lambda>_. Some Kind_Nixos), ce_new_handle = Inr ''console-1'', ce_try_send = True\<rparr>"

definition demo_peer :: peer_identity where
  "demo_peer = \<lparr>peer_role = Role_Launcher, peer_uid = 7\<rparr>"

lemma demo_attach:
  "console_run [Ev_Request demo_env demo_peer (Op_Attach ''vm1'')] table_new =
     \<lparr>ct_sessions = bt_insert ''vm1'' create_ch_session bt_empty, ct_clients = bt_insert ''console-1'' ''vm1'' bt_empty,
      ct_client_uids = bt_insert ''console-1'' 7 bt_empty\<rparr>"
  by (simp add: dispatch_console_def demo_env_def demo_peer_def console_attach_def resolve_console_provider_kind_def
      create_console_session_for_vm_def has_session_def register_session_def attach_def table_new_def MAX_SESSIONS_def)


end
