(* ===== verification/Console_Client.thy ===== *)
theory Console_Client
  imports Console_Sessions "HOL-Library.Sublist"
begin

text \<open>
  The command line client of a console: the output loop of \<open>cmd_console\<close> in \<open>d2b/src/lib.rs\<close>, polling the daemon's
  handler. Together with \<open>Console_Sessions\<close>, \<open>Console_Ring\<close> and \<open>Base64_Codec\<close> this covers console output from
  the drainer to the operator's terminal. Writing to stdout and the daemon's environment are answers given to
  each poll; the ghost field \<open>cc_gaps\<close> counts the bytes the client fast-forwards over.
\<close>

section \<open>The polling client\<close>

text \<open>The exit code a typed error carries to the client; after a panic the round trip itself fails.\<close>

primrec console_exit_code :: "console_error \<Rightarrow> nat" where
  "console_exit_code (AuthzNotALauncher uid) = 31"
| "console_exit_code (AuthzNotAdmin verb) = 75"
| "console_exit_code (ConsoleVmNotFound vm) = 2"
| "console_exit_code (ConsoleNotRunning vm) = 3"
| "console_exit_code (ConsoleProviderMisconfigured vm detail) = 80"
| "console_exit_code ConsoleSessionStale = 75"
| "console_exit_code (ConsoleSessionTableFull vm) = 41"
| "console_exit_code (InternalConfig detail) = 42"
| "console_exit_code (WireInvalidFrame detail) = 54"
| "console_exit_code Con_Panic = 1"

datatype stdout_answer = Written | Broken_Pipe | Write_Failed

datatype client_exit =
    Exit_Stale
  | Exit_Broken_Pipe
  | Exit_Eof
  | Fail_Daemon console_error
  | Fail_Base64
  | Fail_Stdout
  | Fail_Response

record console_client =
  cc_session :: string
  cc_stdout_offset :: u64
  cc_stdout :: "u8 list"
  cc_exit :: "client_exit option"
  cc_gaps :: nat

definition client_new :: "string \<Rightarrow> u64 \<Rightarrow> console_client" where
  "client_new session start =
     \<lparr>cc_session = session, cc_stdout_offset = start, cc_stdout = [], cc_exit = None, cc_gaps = 0\<rparr>"

text \<open>The client's round trip of a close, its answer ignored, before it exits.\<close>

definition client_close ::
    "console_env \<Rightarrow> peer_identity \<Rightarrow> client_exit \<Rightarrow> console_table \<Rightarrow> console_client \<Rightarrow> console_table \<times> console_client" where
  "client_close env peer exit t c =
     (snd (dispatch_console env peer (Op_Close (cc_session c)) t), c\<lparr>cc_exit := Some exit\<rparr>)"

definition client_fast_forward :: "console_read_output_result \<Rightarrow> console_client \<Rightarrow> console_client" where
  "client_fast_forward out c =
     (if cc_stdout_offset c < crr_ring_buffer_start_offset out
      then c\<lparr>cc_stdout_offset := crr_ring_buffer_start_offset out,
             cc_gaps := cc_gaps c + (unat (crr_ring_buffer_start_offset out) - unat (cc_stdout_offset c))\<rparr>
      else c)"

definition client_receive ::
    "console_env \<Rightarrow> peer_identity \<Rightarrow> stdout_answer \<Rightarrow> console_read_output_result \<Rightarrow> console_table \<Rightarrow> console_client \<Rightarrow>
     console_table \<times> console_client" where
  "client_receive env peer answer out t c =
     (if crr_chunk_base64 out \<noteq> []
      then case decode (crr_chunk_base64 out) of
          Inl _ \<Rightarrow> client_close env peer Fail_Base64 t c
        | Inr bytes \<Rightarrow>
            (case answer of
               Written \<Rightarrow>
                 (t, c\<lparr>cc_stdout := cc_stdout c @ bytes, cc_stdout_offset := crr_offset out + of_nat (length bytes)\<rparr>)
             | Broken_Pipe \<Rightarrow> client_close env peer Exit_Broken_Pipe t c
             | Write_Failed \<Rightarrow> client_close env peer Fail_Stdout t c)
      else if crr_is_eof out then client_close env peer Exit_Eof t c
      else (t, c))"

definition client_poll ::
    "console_env \<Rightarrow> peer_identity \<Rightarrow> stdout_answer \<Rightarrow> console_table \<times> console_client \<Rightarrow> console_table \<times> console_client" where
  "client_poll env peer answer tc =
     (case tc of (t, c) \<Rightarrow>
        if cc_exit c \<noteq> None then (t, c)
        else case fst (dispatch_console env peer (Op_ReadOutput (cc_session c) (cc_stdout_offset c) 4096) t) of
            Inl err \<Rightarrow> (t, c\<lparr>cc_exit := Some (if console_exit_code err = 75 then Exit_Stale else Fail_Daemon err)\<rparr>)
          | Inr (Re_ReadOutput out) \<Rightarrow> client_receive env peer answer out t (client_fast_forward out c)
          | Inr _ \<Rightarrow> (t, c\<lparr>cc_exit := Some Fail_Response\<rparr>))"

lemma client_poll_exited: "cc_exit (snd tc) \<noteq> None \<Longrightarrow> client_poll env peer answer tc = tc"
  by (cases tc) (simp add: client_poll_def)


section \<open>The session a handle reads from\<close>

definition session_stream :: "console_table \<Rightarrow> string \<Rightarrow> u8 list \<Rightarrow> bool \<Rightarrow> bool" where
  "session_stream t vm s eof \<longleftrightarrow>
     (\<exists>session. bt_get (ct_sessions t) vm = Some session \<and> ring_represents RING_CAPACITY (cs_ring session) s eof)"

primrec drained_by :: "string \<Rightarrow> console_event \<Rightarrow> u8 list" where
  "drained_by vm (Ev_Drain v x) = (if v = vm then op_bytes x else [])"
| "drained_by vm (Ev_Request env peer op) = []"
| "drained_by vm (Ev_StartQemu v) = []"
| "drained_by vm (Ev_Stop v) = []"

lemma session_attach: "ct_sessions (snd (attach v uid new_handle t)) = ct_sessions t"
  by (auto simp: attach_def split: option.splits sum.splits)

lemma session_console_attach:
  assumes "has_session t vm"
  shows "bt_get (ct_sessions (snd (console_attach env peer v t))) vm = bt_get (ct_sessions t) vm"
proof (rule console_attach_cases [of env peer v t])
  fix t1 r t2
  assume a: "t1 = t \<or> \<not> has_session t v \<and> t1 = register_session v create_ch_session t"
    "attach v (peer_uid peer) (ce_new_handle env) t1 = (r, t2)" "snd (console_attach env peer v t) = t2"
  then have "ct_sessions t2 = ct_sessions t1" using session_attach by (metis snd_conv)
  with a assms show ?thesis by (auto simp: register_session_def has_session_def Let_def)
qed simp_all

lemma session_dispatch:
  assumes "has_session t vm"
  shows "bt_get (ct_sessions (snd (dispatch_console env peer op t))) vm = bt_get (ct_sessions t) vm"
  by (rule dispatch_cases [of env peer op t]) (auto simp: session_console_attach assms table_close_def)

lemma session_stream_apply:
  assumes "session_stream t vm s eof" "e \<noteq> Ev_Stop vm" "e \<noteq> Ev_StartQemu vm"
    "length s + length (drained_by vm e) < 2 ^ 64"
  shows "\<exists>eof'. session_stream (console_apply e t) vm (s @ drained_by vm e) eof'"
proof (cases e)
  case (Ev_Request env peer op)
  have "has_session t vm" using assms(1) by (auto simp: session_stream_def has_session_def bt_contains_def)
  then show ?thesis using assms(1) Ev_Request by (auto simp: session_stream_def session_dispatch)
next
  case (Ev_Drain v x)
  show ?thesis
  proof (cases "v = vm")
    case True
    obtain session where session: "bt_get (ct_sessions t) vm = Some session"
      "ring_represents RING_CAPACITY (cs_ring session) s eof" using assms(1) by (auto simp: session_stream_def)
    obtain ring where "ring_apply x (cs_ring session) = Some ring"
      "ring_represents RING_CAPACITY ring (s @ op_bytes x) (eof \<or> Ring_Eof = x)"
      using console_ring.app_represents [OF session(2), of x] assms(4) Ev_Drain True by auto
    then show ?thesis using Ev_Drain True session(1) by (auto simp: session_stream_def drain_def)
  qed (use assms(1) Ev_Drain in \<open>auto simp: session_stream_def drain_def split: option.splits\<close>)
qed (use assms in \<open>auto simp: session_stream_def register_session_def remove_session_def Let_def\<close>)

text \<open>A handle stays with its owner while nothing revokes it and no attach hands it out again.\<close>

definition hands_out :: "string \<Rightarrow> console_event \<Rightarrow> bool" where
  "hands_out h e \<longleftrightarrow> (\<exists>env peer vm. e = Ev_Request env peer (Op_Attach vm) \<and> ce_new_handle env = Inr h)"

lemma attach_handle: "attach v uid new_handle t = (Inr (Some (h, kind, start)), t') \<Longrightarrow> new_handle = Inr h"
  by (auto simp: attach_def split: if_splits option.splits sum.splits)

lemma console_attach_handle:
  "fst (console_attach env peer v t) = Inr (Re_Attach h kind start) \<Longrightarrow> ce_new_handle env = Inr h"
  by (rule console_attach_cases [of env peer v t]) (auto dest: attach_handle)

lemma holds_apply:
  assumes "holds t h uid vm" "\<not> revokes h uid vm e" "\<not> hands_out h e"
  shows "holds (console_apply e t) h uid vm"
proof (cases e)
  case (Ev_Request env peer op)
  show ?thesis
  proof (rule dispatch_cases [of env peer op t])
    fix v
    assume a: "op = Op_Attach v" "dispatch_console env peer op t = console_attach env peer v t"
    then have "fst (console_attach env peer v t) \<noteq> Inr (Re_Attach h kind start)" for kind start
      using console_attach_handle assms(3) Ev_Request by (auto simp: hands_out_def)
    with a assms(1) Ev_Request show ?thesis by (simp add: holds_console_attach)
  next
    fix k
    assume c: "op = Op_Close k" "snd (dispatch_console env peer op t) = snd (table_close k t)"
      "peer_role peer = Role_Admin \<or>
         peer_role peer = Role_Launcher \<and> client_owner_uid t k \<in> {None, Some (peer_uid peer)}"
    then have "k \<noteq> h" using assms(1,2) Ev_Request by (auto simp: holds_def client_owner_uid_def)
    with c assms(1) Ev_Request show ?thesis by (simp add: holds_close)
  qed (use assms(1) Ev_Request in simp)
qed (use assms in \<open>auto simp: holds_drain holds_register holds_remove\<close>)



section \<open>What the client has printed\<close>

text \<open>The client has accounted for the stream up to its offset: printed in order, or counted as a gap.\<close>

definition client_ok :: "nat \<Rightarrow> console_client \<Rightarrow> u8 list \<Rightarrow> bool" where
  "client_ok start c s \<longleftrightarrow>
     start \<le> unat (cc_stdout_offset c) \<and> unat (cc_stdout_offset c) \<le> length s \<and>
     length (cc_stdout c) + cc_gaps c = unat (cc_stdout_offset c) - start \<and>
     subseq (cc_stdout c) (drop start (take (unat (cc_stdout_offset c)) s))"

lemma client_ok_append: "client_ok start c s \<Longrightarrow> client_ok start c (s @ t)"
  by (simp add: client_ok_def)

lemma client_ok_exit [simp]: "client_ok start (c\<lparr>cc_exit := x\<rparr>) s = client_ok start c s"
  by (simp add: client_ok_def)

lemma client_ok_forward:
  assumes "client_ok start c s" "unat b \<le> length s" "crr_ring_buffer_start_offset out = b"
  shows "client_ok start (client_fast_forward out c) s"
    "cc_stdout_offset (client_fast_forward out c) = max (cc_stdout_offset c) b"
    "cc_session (client_fast_forward out c) = cc_session c" "cc_exit (client_fast_forward out c) = cc_exit c"
proof -
  have "subseq (drop start (take (unat (cc_stdout_offset c)) s)) (drop start (take (unat b) s))"
    if "cc_stdout_offset c < b"
  proof -
    have "unat b = unat (cc_stdout_offset c) + (unat b - unat (cc_stdout_offset c))"
      using that by (simp add: word_less_nat_alt)
    then have "take (unat b) s = take (unat (cc_stdout_offset c)) s @
        take (unat b - unat (cc_stdout_offset c)) (drop (unat (cc_stdout_offset c)) s)" by (metis take_add)
    then show ?thesis by (simp only: drop_append subseq_rev_drop_many)
  qed
  then show "client_ok start (client_fast_forward out c) s"
    using assms subseq_order.trans by (auto simp: client_fast_forward_def client_ok_def word_less_nat_alt)
qed (use assms(3) in \<open>auto simp: client_fast_forward_def max_def\<close>)

lemma client_ok_print:
  assumes "client_ok start c s" "bytes = take m (drop (unat (cc_stdout_offset c)) s)" "length s < 2 ^ 64"
  shows "client_ok start (c\<lparr>cc_stdout := cc_stdout c @ bytes, cc_stdout_offset := cc_stdout_offset c + of_nat (length bytes)\<rparr>) s"
proof -
  define a where "a = unat (cc_stdout_offset c)"
  have a: "start \<le> a" "a \<le> length s" "length (cc_stdout c) + cc_gaps c = a - start"
    "subseq (cc_stdout c) (drop start (take a s))" using assms(1) by (auto simp: client_ok_def a_def)
  have n: "a + length bytes \<le> length s" "bytes = take (length bytes) (drop a s)"
    using assms(2) a(2) by (auto simp: a_def min_def)
  have "unat (of_nat (length bytes) :: u64) = length bytes"
    using n(1) assms(3) by (simp add: unat_of_nat take_bit_nat_eq_self)
  then have off: "unat (cc_stdout_offset c + of_nat (length bytes)) = a + length bytes"
    using n(1) assms(3) by (simp add: unat_word_ariths a_def)
  have "take (a + length bytes) s = take a s @ bytes" using n(2) by (metis take_add)
  then have "drop start (take (a + length bytes) s) = drop start (take a s) @ bytes" using a(1,2) by simp
  then show ?thesis using a n(1) off list_emb_append_mono [OF a(4), of bytes bytes] by (simp add: client_ok_def)
qed

text \<open>One poll of a client that holds its handle.\<close>

lemma read_holding:
  assumes "holds t h (peer_uid peer) vm" "session_stream t vm s eof" "peer_role peer = Role_Launcher"
  shows "dispatch_console env peer (Op_ReadOutput h offset max_len) t =
     (Inr (Re_ReadOutput (build_read_output_result h (stream_read RING_CAPACITY s eof offset max_len))), t)"
proof -
  obtain session where session: "bt_get (ct_sessions t) vm = Some session"
    "ring_represents RING_CAPACITY (cs_ring session) s eof" using assms(2) by (auto simp: session_stream_def)
  have "read_output t h offset max_len =
      Some \<lparr>cro_vm = vm, cro_provider_kind = cs_provider_kind session,
        cro_snap = Some (stream_read RING_CAPACITY s eof offset max_len)\<rparr>"
    using assms(1) session console_ring.read_represents [OF session(2)]
    by (simp add: read_output_def client_session_def holds_def)
  with assms(1,3) show ?thesis
    by (simp add: dispatch_console_def check_console_ownership_def client_owner_uid_def holds_def)
qed

lemma unat_of_nat_u64: "n < 2 ^ 64 \<Longrightarrow> unat (of_nat n :: u64) = n"
  by (simp add: unat_of_nat take_bit_nat_eq_self)

lemma stream_read_cases:
  assumes "length s < 2 ^ 64"
  obtains (pending) "length s \<le> max (unat offset) (stream_base window s)" "\<not> eof"
      "stream_read window s eof offset max_len = None"
  | (ended) x where "length s \<le> max (unat offset) (stream_base window s)" eof
      "stream_read window s eof offset max_len = Some x" "rrr_data x = []" "rrr_is_eof x"
      "unat (rrr_base_offset x) = stream_base window s"
  | (chunk) x where "max (unat offset) (stream_base window s) < length s"
      "stream_read window s eof offset max_len = Some x"
      "unat (rrr_actual_offset x) = max (unat offset) (stream_base window s)"
      "unat (rrr_base_offset x) = stream_base window s"
      "rrr_data x = take (unat max_len) (drop (max (unat offset) (stream_base window s)) s)"
proof (cases "length s \<le> max (unat offset) (stream_base window s)")
  case True
  have "unat (of_nat (stream_base window s) :: u64) = stream_base window s"
    by (rule unat_of_nat_u64) (use assms in \<open>simp add: stream_base_def\<close>)
  with True show thesis
    using pending ended by (cases eof) (auto simp: stream_read_def Let_def)
next
  case False
  then have "max (unat offset) (stream_base window s) < 2 ^ 64" "stream_base window s < 2 ^ 64"
    using assms by linarith+
  with False show thesis
    by (intro chunk) (auto simp: stream_read_def Let_def unat_of_nat_u64)
qed

lemma ring_capacity_pos [simp]: "0 < RING_CAPACITY" "RING_CAPACITY \<noteq> 0"
  by (simp_all add: RING_CAPACITY_def)

text \<open>A poll keeps the account and moves up to 4096 bytes on, and only the end of the stream ends the client.\<close>

lemma client_poll_ok:
  fixes env :: console_env
  assumes "holds t (cc_session c) (peer_uid peer) vm" "session_stream t vm s eof" "peer_role peer = Role_Launcher"
    and "client_ok start c s" "cc_exit c = None" "length s < 2 ^ 64"
  defines "tc \<equiv> client_poll env peer Written (t, c)"
  shows "client_ok start (snd tc) s \<and> cc_session (snd tc) = cc_session c \<and>
    unat (cc_stdout_offset (snd tc)) =
      min (length s) (max (unat (cc_stdout_offset c)) (stream_base RING_CAPACITY s) + 4096) \<and>
    (cc_exit (snd tc) = None \<and> fst tc = t \<or>
     cc_exit (snd tc) = Some Exit_Eof \<and> unat (cc_stdout_offset (snd tc)) = length s \<and>
     fst tc = snd (dispatch_console env peer (Op_Close (cc_session c)) t))"
proof -
  define o1 where "o1 = cc_stdout_offset c"
  define b where "b = stream_base RING_CAPACITY s"
  have o1: "unat o1 \<le> length s" using assms(4) by (simp add: client_ok_def o1_def)
  have "b < length s \<or> length s = 0" by (auto simp: b_def stream_base_def)
  then have b: "b \<le> length s" "length s \<le> max (unat o1) b \<Longrightarrow> unat o1 = length s"
    using o1 by (auto simp: b_def stream_base_def)
  note poll = tc_def client_poll_def read_holding [OF assms(1-3)] assms(5)
  show ?thesis
  proof (rule stream_read_cases [OF assms(6), of o1 RING_CAPACITY eof 4096, folded b_def])
    assume r: "length s \<le> max (unat o1) b" "stream_read RING_CAPACITY s eof o1 4096 = None"
    then show ?thesis
      using b(2) assms(4,5) by (simp add: poll build_read_output_result_def client_fast_forward_def client_receive_def flip: o1_def b_def)
  next
    fix x
    assume r: "length s \<le> max (unat o1) b" "stream_read RING_CAPACITY s eof o1 4096 = Some x" "rrr_data x = []"
      "rrr_is_eof x" "unat (rrr_base_offset x) = b"
    define out where "out = build_read_output_result (cc_session c) (Some x)"
    have out: "crr_ring_buffer_start_offset out = rrr_base_offset x" "crr_chunk_base64 out = []" "crr_is_eof out"
      using r by (simp_all add: out_def build_read_output_result_def encode_eq_Nil)
    have "client_fast_forward out c = c"
      using b r(1,5) out(1) by (simp add: client_fast_forward_def word_less_nat_alt flip: o1_def)
    then have "tc = client_close env peer Exit_Eof t c"
      by (simp add: poll r(2) client_receive_def out flip: o1_def out_def)
    then show ?thesis using b r(1) assms(4) by (simp add: client_close_def flip: o1_def b_def)
  next
    fix x
    assume r: "max (unat o1) b < length s" "stream_read RING_CAPACITY s eof o1 4096 = Some x"
      "unat (rrr_actual_offset x) = max (unat o1) b" "unat (rrr_base_offset x) = b"
      "rrr_data x = take (unat (4096 :: u64)) (drop (max (unat o1) b) s)"
    define out where "out = build_read_output_result (cc_session c) (Some x)"
    have out: "crr_ring_buffer_start_offset out = rrr_base_offset x" "crr_chunk_base64 out = encode (rrr_data x)"
      "crr_offset out = rrr_actual_offset x"
      by (simp_all add: out_def build_read_output_result_def)
    define c1 where "c1 = client_fast_forward out c"
    note fwd = client_ok_forward [OF assms(4) _ out(1), folded c1_def]
    have c1: "client_ok start c1 s" "cc_stdout_offset c1 = rrr_actual_offset x" "cc_session c1 = cc_session c" "cc_exit c1 = None"
      using fwd b(1) r(3,4) assms(5) by (auto simp: word_unat_eq_iff o1_def max_def word_le_nat_alt split: if_splits)
    have data: "rrr_data x = take 4096 (drop (unat (cc_stdout_offset c1)) s)" "rrr_data x \<noteq> []"
      using r(1,3,5) c1(2) by auto
    have tc: "tc = (t, c1\<lparr>cc_stdout := cc_stdout c1 @ rrr_data x,
        cc_stdout_offset := cc_stdout_offset c1 + of_nat (length (rrr_data x))\<rparr>)"
      using data(2) by (simp add: poll r(2) client_receive_def out c1(2) encode_eq_Nil flip: o1_def out_def c1_def)
    have "unat (cc_stdout_offset c1 + of_nat (length (rrr_data x))) = max (unat o1) b + length (rrr_data x)"
    proof -
      have "length (rrr_data x) \<le> length s - max (unat o1) b" by (simp add: r(5))
      then have "max (unat o1) b + length (rrr_data x) \<le> length s" using r(1) by linarith
      then show ?thesis using assms(6) c1(2) r(3) unat_of_nat_u64 [of "length (rrr_data x)"] by (simp add: unat_word_ariths)
    qed
    moreover have "max (unat o1) b + length (rrr_data x) = min (length s) (max (unat o1) b + 4096)"
    proof -
      have "a + min (n - a) k = min n (a + k)" if "a < n" for a n k :: nat using that by (auto simp: min_def)
      from this [OF r(1), of 4096] show ?thesis by (simp add: r(5))
    qed
    ultimately show ?thesis
      using client_ok_print [OF c1(1) data(1) assms(6)] c1(3,4) by (simp add: tc flip: o1_def b_def)
  qed
qed



section \<open>The client among other events\<close>

datatype client_event = Cl_Poll console_env | Cl_Other console_event

primrec client_apply :: "peer_identity \<Rightarrow> client_event \<Rightarrow> console_table \<times> console_client \<Rightarrow> console_table \<times> console_client" where
  "client_apply peer (Cl_Poll env) tc = client_poll env peer Written tc"
| "client_apply peer (Cl_Other e) tc = (console_apply e (fst tc), snd tc)"

definition client_run ::
    "peer_identity \<Rightarrow> client_event list \<Rightarrow> console_table \<times> console_client \<Rightarrow> console_table \<times> console_client" where
  "client_run peer es tc = fold (client_apply peer) es tc"

lemma client_run_simps [simp]:
  "client_run peer [] tc = tc" "client_run peer (e # es) tc = client_run peer es (client_apply peer e tc)"
  "client_run peer (es @ fs) tc = client_run peer fs (client_run peer es tc)"
  by (simp_all add: client_run_def)

primrec vm_output :: "string \<Rightarrow> client_event \<Rightarrow> u8 list" where
  "vm_output vm (Cl_Poll env) = []"
| "vm_output vm (Cl_Other e) = drained_by vm e"

primrec undisturbed :: "string \<Rightarrow> u32 \<Rightarrow> string \<Rightarrow> client_event \<Rightarrow> bool" where
  "undisturbed h uid vm (Cl_Poll env) \<longleftrightarrow> True"
| "undisturbed h uid vm (Cl_Other e) \<longleftrightarrow> \<not> revokes h uid vm e \<and> \<not> hands_out h e"

text \<open>The state of an attached client: it holds its handle until the end of the stream made it exit.\<close>

definition attached :: "peer_identity \<Rightarrow> string \<Rightarrow> nat \<Rightarrow> console_table \<times> console_client \<Rightarrow> u8 list \<Rightarrow> bool" where
  "attached peer vm start tc s \<longleftrightarrow>
     client_ok start (snd tc) s \<and> (\<exists>eof. session_stream (fst tc) vm s eof) \<and> length s < 2 ^ 64 \<and>
     (cc_exit (snd tc) = None \<and> holds (fst tc) (cc_session (snd tc)) (peer_uid peer) vm \<or>
      cc_exit (snd tc) = Some Exit_Eof)"

lemma attached_poll:
  assumes "attached peer vm start tc s" "peer_role peer = Role_Launcher"
  shows "attached peer vm start (client_poll env peer Written tc) s \<and>
    cc_session (snd (client_poll env peer Written tc)) = cc_session (snd tc)"
proof (cases "cc_exit (snd tc)")
  case None
  obtain eof where st: "session_stream (fst tc) vm s eof" using assms(1) by (auto simp: attached_def)
  then have "has_session (fst tc) vm" by (auto simp: session_stream_def has_session_def bt_contains_def)
  then have "\<exists>eof. session_stream (snd (dispatch_console env peer op (fst tc))) vm s eof" for op
    using st by (auto simp: session_stream_def session_dispatch)
  with st None assms client_poll_ok [of "fst tc" "snd tc" peer vm s eof start env] show ?thesis
    by (auto simp: attached_def)
next
  case (Some x)
  then have "client_poll env peer Written tc = tc" by (simp add: client_poll_exited)
  with assms(1) show ?thesis by simp
qed

lemma attached_other:
  assumes "attached peer vm start tc s" "undisturbed (cc_session (snd tc)) (peer_uid peer) vm (Cl_Other e)"
    "length s + length (drained_by vm e) < 2 ^ 64"
  shows "attached peer vm start (console_apply e (fst tc), snd tc) (s @ drained_by vm e)"
proof -
  have "e \<noteq> Ev_Stop vm" "e \<noteq> Ev_StartQemu vm" using assms(2) by auto
  with session_stream_apply assms(1,3) have "\<exists>eof. session_stream (console_apply e (fst tc)) vm (s @ drained_by vm e) eof"
    by (auto simp: attached_def)
  with assms holds_apply show ?thesis by (auto simp: attached_def client_ok_append)
qed

lemma attached_run:
  assumes "attached peer vm start tc s" "peer_role peer = Role_Launcher"
    "list_all (undisturbed (cc_session (snd tc)) (peer_uid peer) vm) es"
    "length s + length (concat (map (vm_output vm) es)) < 2 ^ 64"
  shows "attached peer vm start (client_run peer es tc) (s @ concat (map (vm_output vm) es))"
  using assms
proof (induction es arbitrary: tc s)
  case (Cons e es)
  show ?case
  proof (cases e)
    case (Cl_Poll env)
    note poll = attached_poll [OF Cons.prems(1,2), of env]
    then show ?thesis using Cons.IH [of "client_poll env peer Written tc" s] Cons.prems Cl_Poll by simp
  next
    case (Cl_Other x)
    have "attached peer vm start (console_apply x (fst tc), snd tc) (s @ drained_by vm x)"
      using attached_other Cons.prems Cl_Other by simp
    from Cons.IH [OF this] Cons.prems Cl_Other show ?thesis by simp
  qed
qed simp

lemma attached_new:
  assumes "dispatch_console env peer (Op_Attach vm) t = (Inr (Re_Attach h kind start), t1)"
    and "session_stream t1 vm s eof"
  shows "attached peer vm (unat start) (t1, client_new h start) s \<and> unat start = stream_base RING_CAPACITY s"
proof -
  have a: "console_attach env peer vm t = (Inr (Re_Attach h kind start), t1)"
    using assms(1) by (auto simp: dispatch_console_def split: if_splits)
  then have "holds t1 h (peer_uid peer) vm" using holds_console_attach [of env peer vm t h] by auto
  moreover obtain session where session: "bt_get (ct_sessions t1) vm = Some session"
    "ring_represents RING_CAPACITY (cs_ring session) s eof" using assms(2) by (auto simp: session_stream_def)
  moreover have "start = rb_base_offset (cs_ring session)"
  proof (rule console_attach_cases [of env peer vm t])
    fix u r t2
    assume u: "attach vm (peer_uid peer) (ce_new_handle env) u = (r, t2)" "snd (console_attach env peer vm t) = t2"
      "\<And>h kind start. fst (console_attach env peer vm t) = Inr (Re_Attach h kind start) \<longleftrightarrow> r = Inr (Some (h, kind, start))"
    then have "r = Inr (Some (h, kind, start))" "t2 = t1" using a by auto
    with u(1) session(1) show ?thesis by (auto simp: attach_def split: if_splits option.splits sum.splits)
  qed (use a in auto)
  moreover have "unat (rb_base_offset (cs_ring session)) = stream_base RING_CAPACITY s" "length s < 2 ^ 64"
    using session(2) unat_of_nat_u64 [of "stream_base RING_CAPACITY s"]
    by (auto simp: ring_represents_def ring_abs_def stream_base_def)
  ultimately show ?thesis
    using assms(2) by (auto simp: attached_def client_ok_def client_new_def stream_base_def)
qed


lemma polls_deliver:
  assumes "attached peer vm start tc s" "peer_role peer = Role_Launcher" "cc_exit (snd tc) = None"
  shows "length s \<le> unat (cc_stdout_offset (snd tc)) + 4096 * k \<Longrightarrow>
    unat (cc_stdout_offset (snd (client_run peer (replicate k (Cl_Poll env)) tc))) = length s"
  using assms
proof (induction k arbitrary: tc)
  case 0
  then show ?case by (simp add: attached_def client_ok_def)
next
  case (Suc k)
  define tc1 where "tc1 = client_poll env peer Written tc"
  obtain eof where st: "session_stream (fst tc) vm s eof" using Suc.prems(2) by (auto simp: attached_def)
  with Suc.prems client_poll_ok [of "fst tc" "snd tc" peer vm s eof start env]
  have off: "unat (cc_stdout_offset (snd tc1)) =
      min (length s) (max (unat (cc_stdout_offset (snd tc))) (stream_base RING_CAPACITY s) + 4096)"
    and exit: "cc_exit (snd tc1) = None \<or> unat (cc_stdout_offset (snd tc1)) = length s"
    by (auto simp: attached_def tc1_def)
  have att: "attached peer vm start tc1 s" using attached_poll [OF Suc.prems(2,3)] by (simp add: tc1_def)
  show ?case
  proof (cases "cc_exit (snd tc1)")
    case None
    have "length s \<le> unat (cc_stdout_offset (snd tc1)) + 4096 * k" using off Suc.prems(1) by auto
    from Suc.IH [OF this att Suc.prems(3) None] show ?thesis by (simp add: tc1_def)
  next
    case (Some x)
    have stuck: "client_run peer (replicate k (Cl_Poll env)) tc1 = tc1"
      using Some by (induction k) (simp_all add: client_poll_exited)
    with Some exit show ?thesis by (simp add: tc1_def)
  qed
qed


section \<open>Properties\<close>




text \<open>The first client of a VM, which then writes two bytes.\<close>

definition demo_table :: console_table where
  "demo_table = snd (dispatch_console demo_env demo_peer (Op_Attach ''vm1'') table_new)"

definition demo_output :: "client_event list" where
  "demo_output = [Cl_Other (Ev_Drain ''vm1'' (Ring_Push [104, 105]))]"

lemma fresh_ring_new: "ring_new RING_CAPACITY = Some fresh_ring"
  by (simp add: fresh_ring_def ring_new_def)

lemma demo_attached:
  "dispatch_console demo_env demo_peer (Op_Attach ''vm1'') table_new =
     (Inr (Re_Attach ''console-1'' LocalHypervisor 0), demo_table)"
proof -
  have "rb_base_offset fresh_ring = 0" by (simp add: fresh_ring_def ring_new_def)
  then have "fst (dispatch_console demo_env demo_peer (Op_Attach ''vm1'') table_new) =
      Inr (Re_Attach ''console-1'' LocalHypervisor 0)"
    by (simp add: dispatch_console_def demo_env_def demo_peer_def console_attach_def resolve_console_provider_kind_def
        create_console_session_for_vm_def has_session_def register_session_def attach_def table_new_def MAX_SESSIONS_def
        create_ch_session_def)
  then show ?thesis by (simp add: demo_table_def prod_eq_iff)
qed

lemma demo_stream: "session_stream demo_table ''vm1'' [] False"
  using demo_attach ring_represents_new [OF ring_capacity_pos(1) fresh_ring_new]
  by (simp add: demo_table_def session_stream_def create_ch_session_def)

lemma demo_undisturbed: "list_all (undisturbed ''console-1'' (peer_uid demo_peer) ''vm1'') demo_output"
  by (simp add: demo_output_def hands_out_def)



end
