(* ===== verification/Supervisor_Dag.thy ===== *)
theory Supervisor_Dag
  imports Prelude "HOL-Library.Multiset"
begin

text \<open>
  The per-VM process supervisor \<open>d2bd/src/supervisor/dag.rs\<close> over the process graph of
  \<open>d2b-core/src/processes.rs\<close>: the topological sort, and the executor that spawns nodes in that order and stops
  at the first failure. The loop of the sort is a partial function into \<open>option\<close>, proved to return. The node
  runner is a parameter; since every node is spawned at most once its answers are a function of the node. What
  a node carries beside its id and readiness predicates is the type variable \<open>'p\<close>; the workload identity and
  the invariants of a graph, which neither function reads, are left out.
\<close>

section \<open>Process graphs\<close>

type_synonym node_id = string

datatype readiness_predicate =
    ApiSocketInfo string
  | VsockNotify string
  | UnixSocketExists string
  | UnixSocketListening string
  | TcpPort string u16
  | Command "string list"
  | ComponentSpecific string
  | GuestControlHealth string

record 'p process_node =
  pn_id :: node_id
  pn_readiness :: "readiness_predicate list"
  pn_spec :: 'p

record dag_edge =
  edge_from :: node_id
  edge_to :: node_id
  edge_reason :: string

record 'p vm_process_dag =
  dag_vm :: string
  dag_nodes :: "'p process_node list"
  dag_edges :: "dag_edge list"

datatype dag_error =
    Dag_Cycle "node_id list"
  | Dag_UnknownNode dag_edge
  | Dag_DuplicateNode node_id


section \<open>Topological sort\<close>

text \<open>Step 1: the set of node ids, or the first duplicate.\<close>

primrec node_id_set :: "'p process_node list \<Rightarrow> node_id btset \<Rightarrow> dag_error + node_id btset" where
  "node_id_set [] ids = Inr ids"
| "node_id_set (n # ns) ids =
     (if bt_contains ids (pn_id n) then Inl (Dag_DuplicateNode (pn_id n))
      else node_id_set ns (bt_insert (pn_id n) () ids))"

text \<open>Step 2: adjacency and in-degree maps, or the first edge with an unknown end.\<close>

type_synonym dag_maps = "(node_id, node_id list) btmap \<times> (node_id, nat) btmap"

definition add_edge :: "dag_edge \<Rightarrow> dag_maps \<Rightarrow> dag_maps" where
  "add_edge e maps =
     (case maps of (adjacency, in_degree) \<Rightarrow>
        (bt_insert (edge_from e)
           ((case bt_get adjacency (edge_from e) of Some ns \<Rightarrow> ns | None \<Rightarrow> []) @ [edge_to e]) adjacency,
         bt_insert (edge_to e) ((case bt_get in_degree (edge_to e) of Some d \<Rightarrow> d | None \<Rightarrow> 0) + 1) in_degree))"

primrec add_edges :: "node_id btset \<Rightarrow> dag_edge list \<Rightarrow> dag_maps \<Rightarrow> dag_error + dag_maps" where
  "add_edges ids [] maps = Inr maps"
| "add_edges ids (e # es) maps =
     (if \<not> bt_contains ids (edge_from e) then Inl (Dag_UnknownNode e)
      else if \<not> bt_contains ids (edge_to e) then Inl (Dag_UnknownNode e)
      else add_edges ids es (add_edge e maps))"

text \<open>Step 3: Kahn's algorithm. One successor of a popped node, then the loop.\<close>

definition visit ::
    "node_id list \<Rightarrow> node_id \<Rightarrow> (node_id, nat) btmap \<times> node_id list \<Rightarrow> (node_id, nat) btmap \<times> node_id list" where
  "visit emitted n st =
     (case st of (in_degree, queue) \<Rightarrow>
        let entry = (case bt_get in_degree n of Some d \<Rightarrow> d | None \<Rightarrow> 0);
            entry' = (if 0 < entry then entry - 1 else entry)
        in (bt_insert n entry' in_degree,
            if entry' = 0 \<and> n \<notin> set emitted \<and> n \<notin> set queue then queue @ [n] else queue))"

partial_function (option) kahn ::
    "(node_id, node_id list) btmap \<Rightarrow> (node_id, nat) btmap \<Rightarrow> node_id list \<Rightarrow> node_id list \<Rightarrow> node_id list option" where
  "kahn adjacency in_degree queue emitted =
     (case queue of
        [] \<Rightarrow> Some emitted
      | n # queue' \<Rightarrow>
          (let emitted' = emitted @ [n];
               neighbours = (case bt_get adjacency n of Some ns \<Rightarrow> sort ns | None \<Rightarrow> []);
               st = fold (visit emitted') neighbours (in_degree, queue')
           in kahn adjacency (fst st) (snd st) emitted'))"

text \<open>Steps 2 to 4 over the ids of step 1, then the whole sort.\<close>

definition initial_maps :: "'p vm_process_dag \<Rightarrow> dag_maps" where
  "initial_maps dag = (bt_empty, fold (\<lambda>n. bt_insert (pn_id n) 0) (dag_nodes dag) bt_empty)"

definition sort_edges :: "node_id btset \<Rightarrow> 'p vm_process_dag \<Rightarrow> (dag_error + node_id list) option" where
  "sort_edges ids dag =
     (case add_edges ids (dag_edges dag) (initial_maps dag) of
        Inl err \<Rightarrow> Some (Inl err)
      | Inr (adjacency, in_degree) \<Rightarrow>
          map_option
            (\<lambda>emitted.
               if length emitted \<noteq> length (dag_nodes dag)
               then Inl (Dag_Cycle (filter (\<lambda>i. i \<notin> set emitted) (map pn_id (dag_nodes dag))))
               else Inr emitted)
            (kahn adjacency in_degree (map fst (filter (\<lambda>(i, d). d = 0) (bt_entries in_degree))) []))"

definition topo_sort :: "'p vm_process_dag \<Rightarrow> (dag_error + node_id list) option" where
  "topo_sort dag =
     (case node_id_set (dag_nodes dag) bt_empty of
        Inl err \<Rightarrow> Some (Inl err)
      | Inr ids \<Rightarrow> sort_edges ids dag)"


section \<open>The executor\<close>

datatype node_outcome = Node_Ready | Node_Failed string | Node_Skipped node_id

record node_history =
  nh_node_id :: node_id
  nh_outcome :: node_outcome

datatype api_ready_state = Api_Yes | Api_Pending | Api_Timeout | Api_Error string

datatype api_ready_json = Json_Str string | Json_Error string

primrec serialize_api_ready :: "api_ready_state \<Rightarrow> api_ready_json" where
  "serialize_api_ready Api_Yes = Json_Str ''yes''"
| "serialize_api_ready Api_Pending = Json_Str ''pending''"
| "serialize_api_ready Api_Timeout = Json_Str ''timeout''"
| "serialize_api_ready (Api_Error reason) = Json_Error reason"

primrec deserialize_api_ready :: "api_ready_json \<Rightarrow> api_ready_state option" where
  "deserialize_api_ready (Json_Str v) =
     (if v = ''yes'' then Some Api_Yes
      else if v = ''pending'' then Some Api_Pending
      else if v = ''timeout'' then Some Api_Timeout
      else None)"
| "deserialize_api_ready (Json_Error reason) = Some (Api_Error reason)"

lemma api_ready_round_trip: "deserialize_api_ready (serialize_api_ready s) = Some s"
  by (cases s) simp_all

record dag_run_report =
  drr_vm :: string
  drr_history :: "node_history list"
  drr_overall_ok :: bool
  drr_api_ready :: "api_ready_state option"

datatype split_readiness_mode = Strict | NoWaitApi

text \<open>The answers of a node runner.\<close>

record 'p node_runner =
  run_wait_ready :: "'p process_node \<Rightarrow> readiness_predicate list \<Rightarrow> string + unit"
  run_process_alive :: "'p process_node \<Rightarrow> string + unit"
  run_probe_api :: "'p process_node \<Rightarrow> readiness_predicate list \<Rightarrow> api_ready_state"

definition uses_split_readiness :: "readiness_predicate list \<Rightarrow> bool" where
  "uses_split_readiness ps \<longleftrightarrow> list_ex (\<lambda>p. case p of ApiSocketInfo _ \<Rightarrow> True | _ \<Rightarrow> False) ps"

definition node_by_id :: "'p vm_process_dag \<Rightarrow> node_id \<Rightarrow> 'p process_node option" where
  "node_by_id dag i = map_of (map (\<lambda>n. (pn_id n, n)) (rev (dag_nodes dag))) i"

text \<open>The locals of the executor loops.\<close>

record run_state =
  rs_history :: "node_history list"
  rs_failed :: "node_id option"
  rs_ok :: bool
  rs_api_ready :: "api_ready_state option"
  rs_no_wait_completed :: bool

definition run_start :: run_state where
  "run_start = \<lparr>rs_history = [], rs_failed = None, rs_ok = True, rs_api_ready = None, rs_no_wait_completed = False\<rparr>"

definition record_result :: "node_id \<Rightarrow> string + unit \<Rightarrow> run_state \<Rightarrow> run_state" where
  "record_result i result st =
     (case result of
        Inr _ \<Rightarrow> st\<lparr>rs_history := rs_history st @ [\<lparr>nh_node_id = i, nh_outcome = Node_Ready\<rparr>]\<rparr>
      | Inl reason \<Rightarrow>
          st\<lparr>rs_ok := False, rs_failed := Some i,
             rs_history := rs_history st @ [\<lparr>nh_node_id = i, nh_outcome = Node_Failed reason\<rparr>]\<rparr>)"

definition record_skipped :: "node_id \<Rightarrow> node_id \<Rightarrow> run_state \<Rightarrow> run_state" where
  "record_skipped i failed st =
     st\<lparr>rs_history := rs_history st @ [\<lparr>nh_node_id = i, nh_outcome = Node_Skipped failed\<rparr>]\<rparr>"

definition report_of :: "'p vm_process_dag \<Rightarrow> run_state \<Rightarrow> dag_run_report" where
  "report_of dag st =
     \<lparr>drr_vm = dag_vm dag, drr_history = rs_history st, drr_overall_ok = rs_ok st, drr_api_ready = rs_api_ready st\<rparr>"

text \<open>\<open>run\<close>; the \<open>expect\<close> on the node lookup is the inner option.\<close>

definition run_node :: "'p node_runner \<Rightarrow> 'p vm_process_dag \<Rightarrow> node_id \<Rightarrow> run_state \<Rightarrow> run_state option" where
  "run_node runner dag i st =
     (case rs_failed st of
        Some failed \<Rightarrow> Some (record_skipped i failed st)
      | None \<Rightarrow>
          map_option (\<lambda>node. record_result i (run_wait_ready runner node (pn_readiness node)) st) (node_by_id dag i))"

primrec run_nodes :: "(node_id \<Rightarrow> run_state \<Rightarrow> run_state option) \<Rightarrow> node_id list \<Rightarrow> run_state \<Rightarrow> run_state option" where
  "run_nodes f [] st = Some st"
| "run_nodes f (i # order) st = Option.bind (f i st) (run_nodes f order)"

definition dag_run :: "'p node_runner \<Rightarrow> 'p vm_process_dag \<Rightarrow> (dag_error + dag_run_report) option" where
  "dag_run runner dag =
     (case topo_sort dag of
        None \<Rightarrow> None
      | Some (Inl err) \<Rightarrow> Some (Inl err)
      | Some (Inr order) \<Rightarrow> map_option (\<lambda>st. Inr (report_of dag st)) (run_nodes (run_node runner dag) order run_start))"

text \<open>\<open>run_split\<close>.\<close>

definition split_result ::
    "'p node_runner \<Rightarrow> split_readiness_mode \<Rightarrow> 'p process_node \<Rightarrow> run_state \<Rightarrow> (string + unit) \<times> run_state" where
  "split_result runner mode node st =
     (if uses_split_readiness (pn_readiness node)
      then case run_process_alive runner node of
          Inl reason \<Rightarrow> (Inl reason, st)
        | Inr _ \<Rightarrow>
            (case mode of
               NoWaitApi \<Rightarrow> (Inr (), st\<lparr>rs_api_ready := Some Api_Pending, rs_no_wait_completed := True\<rparr>)
             | Strict \<Rightarrow>
                 (let state = run_probe_api runner node (pn_readiness node) in
                  (case state of
                     Api_Yes \<Rightarrow> Inr ()
                   | Api_Pending \<Rightarrow> Inl ''api-ready pending''
                   | Api_Timeout \<Rightarrow> Inl ''api-ready timeout''
                   | Api_Error reason \<Rightarrow> Inl (''api-ready error: '' @ reason),
                   st\<lparr>rs_api_ready := Some state\<rparr>)))
      else (run_wait_ready runner node (pn_readiness node), st))"

definition split_node ::
    "'p node_runner \<Rightarrow> split_readiness_mode \<Rightarrow> 'p vm_process_dag \<Rightarrow> node_id \<Rightarrow> run_state \<Rightarrow> run_state option" where
  "split_node runner mode dag i st =
     (if rs_no_wait_completed st then Some st
      else case rs_failed st of
        Some failed \<Rightarrow> Some (record_skipped i failed st)
      | None \<Rightarrow>
          map_option (\<lambda>node. case split_result runner mode node st of (result, st') \<Rightarrow> record_result i result st')
            (node_by_id dag i))"

definition dag_run_split ::
    "'p node_runner \<Rightarrow> split_readiness_mode \<Rightarrow> 'p vm_process_dag \<Rightarrow> (dag_error + dag_run_report) option" where
  "dag_run_split runner mode dag =
     (case topo_sort dag of
        None \<Rightarrow> None
      | Some (Inl err) \<Rightarrow> Some (Inl err)
      | Some (Inr order) \<Rightarrow>
          map_option (\<lambda>st. Inr (report_of dag st)) (run_nodes (split_node runner mode dag) order run_start))"



section \<open>Correctness of the maps\<close>

lemma node_id_set_Inr:
  "distinct (map pn_id ns) \<Longrightarrow> (\<forall>n \<in> set ns. \<not> bt_contains ids (pn_id n)) \<Longrightarrow>
   \<exists>ids'. node_id_set ns ids = Inr ids' \<and> (\<forall>i. bt_contains ids' i \<longleftrightarrow> bt_contains ids i \<or> i \<in> pn_id ` set ns)"
proof (induction ns arbitrary: ids)
  case (Cons n ns)
  then have "\<forall>m \<in> set ns. \<not> bt_contains (bt_insert (pn_id n) () ids) (pn_id m)" by (auto simp: image_iff)
  from Cons.IH [OF _ this] Cons.prems obtain ids' where
    "node_id_set ns (bt_insert (pn_id n) () ids) = Inr ids'"
    "\<forall>i. bt_contains ids' i \<longleftrightarrow> bt_contains (bt_insert (pn_id n) () ids) i \<or> i \<in> pn_id ` set ns" by auto
  with Cons.prems(2) show ?case by (intro exI [of _ ids']) auto
qed simp

lemma node_id_set_Inl:
  "\<not> (distinct (map pn_id ns) \<and> (\<forall>n \<in> set ns. \<not> bt_contains ids (pn_id n))) \<Longrightarrow>
   \<exists>i \<in> pn_id ` set ns. node_id_set ns ids = Inl (Dag_DuplicateNode i) \<and>
     (bt_contains ids i \<or> 1 < count_list (map pn_id ns) i)"
proof (induction ns arbitrary: ids)
  case (Cons n ns)
  show ?case
  proof (cases "bt_contains ids (pn_id n)")
    case False
    with Cons.prems have "\<not> (distinct (map pn_id ns) \<and> (\<forall>m \<in> set ns. \<not> bt_contains (bt_insert (pn_id n) () ids) (pn_id m)))"
      by (auto simp: image_iff)
    from Cons.IH [OF this] obtain i where i: "i \<in> pn_id ` set ns"
      "node_id_set ns (bt_insert (pn_id n) () ids) = Inl (Dag_DuplicateNode i)"
      "bt_contains (bt_insert (pn_id n) () ids) i \<or> 1 < count_list (map pn_id ns) i" by blast
    moreover from i(1) have "0 < count_list (map pn_id ns) i" by (simp add: count_list_0_iff flip: neq0_conv)
    ultimately show ?thesis using False by (intro bexI [of _ i]) auto
  qed simp
qed simp

lemma add_edges_Inr:
  "(\<forall>e \<in> set es. bt_contains ids (edge_from e) \<and> bt_contains ids (edge_to e)) \<Longrightarrow>
   add_edges ids es maps = Inr (fold add_edge es maps)"
  by (induction es arbitrary: maps) simp_all

lemma add_edges_Inl:
  "\<not> (\<forall>e \<in> set es. bt_contains ids (edge_from e) \<and> bt_contains ids (edge_to e)) \<Longrightarrow>
   \<exists>e \<in> set es. add_edges ids es maps = Inl (Dag_UnknownNode e) \<and>
     \<not> (bt_contains ids (edge_from e) \<and> bt_contains ids (edge_to e))"
  by (induction es arbitrary: maps) auto

definition succs :: "dag_edge list \<Rightarrow> node_id \<Rightarrow> node_id list" where
  "succs es n = map edge_to (filter (\<lambda>e. edge_from e = n) es)"

text \<open>The edges into a node that start outside a set.\<close>

definition pending :: "dag_edge list \<Rightarrow> node_id set \<Rightarrow> node_id \<Rightarrow> nat" where
  "pending es D n = length (filter (\<lambda>e. edge_to e = n \<and> edge_from e \<notin> D) es)"

lemma add_edge_adjacency:
  "(case bt_get (fst (fold add_edge es maps)) n of Some ns \<Rightarrow> ns | None \<Rightarrow> []) =
     (case bt_get (fst maps) n of Some ns \<Rightarrow> ns | None \<Rightarrow> []) @ succs es n"
  by (induction es arbitrary: maps) (auto simp: succs_def add_edge_def split: prod.splits)

lemma add_edge_degree:
  "bt_get (snd maps) n = Some d \<Longrightarrow> bt_get (snd (fold add_edge es maps)) n = Some (d + pending es {} n)"
  by (induction es arbitrary: maps d) (auto simp: pending_def add_edge_def split: prod.splits)

lemma zero_degrees: "n \<in> pn_id ` set ns \<or> bt_get m n = Some 0 \<Longrightarrow> bt_get (fold (\<lambda>n. bt_insert (pn_id n) 0) ns m) n = Some (0::nat)"
  by (induction ns arbitrary: m) auto

lemma degree_domain:
  "dom (bt_get (snd (fold add_edge es maps))) = dom (bt_get (snd maps)) \<union> edge_to ` set es"
  by (induction es arbitrary: maps) (auto simp: add_edge_def dom_bt_insert split: prod.splits)

lemma zero_degree_domain: "dom (bt_get (fold (\<lambda>n. bt_insert (pn_id n) (0::nat)) ns m)) = dom (bt_get m) \<union> pn_id ` set ns"
  by (induction ns arbitrary: m) (auto simp: dom_bt_insert)

lemma pending_insert: "n \<notin> D \<Longrightarrow> pending es (insert n D) m + count_list (succs es n) m = pending es D m"
  by (induction es) (auto simp: pending_def succs_def)

lemma count_list_sort [simp]: "count_list (sort xs) x = count_list xs x"
  by (metis count_mset mset_sort)


section \<open>Correctness of the loop\<close>

text \<open>The successors of a popped node: none of them emitted or queued yet.\<close>

lemma visit_fold:
  "(\<forall>m \<in> set ns. m \<notin> set emitted \<and> m \<notin> set q \<and> (\<exists>d. bt_get deg m = Some d \<and> count_list ns m \<le> d)) \<Longrightarrow> distinct q \<Longrightarrow>
   \<exists>deg' q'. fold (visit emitted) ns (deg, q) = (deg', q @ q') \<and>
     (\<forall>m. bt_get deg' m = map_option (\<lambda>d. d - count_list ns m) (bt_get deg m)) \<and>
     set q' = {m \<in> set ns. bt_get deg m = Some (count_list ns m)} \<and> distinct (q @ q')"
proof (induction ns arbitrary: deg q)
  case Nil
  then show ?case by (auto simp: option.map_ident)
next
  case (Cons x xs)
  obtain d where d: "bt_get deg x = Some d" "Suc (count_list xs x) \<le> d" "x \<notin> set emitted" "x \<notin> set q"
    using Cons.prems(1) by auto
  define deg1 where "deg1 = bt_insert x (d - 1) deg"
  define q1 where "q1 = (if d - 1 = 0 then q @ [x] else q)"
  have visit: "visit emitted x (deg, q) = (deg1, q1)"
    using d by (simp add: visit_def deg1_def q1_def)
  have "\<forall>m \<in> set xs. m \<notin> set emitted \<and> m \<notin> set q1 \<and> (\<exists>d. bt_get deg1 m = Some d \<and> count_list xs m \<le> d)"
  proof
    fix m
    assume m: "m \<in> set xs"
    then have "0 < count_list xs m" by (metis count_list_0_iff neq0_conv)
    with m Cons.prems(1) d show "m \<notin> set emitted \<and> m \<notin> set q1 \<and> (\<exists>d. bt_get deg1 m = Some d \<and> count_list xs m \<le> d)"
      by (cases "m = x") (auto simp: q1_def deg1_def)
  qed
  moreover have "distinct q1" using Cons.prems(2) d(4) by (simp add: q1_def)
  ultimately obtain deg' q' where ih: "fold (visit emitted) xs (deg1, q1) = (deg', q1 @ q')"
    "\<And>m. bt_get deg' m = map_option (\<lambda>d. d - count_list xs m) (bt_get deg1 m)"
    "set q' = {m \<in> set xs. bt_get deg1 m = Some (count_list xs m)}" "distinct (q1 @ q')"
    using Cons.IH [of q1 deg1] by blast
  define q'' where "q'' = (if d - 1 = 0 then x # q' else q')"
  have "fold (visit emitted) (x # xs) (deg, q) = (deg', q @ q'')"
    using ih(1) visit by (simp add: q1_def q''_def)
  moreover have "bt_get deg' m = map_option (\<lambda>d. d - count_list (x # xs) m) (bt_get deg m)" for m
    using ih(2) d(1) by (simp add: deg1_def)
  moreover have "set q'' = {m \<in> set (x # xs). bt_get deg m = Some (count_list (x # xs) m)}"
  proof -
    have "x \<in> set q'' \<longleftrightarrow> d = Suc (count_list xs x)"
      using d(2) ih(3) count_list_0_iff [of xs x] by (auto simp: q''_def deg1_def)
    moreover have "m \<in> set q'' \<longleftrightarrow> m \<in> set xs \<and> bt_get deg m = Some (count_list xs m)" if "m \<noteq> x" for m
      using that ih(3) by (auto simp: q''_def deg1_def)
    ultimately show ?thesis using d(1) by (auto split: if_splits)
  qed
  moreover have "distinct (q @ q'')" using ih(4) by (auto simp: q1_def q''_def split: if_splits)
  ultimately show ?case by blast
qed


definition kahn_inv ::
    "dag_edge list \<Rightarrow> node_id set \<Rightarrow> (node_id, nat) btmap \<Rightarrow> node_id list \<Rightarrow> node_id list \<Rightarrow> bool" where
  "kahn_inv es ids deg queue emitted \<longleftrightarrow>
     distinct (emitted @ queue) \<and> set (emitted @ queue) \<subseteq> ids \<and>
     (\<forall>n \<in> ids. bt_get deg n = Some (pending es (set emitted) n)) \<and>
     (\<forall>n \<in> ids. pending es (set emitted) n = 0 \<longleftrightarrow> n \<in> set (emitted @ queue)) \<and>
     (\<forall>i < length emitted. \<forall>e \<in> set es. edge_to e = emitted ! i \<longrightarrow> edge_from e \<in> set (take i emitted))"

lemma pending_0: "pending es D n = 0 \<longleftrightarrow> (\<forall>e \<in> set es. edge_to e = n \<longrightarrow> edge_from e \<in> D)"
  by (auto simp: pending_def filter_empty_conv)

lemma succs_pending: "m \<in> set (succs es n) \<Longrightarrow> n \<notin> D \<Longrightarrow> pending es D m \<noteq> 0"
  by (auto simp: pending_0 succs_def)

lemma kahn_inv_step:
  assumes inv: "kahn_inv es ids deg (n # queue) emitted"
    and edges: "\<forall>e \<in> set es. edge_from e \<in> ids \<and> edge_to e \<in> ids"
  obtains deg' queue' where "fold (visit (emitted @ [n])) (sort (succs es n)) (deg, queue) = (deg', queue')"
    "kahn_inv es ids deg' queue' (emitted @ [n])"
proof -
  let ?ns = "sort (succs es n)"
  have fresh: "n \<notin> set emitted" "n \<in> ids" "distinct queue" "pending es (set emitted) n = 0"
    using inv by (auto simp: kahn_inv_def)
  have split: "pending es (set (emitted @ [n])) m + count_list ?ns m = pending es (set emitted) m" for m
    using pending_insert [OF fresh(1), of es m] by simp
  have in_ids: "m \<in> ids" if "m \<in> set ?ns" for m using that edges by (auto simp: succs_def)
  have "\<forall>m \<in> set ?ns. m \<notin> set (emitted @ [n]) \<and> m \<notin> set queue \<and> (\<exists>d. bt_get deg m = Some d \<and> count_list ?ns m \<le> d)"
  proof
    fix m
    assume m: "m \<in> set ?ns"
    then have "pending es (set emitted) m \<noteq> 0" using succs_pending fresh(1) by simp
    with inv in_ids [OF m] have "m \<notin> set (emitted @ n # queue)" "bt_get deg m = Some (pending es (set emitted) m)"
      by (auto simp: kahn_inv_def)
    then show "m \<notin> set (emitted @ [n]) \<and> m \<notin> set queue \<and> (\<exists>d. bt_get deg m = Some d \<and> count_list ?ns m \<le> d)"
      using split [of m] by auto
  qed
  from visit_fold [OF this fresh(3)] obtain deg' q' where
    fold: "fold (visit (emitted @ [n])) ?ns (deg, queue) = (deg', queue @ q')"
    and deg': "\<And>m. bt_get deg' m = map_option (\<lambda>d. d - count_list ?ns m) (bt_get deg m)"
    and q': "set q' = {m \<in> set ?ns. bt_get deg m = Some (count_list ?ns m)}" "distinct (queue @ q')"
    by blast
  have q'_iff: "m \<in> set q' \<longleftrightarrow> m \<in> set ?ns \<and> pending es (set (emitted @ [n])) m = 0" for m
    using inv in_ids split [of m] by (auto simp: q' kahn_inv_def)
  have zero: "pending es (set (emitted @ [n])) m = 0 \<longleftrightarrow> m \<in> set (emitted @ [n]) \<union> set (queue @ q')" if "m \<in> ids" for m
  proof (cases "m \<in> set ?ns")
    case True
    with succs_pending [of m es n "set emitted"] fresh(1) inv that q'_iff show ?thesis by (auto simp: kahn_inv_def)
  next
    case False
    then have "pending es (set (emitted @ [n])) m = pending es (set emitted) m"
      using split [of m] by (metis add_0_right count_list_0_iff)
    with False inv that q'_iff show ?thesis by (auto simp: kahn_inv_def)
  qed
  have "distinct ((emitted @ [n]) @ queue @ q')"
    using inv q'(2) q'_iff succs_pending [of _ es n "set emitted"] fresh(1) in_ids by (auto simp: kahn_inv_def)
  moreover have "set ((emitted @ [n]) @ queue @ q') \<subseteq> ids" using inv in_ids q'_iff by (auto simp: kahn_inv_def)
  moreover have "bt_get deg' m = Some (pending es (set (emitted @ [n])) m)" if "m \<in> ids" for m
    using inv that deg' [of m] split [of m] by (simp add: kahn_inv_def)
  moreover have "edge_from e \<in> set (take i (emitted @ [n]))"
    if "i < length (emitted @ [n])" "e \<in> set es" "edge_to e = (emitted @ [n]) ! i" for i e
    using that inv fresh(4) by (cases "i < length emitted") (auto simp: kahn_inv_def nth_append pending_0)
  ultimately show thesis using that [OF fold] zero unfolding kahn_inv_def by auto
qed

lemma kahn_returns:
  assumes "kahn_inv es ids deg queue emitted" "finite ids"
    and "\<forall>e \<in> set es. edge_from e \<in> ids \<and> edge_to e \<in> ids"
    and "\<And>n. (case bt_get adjacency n of Some ns \<Rightarrow> ns | None \<Rightarrow> []) = succs es n"
  shows "\<exists>out deg'. kahn adjacency deg queue emitted = Some out \<and> kahn_inv es ids deg' [] out"
  using assms(1)
proof (induction "card ids - length emitted" arbitrary: deg queue emitted rule: less_induct)
  case less
  show ?case
  proof (cases queue)
    case Nil
    with less.prems show ?thesis by (subst kahn.simps) auto
  next
    case (Cons n queue')
    then obtain deg' queue'' where step:
      "fold (visit (emitted @ [n])) (sort (succs es n)) (deg, queue') = (deg', queue'')"
      "kahn_inv es ids deg' queue'' (emitted @ [n])"
      using kahn_inv_step less.prems assms(3) by blast
    have "length (emitted @ [n]) \<le> card ids"
      using step(2) assms(2) by (metis distinct_append distinct_card card_mono kahn_inv_def le_sup_iff set_append)
    then have "card ids - length (emitted @ [n]) < card ids - length emitted" by simp
    from less.hyps [OF this step(2)] obtain out d where
      "kahn adjacency deg' queue'' (emitted @ [n]) = Some out" "kahn_inv es ids d [] out" by blast
    moreover have "(case bt_get adjacency n of Some ns \<Rightarrow> sort ns | None \<Rightarrow> []) = sort (succs es n)"
      using assms(4) [of n] by (cases "bt_get adjacency n") auto
    ultimately show ?thesis using step(1) Cons by (subst kahn.simps) (auto simp: Let_def)
  qed
qed



section \<open>Correctness of the sort\<close>

definition dag_rel :: "'p vm_process_dag \<Rightarrow> (node_id \<times> node_id) set" where
  "dag_rel dag = (\<lambda>e. (edge_from e, edge_to e)) ` set (dag_edges dag)"

definition dag_ids :: "'p vm_process_dag \<Rightarrow> node_id list" where
  "dag_ids dag = map pn_id (dag_nodes dag)"

definition well_formed_dag :: "'p vm_process_dag \<Rightarrow> bool" where
  "well_formed_dag dag \<longleftrightarrow> distinct (dag_ids dag) \<and> Field (dag_rel dag) \<subseteq> set (dag_ids dag)"

text \<open>The nodes that no order can reach: those a cycle leads to.\<close>

definition blocked :: "'p vm_process_dag \<Rightarrow> node_id set" where
  "blocked dag = {n. \<exists>c. (c, c) \<in> (dag_rel dag)\<^sup>+ \<and> (c, n) \<in> (dag_rel dag)\<^sup>*}"

lemma finite_dag_rel [simp]: "finite (dag_rel dag)"
  by (simp add: dag_rel_def)

lemma blocked_empty: "blocked dag = {} \<longleftrightarrow> acyclic (dag_rel dag)"
  by (auto simp: blocked_def acyclic_def)

text \<open>The emitted list is closed under predecessors, each before its successors.\<close>

lemma ordered_no_cycle:
  assumes "\<forall>i < length xs. \<forall>a. (a, xs ! i) \<in> r \<longrightarrow> a \<in> set (take i xs)"
  shows "(a, xs ! i) \<in> r\<^sup>+ \<Longrightarrow> i < length xs \<Longrightarrow> \<exists>j < i. a = xs ! j"
proof (induction "xs ! i" arbitrary: i rule: trancl_induct)
  case base
  with assms show ?case by (fastforce simp: in_set_conv_nth)
next
  case (step y)
  then obtain j where j: "j < i" "y = xs ! j" using assms by (fastforce simp: in_set_conv_nth)
  with step(3) [of j] step.prems show ?case by (meson less_trans)
qed

lemma blocked_subset:
  assumes "finite R" "\<And>n. n \<in> R \<Longrightarrow> \<exists>m \<in> R. (m, n) \<in> dag_rel dag"
  shows "R \<subseteq> blocked dag"
proof
  fix n
  assume n: "n \<in> R"
  define S where "S = {m \<in> R. (m, n) \<in> (dag_rel dag)\<^sup>*}"
  have pred: "\<exists>l \<in> S. (l, m) \<in> dag_rel dag \<inter> S \<times> S" if "m \<in> S" for m
    using assms(2) [of m] that by (auto simp: S_def intro: converse_rtrancl_into_rtrancl)
  have "\<not> acyclic (dag_rel dag \<inter> S \<times> S)"
  proof
    assume "acyclic (dag_rel dag \<inter> S \<times> S)"
    then have "wf (dag_rel dag \<inter> S \<times> S)" by (intro finite_acyclic_wf) auto
    moreover have "n \<in> S" using n by (simp add: S_def)
    ultimately obtain m where "m \<in> S" "\<forall>l. (l, m) \<in> dag_rel dag \<inter> S \<times> S \<longrightarrow> l \<notin> S" by (metis wf_eq_minimal)
    with pred show False by blast
  qed
  then obtain c where c: "(c, c) \<in> (dag_rel dag \<inter> S \<times> S)\<^sup>+" by (auto simp: acyclic_def)
  then have "(c, c) \<in> (dag_rel dag)\<^sup>+" by (rule trancl_mono) blast
  moreover have "c \<in> S" using c by (induction rule: trancl_induct) auto
  ultimately show "n \<in> blocked dag" by (auto simp: blocked_def S_def)
qed

lemma kahn_final:
  assumes inv: "kahn_inv (dag_edges dag) (set (dag_ids dag)) deg [] out" and wf: "well_formed_dag dag"
  shows "set out = set (dag_ids dag) - blocked dag" "distinct out" "sorted_wrt (\<lambda>a b. (b, a) \<notin> dag_rel dag) out"
proof -
  have order: "\<forall>i < length out. \<forall>a. (a, out ! i) \<in> dag_rel dag \<longrightarrow> a \<in> set (take i out)"
    using inv by (auto simp: kahn_inv_def dag_rel_def)
  have zero: "pending (dag_edges dag) (set out) n = 0 \<longleftrightarrow> n \<in> set out" if "n \<in> set (dag_ids dag)" for n
    using inv that by (simp add: kahn_inv_def)
  show "distinct out" using inv by (simp add: kahn_inv_def)
  have "set (dag_ids dag) - set out \<subseteq> blocked dag"
  proof (rule blocked_subset)
    fix n
    assume n: "n \<in> set (dag_ids dag) - set out"
    then obtain e where e: "e \<in> set (dag_edges dag)" "edge_to e = n" "edge_from e \<notin> set out"
      using zero [of n] by (auto simp: pending_0)
    then have rel: "(edge_from e, n) \<in> dag_rel dag" by (auto simp: dag_rel_def)
    then have "edge_from e \<in> set (dag_ids dag)" using wf by (auto simp: well_formed_dag_def intro: FieldI1)
    with e(3) rel show "\<exists>m \<in> set (dag_ids dag) - set out. (m, n) \<in> dag_rel dag" by blast
  qed simp
  moreover have "n \<notin> set out" if blocked: "n \<in> blocked dag" for n
  proof
    assume "n \<in> set out"
    obtain c where c: "(c, c) \<in> (dag_rel dag)\<^sup>+" "(c, n) \<in> (dag_rel dag)\<^sup>*" using blocked by (auto simp: blocked_def)
    then have "(c, n) \<in> (dag_rel dag)\<^sup>+" by (rule trancl_rtrancl_trancl)
    moreover obtain k where k: "k < length out" "n = out ! k" using \<open>n \<in> set out\<close> by (auto simp: in_set_conv_nth)
    ultimately obtain i where i: "i < k" "c = out ! i" using ordered_no_cycle [OF order, of c k] by auto
    then obtain j where "j < i" "c = out ! j" using ordered_no_cycle [OF order, of c i] c(1) k(1) by auto
    then show False using i k(1) \<open>distinct out\<close> by (simp add: nth_eq_iff_index_eq)
  qed
  moreover have "set out \<subseteq> set (dag_ids dag)" using inv by (simp add: kahn_inv_def)
  ultimately show "set out = set (dag_ids dag) - blocked dag" by blast
  have "(out ! j, out ! i) \<notin> dag_rel dag" if ij: "i < j" "j < length out" for i j
  proof
    assume "(out ! j, out ! i) \<in> dag_rel dag"
    then have "out ! j \<in> set (take i out)" using order ij by simp
    then obtain k where "k < i" "out ! j = out ! k" using ij by (auto simp: in_set_conv_nth)
    with \<open>distinct out\<close> ij show False by (simp add: nth_eq_iff_index_eq)
  qed
  then show "sorted_wrt (\<lambda>a b. (b, a) \<notin> dag_rel dag) out" by (simp add: sorted_wrt_iff_nth_less)
qed

lemma kahn_inv_start:
  assumes "well_formed_dag dag"
  defines "deg \<equiv> snd (fold add_edge (dag_edges dag) (initial_maps dag))"
  shows "kahn_inv (dag_edges dag) (set (dag_ids dag)) deg (map fst (filter (\<lambda>(i, d). d = 0) (bt_entries deg))) []"
proof -
  have deg: "bt_get deg n = Some (pending (dag_edges dag) {} n)" if "n \<in> set (dag_ids dag)" for n
  proof -
    have "bt_get (fold (\<lambda>n. bt_insert (pn_id n) 0) (dag_nodes dag) bt_empty) n = Some (0::nat)"
      by (rule zero_degrees) (use that in \<open>simp add: dag_ids_def\<close>)
    then show ?thesis using add_edge_degree [of "initial_maps dag" n 0] by (simp add: deg_def initial_maps_def)
  qed
  have dom: "dom (bt_get deg) = set (dag_ids dag)"
  proof -
    have "edge_to ` set (dag_edges dag) \<subseteq> set (dag_ids dag)"
      using assms(1) by (force simp: well_formed_dag_def dag_rel_def Field_def)
    then show ?thesis
      by (auto simp: deg_def degree_domain zero_degree_domain initial_maps_def dag_ids_def)
  qed
  let ?q = "map fst (filter (\<lambda>(i, d). d = 0) (bt_entries deg))"
  have "distinct (map fst (bt_entries deg))" using distinct_bt_keys [of deg] by (simp add: bt_keys_def)
  then have "distinct ?q" by (rule distinct_map_filter)
  moreover have q: "set ?q = {n. bt_get deg n = Some 0}" by (auto simp: set_bt_entries image_iff)
  moreover have "set ?q \<subseteq> set (dag_ids dag)" unfolding q dom [symmetric] by auto
  ultimately show ?thesis using deg by (simp add: kahn_inv_def)
qed


lemma topo_sort_duplicate:
  assumes "\<not> distinct (dag_ids dag)"
  shows "\<exists>i. topo_sort dag = Some (Inl (Dag_DuplicateNode i)) \<and> 1 < count_list (dag_ids dag) i"
  using node_id_set_Inl [of "dag_nodes dag" bt_empty] assms by (auto simp: topo_sort_def dag_ids_def)

lemma topo_sort_distinct:
  assumes "distinct (dag_ids dag)"
  obtains ids where "\<And>i. bt_contains ids i \<longleftrightarrow> i \<in> set (dag_ids dag)" "topo_sort dag = sort_edges ids dag"
proof -
  obtain ids where "node_id_set (dag_nodes dag) bt_empty = Inr ids"
    "\<forall>i. bt_contains ids i \<longleftrightarrow> i \<in> pn_id ` set (dag_nodes dag)"
    using node_id_set_Inr [of "dag_nodes dag" bt_empty] assms by (auto simp: dag_ids_def)
  then show thesis using that [of ids] by (simp add: topo_sort_def dag_ids_def)
qed

lemma topo_sort_unknown:
  assumes "distinct (dag_ids dag)" "\<not> Field (dag_rel dag) \<subseteq> set (dag_ids dag)"
  shows "\<exists>e \<in> set (dag_edges dag). topo_sort dag = Some (Inl (Dag_UnknownNode e)) \<and>
    \<not> (edge_from e \<in> set (dag_ids dag) \<and> edge_to e \<in> set (dag_ids dag))"
proof -
  obtain ids where ids: "\<And>i. bt_contains ids i \<longleftrightarrow> i \<in> set (dag_ids dag)" and sort: "topo_sort dag = sort_edges ids dag"
    using topo_sort_distinct [OF assms(1)] by blast
  have "\<not> (\<forall>e \<in> set (dag_edges dag). bt_contains ids (edge_from e) \<and> bt_contains ids (edge_to e))"
    using assms(2) ids by (auto simp: dag_rel_def Field_def)
  from add_edges_Inl [OF this, of "initial_maps dag"] show ?thesis using sort ids by (auto simp: sort_edges_def)
qed

lemma blocked_in_ids: "well_formed_dag dag \<Longrightarrow> blocked dag \<subseteq> set (dag_ids dag)"
proof
  fix n
  assume wf: "well_formed_dag dag" and "n \<in> blocked dag"
  then obtain c where "(c, n) \<in> (dag_rel dag)\<^sup>+" by (auto simp: blocked_def dest: trancl_rtrancl_trancl)
  then have "n \<in> Field (dag_rel dag)" by (metis FieldI2 tranclD2)
  with wf show "n \<in> set (dag_ids dag)" by (auto simp: well_formed_dag_def)
qed

lemma topo_sort_well_formed:
  assumes "well_formed_dag dag"
  obtains out where "set out = set (dag_ids dag) - blocked dag" "distinct out"
    "sorted_wrt (\<lambda>a b. (b, a) \<notin> dag_rel dag) out"
    "topo_sort dag = Some (if acyclic (dag_rel dag) then Inr out
       else Inl (Dag_Cycle (filter (\<lambda>i. i \<in> blocked dag) (dag_ids dag))))"
proof -
  have dist: "distinct (dag_ids dag)" and field: "Field (dag_rel dag) \<subseteq> set (dag_ids dag)"
    using assms by (auto simp: well_formed_dag_def)
  obtain ids where ids: "\<And>i. bt_contains ids i \<longleftrightarrow> i \<in> set (dag_ids dag)" and sort: "topo_sort dag = sort_edges ids dag"
    using topo_sort_distinct [OF dist] by blast
  have ends: "\<forall>e \<in> set (dag_edges dag). edge_from e \<in> set (dag_ids dag) \<and> edge_to e \<in> set (dag_ids dag)"
    using field by (auto simp: dag_rel_def Field_def)
  obtain adjacency deg0 where maps: "fold add_edge (dag_edges dag) (initial_maps dag) = (adjacency, deg0)" by fastforce
  have succ: "(case bt_get adjacency n of Some ns \<Rightarrow> ns | None \<Rightarrow> []) = succs (dag_edges dag) n" for n
    using add_edge_adjacency [of "dag_edges dag" "initial_maps dag" n] by (simp add: maps) (simp add: initial_maps_def)
  have "kahn_inv (dag_edges dag) (set (dag_ids dag)) deg0 (map fst (filter (\<lambda>(i, d). d = 0) (bt_entries deg0))) []"
    using kahn_inv_start [OF assms] by (simp add: maps)
  from kahn_returns [OF this _ ends succ] obtain out deg where
    out: "kahn adjacency deg0 (map fst (filter (\<lambda>(i, d). d = 0) (bt_entries deg0))) [] = Some out"
    and inv: "kahn_inv (dag_edges dag) (set (dag_ids dag)) deg [] out" by auto
  note final = kahn_final [OF inv assms]
  have "length out = card (set (dag_ids dag) - blocked dag)" using final(1,2) by (metis distinct_card)
  moreover have "length (dag_nodes dag) = card (set (dag_ids dag))" using dist by (metis dag_ids_def distinct_card length_map)
  moreover have "card (set (dag_ids dag) - blocked dag) = card (set (dag_ids dag)) \<longleftrightarrow> blocked dag = {}"
    using blocked_in_ids [OF assms] card_subset_eq [of "set (dag_ids dag)" "set (dag_ids dag) - blocked dag"] by auto
  ultimately have len: "length out = length (dag_nodes dag) \<longleftrightarrow> acyclic (dag_rel dag)" by (simp add: blocked_empty)
  have residual: "filter (\<lambda>i. i \<notin> set out) (map pn_id (dag_nodes dag)) = filter (\<lambda>i. i \<in> blocked dag) (dag_ids dag)"
    unfolding dag_ids_def [symmetric] using final(1) by (intro filter_cong) auto
  have "add_edges ids (dag_edges dag) (initial_maps dag) = Inr (adjacency, deg0)"
    using add_edges_Inr [of "dag_edges dag" ids] ends ids maps by simp
  then have "topo_sort dag = Some (if acyclic (dag_rel dag) then Inr out
       else Inl (Dag_Cycle (filter (\<lambda>i. i \<in> blocked dag) (dag_ids dag))))"
    using out len by (simp add: sort sort_edges_def residual)
  then show thesis using that final by blast
qed

text \<open>C7. The supervisor's topological sort is exact. It always returns. It answers an order precisely when
  node ids are distinct, every edge joins declared nodes and the edges have no cycle; the order then lists
  every node once and no edge points backwards in it. Otherwise it names a duplicated id, or an edge with
  an undeclared end, or precisely the nodes that a cycle reaches, which is never an empty list.\<close>

theorem topo_sort_exact:
  "case topo_sort dag of
     None \<Rightarrow> False
   | Some (Inr order) \<Rightarrow>
       well_formed_dag dag \<and> acyclic (dag_rel dag) \<and> distinct order \<and> set order = set (dag_ids dag) \<and>
       sorted_wrt (\<lambda>a b. (b, a) \<notin> dag_rel dag) order
   | Some (Inl (Dag_DuplicateNode i)) \<Rightarrow> 1 < count_list (dag_ids dag) i
   | Some (Inl (Dag_UnknownNode e)) \<Rightarrow>
       e \<in> set (dag_edges dag) \<and> \<not> {edge_from e, edge_to e} \<subseteq> set (dag_ids dag)
   | Some (Inl (Dag_Cycle residual)) \<Rightarrow>
       well_formed_dag dag \<and> \<not> acyclic (dag_rel dag) \<and> residual \<noteq> [] \<and>
       set residual = {n. \<exists>c. (c, c) \<in> (dag_rel dag)\<^sup>+ \<and> (c, n) \<in> (dag_rel dag)\<^sup>*}"
proof (cases "well_formed_dag dag")
  case True
  then obtain out where out: "set out = set (dag_ids dag) - blocked dag" "distinct out"
    "sorted_wrt (\<lambda>a b. (b, a) \<notin> dag_rel dag) out"
    "topo_sort dag = Some (if acyclic (dag_rel dag) then Inr out
       else Inl (Dag_Cycle (filter (\<lambda>i. i \<in> blocked dag) (dag_ids dag))))"
    by (rule topo_sort_well_formed)
  show ?thesis
  proof (cases "acyclic (dag_rel dag)")
    case acyclic: True
    then have "blocked dag = {}" by (simp add: blocked_empty)
    with True acyclic out show ?thesis by simp
  next
    case False
    have residual: "set (filter (\<lambda>i. i \<in> blocked dag) (dag_ids dag)) = blocked dag"
      using blocked_in_ids [OF True] by auto
    moreover have "blocked dag \<noteq> {}" using False by (simp add: blocked_empty)
    ultimately have "filter (\<lambda>i. i \<in> blocked dag) (dag_ids dag) \<noteq> []" by (metis list.set(1))
    with True False out(4) residual show ?thesis by (simp add: blocked_def)
  qed
next
  case False
  then consider "\<not> distinct (dag_ids dag)"
    | "distinct (dag_ids dag)" "\<not> Field (dag_rel dag) \<subseteq> set (dag_ids dag)"
    by (auto simp: well_formed_dag_def)
  then show ?thesis
  proof cases
    case 1
    then show ?thesis using topo_sort_duplicate by fastforce
  next
    case 2
    then show ?thesis using topo_sort_unknown by fastforce
  qed
qed


section \<open>Correctness of the executor\<close>

text \<open>The shape of a history: ready nodes, then at most one failure with everything after it skipped.\<close>

definition run_shape :: "run_state \<Rightarrow> bool" where
  "run_shape st \<longleftrightarrow>
     (case rs_failed st of
        None \<Rightarrow> rs_ok st \<and> (\<forall>h \<in> set (rs_history st). nh_outcome h = Node_Ready)
      | Some f \<Rightarrow> \<not> rs_ok st \<and> \<not> rs_no_wait_completed st \<and>
          (\<exists>pre reason post. rs_history st = pre @ [\<lparr>nh_node_id = f, nh_outcome = Node_Failed reason\<rparr>] @ post \<and>
             (\<forall>h \<in> set pre. nh_outcome h = Node_Ready) \<and> (\<forall>h \<in> set post. nh_outcome h = Node_Skipped f)))"

lemma run_shape_start [simp]: "run_shape run_start"
  by (simp add: run_shape_def run_start_def)

lemma run_shape_result:
  assumes "run_shape st" "rs_failed st = None" "\<And>reason. result = Inl reason \<Longrightarrow> \<not> rs_no_wait_completed st"
  shows "run_shape (record_result i result st)"
proof (cases result)
  case (Inl reason)
  have "\<exists>pre reason' post. rs_history st @ [\<lparr>nh_node_id = i, nh_outcome = Node_Failed reason\<rparr>] =
        pre @ [\<lparr>nh_node_id = i, nh_outcome = Node_Failed reason'\<rparr>] @ post \<and>
      (\<forall>h \<in> set pre. nh_outcome h = Node_Ready) \<and> (\<forall>h \<in> set post. nh_outcome h = Node_Skipped i)"
    using assms by (intro exI [of _ "rs_history st"] exI [of _ reason] exI [of _ "[]"]) (simp add: run_shape_def)
  with Inl assms(3) show ?thesis by (simp add: run_shape_def record_result_def)
next
  case (Inr u)
  with assms show ?thesis by (auto simp: run_shape_def record_result_def)
qed

lemma run_shape_skipped:
  assumes "run_shape st" "rs_failed st = Some f"
  shows "run_shape (record_skipped i f st)"
proof -
  obtain pre reason post where "rs_history st = pre @ [\<lparr>nh_node_id = f, nh_outcome = Node_Failed reason\<rparr>] @ post"
    "\<forall>h \<in> set pre. nh_outcome h = Node_Ready" "\<forall>h \<in> set post. nh_outcome h = Node_Skipped f"
    using assms by (auto simp: run_shape_def)
  then have "\<exists>pre reason post. rs_history st @ [\<lparr>nh_node_id = i, nh_outcome = Node_Skipped f\<rparr>] =
        pre @ [\<lparr>nh_node_id = f, nh_outcome = Node_Failed reason\<rparr>] @ post \<and>
      (\<forall>h \<in> set pre. nh_outcome h = Node_Ready) \<and> (\<forall>h \<in> set post. nh_outcome h = Node_Skipped f)"
    by (intro exI [of _ pre] exI [of _ reason] exI [of _ "post @ [\<lparr>nh_node_id = i, nh_outcome = Node_Skipped f\<rparr>]"]) auto
  with assms show ?thesis by (simp add: run_shape_def record_skipped_def)
qed

lemma record_history [simp]:
  "map nh_node_id (rs_history (record_result i result st)) = map nh_node_id (rs_history st) @ [i]"
  "map nh_node_id (rs_history (record_skipped i f st)) = map nh_node_id (rs_history st) @ [i]"
  by (auto simp: record_result_def record_skipped_def split: sum.splits)

lemma record_no_wait [simp]:
  "rs_no_wait_completed (record_result i result st) = rs_no_wait_completed st"
  by (auto simp: record_result_def split: sum.splits)

lemma node_by_id_Some: "i \<in> set (dag_ids dag) \<Longrightarrow> \<exists>node. node_by_id dag i = Some node"
  by (cases "node_by_id dag i") (auto simp: node_by_id_def dag_ids_def map_of_eq_None_iff image_image)

text \<open>What one node does to the state, for both loops.\<close>

definition node_step :: "(node_id \<Rightarrow> run_state \<Rightarrow> run_state option) \<Rightarrow> node_id set \<Rightarrow> bool \<Rightarrow> bool" where
  "node_step f ids strict \<longleftrightarrow>
     (\<forall>i st. i \<in> ids \<longrightarrow> run_shape st \<longrightarrow> (strict \<longrightarrow> \<not> rs_no_wait_completed st) \<longrightarrow>
        (\<exists>st'. f i st = Some st' \<and> run_shape st' \<and>
           (rs_no_wait_completed st \<longrightarrow> st' = st) \<and>
           (\<not> rs_no_wait_completed st \<longrightarrow> map nh_node_id (rs_history st') = map nh_node_id (rs_history st) @ [i]) \<and>
           (strict \<longrightarrow> \<not> rs_no_wait_completed st')))"

lemma split_result_state:
  "split_result runner mode node st = (result, st') \<Longrightarrow>
   rs_history st' = rs_history st \<and> rs_failed st' = rs_failed st \<and> rs_ok st' = rs_ok st \<and>
   (result \<noteq> Inr () \<or> mode = Strict \<longrightarrow> rs_no_wait_completed st' = rs_no_wait_completed st)"
  by (auto simp: split_result_def Let_def split: if_splits sum.splits split_readiness_mode.splits api_ready_state.splits)

lemma split_node_step: "node_step (split_node runner mode dag) (set (dag_ids dag)) (mode = Strict)"
  unfolding node_step_def
proof (intro allI impI)
  fix i st
  assume i: "i \<in> set (dag_ids dag)" and shape: "run_shape st" and strict: "mode = Strict \<longrightarrow> \<not> rs_no_wait_completed st"
  obtain node where node: "node_by_id dag i = Some node" using node_by_id_Some [OF i] by blast
  obtain result st1 where split: "split_result runner mode node st = (result, st1)" by fastforce
  note state = split_result_state [OF split]
  let ?goal = "\<lambda>st'. run_shape st' \<and> (rs_no_wait_completed st \<longrightarrow> st' = st) \<and>
           (\<not> rs_no_wait_completed st \<longrightarrow> map nh_node_id (rs_history st') = map nh_node_id (rs_history st) @ [i]) \<and>
           (mode = Strict \<longrightarrow> \<not> rs_no_wait_completed st')"
  consider "rs_no_wait_completed st" | f where "\<not> rs_no_wait_completed st" "rs_failed st = Some f"
    | "\<not> rs_no_wait_completed st" "rs_failed st = None" by (cases "rs_failed st") auto
  then show "\<exists>st'. split_node runner mode dag i st = Some st' \<and> ?goal st'"
  proof cases
    case 1
    with shape strict show ?thesis by (simp add: split_node_def)
  next
    case 2
    with run_shape_skipped [OF shape 2(2), of i] show ?thesis by (simp add: split_node_def record_skipped_def)
  next
    case 3
    with state shape have "run_shape st1" by (auto simp: run_shape_def)
    then have "run_shape (record_result i result st1)" using state 3 by (intro run_shape_result) auto
    with 3 node split state show ?thesis by (simp add: split_node_def)
  qed
qed

lemma run_node_step: "node_step (run_node runner dag) (set (dag_ids dag)) True"
  unfolding node_step_def
proof (intro allI impI)
  fix i st
  assume i: "i \<in> set (dag_ids dag)" and shape: "run_shape st" and "True \<longrightarrow> \<not> rs_no_wait_completed st"
  then have wait: "\<not> rs_no_wait_completed st" by simp
  obtain node where node: "node_by_id dag i = Some node" using node_by_id_Some [OF i] by blast
  show "\<exists>st'. run_node runner dag i st = Some st' \<and> run_shape st' \<and> (rs_no_wait_completed st \<longrightarrow> st' = st) \<and>
           (\<not> rs_no_wait_completed st \<longrightarrow> map nh_node_id (rs_history st') = map nh_node_id (rs_history st) @ [i]) \<and>
           (True \<longrightarrow> \<not> rs_no_wait_completed st')"
  proof (cases "rs_failed st")
    case None
    with run_shape_result [OF shape None] node wait show ?thesis by (simp add: run_node_def)
  next
    case (Some f)
    with run_shape_skipped [OF shape Some, of i] wait show ?thesis by (simp add: run_node_def record_skipped_def)
  qed
qed

lemma run_nodes_shape:
  assumes "node_step f ids strict" "set order \<subseteq> ids" "run_shape st" "strict \<longrightarrow> \<not> rs_no_wait_completed st"
  shows "\<exists>st' k. run_nodes f order st = Some st' \<and> run_shape st' \<and> (strict \<longrightarrow> k = length order) \<and>
    (rs_no_wait_completed st \<longrightarrow> st' = st) \<and>
    (\<not> rs_no_wait_completed st \<longrightarrow> map nh_node_id (rs_history st') = map nh_node_id (rs_history st) @ take k order)"
  using assms(2-4)
proof (induction order arbitrary: st)
  case (Cons i order)
  obtain st1 where st1: "f i st = Some st1" "run_shape st1" "rs_no_wait_completed st \<longrightarrow> st1 = st"
    "\<not> rs_no_wait_completed st \<longrightarrow> map nh_node_id (rs_history st1) = map nh_node_id (rs_history st) @ [i]"
    "strict \<longrightarrow> \<not> rs_no_wait_completed st1"
    using assms(1) Cons.prems unfolding node_step_def by (meson insert_subset list.set(2) list.set_intros(1) subsetD)
  obtain st2 k where st2: "run_nodes f order st1 = Some st2" "run_shape st2" "strict \<longrightarrow> k = length order"
    "rs_no_wait_completed st1 \<longrightarrow> st2 = st1"
    "\<not> rs_no_wait_completed st1 \<longrightarrow> map nh_node_id (rs_history st2) = map nh_node_id (rs_history st1) @ take k order"
    using Cons.IH [of st1] Cons.prems(1) st1(2,5) by auto
  let ?k = "if rs_no_wait_completed st1 then 1 else Suc k"
  have "run_nodes f (i # order) st = Some st2" using st1(1) st2(1) by simp
  moreover have "strict \<longrightarrow> ?k = length (i # order)" using st1(5) st2(3) by simp
  moreover have "rs_no_wait_completed st \<longrightarrow> st2 = st" using st1(3) st2(4) by auto
  moreover have "\<not> rs_no_wait_completed st \<longrightarrow>
      map nh_node_id (rs_history st2) = map nh_node_id (rs_history st) @ take ?k (i # order)"
    using st1(4) st2(4,5) by auto
  ultimately show ?case using st2(2) by blast
qed auto

text \<open>A history respects a dag when a node is started only after everything it depends on became ready.\<close>

definition respects_dag :: "'p vm_process_dag \<Rightarrow> node_history list \<Rightarrow> bool" where
  "respects_dag dag hist \<longleftrightarrow>
     distinct (map nh_node_id hist) \<and> set (map nh_node_id hist) \<subseteq> set (dag_ids dag) \<and>
     (\<forall>i < length hist. \<forall>a. (\<forall>s. nh_outcome (hist ! i) \<noteq> Node_Skipped s) \<longrightarrow> (a, nh_node_id (hist ! i)) \<in> (dag_rel dag)\<^sup>+ \<longrightarrow>
        (\<exists>j < i. hist ! j = \<lparr>nh_node_id = a, nh_outcome = Node_Ready\<rparr>))"

lemma shape_before_ready:
  assumes "run_shape st" "j < i" "i < length (rs_history st)" "\<forall>s. nh_outcome (rs_history st ! i) \<noteq> Node_Skipped s"
  shows "nh_outcome (rs_history st ! j) = Node_Ready"
proof (cases "rs_failed st")
  case None
  with assms show ?thesis by (auto simp: run_shape_def)
next
  case (Some f)
  then obtain pre reason post where h: "rs_history st = pre @ [\<lparr>nh_node_id = f, nh_outcome = Node_Failed reason\<rparr>] @ post"
    "\<forall>h \<in> set pre. nh_outcome h = Node_Ready" "\<forall>h \<in> set post. nh_outcome h = Node_Skipped f"
    using assms(1) by (auto simp: run_shape_def)
  have "i \<le> length pre"
  proof (rule ccontr)
    assume "\<not> i \<le> length pre"
    then have "rs_history st ! i \<in> set post" using assms(3) h(1) by (auto simp: nth_append nth_Cons')
    with h(3) assms(4) show False by blast
  qed
  then show ?thesis using assms(2) h(1,2) by (auto simp: nth_append)
qed

lemma order_of_sort:
  assumes "topo_sort dag = Some (Inr order)"
  shows "well_formed_dag dag" "distinct order" "set order = set (dag_ids dag)"
    "sorted_wrt (\<lambda>a b. (b, a) \<notin> dag_rel dag) order" "acyclic (dag_rel dag)"
proof -
  have "distinct (dag_ids dag)" using topo_sort_duplicate [of dag] assms by auto
  then have wf: "well_formed_dag dag" using topo_sort_unknown [of dag] assms by (auto simp: well_formed_dag_def)
  then obtain out where out: "set out = set (dag_ids dag) - blocked dag" "distinct out"
    "sorted_wrt (\<lambda>a b. (b, a) \<notin> dag_rel dag) out"
    "topo_sort dag = Some (if acyclic (dag_rel dag) then Inr out
       else Inl (Dag_Cycle (filter (\<lambda>i. i \<in> blocked dag) (dag_ids dag))))"
    by (rule topo_sort_well_formed)
  then have "order = out" "acyclic (dag_rel dag)" using assms by (auto split: if_splits)
  with wf out show "well_formed_dag dag" "distinct order" "set order = set (dag_ids dag)"
    "sorted_wrt (\<lambda>a b. (b, a) \<notin> dag_rel dag) order" "acyclic (dag_rel dag)" by (simp_all add: blocked_empty [THEN iffD2])
qed

lemma before_in_order:
  assumes "topo_sort dag = Some (Inr order)" "i < length order" "(a, order ! i) \<in> dag_rel dag"
  shows "a \<in> set (take i order)"
proof -
  note order = order_of_sort [OF assms(1)]
  have "a \<in> set order" using order(1,3) assms(3) by (auto simp: well_formed_dag_def intro: FieldI1)
  then obtain j where j: "j < length order" "a = order ! j" by (auto simp: in_set_conv_nth)
  have "\<not> i < j" using sorted_wrt_nth_less [OF order(4), of i j] assms(3) j by auto
  moreover have "i \<noteq> j" using order(5) assms(3) j(2) by (auto simp: acyclic_def)
  ultimately show ?thesis using j by (metis in_set_conv_nth length_take linorder_neqE_nat min_less_iff_conj nth_take)
qed

lemma shape_respects:
  assumes "topo_sort dag = Some (Inr order)" "run_shape st" "map nh_node_id (rs_history st) = take k order"
  shows "respects_dag dag (rs_history st)"
proof -
  let ?h = "rs_history st"
  have order: "distinct order" "set order = set (dag_ids dag)" "well_formed_dag dag"
    using order_of_sort [OF assms(1)] by simp_all
  have ids: "nh_node_id (?h ! i) = order ! i" "i < length order" if "i < length ?h" for i
    using assms(3) that by (metis length_map nth_map nth_take length_take min_less_iff_conj)+
  have "\<forall>i < length order. \<forall>a. (a, order ! i) \<in> dag_rel dag \<longrightarrow> a \<in> set (take i order)"
    using before_in_order [OF assms(1)] by blast
  note before = ordered_no_cycle [OF this]
  have "\<exists>j < i. ?h ! j = \<lparr>nh_node_id = a, nh_outcome = Node_Ready\<rparr>"
    if i: "i < length ?h" and started: "\<forall>s. nh_outcome (?h ! i) \<noteq> Node_Skipped s"
      and a: "(a, nh_node_id (?h ! i)) \<in> (dag_rel dag)\<^sup>+" for i a
  proof -
    obtain j where j: "j < i" "a = order ! j" using before [of a i] a ids [OF i] by auto
    with ids [of j] i have "nh_node_id (?h ! j) = a" by simp
    moreover have "nh_outcome (?h ! j) = Node_Ready" using shape_before_ready [OF assms(2) j(1) i started] .
    ultimately show ?thesis using j(1) by (intro exI [of _ j]) simp
  qed
  moreover have "distinct (map nh_node_id ?h)" "set (map nh_node_id ?h) \<subseteq> set (dag_ids dag)"
    using assms(3) order(1,2) set_take_subset by (metis distinct_take)+
  ultimately show ?thesis unfolding respects_dag_def by blast
qed

lemma shape_ok:
  assumes "run_shape st"
  shows "rs_ok st \<longleftrightarrow> (\<forall>h \<in> set (rs_history st). nh_outcome h = Node_Ready)"
proof (cases "rs_failed st")
  case (Some f)
  then obtain pre reason post where "\<not> rs_ok st"
    "rs_history st = pre @ [\<lparr>nh_node_id = f, nh_outcome = Node_Failed reason\<rparr>] @ post"
    using assms by (auto simp: run_shape_def)
  then show ?thesis by simp
qed (use assms in \<open>simp add: run_shape_def\<close>)

lemma run_report:
  assumes "node_step f (set (dag_ids dag)) strict" "topo_sort dag = Some (Inr order)"
  shows "\<exists>st. run_nodes f order run_start = Some st \<and> respects_dag dag (rs_history st) \<and>
    (strict \<longrightarrow> map nh_node_id (rs_history st) = order) \<and>
    (rs_ok st \<longleftrightarrow> (\<forall>h \<in> set (rs_history st). nh_outcome h = Node_Ready))"
proof -
  have start: "\<not> rs_no_wait_completed run_start" "rs_history run_start = []" by (simp_all add: run_start_def)
  obtain st k where st: "run_nodes f order run_start = Some st" "run_shape st" "strict \<longrightarrow> k = length order"
    "map nh_node_id (rs_history st) = take k order"
    using run_nodes_shape [OF assms(1), of order run_start] order_of_sort(3) [OF assms(2)] start by auto
  with shape_respects [OF assms(2) st(2,4)] shape_ok [OF st(2)] show ?thesis by auto
qed

lemma dag_run_report:
  assumes "topo_sort dag = Some (Inr order)"
  shows "\<exists>report. dag_run runner dag = Some (Inr report) \<and> respects_dag dag (drr_history report) \<and>
    map nh_node_id (drr_history report) = order \<and>
    (drr_overall_ok report \<longleftrightarrow> (\<forall>h \<in> set (drr_history report). nh_outcome h = Node_Ready))"
  using run_report [OF run_node_step assms, of runner] by (auto simp: dag_run_def report_of_def assms)

lemma dag_run_split_report:
  assumes "topo_sort dag = Some (Inr order)"
  shows "\<exists>report. dag_run_split runner mode dag = Some (Inr report) \<and> respects_dag dag (drr_history report) \<and>
    (mode = Strict \<longrightarrow> map nh_node_id (drr_history report) = order) \<and>
    (drr_overall_ok report \<longleftrightarrow> (\<forall>h \<in> set (drr_history report). nh_outcome h = Node_Ready))"
  using run_report [OF split_node_step assms, of runner mode] by (auto simp: dag_run_split_def report_of_def assms)

text \<open>C8. On a dag with distinct ids, declared edge ends and no cycle, both executor loops finish with a report
  whatever the node runner answers, no node appears twice in the history, and a node is started only after
  every node it transitively depends on was recorded ready before it. The plain run and the strict split
  run list every node of the dag, and the report is overall ok exactly when every listed node is ready.\<close>

theorem run_respects_dependencies:
  assumes "well_formed_dag dag" "acyclic (dag_rel dag)"
  shows "(\<exists>report. dag_run runner dag = Some (Inr report) \<and> respects_dag dag (drr_history report) \<and>
      set (map nh_node_id (drr_history report)) = set (dag_ids dag) \<and>
      (drr_overall_ok report \<longleftrightarrow> (\<forall>h \<in> set (drr_history report). nh_outcome h = Node_Ready))) \<and>
    (\<exists>report. dag_run_split runner mode dag = Some (Inr report) \<and> respects_dag dag (drr_history report) \<and>
      (mode = Strict \<longrightarrow> set (map nh_node_id (drr_history report)) = set (dag_ids dag)) \<and>
      (drr_overall_ok report \<longleftrightarrow> (\<forall>h \<in> set (drr_history report). nh_outcome h = Node_Ready)))"
proof -
  obtain order where sort: "topo_sort dag = Some (Inr order)"
    using assms(2) by (auto intro: topo_sort_well_formed [OF assms(1)])
  note ids = order_of_sort(3) [OF sort]
  obtain plain where "dag_run runner dag = Some (Inr plain)" "respects_dag dag (drr_history plain)"
    "map nh_node_id (drr_history plain) = order"
    "drr_overall_ok plain \<longleftrightarrow> (\<forall>h \<in> set (drr_history plain). nh_outcome h = Node_Ready)"
    using dag_run_report [OF sort, of runner] by blast
  moreover obtain staged where "dag_run_split runner mode dag = Some (Inr staged)" "respects_dag dag (drr_history staged)"
    "mode = Strict \<longrightarrow> map nh_node_id (drr_history staged) = order"
    "drr_overall_ok staged \<longleftrightarrow> (\<forall>h \<in> set (drr_history staged). nh_outcome h = Node_Ready)"
    using dag_run_split_report [OF sort, of runner mode] by blast
  ultimately show ?thesis using ids
    by (intro conjI exI [of _ plain] exI [of _ staged]) (simp_all del: set_map)
qed

text \<open>A hypervisor that needs its store share, where the share does not come up.\<close>

definition sample_dag :: "unit vm_process_dag" where
  "sample_dag =
     \<lparr>dag_vm = ''vm'',
      dag_nodes = [\<lparr>pn_id = ''hypervisor'', pn_readiness = [ApiSocketInfo ''/run/api''], pn_spec = ()\<rparr>,
                   \<lparr>pn_id = ''virtiofsd'', pn_readiness = [UnixSocketExists ''/run/fs''], pn_spec = ()\<rparr>],
      dag_edges = [\<lparr>edge_from = ''virtiofsd'', edge_to = ''hypervisor'', edge_reason = ''store''\<rparr>]\<rparr>"

definition sample_runner :: "unit node_runner" where
  "sample_runner =
     \<lparr>run_wait_ready = (\<lambda>node _. if pn_id node = ''virtiofsd'' then Inl ''no socket'' else Inr ()),
      run_process_alive = (\<lambda>_. Inr ()), run_probe_api = (\<lambda>_ _. Api_Yes)\<rparr>"

theorem run_respects_dependencies_witness:
  "\<exists>report. dag_run sample_runner sample_dag = Some (Inr report) \<and> respects_dag sample_dag (drr_history report) \<and>
      set (map nh_node_id (drr_history report)) = {''hypervisor'', ''virtiofsd''} \<and>
      (drr_overall_ok report \<longleftrightarrow> (\<forall>h \<in> set (drr_history report). nh_outcome h = Node_Ready))"
proof -
  have rel: "dag_rel sample_dag = {(''virtiofsd'', ''hypervisor'')}" by (simp add: dag_rel_def sample_dag_def)
  have ids: "dag_ids sample_dag = [''hypervisor'', ''virtiofsd'']" by (simp add: dag_ids_def sample_dag_def)
  have "well_formed_dag sample_dag" by (simp add: well_formed_dag_def rel ids Field_def)
  moreover have "acyclic (dag_rel sample_dag)" by (simp add: rel acyclic_insert) (simp add: acyclic_def)
  ultimately show ?thesis using run_respects_dependencies [of sample_dag sample_runner Strict] by (simp add: ids)
qed

end
