(* ===== verification/Realm_Targets.thy ===== *)
theory Realm_Targets
  imports Realm_Ids
begin

text \<open>
  Target addresses: the parser and renderer of \<open>d2b-realm-core/src/target.rs\<close> (a workload inside a realm path,
  written \<open>workload.realm.ancestor.d2b\<close>), the context-aware parser with aliases and migration diagnostics, and
  the entrypoint table \<open>d2b-realm-router/src/target_resolver.rs\<close> that turns a parsed target into a dispatch
  decision. A panic (\<open>expect\<close>, \<open>unreachable!\<close>) is \<open>None\<close>, proved not to happen.
\<close>

section \<open>Targets\<close>

definition TARGET_SUFFIX :: string where
  "TARGET_SUFFIX = ''d2b''"

record realm_target =
  rt_workload :: workload_id
  rt_realm :: realm_path

definition to_canonical :: "realm_target \<Rightarrow> string" where
  "to_canonical t = rt_workload t @ ''.'' @ target_form (rt_realm t) @ ''.'' @ TARGET_SUFFIX"

record legacy_node_qualified_target =
  lt_workload :: workload_id
  lt_node :: node_id
  lt_realm :: realm_path

definition suggested_realm_target :: "legacy_node_qualified_target \<Rightarrow> realm_target" where
  "suggested_realm_target lt = \<lparr>rt_workload = lt_workload lt, rt_realm = lt_realm lt\<rparr>"

definition diagnostic_form :: "legacy_node_qualified_target \<Rightarrow> string" where
  "diagnostic_form lt =
     lt_workload lt @ ''.'' @ lt_node lt @ ''.'' @ target_form (lt_realm lt) @ ''.'' @ TARGET_SUFFIX"

datatype realm_target_parse_error =
    Target_Empty
  | BareAliasRequiresContext
  | MissingSuffix
  | MissingWorkload
  | MissingRealm
  | SelectorNotAllowed
  | ReservedLabel
  | BadLabel id_error
  | BadRealmPath
  | AliasAmbiguous workload_id "realm_target list"
  | LegacyNodeQualified legacy_node_qualified_target realm_target


section \<open>Labels\<close>

primrec reject_reserved_labels :: "string list \<Rightarrow> realm_target_parse_error + unit" where
  "reject_reserved_labels [] = Inr ()"
| "reject_reserved_labels (label # ls) =
     (if label = ''all'' \<or> label = ''*'' then Inl SelectorNotAllowed
      else if label = TARGET_SUFFIX then Inl ReservedLabel
      else reject_reserved_labels ls)"

definition parse_label :: "string \<Rightarrow> realm_target_parse_error + string" where
  "parse_label l = (case parse_label_id l of Inl e \<Rightarrow> Inl (BadLabel e) | Inr v \<Rightarrow> Inr v)"

primrec collect_labels :: "string list \<Rightarrow> realm_target_parse_error + realm_id list" where
  "collect_labels [] = Inr []"
| "collect_labels (l # ls) =
     bind_result (parse_label l) (\<lambda>v. bind_result (collect_labels ls) (\<lambda>vs. Inr (v # vs)))"

definition parse_realm_labels :: "string list \<Rightarrow> realm_target_parse_error + realm_path" where
  "parse_realm_labels ls =
     bind_result (collect_labels ls) (\<lambda>realm_labels. ok_or (realm_path_new realm_labels) BadRealmPath)"

record target_labels =
  tl_labels :: "string list"
  tl_had_suffix :: bool
  tl_had_scheme :: bool

definition strip_prefix :: "string \<Rightarrow> string \<Rightarrow> string option" where
  "strip_prefix p s = (if take (length p) s = p then Some (drop (length p) s) else None)"

definition split_target :: "string \<Rightarrow> realm_target_parse_error + target_labels" where
  "split_target raw =
     (let (body, had_scheme) =
          (case strip_prefix ''d2b://'' raw of Some rest \<Rightarrow> (rest, True) | None \<Rightarrow> (raw, False)) in
      if body = [] then Inl Target_Empty
      else
        let ls = str_split (CHR ''.'') body in
        if last ls = TARGET_SUFFIX
        then if butlast ls = [] then Inl MissingWorkload
          else Inr \<lparr>tl_labels = butlast ls, tl_had_suffix = True, tl_had_scheme = had_scheme\<rparr>
        else Inr \<lparr>tl_labels = ls, tl_had_suffix = False, tl_had_scheme = had_scheme\<rparr>)"


section \<open>Parsers\<close>

definition parse_qualified_labels :: "string list \<Rightarrow> realm_target_parse_error + realm_target" where
  "parse_qualified_labels ls =
     bind_result (reject_reserved_labels ls) (\<lambda>_.
       case ls of
         [] \<Rightarrow> Inl MissingWorkload
       | l # rest \<Rightarrow>
           bind_result (parse_label l) (\<lambda>workload.
             if length ls < 2 then Inl MissingRealm
             else bind_result (parse_realm_labels rest) (\<lambda>realm.
               Inr \<lparr>rt_workload = workload, rt_realm = realm\<rparr>)))"

definition parse_realm_target :: "string \<Rightarrow> realm_target_parse_error + realm_target" where
  "parse_realm_target raw =
     bind_result (split_target raw) (\<lambda>ls.
       if \<not> tl_had_suffix ls
       then if tl_had_scheme ls then Inl MissingSuffix
         else (case tl_labels ls of [_] \<Rightarrow> Inl BareAliasRequiresContext | _ \<Rightarrow> Inl MissingSuffix)
       else parse_qualified_labels (tl_labels ls))"

definition parse_legacy_labels :: "string list \<Rightarrow> realm_target_parse_error + legacy_node_qualified_target" where
  "parse_legacy_labels ls =
     bind_result (reject_reserved_labels ls) (\<lambda>_.
       case ls of
         [] \<Rightarrow> Inl MissingWorkload
       | l # m # (r # rest) \<Rightarrow>
           bind_result (parse_label l) (\<lambda>workload.
           bind_result (parse_label m) (\<lambda>node.
           bind_result (parse_realm_labels (r # rest)) (\<lambda>realm.
             Inr \<lparr>lt_workload = workload, lt_node = node, lt_realm = realm\<rparr>)))
       | _ \<Rightarrow> Inl MissingRealm)"

definition parse_legacy_node_qualified :: "string \<Rightarrow> realm_target_parse_error + legacy_node_qualified_target" where
  "parse_legacy_node_qualified raw =
     bind_result (split_target raw) (\<lambda>ls.
       if \<not> tl_had_suffix ls then Inl MissingSuffix else parse_legacy_labels (tl_labels ls))"

definition legacy_for_known_node ::
    "string list \<Rightarrow> node_id btset \<Rightarrow> realm_target_parse_error + legacy_node_qualified_target option" where
  "legacy_for_known_node ls legacy_node_labels =
     (if length ls < 3 \<or> bt_len legacy_node_labels = 0 then Inr None
      else case parse_label_id (ls ! 1) of
        Inl _ \<Rightarrow> Inr None
      | Inr node \<Rightarrow>
          if \<not> bt_contains legacy_node_labels node then Inr None
          else bind_result (parse_legacy_labels ls) (\<lambda>lt. Inr (Some lt)))"

text \<open>The context-aware parser.\<close>

record realm_target_parser =
  tp_default_realm :: "realm_path option"
  tp_aliases :: "(workload_id, realm_target list) btmap"
  tp_legacy_node_labels :: "node_id btset"

definition target_parser_new :: realm_target_parser where
  "target_parser_new = \<lparr>tp_default_realm = None, tp_aliases = bt_empty, tp_legacy_node_labels = bt_empty\<rparr>"

definition with_default_realm :: "realm_path \<Rightarrow> realm_target_parser \<Rightarrow> realm_target_parser" where
  "with_default_realm realm p = p\<lparr>tp_default_realm := Some realm\<rparr>"

definition with_alias :: "workload_id \<Rightarrow> realm_target \<Rightarrow> realm_target_parser \<Rightarrow> realm_target_parser" where
  "with_alias alias target p =
     p\<lparr>tp_aliases :=
         bt_insert alias ((case bt_get (tp_aliases p) alias of Some ts \<Rightarrow> ts | None \<Rightarrow> []) @ [target]) (tp_aliases p)\<rparr>"

definition with_legacy_node_label :: "node_id \<Rightarrow> realm_target_parser \<Rightarrow> realm_target_parser" where
  "with_legacy_node_label node p = p\<lparr>tp_legacy_node_labels := bt_insert node () (tp_legacy_node_labels p)\<rparr>"

definition alias_candidates :: "realm_target list \<Rightarrow> realm_target list" where
  "alias_candidates ts = fold (\<lambda>t cs. if t \<in> set cs then cs else cs @ [t]) ts []"

definition parse_bare ::
    "realm_target_parser \<Rightarrow> string list \<Rightarrow> (realm_target_parse_error + realm_target) option" where
  "parse_bare p ls =
     (case ls of
        [alias] \<Rightarrow>
          (case bind_result (reject_reserved_labels ls) (\<lambda>_. parse_label alias) of
             Inl e \<Rightarrow> Some (Inl e)
           | Inr workload \<Rightarrow>
               (case bt_get (tp_aliases p) workload of
                  Some ts \<Rightarrow>
                    (case alias_candidates ts of
                       [] \<Rightarrow> None
                     | [target] \<Rightarrow> Some (Inr target)
                     | candidates \<Rightarrow> Some (Inl (AliasAmbiguous workload candidates)))
                | None \<Rightarrow>
                    Some (ok_or (map_option (\<lambda>realm. \<lparr>rt_workload = workload, rt_realm = realm\<rparr>) (tp_default_realm p))
                      BareAliasRequiresContext)))
      | _ \<Rightarrow> Some (Inl MissingSuffix))"

definition parse_qualified ::
    "realm_target_parser \<Rightarrow> string list \<Rightarrow> realm_target_parse_error + realm_target" where
  "parse_qualified p ls =
     bind_result (legacy_for_known_node ls (tp_legacy_node_labels p)) (\<lambda>legacy.
       case legacy of
         Some lt \<Rightarrow> Inl (LegacyNodeQualified lt (suggested_realm_target lt))
       | None \<Rightarrow> parse_qualified_labels ls)"

definition target_parser_parse ::
    "realm_target_parser \<Rightarrow> string \<Rightarrow> (realm_target_parse_error + realm_target) option" where
  "target_parser_parse p raw =
     (case split_target raw of
        Inl e \<Rightarrow> Some (Inl e)
      | Inr ls \<Rightarrow>
          if tl_had_suffix ls then Some (parse_qualified p (tl_labels ls))
          else if tl_had_scheme ls then Some (Inl MissingSuffix)
          else parse_bare p (tl_labels ls))"


section \<open>Entrypoints\<close>

datatype entrypoint_mode = HostResident | GatewayBacked

record realm_entrypoint =
  ep_mode :: entrypoint_mode
  ep_gateway :: "realm_target option"

type_synonym entrypoint_table = "(realm_path, realm_entrypoint) btmap"

datatype dispatch_target =
    Dispatch_HostResident realm_target
  | Dispatch_GatewayBacked realm_target realm_target

datatype resolve_error = NoEntrypoint realm_path | MissingGateway realm_path

definition host_resident :: "realm_path \<Rightarrow> entrypoint_table \<Rightarrow> entrypoint_table" where
  "host_resident realm = bt_insert realm \<lparr>ep_mode = HostResident, ep_gateway = None\<rparr>"

definition gateway_backed :: "realm_path \<Rightarrow> realm_target \<Rightarrow> entrypoint_table \<Rightarrow> entrypoint_table" where
  "gateway_backed realm gateway = bt_insert realm \<lparr>ep_mode = GatewayBacked, ep_gateway = Some gateway\<rparr>"

definition with_local_default :: entrypoint_table where
  "with_local_default = host_resident Realm_Ids.local bt_empty"

definition dispatch_entry ::
    "realm_path \<Rightarrow> realm_entrypoint \<Rightarrow> realm_target \<Rightarrow> resolve_error + dispatch_target" where
  "dispatch_entry at entry target =
     (case ep_mode entry of
        HostResident \<Rightarrow> Inr (Dispatch_HostResident target)
      | GatewayBacked \<Rightarrow>
          bind_result (ok_or (ep_gateway entry) (MissingGateway at)) (\<lambda>gateway.
            Inr (Dispatch_GatewayBacked gateway target)))"

primrec resolve_labels ::
    "entrypoint_table \<Rightarrow> realm_target \<Rightarrow> realm_id list \<Rightarrow> (resolve_error + dispatch_target) option" where
  "resolve_labels entries target [] = Some (Inl (NoEntrypoint (rt_realm target)))"
| "resolve_labels entries target (l # ls) =
     Option.bind (realm_path_new (l # ls)) (\<lambda>at.
       case bt_get entries at of
         Some entry \<Rightarrow> Some (dispatch_entry at entry target)
       | None \<Rightarrow> resolve_labels entries target ls)"

definition resolve :: "entrypoint_table \<Rightarrow> realm_target \<Rightarrow> (resolve_error + dispatch_target) option" where
  "resolve entries target = resolve_labels entries target (labels (rt_realm target))"


section \<open>Rendering\<close>

text \<open>The targets the grammar can express: a valid workload label, and no selector or suffix word anywhere.\<close>

definition RESERVED :: "string set" where
  "RESERVED = {''all'', ''*'', TARGET_SUFFIX}"

definition target_readable :: "realm_target \<Rightarrow> bool" where
  "target_readable t \<longleftrightarrow>
     valid_realm_id (rt_workload t) \<and> set (rt_workload t # labels (rt_realm t)) \<inter> RESERVED = {}"

lemma join_Cons: "join sep (l # ls) = (if ls = [] then l else l @ sep # join sep ls)"
  by (cases ls) (simp_all add: join_def)

lemma join_append: "ls \<noteq> [] \<Longrightarrow> ms \<noteq> [] \<Longrightarrow> join sep (ls @ ms) = join sep ls @ sep # join sep ms"
  by (induction ls) (simp_all add: join_Cons)

lemma str_split_nonempty [simp]: "str_split sep s \<noteq> []"
  by (induction s) auto

lemma join_str_split [simp]: "join sep (str_split sep s) = s"
proof (induction s)
  case (Cons c s)
  then show ?case by (cases "str_split sep s") (auto simp: join_Cons)
qed (simp add: join_def)

lemma to_canonical_join: "to_canonical t = join (CHR ''.'') (rt_workload t # labels (rt_realm t) @ [TARGET_SUFFIX])"
  by (simp add: to_canonical_def join_Cons join_append labels_bounds target_form_def)

lemma reject_reserved_Inr: "reject_reserved_labels ls = Inr u \<longleftrightarrow> set ls \<inter> RESERVED = {}"
  by (induction ls) (auto simp: RESERVED_def)

lemma parse_label_Inr: "parse_label l = Inr v \<longleftrightarrow> v = l \<and> valid_realm_id l"
  by (auto simp: parse_label_def valid_realm_id_def parse_label_id_def id_parse_def split: sum.splits if_splits)

lemma collect_labels_Inr: "collect_labels ls = Inr vs \<longleftrightarrow> vs = ls \<and> list_all valid_realm_id ls"
  by (induction ls arbitrary: vs) (auto simp: bind_result_eq_Inr parse_label_Inr)

lemma parse_realm_labels_Inr: "parse_realm_labels ls = Inr p \<longleftrightarrow> labels p = ls"
  using labels_bounds(4) [of p] labels [of p]
  by (auto simp: parse_realm_labels_def bind_result_eq_Inr collect_labels_Inr realm_path_new_Some)

declare reject_reserved_labels.simps [simp del]

lemma parse_qualified_labels_Inr:
  "parse_qualified_labels ls = Inr t \<longleftrightarrow> target_readable t \<and> ls = rt_workload t # labels (rt_realm t)"
proof (cases ls)
  case Nil
  then show ?thesis by (simp add: parse_qualified_labels_def bind_result_eq_Inr)
next
  case (Cons l rest)
  then show ?thesis
    using labels_bounds(1) [of "rt_realm t"]
    by (cases t)
       (auto simp: parse_qualified_labels_def bind_result_eq_Inr reject_reserved_Inr parse_label_Inr parse_realm_labels_Inr
          target_readable_def numeral_2_eq_2)
qed

text \<open>Splitting: the labels of an address that ends in the suffix.\<close>

lemma strip_prefix_Some: "strip_prefix p s = Some rest \<longleftrightarrow> s = p @ rest"
  by (auto simp: strip_prefix_def) (metis append_take_drop_id)

lemma split_target_suffix:
  assumes "split_target raw = Inr ls" "tl_had_suffix ls"
  shows "raw = (if tl_had_scheme ls then ''d2b://'' else []) @ join (CHR ''.'') (tl_labels ls @ [TARGET_SUFFIX])"
proof -
  obtain body where raw: "raw = (if tl_had_scheme ls then ''d2b://'' else []) @ body"
    and labels: "last (str_split (CHR ''.'') body) = TARGET_SUFFIX" "tl_labels ls = butlast (str_split (CHR ''.'') body)"
    using assms
    by (auto simp: split_target_def strip_prefix_Some Let_def split: option.splits if_splits)
  have "str_split (CHR ''.'') body = tl_labels ls @ [TARGET_SUFFIX]"
    using labels by (metis append_butlast_last_id str_split_nonempty)
  with raw show ?thesis by (metis join_str_split)
qed

lemma set_join: "set (join sep ls) \<subseteq> insert sep (\<Union> (set ` set ls))"
  by (induction ls) (auto simp: join_Cons join_def)

lemma readable_label_chars:
  assumes "target_readable t" "l \<in> set (rt_workload t # labels (rt_realm t) @ [TARGET_SUFFIX])"
  shows "CHR ''.'' \<notin> set l \<and> CHR ''/'' \<notin> set l"
  using assms is_label_no_separator [of "rt_workload t"] labels_no_separator [of l "rt_realm t"]
  by (auto simp: TARGET_SUFFIX_def target_readable_def valid_realm_id_def parse_label_id_def id_parse_def split: if_splits)

lemma canonical_no_scheme:
  assumes "target_readable t"
  shows "strip_prefix ''d2b://'' (to_canonical t) = None"
proof (cases "strip_prefix ''d2b://'' (to_canonical t)")
  case (Some rest)
  then have "to_canonical t = ''d2b://'' @ rest" by (simp only: strip_prefix_Some)
  then have "CHR ''/'' \<in> set (to_canonical t)" by simp
  then have "CHR ''/'' \<in> insert (CHR ''.'') (\<Union> (set ` set (rt_workload t # labels (rt_realm t) @ [TARGET_SUFFIX])))"
    unfolding to_canonical_join using set_join by (rule subsetD [rotated])
  then obtain l where "l \<in> set (rt_workload t # labels (rt_realm t) @ [TARGET_SUFFIX])" "CHR ''/'' \<in> set l" by auto
  with readable_label_chars [OF assms] show ?thesis by blast
qed

lemma split_target_canonical:
  assumes "target_readable t"
  shows "split_target (to_canonical t) =
      Inr \<lparr>tl_labels = rt_workload t # labels (rt_realm t), tl_had_suffix = True, tl_had_scheme = False\<rparr>"
    "split_target (''d2b://'' @ to_canonical t) =
      Inr \<lparr>tl_labels = rt_workload t # labels (rt_realm t), tl_had_suffix = True, tl_had_scheme = True\<rparr>"
proof -
  have split: "str_split (CHR ''.'') (to_canonical t) = rt_workload t # labels (rt_realm t) @ [TARGET_SUFFIX]"
    unfolding to_canonical_join using readable_label_chars [OF assms] by (intro str_split_join) auto
  have "to_canonical t \<noteq> []" by (simp add: to_canonical_def)
  then show "split_target (to_canonical t) =
      Inr \<lparr>tl_labels = rt_workload t # labels (rt_realm t), tl_had_suffix = True, tl_had_scheme = False\<rparr>"
    using split canonical_no_scheme [OF assms] by (simp add: split_target_def butlast_append)
  have "strip_prefix ''d2b://'' (''d2b://'' @ to_canonical t) = Some (to_canonical t)"
    by (simp only: strip_prefix_Some)
  then show "split_target (''d2b://'' @ to_canonical t) =
      Inr \<lparr>tl_labels = rt_workload t # labels (rt_realm t), tl_had_suffix = True, tl_had_scheme = True\<rparr>"
    using split \<open>to_canonical t \<noteq> []\<close> by (simp add: split_target_def butlast_append)
qed

text \<open>C14. The target grammar is exact: a string parses to a target precisely when it is the canonical
  rendering of that target, with or without the old scheme prefix, and the target has a valid workload
  label and no selector or suffix word among its labels. So rendering and parsing are inverse, and no
  two spellings but those two name the same target.\<close>

theorem target_parse_exact:
  "parse_realm_target raw = Inr t \<longleftrightarrow>
     target_readable t \<and> raw \<in> {to_canonical t, ''d2b://'' @ to_canonical t}"
proof
  assume "parse_realm_target raw = Inr t"
  then obtain ls where ls: "split_target raw = Inr ls" "tl_had_suffix ls" "parse_qualified_labels (tl_labels ls) = Inr t"
    by (auto simp: parse_realm_target_def bind_result_eq_Inr split: if_splits list.splits)
  then have "target_readable t" "tl_labels ls = rt_workload t # labels (rt_realm t)"
    by (simp_all add: parse_qualified_labels_Inr)
  with split_target_suffix [OF ls(1,2)] show "target_readable t \<and> raw \<in> {to_canonical t, ''d2b://'' @ to_canonical t}"
    by (simp add: to_canonical_join)
next
  assume "target_readable t \<and> raw \<in> {to_canonical t, ''d2b://'' @ to_canonical t}"
  then show "parse_realm_target raw = Inr t"
    using split_target_canonical [of t]
    by (auto simp only: parse_realm_target_def bind_result_simps) (simp_all add: parse_qualified_labels_Inr)
qed


section \<open>The context-aware parser\<close>

text \<open>Parsers built by the builder methods store no empty candidate list, so the parser does not panic.\<close>

definition parser_ok :: "realm_target_parser \<Rightarrow> bool" where
  "parser_ok p \<longleftrightarrow> (\<forall>alias ts. bt_get (tp_aliases p) alias = Some ts \<longrightarrow> ts \<noteq> [])"

lemma parser_ok_builders [simp]:
  "parser_ok target_parser_new"
  "parser_ok p \<Longrightarrow> parser_ok (with_default_realm realm p)"
  "parser_ok p \<Longrightarrow> parser_ok (with_alias alias target p)"
  "parser_ok p \<Longrightarrow> parser_ok (with_legacy_node_label node p)"
  by (auto simp: parser_ok_def target_parser_new_def with_default_realm_def with_alias_def with_legacy_node_label_def)

lemma alias_candidates_fold:
  "distinct cs \<Longrightarrow>
   distinct (fold (\<lambda>t cs. if t \<in> set cs then cs else cs @ [t]) ts cs) \<and>
   set (fold (\<lambda>t cs. if t \<in> set cs then cs else cs @ [t]) ts cs) = set cs \<union> set ts"
  by (induction ts arbitrary: cs) auto

lemma alias_candidates: "distinct (alias_candidates ts)" "set (alias_candidates ts) = set ts"
  using alias_candidates_fold [of "[]" ts] by (simp_all add: alias_candidates_def)

lemma alias_candidates_single: "alias_candidates ts = [t] \<longleftrightarrow> set ts = {t}"
proof
  assume "set ts = {t}"
  then have "set (alias_candidates ts) = {t}" by (simp add: alias_candidates)
  with alias_candidates(1) [of ts] show "alias_candidates ts = [t]"
    by (cases "alias_candidates ts") (auto simp: subset_singleton_iff)
qed (metis alias_candidates(2) list.set(1,2))

text \<open>What a bare name means to a parser.\<close>

definition bare_meaning :: "realm_target_parser \<Rightarrow> string \<Rightarrow> realm_target set" where
  "bare_meaning p name =
     (case bt_get (tp_aliases p) name of
        Some ts \<Rightarrow> set ts
      | None \<Rightarrow> (case tp_default_realm p of Some realm \<Rightarrow> {\<lparr>rt_workload = name, rt_realm = realm\<rparr>} | None \<Rightarrow> {}))"

lemma parse_bare_exact:
  assumes "parser_ok p"
  shows "parse_bare p [name] = Some (Inr t) \<longleftrightarrow>
     valid_realm_id name \<and> name \<notin> RESERVED \<and> bare_meaning p name = {t}"
proof (cases "valid_realm_id name \<and> name \<notin> RESERVED")
  case True
  then have head: "bind_result (reject_reserved_labels [name]) (\<lambda>_. parse_label name) = Inr name"
    by (simp add: bind_result_eq_Inr reject_reserved_Inr parse_label_Inr)
  show ?thesis
  proof (cases "bt_get (tp_aliases p) name")
    case None
    with True head show ?thesis by (auto simp: parse_bare_def bare_meaning_def split: option.splits)
  next
    case (Some ts)
    have "(case alias_candidates ts of [] \<Rightarrow> None | [target] \<Rightarrow> Some (Inr target)
        | candidates \<Rightarrow> Some (Inl (AliasAmbiguous name candidates))) = Some (Inr t) \<longleftrightarrow> alias_candidates ts = [t]"
      by (auto split: list.splits)
    with True head Some show ?thesis by (simp add: parse_bare_def bare_meaning_def alias_candidates_single)
  qed
next
  case False
  then have "bind_result (reject_reserved_labels [name]) (\<lambda>_. parse_label name) \<noteq> Inr v" for v
    by (auto simp: bind_result_eq_Inr reject_reserved_Inr parse_label_Inr)
  with False show ?thesis
    by (cases "bind_result (reject_reserved_labels [name]) (\<lambda>_. parse_label name)") (auto simp: parse_bare_def)
qed

lemma target_parser_returns:
  assumes "parser_ok p"
  shows "\<exists>r. target_parser_parse p raw = Some r"
proof -
  have "alias_candidates ts \<noteq> []" if "bt_get (tp_aliases p) a = Some ts" for a ts
    using assms that alias_candidates(2) [of ts] by (auto simp: parser_ok_def)
  then have "\<exists>r. parse_bare p ls = Some r" for ls
    by (fastforce simp: parse_bare_def split: list.splits sum.splits option.splits)
  then show ?thesis by (auto simp: target_parser_parse_def split: sum.splits)
qed

text \<open>Addresses in the old form: a known node label, followed by a realm.\<close>

definition legacy_shaped :: "realm_target_parser \<Rightarrow> realm_target \<Rightarrow> bool" where
  "legacy_shaped p t \<longleftrightarrow>
     2 \<le> length (labels (rt_realm t)) \<and> bt_contains (tp_legacy_node_labels p) (hd (labels (rt_realm t)))"

lemma legacy_for_known_node_None:
  "legacy_for_known_node ls nodes = Inr None \<longleftrightarrow>
     \<not> (3 \<le> length ls \<and> valid_realm_id (ls ! 1) \<and> bt_contains nodes (ls ! 1))"
proof -
  have "bt_len nodes = 0 \<Longrightarrow> \<not> bt_contains nodes n" for n
    by (simp add: bt_len_card bt_contains_def domIff)
  then show ?thesis
    by (auto simp: legacy_for_known_node_def bind_result_def valid_realm_id_def parse_label_id_def id_parse_def
        split: sum.splits if_splits)
qed

lemma parse_qualified_iff:
  "parse_qualified p ls = Inr t \<longleftrightarrow> legacy_for_known_node ls (tp_legacy_node_labels p) = Inr None \<and> parse_qualified_labels ls = Inr t"
  by (auto simp: parse_qualified_def bind_result_eq_Inr split: option.splits)

lemma parse_qualified_Inr:
  "parse_qualified p ls = Inr t \<longleftrightarrow> parse_qualified_labels ls = Inr t \<and> \<not> legacy_shaped p t"
proof (cases "parse_qualified_labels ls = Inr t")
  case True
  then have ls: "ls = rt_workload t # labels (rt_realm t)" by (simp add: parse_qualified_labels_Inr)
  obtain l rest where rest: "labels (rt_realm t) = l # rest" using labels_bounds(1) by (cases "labels (rt_realm t)") auto
  then have "valid_realm_id l" using labels_bounds(4) [of "rt_realm t"] by simp
  with True ls rest show ?thesis
    by (auto simp: parse_qualified_iff legacy_for_known_node_None legacy_shaped_def)
qed (simp add: parse_qualified_iff)

lemma split_target_bare:
  assumes "valid_realm_id raw" "raw \<notin> RESERVED"
  shows "split_target raw = Inr \<lparr>tl_labels = [raw], tl_had_suffix = False, tl_had_scheme = False\<rparr>"
proof -
  have chars: "CHR ''.'' \<notin> set raw" "CHR ''/'' \<notin> set raw" "raw \<noteq> []"
    using assms(1) is_label_no_separator [of raw]
    by (auto simp: valid_realm_id_def parse_label_id_def id_parse_def split: if_splits)
  have "strip_prefix ''d2b://'' raw = None"
  proof (cases "strip_prefix ''d2b://'' raw")
    case (Some rest)
    then have "raw = ''d2b://'' @ rest" by (simp only: strip_prefix_Some)
    with chars(2) show ?thesis by simp
  qed
  with chars assms(2) show ?thesis by (simp add: split_target_def str_split_single RESERVED_def)
qed

text \<open>The parser with context accepts exactly two kinds of input: a fully qualified address that does not
  have the old node-qualified shape for a known node, read as without context; and a bare workload name that
  is a valid label, not reserved, and has exactly one meaning among the alias candidates or, without an
  alias, the default realm. Everything else is an error, never a guess and never a panic.\<close>

theorem context_parse_exact:
  assumes "parser_ok p"
  shows "(\<exists>r. target_parser_parse p raw = Some r) \<and>
    (target_parser_parse p raw = Some (Inr t) \<longleftrightarrow>
      (parse_realm_target raw = Inr t \<and> \<not> legacy_shaped p t) \<or>
      (valid_realm_id raw \<and> raw \<notin> RESERVED \<and> bare_meaning p raw = {t}))"
proof (intro conjI)
  show "\<exists>r. target_parser_parse p raw = Some r" by (rule target_parser_returns [OF assms])
  show "target_parser_parse p raw = Some (Inr t) \<longleftrightarrow>
      (parse_realm_target raw = Inr t \<and> \<not> legacy_shaped p t) \<or>
      (valid_realm_id raw \<and> raw \<notin> RESERVED \<and> bare_meaning p raw = {t})"
  proof (cases "valid_realm_id raw \<and> raw \<notin> RESERVED")
    case True
    then have "split_target raw = Inr \<lparr>tl_labels = [raw], tl_had_suffix = False, tl_had_scheme = False\<rparr>"
      by (simp add: split_target_bare)
    with True show ?thesis by (simp add: target_parser_parse_def parse_realm_target_def parse_bare_exact [OF assms])
  next
    case False
    have "parse_bare p (tl_labels ls) \<noteq> Some (Inr t)"
      if "split_target raw = Inr ls" "\<not> tl_had_suffix ls" "\<not> tl_had_scheme ls" for ls
    proof
      assume parsed: "parse_bare p (tl_labels ls) = Some (Inr t)"
      then obtain name where "tl_labels ls = [name]" by (auto simp: parse_bare_def split: list.splits)
      moreover have "tl_labels ls = str_split (CHR ''.'') raw"
        using that by (auto simp: split_target_def Let_def split: option.splits if_splits)
      ultimately have "name = raw" using join_str_split [of "CHR ''.''" raw] by (simp add: join_def)
      with parsed \<open>tl_labels ls = [name]\<close> False show False by (simp add: parse_bare_exact [OF assms])
    qed
    with False show ?thesis
      by (auto simp: target_parser_parse_def parse_realm_target_def parse_qualified_Inr split: sum.splits list.splits if_splits)
  qed
qed

text \<open>A parser with an alias, a default realm and a legacy node label.\<close>

definition sample_parser :: realm_target_parser where
  "sample_parser =
     with_legacy_node_label ''host1'' (with_alias ''web'' \<lparr>rt_workload = ''api'', rt_realm = Realm_Ids.local\<rparr>
       (with_default_realm Realm_Ids.local target_parser_new))"

theorem context_parse_exact_witness:
  "target_parser_parse sample_parser ''web'' = Some (Inr \<lparr>rt_workload = ''api'', rt_realm = Realm_Ids.local\<rparr>)"
proof -
  have "parser_ok sample_parser" by (simp add: sample_parser_def)
  moreover have "valid_realm_id ''web''" "''web'' \<notin> RESERVED" by (code_simp, simp add: RESERVED_def TARGET_SUFFIX_def)
  moreover have "bare_meaning sample_parser ''web'' = {\<lparr>rt_workload = ''api'', rt_realm = Realm_Ids.local\<rparr>}"
    by (simp add: bare_meaning_def sample_parser_def with_legacy_node_label_def with_alias_def with_default_realm_def
        target_parser_new_def)
  ultimately show ?thesis using context_parse_exact [of sample_parser "''web''"] by blast
qed


section \<open>Resolution\<close>

definition nearest_entry :: "entrypoint_table \<Rightarrow> realm_path \<Rightarrow> realm_path \<Rightarrow> realm_entrypoint \<Rightarrow> bool" where
  "nearest_entry entries p at entry \<longleftrightarrow>
     has_suffix p at \<and> bt_get entries at = Some entry \<and>
     (\<forall>q. has_suffix p q \<longrightarrow> bt_contains entries q \<longrightarrow> has_suffix at q)"

lemma resolve_labels_nearest:
  assumes "suffix ls (labels p)"
    and "\<And>q. has_suffix p q \<Longrightarrow> length ls < length (labels q) \<Longrightarrow> \<not> bt_contains entries q"
  shows "(\<exists>at entry. nearest_entry entries p at entry \<and>
      resolve_labels entries t ls = Some (dispatch_entry at entry t)) \<or>
    ({q. has_suffix p q \<and> bt_contains entries q} = {} \<and> resolve_labels entries t ls = Some (Inl (NoEntrypoint (rt_realm t))))"
  using assms
proof (induction ls)
  case Nil
  have "0 < length (labels q)" for q using labels_bounds(1) [of q] by simp
  with Nil show ?case by auto
next
  case (Cons l ls)
  have "path_bounds (l # ls) \<and> list_all valid_realm_id (l # ls)"
  proof -
    obtain zs where "labels p = zs @ l # ls" using Cons.prems(1) by (auto simp: suffix_def)
    then show ?thesis using labels_bounds [of p]
      by (auto simp: path_bounds_def MAX_REALM_LABELS_def MAX_REALM_PATH_BYTES_def)
  qed
  then obtain at where new: "realm_path_new (l # ls) = Some at" by (simp add: realm_path_new_def)
  then have at: "labels at = l # ls" by (simp add: realm_path_new_Some)
  with Cons.prems(1) have suf: "has_suffix p at" by (simp add: has_suffix_iff)
  show ?case
  proof (cases "bt_get entries at")
    case (Some entry)
    have "has_suffix at q" if "has_suffix p q" "bt_contains entries q" for q
      using Cons.prems(2) [of q] that suf at
      by (metis has_suffix_iff linorder_not_less suffix_length_suffix)
    with Some suf have "nearest_entry entries p at entry" by (simp add: nearest_entry_def)
    with new Some show ?thesis by auto
  next
    case None
    have "\<not> bt_contains entries q" if "has_suffix p q" "length ls < length (labels q)" for q
    proof (cases "length (labels q) = length (l # ls)")
      case True
      with that(1) suf at have "labels q = labels at"
        by (metis has_suffix_iff suffix_length_suffix suffix_order.antisym order_refl)
      then have "q = at" by (rule realm_path_eqI)
      with None show ?thesis by (simp add: bt_contains_def)
    next
      case False
      with that Cons.prems(2) show ?thesis by simp
    qed
    with Cons.IH Cons.prems(1) show ?thesis using new None by (simp add: suffix_ConsD)
  qed
qed

text \<open>C15. Resolution picks the nearest enclosing realm: the decision is that of the entry whose realm is the
  longest suffix of the target's realm path among all entries, a gateway-backed entry without a gateway is
  refused, and a realm that no entry covers is refused rather than dispatched locally. Resolution never
  panics and never changes the target.\<close>

theorem resolve_exact:
  "case resolve entries t of
     None \<Rightarrow> False
   | Some (Inl (NoEntrypoint p)) \<Rightarrow> p = rt_realm t \<and> {q. has_suffix p q \<and> bt_contains entries q} = {}
   | Some (Inl (MissingGateway at)) \<Rightarrow>
       nearest_entry entries (rt_realm t) at \<lparr>ep_mode = GatewayBacked, ep_gateway = None\<rparr>
   | Some (Inr (Dispatch_HostResident t')) \<Rightarrow>
       t' = t \<and> (\<exists>at g. nearest_entry entries (rt_realm t) at \<lparr>ep_mode = HostResident, ep_gateway = g\<rparr>)
   | Some (Inr (Dispatch_GatewayBacked gateway t')) \<Rightarrow>
       t' = t \<and> (\<exists>at. nearest_entry entries (rt_realm t) at \<lparr>ep_mode = GatewayBacked, ep_gateway = Some gateway\<rparr>)"
proof -
  have "\<not> bt_contains entries q" if "has_suffix (rt_realm t) q" "length (labels (rt_realm t)) < length (labels q)" for q
    using that by (metis has_suffix_iff linorder_not_less suffix_length_le)
  from resolve_labels_nearest [of _ "rt_realm t" entries t, OF suffix_order.refl this]
  consider at entry where "nearest_entry entries (rt_realm t) at entry" "resolve entries t = Some (dispatch_entry at entry t)"
    | "{q. has_suffix (rt_realm t) q \<and> bt_contains entries q} = {}" "resolve entries t = Some (Inl (NoEntrypoint (rt_realm t)))"
    unfolding resolve_def by blast
  then show ?thesis
  proof cases
    case 1
    obtain mode g where entry: "entry = \<lparr>ep_mode = mode, ep_gateway = g\<rparr>" by (cases entry) simp
    with 1 show ?thesis by (cases mode; cases g) (auto simp: dispatch_entry_def)
  next
    case 2
    then show ?thesis by simp
  qed
qed


section \<open>Targets that cannot be read back\<close>

text \<open>A reserved word as a realm label breaks the round trip: a realm path accepts the label, the
  context-aware parser hands out a target in that default realm, and the canonical form of that target,
  which is also its serialized form, is rejected by the parser.\<close>

theorem reserved_realm_unreadable:
  "\<exists>realm t. realm_path_new [''d2b''] = Some realm \<and>
     target_parser_parse (with_default_realm realm target_parser_new) ''web'' = Some (Inr t) \<and>
     parse_realm_target (to_canonical t) = Inl ReservedLabel"
proof -
  have new: "realm_path_new [''d2b''] = Some (checked_path [''d2b''])" by code_simp
  then have labels: "labels (checked_path [''d2b'']) = [''d2b'']" by (simp add: realm_path_new_Some)
  let ?t = "\<lparr>rt_workload = ''web'', rt_realm = checked_path [''d2b'']\<rparr>"
  have "to_canonical ?t = ''web.d2b.d2b''" by (simp add: to_canonical_def target_form_def labels join_def TARGET_SUFFIX_def)
  moreover have "parse_realm_target ''web.d2b.d2b'' = Inl ReservedLabel" by code_simp
  moreover have "target_parser_parse (with_default_realm (checked_path [''d2b'']) target_parser_new) ''web'' = Some (Inr ?t)"
    by code_simp
  ultimately show ?thesis using new by auto
qed

end
