(* ===== verification/Provider_Errors.thy ===== *)
theory Provider_Errors
  imports Frames Digits Clock_Time
begin

text \<open>
  Provider errors, \<open>d2b-realm-provider/src/error.rs\<close>: the typed error that providers, the circuit breaker and peer
  sessions return, with its retry hint. The sanitising of provider diagnostics is not modelled.
\<close>

section \<open>Retry hints and errors\<close>

record retry_hint =
  rh_retry_after :: duration
  rh_applied_backoff :: duration

definition hint_bounded :: "duration \<Rightarrow> duration \<Rightarrow> duration \<Rightarrow> retry_hint" where
  "hint_bounded retry_after jitter max_dur =
     \<lparr>rh_retry_after = min retry_after max_dur, rh_applied_backoff = min (dur_sat_add retry_after jitter) max_dur\<rparr>"

record provider_diagnostic =
  pd_code :: "string option"
  pd_message :: "string option"
  pd_correlation_id :: "string option"

record provider_error =
  pe_error :: constellation_error
  pe_retry_hint :: "retry_hint option"
  pe_diagnostic :: "provider_diagnostic option"

definition provider_error_from :: "constellation_error \<Rightarrow> provider_error" where
  "provider_error_from e = \<lparr>pe_error = e, pe_retry_hint = None, pe_diagnostic = None\<rparr>"

definition provider_error_new :: "error_kind \<Rightarrow> string \<Rightarrow> provider_error" where
  "provider_error_new kind message = provider_error_from (error_new kind message)"

definition rate_limited :: "string \<Rightarrow> retry_hint \<Rightarrow> provider_error" where
  "rate_limited message hint = (provider_error_new Err_Backpressure message)\<lparr>pe_retry_hint := Some hint\<rparr>"

end
