(* ===== verification/Circuit_Breaker.thy ===== *)
theory Circuit_Breaker
  imports Provider_Errors
begin

text \<open>
  The provider circuit breaker \<open>d2b-realm-provider/src/rate_limit.rs\<close>. A panic, also of a \<open>debug_assert!\<close>, is \<open>None\<close>.
  Permits can only be obtained from \<open>before_request\<close>, so a run keeps the permits it has handed out and a report
  always carries one of them.
\<close>

section \<open>The breaker\<close>

record circuit_breaker_config =
  cfg_failure_threshold :: u32
  cfg_default_open_for :: duration
  cfg_probe_timeout :: duration
  cfg_max_open_for :: duration

definition default_config :: circuit_breaker_config where
  "default_config =
     \<lparr>cfg_failure_threshold = 3, cfg_default_open_for = from_secs 10, cfg_probe_timeout = from_secs 30,
      cfg_max_open_for = from_secs 300\<rparr>"

datatype circuit_state = Closed | Open instant | ProbeInFlight instant

record circuit_inner =
  ci_state :: circuit_state
  ci_epoch :: u64
  ci_failures :: u32
  ci_last_hint :: "retry_hint option"

record circuit_permit =
  cp_probe :: bool
  cp_epoch :: u64

definition breaker_new :: circuit_inner where
  "breaker_new = \<lparr>ci_state = Closed, ci_epoch = 0, ci_failures = 0, ci_last_hint = None\<rparr>"

definition deterministic_jitter_ms :: "u64 \<Rightarrow> duration" where
  "deterministic_jitter_ms seed = from_millis ((seed * 97) mod 501)"

definition retry_hint_for_failures :: "circuit_breaker_config \<Rightarrow> u32 \<Rightarrow> retry_hint" where
  "retry_hint_for_failures cfg failures =
     (let exponent = min (unat failures - unat (cfg_failure_threshold cfg)) 8;
          factor = (if exponent < 32 then push_bit exponent 1 else - 1) :: u32;
          base = dur_sat_mul (cfg_default_open_for cfg) factor;
          jitter = deterministic_jitter_ms (ucast failures)
      in hint_bounded base jitter (cfg_max_open_for cfg))"

definition start_probe :: "instant \<Rightarrow> circuit_inner \<Rightarrow> circuit_inner" where
  "start_probe now inner = inner\<lparr>ci_epoch := sat_add (ci_epoch inner) 1, ci_state := ProbeInFlight now\<rparr>"

definition open_until :: "instant \<Rightarrow> retry_hint \<Rightarrow> circuit_inner \<Rightarrow> circuit_inner option" where
  "open_until until hint inner =
     (case ci_state inner of
        Open _ \<Rightarrow> None
      | _ \<Rightarrow> Some (inner\<lparr>ci_epoch := sat_add (ci_epoch inner) 1, ci_state := Open until,
                         ci_failures := sat_add (ci_failures inner) 1, ci_last_hint := Some hint\<rparr>))"

definition open_from :: "instant \<Rightarrow> retry_hint \<Rightarrow> circuit_inner \<Rightarrow> circuit_inner option" where
  "open_from now hint inner =
     Option.bind (instant_add now (rh_applied_backoff hint)) (\<lambda>until. open_until until hint inner)"

definition retry_message :: "string \<Rightarrow> retry_hint \<Rightarrow> string" where
  "retry_message what hint =
     ''provider circuit breaker '' @ what @ ''; retry after '' @ decimal (as_millis (rh_applied_backoff hint)) @ '' ms''"

text \<open>The arms of \<open>before_request\<close>: a probe that outlived its time-out, then all four states.\<close>

definition probe_timed_out ::
    "circuit_breaker_config \<Rightarrow> instant \<Rightarrow> instant \<Rightarrow> circuit_inner \<Rightarrow>
     ((provider_error + circuit_permit) \<times> circuit_inner) option" where
  "probe_timed_out cfg now started inner =
     (let hint = retry_hint_for_failures cfg (sat_add (ci_failures inner) 1) in
      Option.bind (instant_add started (cfg_probe_timeout cfg)) (\<lambda>failed_at.
      Option.bind (instant_add failed_at (rh_applied_backoff hint)) (\<lambda>until.
        if until \<le> now
        then let inner' = start_probe now
                   (inner\<lparr>ci_failures := sat_add (ci_failures inner) 1, ci_last_hint := Some hint\<rparr>)
             in Some (Inr \<lparr>cp_probe = True, cp_epoch = ci_epoch inner'\<rparr>, inner')
        else Option.bind (open_until until hint inner) (\<lambda>inner'.
          let error_hint = hint_bounded (until - now) 0 (cfg_max_open_for cfg) in
          Some (Inl (rate_limited (retry_message ''probe timed out'' error_hint) error_hint), inner')))))"

definition before_request ::
    "circuit_breaker_config \<Rightarrow> instant \<Rightarrow> circuit_inner \<Rightarrow>
     ((provider_error + circuit_permit) \<times> circuit_inner) option" where
  "before_request cfg now inner =
     (case ci_state inner of
        Closed \<Rightarrow> Some (Inr \<lparr>cp_probe = False, cp_epoch = ci_epoch inner\<rparr>, inner)
      | ProbeInFlight started \<Rightarrow>
          if cfg_probe_timeout cfg \<le> now - started then probe_timed_out cfg now started inner
          else let hint = hint_bounded (cfg_probe_timeout cfg) 0 (cfg_max_open_for cfg) in
            Some (Inl (rate_limited (retry_message ''half-open probe already in flight'' hint) hint), inner)
      | Open until \<Rightarrow>
          if until \<le> now
          then let inner' = start_probe now inner in Some (Inr \<lparr>cp_probe = True, cp_epoch = ci_epoch inner'\<rparr>, inner')
          else let hint = hint_bounded (until - now) 0 (cfg_max_open_for cfg) in
            Some (Inl (rate_limited (retry_message ''open'' hint) hint), inner))"

definition state_is_open :: "circuit_state \<Rightarrow> bool" where
  "state_is_open s = (case s of Open _ \<Rightarrow> True | _ \<Rightarrow> False)"

definition state_in_flight :: "circuit_state \<Rightarrow> bool" where
  "state_in_flight s = (case s of ProbeInFlight _ \<Rightarrow> True | _ \<Rightarrow> False)"

definition record_success :: "circuit_permit \<Rightarrow> circuit_inner \<Rightarrow> circuit_inner" where
  "record_success permit inner =
     (if cp_epoch permit \<noteq> ci_epoch inner then inner
      else if state_is_open (ci_state inner) \<or> state_in_flight (ci_state inner) \<and> \<not> cp_probe permit then inner
      else inner\<lparr>ci_epoch := if ci_state inner \<noteq> Closed then sat_add (ci_epoch inner) 1 else ci_epoch inner,
                 ci_state := Closed, ci_failures := 0, ci_last_hint := None\<rparr>)"

definition record_rate_limited ::
    "instant \<Rightarrow> retry_hint \<Rightarrow> circuit_permit \<Rightarrow> circuit_inner \<Rightarrow> circuit_inner option" where
  "record_rate_limited now hint permit inner =
     (if cp_epoch permit \<noteq> ci_epoch inner
      then (case ci_state inner of
              Open until \<Rightarrow>
                Option.bind (instant_add now (rh_applied_backoff hint)) (\<lambda>requested_until.
                  if until < requested_until
                  then Some (inner\<lparr>ci_state := Open requested_until, ci_last_hint := Some hint\<rparr>)
                  else Some inner)
            | _ \<Rightarrow> Some inner)
      else if state_in_flight (ci_state inner) \<and> \<not> cp_probe permit then Some inner
      else open_from now hint inner)"

definition record_transient_failure ::
    "circuit_breaker_config \<Rightarrow> instant \<Rightarrow> circuit_permit \<Rightarrow> circuit_inner \<Rightarrow> circuit_inner option" where
  "record_transient_failure cfg now permit inner =
     (if cp_epoch permit \<noteq> ci_epoch inner then Some inner
      else case ci_state inner of
        ProbeInFlight _ \<Rightarrow>
          if cp_probe permit
          then open_from now (retry_hint_for_failures cfg (sat_add (ci_failures inner) 1)) inner
          else Some inner
      | Closed \<Rightarrow>
          (let next_failures = sat_add (ci_failures inner) 1 in
           if cfg_failure_threshold cfg \<le> next_failures
           then open_from now (retry_hint_for_failures cfg next_failures) inner
           else Some (inner\<lparr>ci_failures := next_failures\<rparr>))
      | Open _ \<Rightarrow> Some inner)"

definition record_cancellation ::
    "circuit_breaker_config \<Rightarrow> instant \<Rightarrow> circuit_permit \<Rightarrow> circuit_inner \<Rightarrow> circuit_inner option" where
  "record_cancellation cfg now permit inner =
     (if cp_probe permit \<and> cp_epoch permit = ci_epoch inner \<and> state_in_flight (ci_state inner)
      then open_from now (retry_hint_for_failures cfg (sat_add (ci_failures inner) 1)) inner
      else Some inner)"

record circuit_breaker_snapshot =
  snap_state :: string
  snap_failures :: u32
  snap_remaining :: "duration option"
  snap_retry_hint :: "retry_hint option"

definition snapshot :: "instant \<Rightarrow> circuit_inner \<Rightarrow> circuit_breaker_snapshot" where
  "snapshot now inner =
     (let (state, remaining) =
          (case ci_state inner of
             Closed \<Rightarrow> (''closed'', None)
           | ProbeInFlight _ \<Rightarrow> (''probe-in-flight'', None)
           | Open until \<Rightarrow> (''open'', Some (until - now)))
      in \<lparr>snap_state = state, snap_failures = ci_failures inner, snap_remaining = remaining,
          snap_retry_hint = ci_last_hint inner\<rparr>)"


section \<open>Runs\<close>

datatype breaker_event =
    Br_Request instant
  | Br_Success circuit_permit
  | Br_RateLimited instant retry_hint circuit_permit
  | Br_Transient instant circuit_permit
  | Br_Cancel instant circuit_permit

text \<open>The breaker with the permits it has handed out, oldest first.\<close>

record breaker_world =
  bw_inner :: circuit_inner
  bw_issued :: "circuit_permit list"

definition with_inner :: "breaker_world \<Rightarrow> circuit_inner \<Rightarrow> breaker_world" where
  "with_inner w inner = w\<lparr>bw_inner := inner\<rparr>"

primrec breaker_apply :: "circuit_breaker_config \<Rightarrow> breaker_event \<Rightarrow> breaker_world \<Rightarrow> breaker_world option" where
  "breaker_apply cfg (Br_Request now) w =
     map_option
       (\<lambda>(answer, inner).
          case answer of
            Inr permit \<Rightarrow> \<lparr>bw_inner = inner, bw_issued = bw_issued w @ [permit]\<rparr>
          | Inl _ \<Rightarrow> with_inner w inner)
       (before_request cfg now (bw_inner w))"
| "breaker_apply cfg (Br_Success p) w =
     (if p \<in> set (bw_issued w) then Some (with_inner w (record_success p (bw_inner w))) else None)"
| "breaker_apply cfg (Br_RateLimited now hint p) w =
     (if p \<in> set (bw_issued w) then map_option (with_inner w) (record_rate_limited now hint p (bw_inner w)) else None)"
| "breaker_apply cfg (Br_Transient now p) w =
     (if p \<in> set (bw_issued w) then map_option (with_inner w) (record_transient_failure cfg now p (bw_inner w)) else None)"
| "breaker_apply cfg (Br_Cancel now p) w =
     (if p \<in> set (bw_issued w) then map_option (with_inner w) (record_cancellation cfg now p (bw_inner w)) else None)"

primrec breaker_run :: "circuit_breaker_config \<Rightarrow> breaker_event list \<Rightarrow> breaker_world \<Rightarrow> breaker_world option" where
  "breaker_run cfg [] w = Some w"
| "breaker_run cfg (e # es) w = Option.bind (breaker_apply cfg e w) (breaker_run cfg es)"

lemma breaker_run_append: "breaker_run cfg (es @ fs) w = Option.bind (breaker_run cfg es w) (breaker_run cfg fs)"
proof (induction es arbitrary: w)
  case (Cons e es)
  then show ?case by (cases "breaker_apply cfg e w") simp_all
qed simp

definition breaker_start :: breaker_world where
  "breaker_start = \<lparr>bw_inner = breaker_new, bw_issued = []\<rparr>"

abbreviation bw_state :: "breaker_world \<Rightarrow> circuit_state" where
  "bw_state w \<equiv> ci_state (bw_inner w)"

abbreviation bw_epoch :: "breaker_world \<Rightarrow> u64" where
  "bw_epoch w \<equiv> ci_epoch (bw_inner w)"


section \<open>Epochs\<close>

text \<open>Every report either leaves the epoch alone, and then at most moves the end of an open window, or opens or
  closes the circuit in the next epoch.\<close>

definition quiet :: "circuit_inner \<Rightarrow> circuit_inner \<Rightarrow> bool" where
  "quiet inner inner' \<longleftrightarrow>
     ci_epoch inner' = ci_epoch inner \<and>
     (case ci_state inner of
        Open until \<Rightarrow> (\<exists>until'. ci_state inner' = Open until' \<and> until \<le> until')
      | s \<Rightarrow> ci_state inner' = s)"

definition bumped :: "circuit_inner \<Rightarrow> circuit_inner \<Rightarrow> bool" where
  "bumped inner inner' \<longleftrightarrow>
     ci_epoch inner' = sat_add (ci_epoch inner) 1 \<and> \<not> state_in_flight (ci_state inner') \<and> \<not> state_is_open (ci_state inner)"

lemma quiet_refl [simp]: "quiet inner inner"
  by (simp add: quiet_def split: circuit_state.splits)

lemma open_until_bumped: "open_until until hint inner = Some inner' \<Longrightarrow> bumped inner inner'"
  by (auto simp: open_until_def bumped_def state_in_flight_def state_is_open_def split: circuit_state.splits)

lemma open_from_bumped: "open_from now hint inner = Some inner' \<Longrightarrow> bumped inner inner'"
  by (auto simp: open_from_def bind_eq_Some_conv intro: open_until_bumped)

lemma record_success_effect: "quiet inner (record_success p inner) \<or> bumped inner (record_success p inner)"
  by (auto simp: record_success_def quiet_def bumped_def state_is_open_def state_in_flight_def split: circuit_state.splits)

lemma record_rate_limited_effect:
  "record_rate_limited now hint p inner = Some inner' \<Longrightarrow> quiet inner inner' \<or> bumped inner inner'"
  using open_from_bumped
  by (auto simp: record_rate_limited_def bind_eq_Some_conv quiet_def split: if_splits circuit_state.splits)

lemma record_transient_failure_effect:
  "record_transient_failure cfg now p inner = Some inner' \<Longrightarrow> quiet inner inner' \<or> bumped inner inner'"
  using open_from_bumped
  by (auto simp: record_transient_failure_def quiet_def Let_def split: if_splits circuit_state.splits)

lemma record_cancellation_effect:
  "record_cancellation cfg now p inner = Some inner' \<Longrightarrow> quiet inner inner' \<or> bumped inner inner'"
  using open_from_bumped by (auto simp: record_cancellation_def split: if_splits)

lemma before_request_admitted:
  assumes "before_request cfg now inner = Some (Inr p, inner')"
  shows "cp_epoch p = ci_epoch inner' \<and>
    (if ci_state inner = Closed then \<not> cp_probe p \<and> inner' = inner
     else cp_probe p \<and> ci_epoch inner' = sat_add (ci_epoch inner) 1 \<and> ci_state inner' = ProbeInFlight now \<and>
       (\<forall>until. ci_state inner = Open until \<longrightarrow> until \<le> now))"
  using assms
  by (auto simp: before_request_def probe_timed_out_def start_probe_def bind_eq_Some_conv Let_def
      split: circuit_state.splits if_splits)

lemma before_request_refused:
  "before_request cfg now inner = Some (Inl e, inner') \<Longrightarrow> quiet inner inner' \<or> bumped inner inner'"
  using open_until_bumped
  by (auto simp: before_request_def probe_timed_out_def bind_eq_Some_conv Let_def split: circuit_state.splits if_splits)

text \<open>So a step of a run either keeps the permits, or hands one out.\<close>

lemma breaker_apply_cases:
  assumes "breaker_apply cfg e w = Some w'"
  obtains (report) "bw_issued w' = bw_issued w" "quiet (bw_inner w) (bw_inner w') \<or> bumped (bw_inner w) (bw_inner w')"
  | (admitted) now p where "e = Br_Request now" "bw_issued w' = bw_issued w @ [p]"
      "before_request cfg now (bw_inner w) = Some (Inr p, bw_inner w')"
proof (cases e)
  case (Br_Request now)
  then obtain answer inner where req: "before_request cfg now (bw_inner w) = Some (answer, inner)"
    "w' = (case answer of Inr permit \<Rightarrow> \<lparr>bw_inner = inner, bw_issued = bw_issued w @ [permit]\<rparr> | Inl _ \<Rightarrow> with_inner w inner)"
    using assms by auto
  show thesis
  proof (cases answer)
    case (Inl err)
    with req before_request_refused [of cfg now "bw_inner w"] show thesis by (intro report) (auto simp: with_inner_def)
  next
    case (Inr p)
    with req Br_Request show thesis by (intro admitted) auto
  qed
next
  case (Br_Success p)
  with assms record_success_effect [of "bw_inner w" p] show thesis by (intro report) (auto simp: with_inner_def split: if_splits)
next
  case (Br_RateLimited now hint p)
  with assms record_rate_limited_effect [of now hint p "bw_inner w"] show thesis by (intro report) (auto simp: with_inner_def split: if_splits)
next
  case (Br_Transient now p)
  with assms record_transient_failure_effect [of cfg now p "bw_inner w"] show thesis by (intro report) (auto simp: with_inner_def split: if_splits)
next
  case (Br_Cancel now p)
  with assms record_cancellation_effect [of cfg now p "bw_inner w"] show thesis by (intro report) (auto simp: with_inner_def split: if_splits)
qed

lemma epoch_next: "e \<noteq> - 1 \<Longrightarrow> e < sat_add e 1" for e :: u64
proof -
  assume "e \<noteq> - 1"
  then have "unat e \<noteq> unat (- 1 :: u64)" by (simp add: word_unat_eq_iff)
  moreover have "unat (- 1 :: u64) = 2 ^ 64 - 1" by (simp add: unsigned_minus_1_eq_mask mask_eq_exp_minus_1)
  moreover have "unat e < 2 ^ 64" using unsigned_less [of e] by simp
  ultimately have "unat e + unat (1 :: u64) < 2 ^ LENGTH(64)" by simp
  then show ?thesis by (simp add: word_less_nat_alt unat_sat_add_room)
qed

lemma epoch_mono: "breaker_apply cfg e w = Some w' \<Longrightarrow> bw_epoch w \<le> bw_epoch w'"
proof (erule breaker_apply_cases)
  have "ep \<le> sat_add ep 1" for ep :: u64
  proof -
    have "unat ep < 2 ^ LENGTH(64)" by (rule unsigned_less)
    then show ?thesis by (simp add: word_le_nat_alt unat_sat_add)
  qed
  then show "quiet (bw_inner w) (bw_inner w') \<or> bumped (bw_inner w) (bw_inner w') \<Longrightarrow> bw_epoch w \<le> bw_epoch w'"
    "before_request cfg now (bw_inner w) = Some (Inr p, bw_inner w') \<Longrightarrow> bw_epoch w \<le> bw_epoch w'" for now p
    by (auto simp: quiet_def bumped_def dest!: before_request_admitted split: if_splits)
qed

lemma epoch_mono_run: "breaker_run cfg es w = Some w' \<Longrightarrow> bw_epoch w \<le> bw_epoch w'"
proof (induction es arbitrary: w)
  case (Cons e es)
  then obtain w1 where "breaker_apply cfg e w = Some w1" "breaker_run cfg es w1 = Some w'" by (auto simp: bind_eq_Some_conv)
  with Cons.IH epoch_mono show ?case by (meson order_trans)
qed simp

lemma epoch_room: "breaker_run cfg es w = Some w' \<Longrightarrow> bw_epoch w' \<noteq> - 1 \<Longrightarrow> bw_epoch w \<noteq> - 1"
  using epoch_mono_run [of cfg es w w'] by (auto simp: word_order.extremum_unique)

definition breaker_inv :: "breaker_world \<Rightarrow> bool" where
  "breaker_inv w \<longleftrightarrow>
     (\<forall>p \<in> set (bw_issued w). cp_epoch p \<le> bw_epoch w) \<and>
     distinct (map cp_epoch (filter cp_probe (bw_issued w))) \<and>
     (case bw_state w of
        Closed \<Rightarrow> \<forall>p \<in> set (bw_issued w). cp_epoch p = bw_epoch w \<longrightarrow> \<not> cp_probe p
      | Open _ \<Rightarrow> \<forall>p \<in> set (bw_issued w). cp_epoch p \<noteq> bw_epoch w
      | ProbeInFlight _ \<Rightarrow> filter (\<lambda>p. cp_epoch p = bw_epoch w) (bw_issued w) = [\<lparr>cp_probe = True, cp_epoch = bw_epoch w\<rparr>])"

lemma breaker_inv_start: "breaker_inv breaker_start"
  by (simp add: breaker_inv_def breaker_start_def breaker_new_def)

lemma breaker_inv_apply:
  assumes inv: "breaker_inv w" and step: "breaker_apply cfg e w = Some w'" and room: "bw_epoch w \<noteq> - 1"
  shows "breaker_inv w'"
  using step
proof (cases rule: breaker_apply_cases)
  case report
  from report(2) show ?thesis
  proof
    assume "quiet (bw_inner w) (bw_inner w')"
    with inv report(1) show ?thesis
      by (auto simp: breaker_inv_def quiet_def split: circuit_state.splits)
  next
    assume bumped: "bumped (bw_inner w) (bw_inner w')"
    then have "cp_epoch p < bw_epoch w'" if "p \<in> set (bw_issued w)" for p
      using inv that epoch_next [OF room] by (auto simp: breaker_inv_def bumped_def)
    with inv bumped report(1) show ?thesis
      by (force simp: breaker_inv_def bumped_def state_in_flight_def split: circuit_state.splits)
  qed
next
  case (admitted now p)
  note adm = before_request_admitted [OF admitted(3)]
  show ?thesis
  proof (cases "bw_state w = Closed")
    case True
    with inv adm admitted(2) show ?thesis by (auto simp: breaker_inv_def)
  next
    case False
    with adm have fresh: "cp_epoch q < bw_epoch w'" if "q \<in> set (bw_issued w)" for q
      using inv that epoch_next [OF room] by (auto simp: breaker_inv_def)
    have "p = \<lparr>cp_probe = True, cp_epoch = bw_epoch w'\<rparr>" using adm False by (cases p) simp
    moreover have "filter (\<lambda>q. cp_epoch q = bw_epoch w') (bw_issued w) = []"
      using fresh by (force simp: filter_empty_conv)
    ultimately show ?thesis using inv adm False fresh admitted(2)
      by (force simp: breaker_inv_def)
  qed
qed

lemma breaker_inv_run:
  "breaker_run cfg es w = Some w' \<Longrightarrow> breaker_inv w \<Longrightarrow> bw_epoch w' \<noteq> - 1 \<Longrightarrow> breaker_inv w'"
proof (induction es arbitrary: w)
  case (Cons e es)
  then obtain w1 where "breaker_apply cfg e w = Some w1" "breaker_run cfg es w1 = Some w'" by (auto simp: bind_eq_Some_conv)
  moreover have "bw_epoch w \<noteq> - 1" using epoch_room Cons.prems(1,3) by blast
  ultimately show ?case using Cons.IH Cons.prems(2,3) breaker_inv_apply by blast
qed simp


section \<open>Panics\<close>

text \<open>An event whose instant leaves room for the configured durations and, for a rate limit, its own hint.\<close>

primrec in_range :: "circuit_breaker_config \<Rightarrow> breaker_event \<Rightarrow> bool" where
  "in_range cfg (Br_Request now) \<longleftrightarrow> now + cfg_probe_timeout cfg + cfg_max_open_for cfg < INSTANT_LIMIT"
| "in_range cfg (Br_Success p) \<longleftrightarrow> True"
| "in_range cfg (Br_RateLimited now hint p) \<longleftrightarrow> now + rh_applied_backoff hint < INSTANT_LIMIT"
| "in_range cfg (Br_Transient now p) \<longleftrightarrow> now + cfg_max_open_for cfg < INSTANT_LIMIT"
| "in_range cfg (Br_Cancel now p) \<longleftrightarrow> now + cfg_max_open_for cfg < INSTANT_LIMIT"

primrec permit_of :: "breaker_event \<Rightarrow> circuit_permit set" where
  "permit_of (Br_Request now) = {}"
| "permit_of (Br_Success p) = {p}"
| "permit_of (Br_RateLimited now hint p) = {p}"
| "permit_of (Br_Transient now p) = {p}"
| "permit_of (Br_Cancel now p) = {p}"

definition probe_in_range :: "circuit_breaker_config \<Rightarrow> circuit_inner \<Rightarrow> bool" where
  "probe_in_range cfg inner =
     (case ci_state inner of
        ProbeInFlight started \<Rightarrow> started + cfg_probe_timeout cfg + cfg_max_open_for cfg < INSTANT_LIMIT
      | _ \<Rightarrow> True)"

lemma hint_bounded_le: "rh_applied_backoff (hint_bounded a j m) \<le> m" "rh_retry_after (hint_bounded a j m) \<le> m"
  by (simp_all add: hint_bounded_def)

lemma hint_for_failures_le: "rh_applied_backoff (retry_hint_for_failures cfg n) \<le> cfg_max_open_for cfg"
  by (simp add: retry_hint_for_failures_def Let_def hint_bounded_le)

lemma open_from_Some:
  "now + rh_applied_backoff hint < INSTANT_LIMIT \<Longrightarrow> \<not> state_is_open (ci_state inner) \<Longrightarrow> \<exists>inner'. open_from now hint inner = Some inner'"
  by (auto simp: open_from_def instant_add_def open_until_def state_is_open_def split: circuit_state.splits)

lemma open_from_backoff:
  "now + cfg_max_open_for cfg < INSTANT_LIMIT \<Longrightarrow> \<not> state_is_open (ci_state inner) \<Longrightarrow>
   \<exists>inner'. open_from now (retry_hint_for_failures cfg n) inner = Some inner'"
  using hint_for_failures_le [of cfg n] by (intro open_from_Some) auto

lemma before_request_Some:
  assumes "probe_in_range cfg inner"
  shows "\<exists>r. before_request cfg now inner = Some r"
proof (cases "ci_state inner")
  case (ProbeInFlight started)
  let ?hint = "retry_hint_for_failures cfg (sat_add (ci_failures inner) 1)"
  have "started + cfg_probe_timeout cfg + rh_applied_backoff ?hint < INSTANT_LIMIT"
    using assms ProbeInFlight hint_for_failures_le [of cfg "sat_add (ci_failures inner) 1"] by (simp add: probe_in_range_def)
  then have "\<exists>r. probe_timed_out cfg now started inner = Some r"
    using ProbeInFlight by (simp add: probe_timed_out_def instant_add_def open_until_def Let_def)
  then show ?thesis using ProbeInFlight by (simp add: before_request_def Let_def)
qed (simp_all add: before_request_def Let_def)

lemma current_permit_not_open:
  "breaker_inv w \<Longrightarrow> p \<in> set (bw_issued w) \<Longrightarrow> cp_epoch p = bw_epoch w \<Longrightarrow> \<not> state_is_open (bw_state w)"
  by (auto simp: breaker_inv_def state_is_open_def split: circuit_state.splits)

lemma breaker_apply_Some:
  assumes inv: "breaker_inv w" and probe: "probe_in_range cfg (bw_inner w)"
    and e: "in_range cfg e" "permit_of e \<subseteq> set (bw_issued w)"
  shows "\<exists>w'. breaker_apply cfg e w = Some w'"
proof (cases e)
  case (Br_Request now)
  with before_request_Some [OF probe] show ?thesis by (auto split: prod.splits)
next
  case (Br_RateLimited now hint p)
  then have "\<exists>inner'. record_rate_limited now hint p (bw_inner w) = Some inner'"
    using e open_from_Some [of now hint "bw_inner w"] current_permit_not_open [OF inv, of p]
    by (auto simp: record_rate_limited_def instant_add_def split: circuit_state.splits)
  with Br_RateLimited e(2) show ?thesis by auto
next
  case (Br_Transient now p)
  then have "\<exists>inner'. record_transient_failure cfg now p (bw_inner w) = Some inner'"
    using e open_from_backoff [of now cfg "bw_inner w"]
    by (auto simp: record_transient_failure_def state_is_open_def Let_def split: circuit_state.splits)
  with Br_Transient e(2) show ?thesis by auto
next
  case (Br_Cancel now p)
  then have "\<exists>inner'. record_cancellation cfg now p (bw_inner w) = Some inner'"
    using e open_from_backoff [of now cfg "bw_inner w"]
    by (auto simp: record_cancellation_def state_is_open_def state_in_flight_def split: circuit_state.splits)
  with Br_Cancel e(2) show ?thesis by auto
qed (use e in auto)

lemma probe_in_range_apply:
  assumes "probe_in_range cfg (bw_inner w)" "in_range cfg e" "breaker_apply cfg e w = Some w'"
  shows "probe_in_range cfg (bw_inner w')"
  using assms(3)
proof (cases rule: breaker_apply_cases)
  case report
  with assms(1) show ?thesis
    by (auto simp: quiet_def bumped_def probe_in_range_def state_in_flight_def split: circuit_state.splits)
next
  case (admitted now p)
  with assms(1,2) before_request_admitted [OF admitted(3)] show ?thesis
    by (auto simp: probe_in_range_def split: if_splits)
qed

lemma probe_in_range_run:
  "breaker_run cfg es w = Some w' \<Longrightarrow> probe_in_range cfg (bw_inner w) \<Longrightarrow> list_all (in_range cfg) es \<Longrightarrow>
   probe_in_range cfg (bw_inner w')"
  by (induction es arbitrary: w) (auto simp: bind_eq_Some_conv intro: probe_in_range_apply)

lemma open_apply:
  assumes "bw_state w = Open until" "breaker_apply cfg e w = Some w'" "\<And>now. e = Br_Request now \<Longrightarrow> now < until"
  shows "\<exists>until'. bw_state w' = Open until' \<and> until \<le> until' \<and> bw_issued w' = bw_issued w"
  using assms(2)
proof (cases rule: breaker_apply_cases)
  case report
  with assms(1) show ?thesis by (auto simp: quiet_def bumped_def state_is_open_def)
next
  case (admitted now p)
  with assms(1) assms(3) [of now] before_request_admitted [OF admitted(3)] show ?thesis by auto
qed

lemma open_run:
  "bw_state w = Open until \<Longrightarrow> breaker_run cfg es w = Some w' \<Longrightarrow> (\<And>now. Br_Request now \<in> set es \<Longrightarrow> now < until) \<Longrightarrow>
   \<exists>until'. bw_state w' = Open until' \<and> until \<le> until' \<and> bw_issued w' = bw_issued w"
proof (induction es arbitrary: w until)
  case (Cons e es)
  then obtain w1 where step: "breaker_apply cfg e w = Some w1" "breaker_run cfg es w1 = Some w'"
    by (auto simp: bind_eq_Some_conv)
  obtain until1 where one: "bw_state w1 = Open until1" "until \<le> until1" "bw_issued w1 = bw_issued w"
    using open_apply [OF Cons.prems(1) step(1)] Cons.prems(3) by auto
  then have "\<And>now. Br_Request now \<in> set es \<Longrightarrow> now < until1" using Cons.prems(3) by (meson less_le_trans list.set_intros(2))
  from Cons.IH [OF one(1) step(2) this] one show ?case by (auto intro: order_trans)
qed auto


section \<open>Properties\<close>


text \<open>A rate-limited request opens the circuit for five nanoseconds; a later request is the probe.\<close>

definition sample_hint :: retry_hint where
  "sample_hint = \<lparr>rh_retry_after = 5, rh_applied_backoff = 5\<rparr>"

definition first_permit :: circuit_permit where
  "first_permit = \<lparr>cp_probe = False, cp_epoch = 0\<rparr>"

definition tripping :: "breaker_event list" where
  "tripping = [Br_Request 0, Br_RateLimited 0 sample_hint first_permit]"

definition opened :: breaker_world where
  "opened = \<lparr>bw_inner = \<lparr>ci_state = Open 5, ci_epoch = 1, ci_failures = 1, ci_last_hint = Some sample_hint\<rparr>,
     bw_issued = [first_permit]\<rparr>"

lemma sample_epochs: "sat_add (0::u64) 1 = 1" "sat_add (1::u64) 1 = 2" "sat_add (0::u32) 1 = 1"
  by (simp_all add: sat_add_def)

lemma tripping_run: "breaker_run cfg tripping breaker_start = Some opened"
  by (simp add: tripping_def breaker_start_def breaker_new_def before_request_def record_rate_limited_def open_from_def
      open_until_def instant_add_def INSTANT_LIMIT_def with_inner_def first_permit_def sample_hint_def opened_def
      state_in_flight_def sample_epochs)

lemma probing_run:
  "breaker_run default_config (tripping @ [Br_Request 10]) breaker_start =
     Some \<lparr>bw_inner = (bw_inner opened)\<lparr>ci_epoch := 2, ci_state := ProbeInFlight 10\<rparr>,
           bw_issued = [first_permit, \<lparr>cp_probe = True, cp_epoch = 2\<rparr>]\<rparr>"
proof -
  show ?thesis unfolding breaker_run_append tripping_run
    by (simp add: opened_def before_request_def start_probe_def Let_def sample_epochs)
qed


text \<open>The open window is respected, and ends. From any open state, whatever reports arrive and however stale
  they are, as long as no request comes at or after the end of the window, nothing is admitted, and the circuit is
  still open with a window that has not become shorter. The first request at or after the end of the
  resulting window is admitted as a probe, and the success of that probe closes the circuit with no failures.\<close>

theorem open_window_respected:
  assumes "bw_state w = Open until" "breaker_run cfg es w = Some w'" "\<forall>now. Br_Request now \<in> set es \<longrightarrow> now < until"
  shows "\<exists>until'. bw_state w' = Open until' \<and> until \<le> until' \<and> bw_issued w' = bw_issued w \<and>
    (\<forall>now \<ge> until'. \<exists>p inner. before_request cfg now (bw_inner w') = Some (Inr p, inner) \<and> cp_probe p \<and>
       ci_state inner = ProbeInFlight now \<and>
       ci_state (record_success p inner) = Closed \<and> ci_failures (record_success p inner) = 0)"
proof -
  obtain until' where window: "bw_state w' = Open until'" "until \<le> until'" "bw_issued w' = bw_issued w"
    using open_run [OF assms(1,2)] assms(3) by blast
  then have "\<exists>p inner. before_request cfg now (bw_inner w') = Some (Inr p, inner) \<and> cp_probe p \<and>
       ci_state inner = ProbeInFlight now \<and> ci_state (record_success p inner) = Closed \<and> ci_failures (record_success p inner) = 0"
    if "until' \<le> now" for now
    using that
    by (simp add: before_request_def start_probe_def Let_def record_success_def state_is_open_def)
  with window show ?thesis by blast
qed

theorem open_window_respected_witness:
  "\<exists>until' w'. breaker_run default_config [Br_RateLimited 3 sample_hint first_permit, Br_Request 4] opened = Some w' \<and>
     bw_state w' = Open until' \<and> 5 \<le> until' \<and> bw_issued w' = [first_permit]"
proof -
  let ?es = "[Br_RateLimited 3 sample_hint first_permit, Br_Request 4]"
  have "\<exists>w'. breaker_run default_config ?es opened = Some w'"
    by (simp add: opened_def first_permit_def record_rate_limited_def instant_add_def INSTANT_LIMIT_def sample_hint_def
        with_inner_def before_request_def Let_def)
  then obtain w' where run: "breaker_run default_config ?es opened = Some w'" by blast
  have "bw_state opened = Open 5" "bw_issued opened = [first_permit]" by (simp_all add: opened_def)
  with open_window_respected [OF this(1) run] run show ?thesis by auto
qed

end
