(* ===== verification/Byte_Streams.thy ===== *)
theory Byte_Streams
  imports Provider_Errors
begin

text \<open>
  What the two kinds of peer session of \<open>d2b-realm-router\<close> share: the byte stream below them, its framing, and
  the frame codec above them, a parameter of the sessions in the source, too. A byte stream is the bytes that will
  still arrive, the bytes written so far, and the error kinds the operating system reports: at the end of
  input, on writing once a number of further bytes are out, and on flushing.
\<close>

section \<open>Streams\<close>

definition MAX_FRAME_BYTES :: nat where
  "MAX_FRAME_BYTES = 1024 * 1024"

definition PROTOCOL_VERSION :: u32 where
  "PROTOCOL_VERSION = 1"

record byte_stream =
  bs_in :: string
  bs_out :: string
  bs_end :: string
  bs_write_error :: "(nat \<times> string) option"
  bs_flush_error :: "string option"

definition read_exact :: "nat \<Rightarrow> byte_stream \<Rightarrow> (string + string) \<times> byte_stream" where
  "read_exact n s =
     (if n \<le> length (bs_in s) then (Inr (take n (bs_in s)), s\<lparr>bs_in := drop n (bs_in s)\<rparr>)
      else (Inl (bs_end s), s\<lparr>bs_in := []\<rparr>))"

primrec from_le_bytes :: "string \<Rightarrow> nat" where
  "from_le_bytes [] = 0"
| "from_le_bytes (c # cs) = of_char c + 256 * from_le_bytes cs"

definition write_all :: "string \<Rightarrow> byte_stream \<Rightarrow> (string + unit) \<times> byte_stream" where
  "write_all bytes s =
     (case bs_write_error s of
        None \<Rightarrow> (Inr (), s\<lparr>bs_out := bs_out s @ bytes\<rparr>)
      | Some (n, kind) \<Rightarrow>
          if length bytes \<le> n
          then (Inr (), s\<lparr>bs_out := bs_out s @ bytes, bs_write_error := Some (n - length bytes, kind)\<rparr>)
          else (Inl kind, s\<lparr>bs_out := bs_out s @ take n bytes, bs_write_error := Some (0, kind)\<rparr>))"

definition duplex :: "string \<Rightarrow> byte_stream" where
  "duplex bytes =
     \<lparr>bs_in = bytes, bs_out = [], bs_end = ''unexpected end of file'', bs_write_error = None, bs_flush_error = None\<rparr>"


section \<open>Codecs and tokens\<close>

record protocol_codec =
  cd_codec_id :: string
  cd_schema_fingerprint :: string
  cd_encode :: "constellation_frame \<Rightarrow> constellation_error + string"
  cd_decode :: "string \<Rightarrow> constellation_error + constellation_frame"

text \<open>What is encoded decodes.\<close>

definition codec_correct :: "protocol_codec \<Rightarrow> bool" where
  "codec_correct codec \<longleftrightarrow> (\<forall>f p. cd_encode codec f = Inr p \<longrightarrow> cd_decode codec p = Inr f)"

primrec token_error_text :: "token_error \<Rightarrow> string" where
  "token_error_text Token_Empty = ''protocol token is empty''"
| "token_error_text Token_TooLong = ''protocol token exceeds 64 bytes''"
| "token_error_text Token_BadShape = ''protocol token has an invalid shape''"

definition parse_token :: "string \<Rightarrow> string \<Rightarrow> provider_error + protocol_token" where
  "parse_token what raw =
     (case protocol_token_parse raw of
        Inl e \<Rightarrow> Inl (provider_error_new Err_MalformedFrame (what @ '': '' @ token_error_text e))
      | Inr t \<Rightarrow> Inr t)"


section \<open>Framing\<close>

text \<open>A stream on which every write succeeds.\<close>

definition healthy :: "byte_stream \<Rightarrow> bool" where
  "healthy s \<longleftrightarrow> bs_write_error s = None \<and> bs_flush_error s = None"

definition framed :: "string \<Rightarrow> string" where
  "framed payload = le_bytes 4 (length payload) @ payload"

lemma from_le_bytes_le_bytes: "n < 256 ^ k \<Longrightarrow> from_le_bytes (le_bytes k n) = n"
proof (induction k arbitrary: n)
  case (Suc k)
  have "n div 256 < 256 ^ k" using Suc.prems by (simp add: less_mult_imp_div_less mult.commute)
  with Suc.IH show ?case by (simp add: take_bit_eq_mod)
qed simp

lemma read_framed:
  assumes "length payload \<le> MAX_FRAME_BYTES" "bs_in s = framed payload @ rest"
  shows "read_exact 4 s = (Inr (le_bytes 4 (length payload)), s\<lparr>bs_in := payload @ rest\<rparr>)"
    "from_le_bytes (le_bytes 4 (length payload)) = length payload"
    "read_exact (length payload) (s\<lparr>bs_in := payload @ rest\<rparr>) = (Inr payload, s\<lparr>bs_in := rest\<rparr>)"
proof -
  have "length payload < 256 ^ 4" using assms(1) by (simp add: MAX_FRAME_BYTES_def)
  then show "from_le_bytes (le_bytes 4 (length payload)) = length payload" by (rule from_le_bytes_le_bytes)
  show "read_exact 4 s = (Inr (le_bytes 4 (length payload)), s\<lparr>bs_in := payload @ rest\<rparr>)"
    by (simp add: read_exact_def assms(2) framed_def)
  show "read_exact (length payload) (s\<lparr>bs_in := payload @ rest\<rparr>) = (Inr payload, s\<lparr>bs_in := rest\<rparr>)"
    by (simp add: read_exact_def)
qed

lemma duplex_simps [simp]: "healthy (duplex x)" "bs_out (duplex x) = []" "bs_in (duplex x) = x" "(duplex x)\<lparr>bs_in := y\<rparr> = duplex y"
  by (simp_all add: duplex_def healthy_def)

lemma duplex_swap: "(duplex x)\<lparr>bs_out := y, bs_in := z\<rparr> = (duplex z)\<lparr>bs_out := y\<rparr>"
  by (simp add: duplex_def)

end
