(* ===== verification/Secure_Session.thy ===== *)
theory Secure_Session
  imports Byte_Streams "HOL-Library.Sublist"
begin

text \<open>
  The authenticated and encrypted peer session \<open>d2b-realm-router/src/secure_session.rs\<close>: a mutual handshake over
  hellos that carry a MAC, and sealed, length-prefixed frames under directional keys and counter nonces.

  HMAC-SHA256, SHA-256, ChaCha20-Poly1305, the frame codec and the JSON form of a hello are parameters. Keys,
  nonces and MACs are strings of 32 bytes.
\<close>

section \<open>Parameters\<close>

record crypto =
  cr_hmac :: "string \<Rightarrow> string \<Rightarrow> string"
  cr_sha256 :: "string \<Rightarrow> string"
  cr_encrypt :: "string \<Rightarrow> string \<Rightarrow> string \<Rightarrow> string option"
  cr_decrypt :: "string \<Rightarrow> string \<Rightarrow> string \<Rightarrow> string option"

record secure_peer_identity =
  spi_realm :: realm_path
  spi_principal :: principal_id
  spi_node :: node_id

record hello =
  hl_version :: u32
  hl_codec_id :: protocol_token
  hl_schema_fingerprint :: protocol_token
  hl_identity :: secure_peer_identity
  hl_nonce :: string
  hl_mac :: string

record hello_json =
  js_render :: "hello \<Rightarrow> string + string"
  js_parse :: "string \<Rightarrow> string + hello"


section \<open>Framing\<close>

definition write_plain :: "string \<Rightarrow> byte_stream \<Rightarrow> (provider_error + unit) \<times> byte_stream" where
  "write_plain payload s =
     (if MAX_FRAME_BYTES < length payload
      then (Inl (provider_error_new Err_FrameTooLarge ''secure-session frame exceeds cap''), s)
      else case write_all (le_bytes 4 (length payload)) s of
        (Inl kind, s1) \<Rightarrow> (Inl (provider_error_new Err_GatewayUnavailable kind), s1)
      | (Inr _, s1) \<Rightarrow>
          (case write_all payload s1 of
             (Inl kind, s2) \<Rightarrow> (Inl (provider_error_new Err_GatewayUnavailable kind), s2)
           | (Inr _, s2) \<Rightarrow>
               (case bs_flush_error s2 of
                  Some kind \<Rightarrow> (Inl (provider_error_new Err_GatewayUnavailable kind), s2)
                | None \<Rightarrow> (Inr (), s2))))"

definition read_plain :: "byte_stream \<Rightarrow> (provider_error + string) \<times> byte_stream" where
  "read_plain s =
     (case read_exact 4 s of
        (Inl kind, s1) \<Rightarrow> (Inl (provider_error_new Err_GatewayUnavailable kind), s1)
      | (Inr len, s1) \<Rightarrow>
          if MAX_FRAME_BYTES < from_le_bytes len
          then (Inl (provider_error_new Err_FrameTooLarge ''secure-session declared frame exceeds cap''), s1)
          else case read_exact (from_le_bytes len) s1 of
            (Inl kind, s2) \<Rightarrow> (Inl (provider_error_new Err_MalformedFrame (''truncated: '' @ kind)), s2)
          | (Inr body, s2) \<Rightarrow> (Inr body, s2))"


section \<open>Hellos and keys\<close>

definition mac_update_field :: "string \<Rightarrow> string" where
  "mac_update_field field = be_bytes 8 (length field) @ field"

definition mac_input :: "string \<Rightarrow> hello \<Rightarrow> string \<Rightarrow> string" where
  "mac_input label h peer_nonce =
     mac_update_field label @
     mac_update_field (be_bytes 4 (unat (hl_version h))) @
     mac_update_field (hl_codec_id h) @
     mac_update_field (hl_schema_fingerprint h) @
     mac_update_field (target_form (spi_realm (hl_identity h))) @
     mac_update_field (spi_principal (hl_identity h)) @
     mac_update_field (spi_node (hl_identity h)) @
     mac_update_field (hl_nonce h) @
     mac_update_field peer_nonce"

definition mac_hello :: "crypto \<Rightarrow> string \<Rightarrow> string \<Rightarrow> hello \<Rightarrow> string \<Rightarrow> string" where
  "mac_hello cr label key h peer_nonce = cr_hmac cr key (mac_input label h peer_nonce)"

definition make_hello ::
    "crypto \<Rightarrow> string \<Rightarrow> string \<Rightarrow> string \<Rightarrow> string \<Rightarrow> secure_peer_identity \<Rightarrow> string \<Rightarrow> string \<Rightarrow> provider_error + hello" where
  "make_hello cr label key codec schema identity nonce peer_nonce =
     bind_result (parse_token ''codec id'' codec) (\<lambda>codec_token.
     bind_result (parse_token ''schema fingerprint'' schema) (\<lambda>schema_token.
       let h = \<lparr>hl_version = PROTOCOL_VERSION, hl_codec_id = codec_token, hl_schema_fingerprint = schema_token,
                hl_identity = identity, hl_nonce = nonce, hl_mac = replicate 32 (char_of (0::nat))\<rparr>
       in Inr (h\<lparr>hl_mac := mac_hello cr label key h peer_nonce\<rparr>)))"

definition verify_hello ::
    "crypto \<Rightarrow> string \<Rightarrow> string \<Rightarrow> string \<Rightarrow> string \<Rightarrow> hello \<Rightarrow> secure_peer_identity \<Rightarrow> string \<Rightarrow> provider_error + unit" where
  "verify_hello cr label key codec schema h expected_identity peer_nonce =
     (if hl_version h \<noteq> PROTOCOL_VERSION \<or> hl_codec_id h \<noteq> codec \<or> hl_schema_fingerprint h \<noteq> schema \<or>
         hl_identity h \<noteq> expected_identity
      then Inl (provider_error_new Err_AuthenticationFailed ''secure-session hello binding mismatch'')
      else if mac_hello cr label key h peer_nonce \<noteq> hl_mac h
      then Inl (provider_error_new Err_AuthenticationFailed ''secure-session hello MAC mismatch'')
      else Inr ())"

definition derive_key :: "crypto \<Rightarrow> string \<Rightarrow> string \<Rightarrow> string \<Rightarrow> string \<Rightarrow> string" where
  "derive_key cr key label c s = cr_sha256 cr (key @ label @ c @ s)"

definition seq_nonce :: "u64 \<Rightarrow> u8 \<Rightarrow> string" where
  "seq_nonce seq tag = replicate 3 (char_of (0::nat)) @ [char_of (unat tag)] @ be_bytes 8 (unat seq)"


section \<open>Sessions\<close>

datatype session_role = Client_Role | Server_Role

record secure_session =
  ss_stream :: byte_stream
  ss_tx :: string
  ss_rx :: string
  ss_tx_nonce_tag :: u8
  ss_rx_nonce_tag :: u8
  ss_tx_seq :: u64
  ss_rx_seq :: u64
  ss_remote :: secure_peer_identity

definition new_encrypted ::
    "crypto \<Rightarrow> byte_stream \<Rightarrow> string \<Rightarrow> string \<Rightarrow> string \<Rightarrow> secure_peer_identity \<Rightarrow> session_role \<Rightarrow> secure_session" where
  "new_encrypted cr stream key client_nonce server_nonce remote role =
     (let client_tx = derive_key cr key ''client-tx'' client_nonce server_nonce;
          server_tx = derive_key cr key ''server-tx'' client_nonce server_nonce;
          (tx_key, rx_key, tx_tag, rx_tag) =
            (case role of Client_Role \<Rightarrow> (client_tx, server_tx, 1, 2) | Server_Role \<Rightarrow> (server_tx, client_tx, 2, 1))
      in \<lparr>ss_stream = stream, ss_tx = tx_key, ss_rx = rx_key, ss_tx_nonce_tag = tx_tag, ss_rx_nonce_tag = rx_tag,
          ss_tx_seq = 0, ss_rx_seq = 0, ss_remote = remote\<rparr>)"

text \<open>\<open>connect\<close>, up to the point where it waits for the server's hello, and from there on.\<close>

definition connect_begin ::
    "crypto \<Rightarrow> protocol_codec \<Rightarrow> hello_json \<Rightarrow> string \<Rightarrow> secure_peer_identity \<Rightarrow> string \<Rightarrow> byte_stream \<Rightarrow>
     provider_error + hello \<times> byte_stream" where
  "connect_begin cr codec js key self client_nonce stream =
     bind_result (make_hello cr ''client'' key (cd_codec_id codec) (cd_schema_fingerprint codec) self client_nonce [])
       (\<lambda>client.
          case js_render js client of
            Inl e \<Rightarrow> Inl (provider_error_new Err_MalformedFrame e)
          | Inr bytes \<Rightarrow>
              (case write_plain bytes stream of
                 (Inl e, _) \<Rightarrow> Inl e
               | (Inr _, stream') \<Rightarrow> Inr (client, stream')))"

definition connect_finish ::
    "crypto \<Rightarrow> protocol_codec \<Rightarrow> hello_json \<Rightarrow> string \<Rightarrow> secure_peer_identity \<Rightarrow> hello \<Rightarrow> byte_stream \<Rightarrow>
     provider_error + secure_session" where
  "connect_finish cr codec js key expected_remote client stream =
     (case read_plain stream of
        (Inl e, _) \<Rightarrow> Inl e
      | (Inr bytes, stream') \<Rightarrow>
          (case js_parse js bytes of
             Inl e \<Rightarrow> Inl (provider_error_new Err_MalformedFrame e)
           | Inr server \<Rightarrow>
               bind_result
                 (verify_hello cr ''server'' key (cd_codec_id codec) (cd_schema_fingerprint codec) server expected_remote
                    (hl_nonce client))
                 (\<lambda>_. Inr (new_encrypted cr stream' key (hl_nonce client) (hl_nonce server) expected_remote Client_Role))))"

definition connect ::
    "crypto \<Rightarrow> protocol_codec \<Rightarrow> hello_json \<Rightarrow> string \<Rightarrow> secure_peer_identity \<Rightarrow> secure_peer_identity \<Rightarrow> string \<Rightarrow>
     byte_stream \<Rightarrow> provider_error + secure_session" where
  "connect cr codec js key self expected_remote client_nonce stream =
     bind_result (connect_begin cr codec js key self client_nonce stream)
       (\<lambda>(client, stream'). connect_finish cr codec js key expected_remote client stream')"

text \<open>\<open>accept\<close>, with the nonces the replay guard has seen.\<close>

definition claim_nonce :: "string \<Rightarrow> string btset \<Rightarrow> bool \<times> string btset" where
  "claim_nonce nonce seen = (\<not> bt_contains seen nonce, bt_insert nonce () seen)"

definition accept ::
    "crypto \<Rightarrow> protocol_codec \<Rightarrow> hello_json \<Rightarrow> string \<Rightarrow> secure_peer_identity \<Rightarrow> secure_peer_identity \<Rightarrow> string \<Rightarrow>
     byte_stream \<Rightarrow> string btset \<Rightarrow> (provider_error + secure_session) \<times> string btset" where
  "accept cr codec js key self expected_remote server_nonce stream seen =
     (case read_plain stream of
        (Inl e, _) \<Rightarrow> (Inl e, seen)
      | (Inr bytes, stream') \<Rightarrow>
          (case js_parse js bytes of
             Inl e \<Rightarrow> (Inl (provider_error_new Err_MalformedFrame e), seen)
           | Inr client \<Rightarrow>
               (case verify_hello cr ''client'' key (cd_codec_id codec) (cd_schema_fingerprint codec) client expected_remote [] of
                  Inl e \<Rightarrow> (Inl e, seen)
                | Inr _ \<Rightarrow>
                    (case claim_nonce (hl_nonce client) seen of
                       (False, seen') \<Rightarrow>
                         (Inl (provider_error_new Err_AuthenticationFailed ''secure-session client nonce replayed''), seen')
                     | (True, seen') \<Rightarrow>
                         (bind_result
                            (make_hello cr ''server'' key (cd_codec_id codec) (cd_schema_fingerprint codec) self server_nonce
                               (hl_nonce client))
                            (\<lambda>server.
                               case js_render js server of
                                 Inl e \<Rightarrow> Inl (provider_error_new Err_MalformedFrame e)
                               | Inr reply \<Rightarrow>
                                   (case write_plain reply stream' of
                                      (Inl e, _) \<Rightarrow> Inl e
                                    | (Inr _, stream'') \<Rightarrow>
                                        Inr (new_encrypted cr stream'' key (hl_nonce client) (hl_nonce server)
                                          expected_remote Server_Role))),
                          seen')))))"

definition secure_send ::
    "crypto \<Rightarrow> protocol_codec \<Rightarrow> constellation_frame \<Rightarrow> secure_session \<Rightarrow> (provider_error + unit) \<times> secure_session" where
  "secure_send cr codec frame s =
     (case cd_encode codec frame of
        Inl e \<Rightarrow> (Inl (provider_error_from e), s)
      | Inr plain \<Rightarrow>
          (let nonce = seq_nonce (ss_tx_seq s) (ss_tx_nonce_tag s); s1 = s\<lparr>ss_tx_seq := ss_tx_seq s + 1\<rparr> in
           case cr_encrypt cr (ss_tx s) nonce plain of
             None \<Rightarrow> (Inl (provider_error_new Err_AuthenticationFailed ''encrypt failed''), s1)
           | Some cipher \<Rightarrow>
               (case write_plain cipher (ss_stream s1) of (r, stream') \<Rightarrow> (r, s1\<lparr>ss_stream := stream'\<rparr>))))"

definition secure_recv ::
    "crypto \<Rightarrow> protocol_codec \<Rightarrow> secure_session \<Rightarrow> (provider_error + constellation_frame) \<times> secure_session" where
  "secure_recv cr codec s =
     (case read_plain (ss_stream s) of
        (Inl e, stream') \<Rightarrow> (Inl e, s\<lparr>ss_stream := stream'\<rparr>)
      | (Inr cipher, stream') \<Rightarrow>
          (let nonce = seq_nonce (ss_rx_seq s) (ss_rx_nonce_tag s);
               s1 = s\<lparr>ss_stream := stream', ss_rx_seq := ss_rx_seq s + 1\<rparr>
           in case cr_decrypt cr (ss_rx s) nonce cipher of
             None \<Rightarrow> (Inl (provider_error_new Err_AuthenticationFailed ''decrypt failed''), s1)
           | Some plain \<Rightarrow>
               (case cd_decode codec plain of
                  Inl e \<Rightarrow> (Inl (provider_error_from e), s1)
                | Inr frame \<Rightarrow> (Inr frame, s1))))"


section \<open>Framing laws\<close>

lemma read_plain_framed:
  assumes "length payload \<le> MAX_FRAME_BYTES" "bs_in s = framed payload @ rest"
  shows "read_plain s = (Inr payload, s\<lparr>bs_in := rest\<rparr>)"
  using assms(1) by (simp add: read_plain_def read_framed [OF assms])

lemma write_plain_healthy:
  "healthy s \<Longrightarrow> length payload \<le> MAX_FRAME_BYTES \<Longrightarrow>
   write_plain payload s = (Inr (), s\<lparr>bs_out := bs_out s @ framed payload\<rparr>)"
  by (simp add: write_plain_def write_all_def healthy_def framed_def)

lemma write_plain_Inr:
  assumes "write_plain payload s = (Inr u, s')"
  shows "length payload \<le> MAX_FRAME_BYTES \<and> bs_out s' = bs_out s @ framed payload \<and> bs_in s' = bs_in s"
  using assms
  by (auto simp: write_plain_def write_all_def framed_def split: if_splits option.splits)

text \<open>What is read is bounded by the cap and stands, as is, in the input.\<close>

lemma read_plain_sublist:
  assumes "read_plain s = (Inr payload, s')"
  shows "length payload \<le> MAX_FRAME_BYTES \<and> (\<exists>pre. bs_in s = pre @ payload @ bs_in s')"
proof -
  obtain len s1 where len: "read_exact 4 s = (Inr len, s1)"
    using assms by (auto simp: read_plain_def split: prod.splits sum.splits)
  then have body: "from_le_bytes len \<le> MAX_FRAME_BYTES" "read_exact (from_le_bytes len) s1 = (Inr payload, s')"
    using assms by (auto simp: read_plain_def split: if_splits prod.splits sum.splits)
  have "bs_in s = len @ bs_in s1"
    using len by (auto simp: read_exact_def split: if_splits)
  moreover have "bs_in s1 = payload @ bs_in s' \<and> length payload = from_le_bytes len"
    using body(2) by (auto simp: read_exact_def split: if_splits)
  ultimately show ?thesis using body(1) by simp
qed

lemma read_plain_suffix: "\<exists>pre. bs_in s = pre @ bs_in (snd (read_plain s))"
proof -
  have exact: "\<exists>pre. bs_in t = pre @ bs_in (snd (read_exact n t))" for n t
  proof (cases "n \<le> length (bs_in t)")
    case True
    then have "bs_in t = take n (bs_in t) @ bs_in (snd (read_exact n t))" by (simp add: read_exact_def)
    then show ?thesis ..
  qed (simp add: read_exact_def)
  obtain r s1 where first: "read_exact 4 s = (r, s1)" by fastforce
  with exact [of s 4] obtain pre where pre: "bs_in s = pre @ bs_in s1" by auto
  have "snd (read_plain s) = s1 \<or> (\<exists>n. snd (read_plain s) = snd (read_exact n s1))"
    by (cases r) (auto simp: read_plain_def first Let_def split: sum.splits prod.splits, (metis snd_conv)+)
  then show ?thesis using pre exact [of s1] by (metis append.assoc)
qed


section \<open>Nonces and MAC inputs\<close>

lemma length_seq_nonce [simp]: "length (seq_nonce seq tag) = 12"
  by (simp add: seq_nonce_def)

lemma seq_nonce_inject: "seq_nonce a t = seq_nonce b t \<longleftrightarrow> a = b"
proof -
  have bound: "unat c < 256 ^ 8" for c :: u64
    by (rule less_le_trans [OF unsigned_less]) simp
  show ?thesis by (simp add: seq_nonce_def be_bytes_inject [OF bound bound] flip: word_unat_eq_iff)
qed

lemma mac_update_field_inject:
  assumes "length v < 2 ^ 64" "length w < 2 ^ 64"
  shows "mac_update_field v @ xs = mac_update_field w @ ys \<longleftrightarrow> v = w \<and> xs = ys"
proof
  assume "mac_update_field v @ xs = mac_update_field w @ ys"
  then have "be_bytes 8 (length v) = be_bytes 8 (length w)" "v @ xs = w @ ys"
    by (simp_all add: mac_update_field_def append_eq_append_conv)
  moreover from this(1) have "length v = length w"
    using assms be_bytes_inject [of "length v" 8 "length w"] by simp
  ultimately show "v = w \<and> xs = ys" by simp
qed simp


text \<open>A hello up to its MAC, and the strings the MAC covers as the type bounds them.\<close>

definition hello_bounded :: "hello \<Rightarrow> bool" where
  "hello_bounded h \<longleftrightarrow>
     length (hl_codec_id h) < 2 ^ 64 \<and> length (hl_schema_fingerprint h) < 2 ^ 64 \<and>
     length (spi_principal (hl_identity h)) < 2 ^ 64 \<and> length (spi_node (hl_identity h)) < 2 ^ 64 \<and>
     length (hl_nonce h) < 2 ^ 64"

lemma mac_u32_inject:
  "mac_update_field (be_bytes 4 (unat a)) @ xs = mac_update_field (be_bytes 4 (unat b)) @ ys \<longleftrightarrow> a = b \<and> xs = ys"
  for a b :: u32
proof -
  have bound: "unat c < 256 ^ 4" for c :: u32
    by (rule less_le_trans [OF unsigned_less]) simp
  have "mac_update_field (be_bytes 4 (unat a)) @ xs = mac_update_field (be_bytes 4 (unat b)) @ ys \<longleftrightarrow>
      be_bytes 4 (unat a) = be_bytes 4 (unat b) \<and> xs = ys"
    by (rule mac_update_field_inject) simp_all
  then show ?thesis by (simp add: be_bytes_inject [OF bound bound] flip: word_unat_eq_iff)
qed

lemma mac_realm_inject:
  "mac_update_field (target_form p) @ xs = mac_update_field (target_form q) @ ys \<longleftrightarrow> p = q \<and> xs = ys"
proof -
  have "length (target_form r) < 2 ^ 64" for r using length_forms(1) [of r] by simp
  then show ?thesis by (simp add: mac_update_field_inject target_form_inject)
qed

lemma same_hello_iff:
  "g\<lparr>hl_mac := []\<rparr> = h\<lparr>hl_mac := []\<rparr> \<longleftrightarrow>
     hl_version g = hl_version h \<and> hl_codec_id g = hl_codec_id h \<and> hl_schema_fingerprint g = hl_schema_fingerprint h \<and>
     spi_realm (hl_identity g) = spi_realm (hl_identity h) \<and> spi_principal (hl_identity g) = spi_principal (hl_identity h) \<and>
     spi_node (hl_identity g) = spi_node (hl_identity h) \<and> hl_nonce g = hl_nonce h"
  for g h :: hello
proof -
  have "hl_identity g = hl_identity h \<longleftrightarrow>
      spi_realm (hl_identity g) = spi_realm (hl_identity h) \<and> spi_principal (hl_identity g) = spi_principal (hl_identity h) \<and>
      spi_node (hl_identity g) = spi_node (hl_identity h)"
    by (cases "hl_identity g"; cases "hl_identity h") simp
  then show ?thesis by (cases g; cases h) auto
qed

lemma mac_input_inject:
  assumes "hello_bounded g" "hello_bounded h" "length l < 2 ^ 64" "length m < 2 ^ 64" "length x < 2 ^ 64" "length y < 2 ^ 64"
  shows "mac_input l g x = mac_input m h y \<longleftrightarrow> l = m \<and> g\<lparr>hl_mac := []\<rparr> = h\<lparr>hl_mac := []\<rparr> \<and> x = y"
proof -
  have last: "mac_update_field x = mac_update_field y \<longleftrightarrow> x = y"
    using mac_update_field_inject [OF assms(5,6), of "[]" "[]"] by simp
  show ?thesis
    using assms unfolding mac_input_def hello_bounded_def
    by (simp add: same_hello_iff mac_update_field_inject mac_u32_inject mac_realm_inject last)
qed


section \<open>Laws of the parameters\<close>

text \<open>What is sealed opens, what is encoded decodes, and a rendered hello parses.\<close>

definition aead_correct :: "crypto \<Rightarrow> bool" where
  "aead_correct cr \<longleftrightarrow> (\<forall>k n p c. cr_encrypt cr k n p = Some c \<longrightarrow> cr_decrypt cr k n c = Some p)"

definition json_correct :: "hello_json \<Rightarrow> bool" where
  "json_correct js \<longleftrightarrow> (\<forall>h b. js_render js h = Inr b \<longrightarrow> js_parse js b = Inr h)"

text \<open>
  Authenticity of the cipher on an input: every ciphertext that stands in the input and opens under a nonce is
  in the log of what the peer sealed, with that nonce and that plaintext.
\<close>

definition unforged :: "crypto \<Rightarrow> string \<Rightarrow> (string \<times> string \<times> string) list \<Rightarrow> string \<Rightarrow> bool" where
  "unforged cr key log bytes \<longleftrightarrow>
     (\<forall>n c p. sublist c bytes \<and> cr_decrypt cr key n c = Some p \<longrightarrow> (n, p, c) \<in> set log)"

lemma unforged_suffix: "unforged cr key log (pre @ bytes) \<Longrightarrow> unforged cr key log bytes"
  unfolding unforged_def by (auto simp: sublist_append)


section \<open>Runs of a session\<close>

primrec send_all ::
    "crypto \<Rightarrow> protocol_codec \<Rightarrow> constellation_frame list \<Rightarrow> secure_session \<Rightarrow> (provider_error + unit) \<times> secure_session" where
  "send_all cr codec [] s = (Inr (), s)"
| "send_all cr codec (f # fs) s =
     (case secure_send cr codec f s of
        (Inl e, s') \<Rightarrow> (Inl e, s')
      | (Inr _, s') \<Rightarrow> send_all cr codec fs s')"

primrec recv_run ::
    "crypto \<Rightarrow> protocol_codec \<Rightarrow> nat \<Rightarrow> secure_session \<Rightarrow> (provider_error + constellation_frame) list \<times> secure_session" where
  "recv_run cr codec 0 s = ([], s)"
| "recv_run cr codec (Suc n) s =
     (case secure_recv cr codec s of (r, s1) \<Rightarrow> (case recv_run cr codec n s1 of (rs, s2) \<Rightarrow> (r # rs, s2)))"

primrec received :: "(provider_error + constellation_frame) list \<Rightarrow> constellation_frame list" where
  "received [] = []"
| "received (r # rs) = (case r of Inl _ \<Rightarrow> received rs | Inr f \<Rightarrow> f # received rs)"

text \<open>The receiver opens what the sender seals next.\<close>

definition in_step :: "secure_session \<Rightarrow> secure_session \<Rightarrow> bool" where
  "in_step a b \<longleftrightarrow> ss_tx a = ss_rx b \<and> ss_tx_nonce_tag a = ss_rx_nonce_tag b \<and> ss_tx_seq a = ss_rx_seq b"

lemma send_Inr:
  assumes "secure_send cr codec f a = (Inr u, a')"
  obtains p c where "cd_encode codec f = Inr p"
    "cr_encrypt cr (ss_tx a) (seq_nonce (ss_tx_seq a) (ss_tx_nonce_tag a)) p = Some c"
    "length c \<le> MAX_FRAME_BYTES" "bs_out (ss_stream a') = bs_out (ss_stream a) @ framed c"
    "ss_tx a' = ss_tx a" "ss_tx_nonce_tag a' = ss_tx_nonce_tag a" "ss_tx_seq a' = ss_tx_seq a + 1"
proof -
  obtain p where p: "cd_encode codec f = Inr p"
    using assms by (auto simp: secure_send_def split: sum.splits)
  obtain c where c: "cr_encrypt cr (ss_tx a) (seq_nonce (ss_tx_seq a) (ss_tx_nonce_tag a)) p = Some c"
    using assms p by (auto simp: secure_send_def Let_def split: option.splits)
  obtain r t where w: "write_plain c (ss_stream a) = (r, t)" by fastforce
  have "r = Inr u" "a' = a\<lparr>ss_tx_seq := ss_tx_seq a + 1, ss_stream := t\<rparr>"
    using assms by (auto simp: secure_send_def p c w Let_def)
  with w write_plain_Inr [of c "ss_stream a" u t] that [OF p c] show ?thesis by simp
qed

lemma recv_sealed:
  assumes "aead_correct cr" "codec_correct codec" "in_step a b"
    and "cd_encode codec f = Inr p" "cr_encrypt cr (ss_tx a) (seq_nonce (ss_tx_seq a) (ss_tx_nonce_tag a)) p = Some c"
    and "length c \<le> MAX_FRAME_BYTES" "bs_in (ss_stream b) = framed c @ rest"
  shows "secure_recv cr codec b = (Inr f, b\<lparr>ss_stream := (ss_stream b)\<lparr>bs_in := rest\<rparr>, ss_rx_seq := ss_rx_seq b + 1\<rparr>)"
proof -
  have "cr_decrypt cr (ss_rx b) (seq_nonce (ss_rx_seq b) (ss_rx_nonce_tag b)) c = Some p"
    using assms(1,3,5) by (simp add: aead_correct_def in_step_def)
  moreover have "cd_decode codec p = Inr f" using assms(2,4) by (simp add: codec_correct_def)
  ultimately show ?thesis
    by (simp add: secure_recv_def read_plain_framed [OF assms(6,7)] Let_def)
qed

lemma delivered:
  assumes "aead_correct cr" "codec_correct codec"
  shows "in_step a b \<Longrightarrow> send_all cr codec fs a = (Inr (), a') \<Longrightarrow>
         \<exists>bytes. bs_out (ss_stream a') = bs_out (ss_stream a) @ bytes \<and>
           (bs_in (ss_stream b) = bytes @ rest \<longrightarrow>
            (\<exists>b'. recv_run cr codec (length fs) b = (map Inr fs, b') \<and> in_step a' b' \<and> bs_in (ss_stream b') = rest))"
proof (induction fs arbitrary: a b)
  case (Cons f fs)
  obtain u a1 where send: "secure_send cr codec f a = (Inr u, a1)" and more: "send_all cr codec fs a1 = (Inr (), a')"
    using Cons.prems(2) by (auto split: prod.splits sum.splits)
  obtain p c where seal: "cd_encode codec f = Inr p"
      "cr_encrypt cr (ss_tx a) (seq_nonce (ss_tx_seq a) (ss_tx_nonce_tag a)) p = Some c" "length c \<le> MAX_FRAME_BYTES"
    and out: "bs_out (ss_stream a1) = bs_out (ss_stream a) @ framed c"
    and a1: "ss_tx a1 = ss_tx a" "ss_tx_nonce_tag a1 = ss_tx_nonce_tag a" "ss_tx_seq a1 = ss_tx_seq a + 1"
    by (rule send_Inr [OF send])
  let ?b1 = "\<lambda>bytes. b\<lparr>ss_stream := (ss_stream b)\<lparr>bs_in := bytes @ rest\<rparr>, ss_rx_seq := ss_rx_seq b + 1\<rparr>"
  have step: "in_step a1 (?b1 bytes)" for bytes
    using Cons.prems(1) by (simp add: in_step_def a1)
  obtain bytes where bytes: "bs_out (ss_stream a') = bs_out (ss_stream a1) @ bytes"
    using Cons.IH [OF step more] by blast
  have recv: "\<exists>b'. recv_run cr codec (length fs) (?b1 bytes) = (map Inr fs, b') \<and> in_step a' b' \<and> bs_in (ss_stream b') = rest"
    using Cons.IH [OF step [of bytes] more] bytes by auto
  have "recv_run cr codec (length (f # fs)) b = (map Inr (f # fs), b')"
    if "bs_in (ss_stream b) = framed c @ bytes @ rest" "recv_run cr codec (length fs) (?b1 bytes) = (map Inr fs, b')" for b'
    using recv_sealed [OF assms Cons.prems(1) seal that(1)] that(2) by simp
  with recv bytes out show ?case by (intro exI [of _ "framed c @ bytes"]) auto
qed auto


text \<open>The log of what the peer's \<open>send\<close> calls seal, the refused ones included.\<close>

primrec sealed ::
    "crypto \<Rightarrow> protocol_codec \<Rightarrow> constellation_frame list \<Rightarrow> secure_session \<Rightarrow> (string \<times> string \<times> string) list" where
  "sealed cr codec [] s = []"
| "sealed cr codec (f # fs) s =
     (case cd_encode codec f of
        Inl _ \<Rightarrow> []
      | Inr p \<Rightarrow>
          (let n = seq_nonce (ss_tx_seq s) (ss_tx_nonce_tag s) in
           case cr_encrypt cr (ss_tx s) n p of None \<Rightarrow> [] | Some c \<Rightarrow> [(n, p, c)])) @
     sealed cr codec fs (snd (secure_send cr codec f s))"

lemma send_state:
  "ss_tx_nonce_tag (snd (secure_send cr codec f s)) = ss_tx_nonce_tag s"
  "ss_tx_seq (snd (secure_send cr codec f s)) = (if is_ok (cd_encode codec f) then ss_tx_seq s + 1 else ss_tx_seq s)"
  by (auto simp: secure_send_def Let_def split: sum.splits option.splits prod.splits)

lemma sealed_slot:
  "(n, p, c) \<in> set (sealed cr codec fs s) \<Longrightarrow>
   \<exists>i < length (filter (\<lambda>f. is_ok (cd_encode codec f)) fs).
     n = seq_nonce (ss_tx_seq s + of_nat i) (ss_tx_nonce_tag s) \<and>
     cd_encode codec (filter (\<lambda>f. is_ok (cd_encode codec f)) fs ! i) = Inr p"
proof (induction fs arbitrary: s)
  case (Cons f fs)
  let ?s = "snd (secure_send cr codec f s)"
  show ?case
  proof (cases "(n, p, c) \<in> set (sealed cr codec fs ?s)")
    case True
    from Cons.IH [OF this] obtain i where "i < length (filter (\<lambda>f. is_ok (cd_encode codec f)) fs)"
      "n = seq_nonce (ss_tx_seq ?s + of_nat i) (ss_tx_nonce_tag s)"
      "cd_encode codec (filter (\<lambda>f. is_ok (cd_encode codec f)) fs ! i) = Inr p"
      by (auto simp: send_state)
    then show ?thesis
      by (intro exI [of _ "if is_ok (cd_encode codec f) then Suc i else i"]) (auto simp: send_state add_ac)
  next
    case False
    then have "cd_encode codec f = Inr p" "n = seq_nonce (ss_tx_seq s) (ss_tx_nonce_tag s)"
      using Cons.prems by (auto simp: Let_def split: sum.splits option.splits)
    then show ?thesis by (intro exI [of _ 0]) simp
  qed
qed simp

text \<open>One \<open>recv\<close>: the input shrinks, the counter moves by at most one, and a frame comes from the log.\<close>

lemma recv_cases:
  assumes "secure_recv cr codec s = (r, s')"
  shows "ss_rx s' = ss_rx s \<and> ss_rx_nonce_tag s' = ss_rx_nonce_tag s \<and> (\<exists>pre. bs_in (ss_stream s) = pre @ bs_in (ss_stream s')) \<and>
     ss_rx_seq s' = (if is_ok (fst (read_plain (ss_stream s))) then ss_rx_seq s + 1 else ss_rx_seq s)"
proof -
  obtain q t where q: "read_plain (ss_stream s) = (q, t)" by fastforce
  have "\<exists>pre. bs_in (ss_stream s) = pre @ bs_in t" using read_plain_suffix [of "ss_stream s"] by (simp add: q)
  then show ?thesis
    using assms by (auto simp: secure_recv_def q Let_def split: sum.splits option.splits)
qed

lemma recv_logged:
  assumes "secure_recv cr codec s = (Inr f, s')" "unforged cr (ss_rx s) log (bs_in (ss_stream s))"
  shows "is_ok (fst (read_plain (ss_stream s))) \<and>
     (\<exists>p c. (seq_nonce (ss_rx_seq s) (ss_rx_nonce_tag s), p, c) \<in> set log \<and> cd_decode codec p = Inr f)"
proof -
  obtain c t where c: "read_plain (ss_stream s) = (Inr c, t)"
    using assms(1) by (auto simp: secure_recv_def split: prod.splits sum.splits)
  then obtain p where p: "cr_decrypt cr (ss_rx s) (seq_nonce (ss_rx_seq s) (ss_rx_nonce_tag s)) c = Some p" "cd_decode codec p = Inr f"
    using assms(1) by (auto simp: secure_recv_def Let_def split: option.splits sum.splits)
  have "sublist c (bs_in (ss_stream s))" using read_plain_sublist [OF c] by (auto simp: sublist_def)
  then have "(seq_nonce (ss_rx_seq s) (ss_rx_nonce_tag s), p, c) \<in> set log"
    using p(1) assms(2) unfolding unforged_def by blast
  with p(2) show ?thesis by (auto simp: c)
qed

lemma of_nat_u64_inject: "i < 2 ^ 64 \<Longrightarrow> j < 2 ^ 64 \<Longrightarrow> (of_nat i :: u64) = of_nat j \<longleftrightarrow> i = j"
  by (simp add: word_of_nat_eq_iff take_bit_nat_eq_self)

text \<open>A log whose entries were sealed in the order of \<open>slots\<close>, from counter \<open>s0\<close> on.\<close>

definition log_of :: "protocol_codec \<Rightarrow> constellation_frame list \<Rightarrow> u64 \<Rightarrow> u8 \<Rightarrow> (string \<times> string \<times> string) list \<Rightarrow> bool" where
  "log_of codec slots s0 tag log \<longleftrightarrow>
     (\<forall>(n, p, c) \<in> set log. \<exists>i < length slots. n = seq_nonce (s0 + of_nat i) tag \<and> cd_encode codec (slots ! i) = Inr p)"

lemma recv_slot:
  assumes "codec_correct codec" "length slots \<le> 2 ^ 64" "log_of codec slots s0 tag log"
    and "secure_recv cr codec b = (Inr f, b')" "unforged cr (ss_rx b) log (bs_in (ss_stream b))"
    and "ss_rx_seq b = s0 + of_nat k" "ss_rx_nonce_tag b = tag" "k < 2 ^ 64"
  shows "drop k slots = f # drop (Suc k) slots"
proof -
  obtain p c where "(seq_nonce (ss_rx_seq b) tag, p, c) \<in> set log" and f: "cd_decode codec p = Inr f"
    using recv_logged [OF assms(4,5)] assms(7) by auto
  with assms(3) obtain i where i: "i < length slots" "cd_encode codec (slots ! i) = Inr p"
    and "seq_nonce (ss_rx_seq b) tag = seq_nonce (s0 + of_nat i) tag" unfolding log_of_def by blast
  then have "(of_nat k :: u64) = of_nat i" using assms(6) by (simp add: seq_nonce_inject)
  moreover have "i < 2 ^ 64" using i(1) assms(2) by linarith
  ultimately have "k = i" using of_nat_u64_inject [OF assms(8)] by blast
  moreover have "slots ! i = f" using assms(1) i(2) f by (simp add: codec_correct_def)
  ultimately show ?thesis using i(1) by (simp add: Cons_nth_drop_Suc [symmetric])
qed

lemma received_subseq:
  assumes "codec_correct codec" "length slots \<le> 2 ^ 64" "log_of codec slots s0 tag log"
  shows "k + n \<le> 2 ^ 64 \<Longrightarrow> ss_rx_seq b = s0 + of_nat k \<Longrightarrow> ss_rx_nonce_tag b = tag \<Longrightarrow>
    unforged cr (ss_rx b) log (bs_in (ss_stream b)) \<Longrightarrow>
    subseq (received (fst (recv_run cr codec n b))) (drop k slots)"
proof (induction n arbitrary: b k)
  case (Suc n)
  obtain r b1 where recv: "secure_recv cr codec b = (r, b1)" by fastforce
  note same = recv_cases [OF recv]
  have unf: "unforged cr (ss_rx b1) log (bs_in (ss_stream b1))"
    using same Suc.prems(4) by (metis unforged_suffix)
  have split: "received (fst (recv_run cr codec (Suc n) b)) =
      (case r of Inl _ \<Rightarrow> received (fst (recv_run cr codec n b1)) | Inr f \<Rightarrow> f # received (fst (recv_run cr codec n b1)))"
    by (cases "recv_run cr codec n b1"; cases r) (simp_all add: recv)
  show ?case
  proof (cases "is_ok (fst (read_plain (ss_stream b)))")
    case False
    then have "subseq (received (fst (recv_run cr codec n b1))) (drop k slots)"
      using same Suc.prems by (intro Suc.IH [OF _ _ _ unf]) auto
    moreover have "\<not> is_ok r" using recv_logged [of cr codec b _ b1 log] recv Suc.prems(4) False by (cases r) auto
    ultimately show ?thesis unfolding split by (cases r) auto
  next
    case True
    then have rest: "subseq (received (fst (recv_run cr codec n b1))) (drop (Suc k) slots)"
      using same Suc.prems by (intro Suc.IH [OF _ _ _ unf]) (auto simp: add_ac)
    have tail: "subseq (drop (Suc k) slots) (drop k slots)"
      using suffix_drop [of 1 "drop k slots"] by (simp add: suffix_imp_subseq)
    show ?thesis
      using rest subseq_order.trans [OF rest tail] recv_slot [OF assms _ Suc.prems(4,2,3)] recv Suc.prems(1)
      unfolding split by (cases r) auto
  qed
qed simp

lemma sealed_log_of:
  "log_of codec (filter (\<lambda>f. is_ok (cd_encode codec f)) fs) (ss_tx_seq a) (ss_tx_nonce_tag a) (sealed cr codec fs a)"
  unfolding log_of_def using sealed_slot by blast


section \<open>The handshake of two peers\<close>

text \<open>
  Both ends over a link that delivers what each of them writes: the client's hello, the server's \<open>accept\<close>, and
  the rest of the client's \<open>connect\<close>. The ends are configured on their own, each with the peer it expects.
\<close>

record endpoint =
  ep_codec :: protocol_codec
  ep_self :: secure_peer_identity
  ep_expected :: secure_peer_identity
  ep_nonce :: string

definition peer_handshake ::
    "crypto \<Rightarrow> hello_json \<Rightarrow> string \<Rightarrow> endpoint \<Rightarrow> endpoint \<Rightarrow> string btset \<Rightarrow>
     (provider_error + secure_session \<times> secure_session) \<times> string btset" where
  "peer_handshake cr js key client server seen =
     (case connect_begin cr (ep_codec client) js key (ep_self client) (ep_nonce client) (duplex []) of
        Inl e \<Rightarrow> (Inl e, seen)
      | Inr (h, cs) \<Rightarrow>
          (case accept cr (ep_codec server) js key (ep_self server) (ep_expected server) (ep_nonce server) (duplex (bs_out cs)) seen of
             (Inl e, seen') \<Rightarrow> (Inl e, seen')
           | (Inr s, seen') \<Rightarrow>
               (bind_result
                  (connect_finish cr (ep_codec client) js key (ep_expected client) h (cs\<lparr>bs_in := bs_out (ss_stream s)\<rparr>))
                  (\<lambda>c. Inr (c, s)),
                seen')))"

definition hello_of :: "crypto \<Rightarrow> string \<Rightarrow> string \<Rightarrow> endpoint \<Rightarrow> string \<Rightarrow> provider_error + hello" where
  "hello_of cr label key ep peer_nonce =
     make_hello cr label key (cd_codec_id (ep_codec ep)) (cd_schema_fingerprint (ep_codec ep)) (ep_self ep) (ep_nonce ep) peer_nonce"

definition same_protocol :: "endpoint \<Rightarrow> endpoint \<Rightarrow> bool" where
  "same_protocol a b \<longleftrightarrow>
     cd_codec_id (ep_codec a) = cd_codec_id (ep_codec b) \<and>
     cd_schema_fingerprint (ep_codec a) = cd_schema_fingerprint (ep_codec b)"

text \<open>The rendered hello of an endpoint, when it can be built and fits a frame.\<close>

definition hello_sent :: "crypto \<Rightarrow> hello_json \<Rightarrow> string \<Rightarrow> string \<Rightarrow> endpoint \<Rightarrow> string \<Rightarrow> bool" where
  "hello_sent cr js label key ep peer_nonce \<longleftrightarrow>
     (case hello_of cr label key ep peer_nonce of
        Inl _ \<Rightarrow> False
      | Inr h \<Rightarrow> (case js_render js h of Inl _ \<Rightarrow> False | Inr b \<Rightarrow> length b \<le> MAX_FRAME_BYTES))"

lemma hello_sentE:
  assumes "hello_sent cr js label key ep peer_nonce"
  obtains h b where "hello_of cr label key ep peer_nonce = Inr h" "js_render js h = Inr b" "length b \<le> MAX_FRAME_BYTES"
  using assms by (auto simp: hello_sent_def split: sum.splits)

lemma make_hello_Inr:
  assumes "make_hello cr label key codec schema identity nonce peer_nonce = Inr h"
  shows "hl_version h = PROTOCOL_VERSION \<and> hl_codec_id h = codec \<and> hl_schema_fingerprint h = schema \<and> hl_identity h = identity \<and>
    hl_nonce h = nonce \<and> hl_mac h = mac_hello cr label key h peer_nonce"
proof -
  have tok: "t = raw" if "parse_token what raw = Inr t" for what raw t
    using that by (auto simp: parse_token_def protocol_token_parse_def split: if_splits)
  from assms show ?thesis
    by (auto simp: make_hello_def bind_result_eq_Inr Let_def mac_hello_def mac_input_def dest!: tok)
qed

text \<open>What \<open>verify_hello\<close> answers on a hello its own key made.\<close>

lemma verify_made_hello:
  assumes "hello_of cr label key ep peer_nonce = Inr h"
  shows "verify_hello cr label key codec schema h expected peer_nonce =
     (if cd_codec_id (ep_codec ep) = codec \<and> cd_schema_fingerprint (ep_codec ep) = schema \<and> ep_self ep = expected
      then Inr () else Inl (provider_error_new Err_AuthenticationFailed ''secure-session hello binding mismatch''))"
  using make_hello_Inr [OF assms [unfolded hello_of_def]] by (auto simp: verify_hello_def)

lemma hello_of_nonce: "hello_of cr label key ep peer_nonce = Inr h \<Longrightarrow> hl_nonce h = ep_nonce ep"
  unfolding hello_of_def by (drule make_hello_Inr) simp

lemma connect_begin_sent:
  assumes "hello_of cr ''client'' key client [] = Inr h" "js_render js h = Inr b" "length b \<le> MAX_FRAME_BYTES"
  shows "connect_begin cr (ep_codec client) js key (ep_self client) (ep_nonce client) (duplex []) =
      Inr (h, (duplex [])\<lparr>bs_out := framed b\<rparr>)"
  using assms(1) by (simp add: connect_begin_def hello_of_def assms(2) write_plain_healthy [OF _ assms(3)])

lemma accept_sent:
  assumes "json_correct js" "hello_of cr ''client'' key client [] = Inr h" "js_render js h = Inr b" "length b \<le> MAX_FRAME_BYTES"
    and "hello_of cr ''server'' key server (ep_nonce client) = Inr g" "js_render js g = Inr d" "length d \<le> MAX_FRAME_BYTES"
  shows "accept cr (ep_codec server) js key (ep_self server) (ep_expected server) (ep_nonce server) (duplex (framed b)) seen =
      (if \<not> (same_protocol client server \<and> ep_self client = ep_expected server)
       then (Inl (provider_error_new Err_AuthenticationFailed ''secure-session hello binding mismatch''), seen)
       else if bt_contains seen (ep_nonce client)
       then (Inl (provider_error_new Err_AuthenticationFailed ''secure-session client nonce replayed''),
             bt_insert (ep_nonce client) () seen)
       else (Inr (new_encrypted cr ((duplex [])\<lparr>bs_out := framed d\<rparr>) key (ep_nonce client) (ep_nonce server)
               (ep_expected server) Server_Role), bt_insert (ep_nonce client) () seen))"
proof -
  have "read_plain (duplex (framed b)) = (Inr b, duplex [])"
    using read_plain_framed [OF assms(4), of "duplex (framed b)" "[]"] by simp
  moreover have "js_parse js b = Inr h" using assms(1,3) by (simp add: json_correct_def)
  ultimately show ?thesis
    using assms(5)
    by (simp add: accept_def verify_made_hello [OF assms(2)] same_protocol_def claim_nonce_def hello_of_nonce [OF assms(2)]
        hello_of_nonce [OF assms(5)] hello_of_def assms(6) write_plain_healthy [OF _ assms(7)])
qed

lemma connect_finish_sent:
  assumes "json_correct js" "hello_of cr ''server'' key server (ep_nonce client) = Inr g" "js_render js g = Inr d"
    and "length d \<le> MAX_FRAME_BYTES" "hl_nonce h = ep_nonce client"
  shows "connect_finish cr (ep_codec client) js key (ep_expected client) h ((duplex (framed d))\<lparr>bs_out := out\<rparr>) =
      (if same_protocol client server \<and> ep_self server = ep_expected client
       then Inr (new_encrypted cr ((duplex [])\<lparr>bs_out := out\<rparr>) key (ep_nonce client) (ep_nonce server)
              (ep_expected client) Client_Role)
       else Inl (provider_error_new Err_AuthenticationFailed ''secure-session hello binding mismatch''))"
proof -
  have "read_plain ((duplex (framed d))\<lparr>bs_out := out\<rparr>) = (Inr d, (duplex [])\<lparr>bs_out := out\<rparr>)"
    using read_plain_framed [OF assms(4), of "(duplex (framed d))\<lparr>bs_out := out\<rparr>" "[]"] by (simp add: duplex_swap)
  moreover have "js_parse js d = Inr g" using assms(1,3) by (simp add: json_correct_def)
  ultimately show ?thesis
    by (auto simp: connect_finish_def assms(5) verify_made_hello [OF assms(2)] same_protocol_def hello_of_nonce [OF assms(2)])
qed

lemma new_encrypted_in_step:
  "in_step (new_encrypted cr s key cn sn r Client_Role) (new_encrypted cr t key cn sn q Server_Role)"
  "in_step (new_encrypted cr t key cn sn q Server_Role) (new_encrypted cr s key cn sn r Client_Role)"
  by (simp_all add: in_step_def new_encrypted_def Let_def)


text \<open>A frame that \<open>send\<close> can seal under a key at any counter, within the cap.\<close>

definition fits_frame :: "crypto \<Rightarrow> protocol_codec \<Rightarrow> string \<Rightarrow> constellation_frame \<Rightarrow> bool" where
  "fits_frame cr codec key f \<longleftrightarrow>
     (\<exists>p. cd_encode codec f = Inr p \<and> (\<forall>q t. \<exists>c. cr_encrypt cr key (seq_nonce q t) p = Some c \<and> length c \<le> MAX_FRAME_BYTES))"

lemma send_healthy:
  assumes "healthy (ss_stream a)" "fits_frame cr codec (ss_tx a) f"
  shows "\<exists>a'. secure_send cr codec f a = (Inr (), a') \<and> healthy (ss_stream a') \<and> ss_tx a' = ss_tx a"
proof -
  obtain p c where seal: "cd_encode codec f = Inr p" "cr_encrypt cr (ss_tx a) (seq_nonce (ss_tx_seq a) (ss_tx_nonce_tag a)) p = Some c"
    and fits: "length c \<le> MAX_FRAME_BYTES"
    using assms(2) unfolding fits_frame_def by blast
  show ?thesis
    using assms(1) by (simp add: secure_send_def seal Let_def write_plain_healthy [OF assms(1) fits]) (simp add: healthy_def)
qed

lemma send_all_healthy:
  "healthy (ss_stream a) \<Longrightarrow> list_all (fits_frame cr codec (ss_tx a)) fs \<Longrightarrow> \<exists>a'. send_all cr codec fs a = (Inr (), a')"
proof (induction fs arbitrary: a)
  case (Cons f fs)
  then obtain a1 where "secure_send cr codec f a = (Inr (), a1)" "healthy (ss_stream a1)" "ss_tx a1 = ss_tx a"
    using send_healthy [of a cr codec f] by auto
  with Cons show ?case by simp
qed simp


section \<open>Instances of the parameters\<close>

text \<open>
  A cipher that writes the nonce in front of the plaintext, a cipher that seals the messages of a table, a codec
  of two frames and a JSON form of two hellos: the laws above hold of them.
\<close>

definition plain_crypto :: crypto where
  "plain_crypto =
     \<lparr>cr_hmac = (\<lambda>k m. k @ m), cr_sha256 = (\<lambda>m. m), cr_encrypt = (\<lambda>k n p. Some (n @ p)),
      cr_decrypt = (\<lambda>k n c. if take (length n) c = n then Some (drop (length n) c) else None)\<rparr>"

definition table_crypto :: "(string \<times> string \<times> string) list \<Rightarrow> crypto" where
  "table_crypto log =
     \<lparr>cr_hmac = (\<lambda>k m. k @ m), cr_sha256 = (\<lambda>m. m),
      cr_encrypt = (\<lambda>k n p. map_option (\<lambda>(_, _, c). c) (find (\<lambda>(m, q, c). m = n \<and> q = p) log)),
      cr_decrypt = (\<lambda>k n c. map_option (\<lambda>(_, p, _). p) (find (\<lambda>(m, p, d). m = n \<and> d = c) log))\<rparr>"

abbreviation frame_v :: constellation_frame where
  "frame_v \<equiv> Frame_HandshakeRejected Hs_VersionSkew"

abbreviation frame_c :: constellation_frame where
  "frame_c \<equiv> Frame_HandshakeRejected Hs_CodecMismatch"

definition pair_codec :: "string \<Rightarrow> string \<Rightarrow> protocol_codec" where
  "pair_codec v c =
     \<lparr>cd_codec_id = ''pair'', cd_schema_fingerprint = ''f0'',
      cd_encode = (\<lambda>f. if f = frame_v then Inr v else if f = frame_c then Inr c else Inl (error_new Err_MalformedFrame [])),
      cd_decode = (\<lambda>p. if p = v then Inr frame_v else if p = c then Inr frame_c else Inl (error_new Err_MalformedFrame []))\<rparr>"

definition pair_json :: "hello \<Rightarrow> hello \<Rightarrow> hello_json" where
  "pair_json g h =
     \<lparr>js_render = (\<lambda>x. if x = g then Inr ''g'' else if x = h then Inr ''h'' else Inl []),
      js_parse = (\<lambda>b. if b = ''g'' then Inr g else if b = ''h'' then Inr h else Inl [])\<rparr>"

definition session_on :: "string \<Rightarrow> u8 \<Rightarrow> u8 \<Rightarrow> secure_session" where
  "session_on bytes tx rx =
     \<lparr>ss_stream = duplex bytes, ss_tx = ''k'', ss_rx = ''k'', ss_tx_nonce_tag = tx, ss_rx_nonce_tag = rx, ss_tx_seq = 0,
      ss_rx_seq = 0, ss_remote = \<lparr>spi_realm = local, spi_principal = ''p'', spi_node = ''n''\<rparr>\<rparr>"

definition endpoint_of :: "string \<Rightarrow> string \<Rightarrow> string \<Rightarrow> endpoint" where
  "endpoint_of self peer nonce =
     \<lparr>ep_codec = pair_codec ''v'' ''c'', ep_self = \<lparr>spi_realm = local, spi_principal = ''p'', spi_node = self\<rparr>,
      ep_expected = \<lparr>spi_realm = local, spi_principal = ''p'', spi_node = peer\<rparr>, ep_nonce = nonce\<rparr>"

lemma plain_crypto_correct: "aead_correct plain_crypto"
  by (simp add: aead_correct_def plain_crypto_def)

lemma pair_codec_correct: "v \<noteq> c \<Longrightarrow> codec_correct (pair_codec v c)"
  by (auto simp: codec_correct_def pair_codec_def)

lemma pair_json_correct: "json_correct (pair_json g h)"
  by (auto simp: json_correct_def pair_json_def)

lemma table_crypto_unforged: "unforged (table_crypto log) key log bytes"
  by (auto simp: unforged_def table_crypto_def find_Some_iff) (metis nth_mem)

lemma session_on_in_step: "in_step (session_on x t u) (session_on y u t)"
  by (simp add: in_step_def session_on_def)

lemma endpoint_hello:
  obtains h where "hello_of plain_crypto label key (endpoint_of self peer nonce) peer_nonce = Inr h"
proof -
  have "parse_token what ''pair'' = Inr ''pair''" "parse_token what ''f0'' = Inr ''f0''" for what
    by (simp_all add: parse_token_def protocol_token_parse_def) code_simp+
  with that show ?thesis by (simp add: hello_of_def endpoint_of_def pair_codec_def make_hello_def Let_def)
qed

definition too_big :: string where
  "too_big = replicate (Suc MAX_FRAME_BYTES) (CHR ''z'')"

lemma length_too_big: "length too_big = Suc MAX_FRAME_BYTES"
  by (simp add: too_big_def)


section \<open>Properties\<close>



text \<open>C18. Frames sent on a session arrive at the peer, all of them, unchanged and in order. On a stream whose writes
  succeed every frame that fits is sent; the peer that reads the bytes written gets exactly the frames, leaves
  what follows them unread, and is in step for the next one. This holds from any counter, also where it wraps.
\<close>

theorem secure_frames_delivered:
  assumes "aead_correct cr" "codec_correct codec" "in_step a b" "healthy (ss_stream a)"
    and "list_all (fits_frame cr codec (ss_tx a)) frames"
  shows "\<exists>a' bytes b'. send_all cr codec frames a = (Inr (), a') \<and> bs_out (ss_stream a') = bs_out (ss_stream a) @ bytes \<and>
           recv_run cr codec (length frames) (b\<lparr>ss_stream := (ss_stream b)\<lparr>bs_in := bytes @ rest\<rparr>\<rparr>) = (map Inr frames, b') \<and>
           in_step a' b' \<and> bs_in (ss_stream b') = rest"
proof -
  obtain a' where send: "send_all cr codec frames a = (Inr (), a')"
    using send_all_healthy [OF assms(4,5)] by blast
  have step: "in_step a (b\<lparr>ss_stream := t\<rparr>)" for t using assms(3) by (simp add: in_step_def)
  obtain bytes where out: "bs_out (ss_stream a') = bs_out (ss_stream a) @ bytes"
    using delivered [OF assms(1,2,3) send] by blast
  from delivered [OF assms(1,2) step send, of "(ss_stream b)\<lparr>bs_in := bytes @ rest\<rparr>" rest] out send show ?thesis by auto
qed

theorem secure_frames_delivered_witness:
  "\<exists>a' bytes b'. send_all plain_crypto (pair_codec ''v'' ''c'') [frame_v, frame_c, frame_v] (session_on [] 1 2) = (Inr (), a') \<and>
     bs_out (ss_stream a') = bytes \<and>
     recv_run plain_crypto (pair_codec ''v'' ''c'') (length [frame_v, frame_c, frame_v]) (session_on bytes 2 1) =
       (map Inr [frame_v, frame_c, frame_v], b')"
proof -
  have "list_all (fits_frame plain_crypto (pair_codec ''v'' ''c'') (ss_tx (session_on [] 1 2))) [frame_v, frame_c, frame_v]"
    by (simp add: fits_frame_def plain_crypto_def pair_codec_def MAX_FRAME_BYTES_def)
  moreover have "healthy (ss_stream (session_on [] 1 2))" by (simp add: session_on_def)
  moreover have "bs_out (ss_stream (session_on [] 1 2)) = []"
    "(session_on [] 2 1)\<lparr>ss_stream := (ss_stream (session_on [] 2 1))\<lparr>bs_in := bytes\<rparr>\<rparr> = session_on bytes 2 1" for bytes
    by (simp_all add: session_on_def)
  ultimately show ?thesis
    using secure_frames_delivered [OF plain_crypto_correct pair_codec_correct session_on_in_step [of "[]" 1 2 "[]"],
        of "''v''" "''c''" "[frame_v, frame_c, frame_v]" "[]"]
    by (auto simp del: send_all.simps recv_run.simps list.size list.map)
qed

text \<open>C16. No forging, replaying, reordering or duplicating of frames. Whatever bytes arrive, over any number of receive
  calls up to the range of the counter, the frames a session hands out are a subsequence of the frames its peer
  passed to send. The hypothesis is authenticity of the cipher on these bytes: what opens under a nonce is a
  ciphertext the peer sealed under that nonce. It says nothing of order; that each counter value is used once
  and in turn on both sides gives it.
\<close>

theorem received_only_sent:
  assumes "codec_correct codec" "in_step a b" "length frames \<le> 2 ^ 64" "n \<le> 2 ^ 64"
    and "unforged cr (ss_rx b) (sealed cr codec frames a) (bs_in (ss_stream b))"
  shows "subseq (received (fst (recv_run cr codec n b))) frames"
proof -
  let ?slots = "filter (\<lambda>f. is_ok (cd_encode codec f)) frames"
  have len: "length ?slots \<le> 2 ^ 64" using length_filter_le assms(3) by (rule order_trans)
  have "subseq (received (fst (recv_run cr codec n b))) (drop 0 ?slots)"
    using assms(2,4) by (intro received_subseq [OF assms(1) len sealed_log_of _ _ _ assms(5)]) (simp_all add: in_step_def)
  then show ?thesis using subseq_filter_left [of _ frames] by (auto intro: subseq_order.trans)
qed

theorem received_only_sent_witness:
  "subseq (received (fst (recv_run (table_crypto [(seq_nonce 0 1, ''v'', ''x''), (seq_nonce 1 1, ''c'', ''y'')])
     (pair_codec ''v'' ''c'') 3 (session_on (framed ''x'' @ framed ''x'' @ framed ''y'') 2 1)))) [frame_v, frame_c]"
proof -
  let ?log = "[(seq_nonce 0 1, ''v'', ''x''), (seq_nonce 1 1, ''c'', ''y'')]"
  have "sealed (table_crypto ?log) (pair_codec ''v'' ''c'') [frame_v, frame_c] (session_on [] 1 2) = ?log"
    by (simp add: table_crypto_def pair_codec_def session_on_def secure_send_def seq_nonce_inject write_plain_healthy
        MAX_FRAME_BYTES_def)
  then show ?thesis
    by (intro received_only_sent [OF pair_codec_correct session_on_in_step [of "[]" 1 2]])
      (simp_all add: table_crypto_unforged)
qed

text \<open>C40. A defect: send moves its counter before it learns that the sealed frame is over the cap. It reports the frame as too
  large and writes nothing, so the peer still waits for that counter value, and the next frame, which send
  reports as sent, is refused by the peer as a failed decryption.
\<close>

theorem oversized_send_desyncs:
  assumes "in_step a b" "cd_encode codec f = Inr p"
    and "cr_encrypt cr (ss_tx a) (seq_nonce (ss_tx_seq a) (ss_tx_nonce_tag a)) p = Some c" "MAX_FRAME_BYTES < length c"
    and "secure_send cr codec f a = (r, a1)" "secure_send cr codec g a1 = (Inr (), a2)"
    and "bs_out (ss_stream a2) = bs_out (ss_stream a) @ bs_in (ss_stream b)"
    and "unforged cr (ss_rx b) (sealed cr codec [f, g] a) (bs_in (ss_stream b))"
  shows "r = Inl (provider_error_new Err_FrameTooLarge ''secure-session frame exceeds cap'') \<and>
    fst (secure_recv cr codec b) = Inl (provider_error_new Err_AuthenticationFailed ''decrypt failed'')"
proof -
  have refused: "r = Inl (provider_error_new Err_FrameTooLarge ''secure-session frame exceeds cap'')"
    and a1: "a1 = a\<lparr>ss_tx_seq := ss_tx_seq a + 1\<rparr>"
    using assms(5) by (simp_all add: secure_send_def assms(2,3) Let_def write_plain_def assms(4))
  obtain q d where d: "cd_encode codec g = Inr q" "length d \<le> MAX_FRAME_BYTES" "bs_out (ss_stream a2) = bs_out (ss_stream a1) @ framed d"
    "cr_encrypt cr (ss_tx a1) (seq_nonce (ss_tx_seq a1) (ss_tx_nonce_tag a1)) q = Some d"
    using send_Inr [OF assms(6)] by metis
  then have bytes: "bs_in (ss_stream b) = framed d @ []" using assms(7) by (simp add: a1)
  have "cr_decrypt cr (ss_rx b) (seq_nonce (ss_rx_seq b) (ss_rx_nonce_tag b)) d = None"
  proof (rule ccontr)
    assume "cr_decrypt cr (ss_rx b) (seq_nonce (ss_rx_seq b) (ss_rx_nonce_tag b)) d \<noteq> None"
    then obtain x where "cr_decrypt cr (ss_rx b) (seq_nonce (ss_rx_seq b) (ss_rx_nonce_tag b)) d = Some x" by blast
    moreover have "sublist d (bs_in (ss_stream b))" by (simp add: bytes framed_def)
    ultimately have "(seq_nonce (ss_rx_seq b) (ss_rx_nonce_tag b), x, d) \<in> set (sealed cr codec [f, g] a)"
      using assms(8) unfolding unforged_def by blast
    moreover have "snd (secure_send cr codec f a) = a1" using assms(5) by simp
    ultimately show False
      using assms(1,4) d by (auto simp: assms(2,3) Let_def seq_nonce_inject in_step_def a1)
  qed
  with refused show ?thesis
    by (simp add: secure_recv_def read_plain_framed [OF d(2) bytes] Let_def)
qed

theorem oversized_send_desyncs_witness:
  "\<exists>cr a1 a2. secure_send cr (pair_codec too_big ''c'') frame_v (session_on [] 1 2) =
       (Inl (provider_error_new Err_FrameTooLarge ''secure-session frame exceeds cap''), a1) \<and>
     secure_send cr (pair_codec too_big ''c'') frame_c a1 = (Inr (), a2) \<and>
     fst (secure_recv cr (pair_codec too_big ''c'') (session_on (bs_out (ss_stream a2)) 2 1)) =
       Inl (provider_error_new Err_AuthenticationFailed ''decrypt failed'')"
proof -
  let ?log = "[(seq_nonce 0 1, too_big, too_big), (seq_nonce 1 1, ''c'', ''y'')]"
  let ?cr = "table_crypto ?log" and ?codec = "pair_codec too_big ''c''" and ?a = "session_on [] 1 2"
    and ?b = "session_on (framed ''y'') 2 1"
  have enc: "cd_encode ?codec frame_v = Inr too_big" "cd_encode ?codec frame_c = Inr ''c''"
    "cr_encrypt ?cr ''k'' (seq_nonce 0 1) too_big = Some too_big" "cr_encrypt ?cr ''k'' (seq_nonce 1 1) ''c'' = Some ''y''"
    by (simp_all add: pair_codec_def table_crypto_def seq_nonce_inject)
  have s: "ss_tx ?a = ''k''" "ss_tx_seq ?a = 0" "ss_tx_nonce_tag ?a = 1" "ss_stream ?a = duplex []" by (simp_all add: session_on_def)
  obtain r a1 where f: "secure_send ?cr ?codec frame_v ?a = (r, a1)" by fastforce
  then have a1: "a1 = ?a\<lparr>ss_tx_seq := 1\<rparr>"
    by (auto simp: secure_send_def enc s Let_def write_plain_def length_too_big)
  then obtain a2 where g: "secure_send ?cr ?codec frame_c a1 = (Inr (), a2)"
    and out: "bs_out (ss_stream a2) = framed ''y''"
    by (simp add: secure_send_def enc s Let_def write_plain_healthy MAX_FRAME_BYTES_def)
  have "sealed ?cr ?codec [frame_v, frame_c] ?a = ?log"
    using f by (simp add: enc s a1)
  then have unf: "unforged ?cr (ss_rx ?b) (sealed ?cr ?codec [frame_v, frame_c] ?a) (bs_in (ss_stream ?b))"
    by (simp only: table_crypto_unforged)
  have "cr_encrypt ?cr (ss_tx ?a) (seq_nonce (ss_tx_seq ?a) (ss_tx_nonce_tag ?a)) too_big = Some too_big"
    "MAX_FRAME_BYTES < length too_big" "bs_out (ss_stream a2) = bs_out (ss_stream ?a) @ bs_in (ss_stream ?b)"
    by (simp_all only: s enc length_too_big out) (simp_all add: session_on_def)
  from oversized_send_desyncs [OF session_on_in_step enc(1) this(1,2) f g this(3) unf] f g show ?thesis
    by (metis out)
qed

text \<open>
  The MAC of a hello binds its label, all its fields and the peer's nonce: a hello that verifies with a MAC that
  was made for some hello is that hello, for that side of the handshake and that nonce, or else the HMAC has a collision.
\<close>

theorem hello_mac_binds:
  assumes "verify_hello cr label key codec schema h expected peer_nonce = Inr ()" "hl_mac h = mac_hello cr made_label key g made_nonce"
    and "hello_bounded g" "hello_bounded h" "length label < 2 ^ 64" "length made_label < 2 ^ 64"
    and "length peer_nonce < 2 ^ 64" "length made_nonce < 2 ^ 64"
  shows "(label = made_label \<and> h\<lparr>hl_mac := []\<rparr> = g\<lparr>hl_mac := []\<rparr> \<and> peer_nonce = made_nonce \<and> hl_identity g = expected) \<or>
    (\<exists>x y. x \<noteq> y \<and> cr_hmac cr key x = cr_hmac cr key y)"
proof (cases "mac_input label h peer_nonce = mac_input made_label g made_nonce")
  case True
  then have same: "label = made_label \<and> h\<lparr>hl_mac := []\<rparr> = g\<lparr>hl_mac := []\<rparr> \<and> peer_nonce = made_nonce"
    using mac_input_inject [OF assms(4,3,5,6,7,8)] by blast
  then have "hl_identity g = hl_identity h" by (metis hello.update_convs(6) hello.select_convs(4) hello.surjective)
  with same show ?thesis using assms(1) by (auto simp: verify_hello_def split: if_splits)
next
  case False
  moreover have "cr_hmac cr key (mac_input label h peer_nonce) = cr_hmac cr key (mac_input made_label g made_nonce)"
    using assms(1,2) by (auto simp: verify_hello_def mac_hello_def split: if_splits)
  ultimately show ?thesis by blast
qed

theorem hello_mac_binds_witness:
  "\<exists>h. verify_hello plain_crypto ''client'' ''k'' ''pair'' ''f0'' h (ep_self (endpoint_of ''a'' ''b'' ''1'')) [] = Inr () \<and>
     ((''client'' = ''client'' \<and> h\<lparr>hl_mac := []\<rparr> = h\<lparr>hl_mac := []\<rparr> \<and> hl_identity h = ep_self (endpoint_of ''a'' ''b'' ''1'')) \<or>
      (\<exists>x y. x \<noteq> y \<and> cr_hmac plain_crypto ''k'' x = cr_hmac plain_crypto ''k'' y))"
proof -
  let ?ep = "endpoint_of ''a'' ''b'' ''1''"
  obtain h where h: "hello_of plain_crypto ''client'' ''k'' ?ep [] = Inr h" by (rule endpoint_hello)
  note made = make_hello_Inr [OF h [unfolded hello_of_def]]
  have bounded: "hello_bounded h" using made by (simp add: hello_bounded_def endpoint_of_def pair_codec_def)
  have ok: "verify_hello plain_crypto ''client'' ''k'' ''pair'' ''f0'' h (ep_self ?ep) [] = Inr ()"
    using verify_made_hello [OF h] by (simp add: endpoint_of_def pair_codec_def)
  from hello_mac_binds [OF ok _ bounded bounded] made ok show ?thesis by (intro exI [of _ h]) auto
qed

end
