(* ===== verification/Peer_Session.thy ===== *)
theory Peer_Session
  imports Byte_Streams
begin

text \<open>
  The plain peer session \<open>d2b-realm-router/src/session.rs\<close>: the client proposes version, codec, schema and
  capabilities, the server accepts with the capabilities both have or names why not, and only then do
  frames pass. Each side of \<open>establish\<close> is cut where it waits for the other.
\<close>

section \<open>Framing\<close>

definition write_frame :: "string \<Rightarrow> byte_stream \<Rightarrow> (provider_error + unit) \<times> byte_stream" where
  "write_frame payload s =
     (if MAX_FRAME_BYTES < length payload
      then (Inl (provider_error_new Err_FrameTooLarge ''peer-session frame exceeds the maximum size''), s)
      else case write_all (le_bytes 4 (length payload) @ payload) s of
        (Inl kind, s1) \<Rightarrow> (Inl (provider_error_new Err_GatewayUnavailable (''peer-session write failed: '' @ kind)), s1)
      | (Inr _, s1) \<Rightarrow>
          (case bs_flush_error s1 of
             Some kind \<Rightarrow> (Inl (provider_error_new Err_GatewayUnavailable (''peer-session flush failed: '' @ kind)), s1)
           | None \<Rightarrow> (Inr (), s1)))"

definition read_frame :: "byte_stream \<Rightarrow> (provider_error + string) \<times> byte_stream" where
  "read_frame s =
     (case read_exact 4 s of
        (Inl kind, s1) \<Rightarrow>
          (Inl (provider_error_new Err_GatewayUnavailable (''peer-session closed before a frame length: '' @ kind)), s1)
      | (Inr len, s1) \<Rightarrow>
          if MAX_FRAME_BYTES < from_le_bytes len
          then (Inl (provider_error_new Err_FrameTooLarge ''peer declared a frame above the maximum size''), s1)
          else case read_exact (from_le_bytes len) s1 of
            (Inl kind, s2) \<Rightarrow>
              (Inl (provider_error_new Err_MalformedFrame (''peer-session truncated a frame body: '' @ kind)), s2)
          | (Inr body, s2) \<Rightarrow> (Inr body, s2))"


section \<open>The handshake\<close>

primrec rejected_reason_debug :: "handshake_rejected_reason \<Rightarrow> string" where
  "rejected_reason_debug Hs_VersionSkew = ''VersionSkew''"
| "rejected_reason_debug Hs_CodecMismatch = ''CodecMismatch''"
| "rejected_reason_debug Hs_SchemaFingerprintMismatch = ''SchemaFingerprintMismatch''"
| "rejected_reason_debug Hs_CapabilityMismatch = ''CapabilityMismatch''"
| "rejected_reason_debug Hs_ChannelBindingMismatch = ''ChannelBindingMismatch''"
| "rejected_reason_debug Hs_MalformedHandshake = ''MalformedHandshake''"

definition handshake_rejected_error :: "handshake_rejected_reason \<Rightarrow> provider_error" where
  "handshake_rejected_error reason =
     provider_error_new
       (case reason of
          Hs_VersionSkew \<Rightarrow> Err_VersionSkew
        | Hs_CodecMismatch \<Rightarrow> Err_VersionSkew
        | Hs_SchemaFingerprintMismatch \<Rightarrow> Err_VersionSkew
        | Hs_CapabilityMismatch \<Rightarrow> Err_VersionSkew
        | Hs_ChannelBindingMismatch \<Rightarrow> Err_AuthenticationFailed
        | Hs_MalformedHandshake \<Rightarrow> Err_MalformedFrame)
       (''peer handshake rejected: '' @ rejected_reason_debug reason)"

definition reconcile_common :: "handshake \<Rightarrow> handshake \<Rightarrow> handshake_rejected_reason + unit" where
  "reconcile_common ours theirs =
     (if protocol_version theirs \<noteq> protocol_version ours then Inl Hs_VersionSkew
      else if codec_id theirs \<noteq> codec_id ours then Inl Hs_CodecMismatch
      else if schema_fingerprint theirs \<noteq> schema_fingerprint ours then Inl Hs_SchemaFingerprintMismatch
      else if hs_peer theirs \<noteq> hs_peer ours then Inl Hs_ChannelBindingMismatch
      else Inr ())"

definition reconcile_selected :: "handshake \<Rightarrow> handshake \<Rightarrow> handshake_rejected_reason + unit" where
  "reconcile_selected ours selected =
     bind_result (reconcile_common ours selected) (\<lambda>_.
       if \<not> caps_subset (capabilities (hs_capabilities selected)) (capabilities (hs_capabilities ours))
       then Inl Hs_CapabilityMismatch
       else if fingerprint (hs_capabilities selected) \<noteq> stable_fingerprint (capabilities (hs_capabilities selected))
       then Inl Hs_CapabilityMismatch
       else Inr ())"

definition expect_handshake_accept :: "protocol_codec \<Rightarrow> string \<Rightarrow> provider_error + handshake" where
  "expect_handshake_accept codec bytes =
     (case cd_decode codec bytes of
        Inl e \<Rightarrow> Inl (provider_error_from e)
      | Inr (Frame_HandshakeAccepted h) \<Rightarrow> Inr h
      | Inr (Frame_HandshakeRejected reason) \<Rightarrow> Inl (handshake_rejected_error reason)
      | Inr _ \<Rightarrow>
          Inl (provider_error_new Err_MalformedFrame ''expected a handshake-accepted frame before any other traffic''))"

definition expect_handshake :: "protocol_codec \<Rightarrow> string \<Rightarrow> provider_error + handshake" where
  "expect_handshake codec bytes =
     (case cd_decode codec bytes of
        Inl e \<Rightarrow> Inl (provider_error_from e)
      | Inr (Frame_Handshake h) \<Rightarrow> Inr h
      | Inr _ \<Rightarrow> Inl (provider_error_new Err_MalformedFrame ''expected a handshake frame before any other traffic''))"

definition parse_codec_id :: "string \<Rightarrow> provider_error + protocol_token" where
  "parse_codec_id raw = parse_token ''codec id'' raw"

record peer_session =
  ps_stream :: byte_stream
  ps_negotiated :: handshake

definition our_handshake :: "protocol_codec \<Rightarrow> capability_set \<Rightarrow> provider_error + handshake" where
  "our_handshake codec caps =
     bind_result (parse_codec_id (cd_codec_id codec)) (\<lambda>codec_token.
     bind_result (parse_codec_id (cd_schema_fingerprint codec)) (\<lambda>schema_token.
       Inr \<lparr>protocol_version = PROTOCOL_VERSION, codec_id = codec_token, schema_fingerprint = schema_token,
            hs_capabilities = negotiation caps, hs_peer = None\<rparr>))"

definition client_propose ::
    "protocol_codec \<Rightarrow> capability_set \<Rightarrow> byte_stream \<Rightarrow> provider_error + handshake \<times> byte_stream" where
  "client_propose codec caps stream =
     bind_result (our_handshake codec caps) (\<lambda>ours.
       case cd_encode codec (Frame_Handshake ours) of
         Inl e \<Rightarrow> Inl (provider_error_from e)
       | Inr bytes \<Rightarrow>
           (case write_frame bytes stream of
              (Inl e, _) \<Rightarrow> Inl e
            | (Inr _, stream') \<Rightarrow> Inr (ours, stream')))"

definition client_conclude :: "protocol_codec \<Rightarrow> handshake \<Rightarrow> byte_stream \<Rightarrow> provider_error + peer_session" where
  "client_conclude codec ours stream =
     (case read_frame stream of
        (Inl e, _) \<Rightarrow> Inl e
      | (Inr bytes, stream') \<Rightarrow>
          bind_result (expect_handshake_accept codec bytes) (\<lambda>selected.
            case reconcile_selected ours selected of
              Inl reason \<Rightarrow> Inl (handshake_rejected_error reason)
            | Inr _ \<Rightarrow> Inr \<lparr>ps_stream = stream', ps_negotiated = selected\<rparr>))"

text \<open>The server's side; the bytes it wrote stay on the stream also when it refuses.\<close>

definition establish_server ::
    "protocol_codec \<Rightarrow> capability_set \<Rightarrow> byte_stream \<Rightarrow> (provider_error + handshake) \<times> byte_stream" where
  "establish_server codec caps stream =
     (case our_handshake codec caps of
        Inl e \<Rightarrow> (Inl e, stream)
      | Inr ours \<Rightarrow>
          (case read_frame stream of
             (Inl e, stream') \<Rightarrow> (Inl e, stream')
           | (Inr bytes, stream') \<Rightarrow>
               (case expect_handshake codec bytes of
                  Inl e \<Rightarrow> (Inl e, stream')
                | Inr theirs \<Rightarrow>
                    (case reconcile_common ours theirs of
                       Inl reason \<Rightarrow>
                         (case cd_encode codec (Frame_HandshakeRejected reason) of
                            Inl e \<Rightarrow> (Inl (provider_error_from e), stream')
                          | Inr rejected \<Rightarrow>
                              (Inl (handshake_rejected_error reason), snd (write_frame rejected stream')))
                     | Inr _ \<Rightarrow>
                         (let selected = ours\<lparr>hs_capabilities :=
                                negotiation (caps_intersection (capabilities (hs_capabilities ours))
                                  (capabilities (hs_capabilities theirs)))\<rparr>
                          in case cd_encode codec (Frame_HandshakeAccepted selected) of
                               Inl e \<Rightarrow> (Inl (provider_error_from e), stream')
                             | Inr accepted \<Rightarrow>
                                 (case write_frame accepted stream' of
                                    (Inl e, stream'') \<Rightarrow> (Inl e, stream'')
                                  | (Inr _, stream'') \<Rightarrow> (Inr selected, stream'')))))))"

definition peer_send :: "protocol_codec \<Rightarrow> constellation_frame \<Rightarrow> peer_session \<Rightarrow> (provider_error + unit) \<times> peer_session" where
  "peer_send codec frame s =
     (case cd_encode codec frame of
        Inl e \<Rightarrow> (Inl (provider_error_from e), s)
      | Inr bytes \<Rightarrow> (case write_frame bytes (ps_stream s) of (r, stream') \<Rightarrow> (r, s\<lparr>ps_stream := stream'\<rparr>)))"

definition peer_recv :: "protocol_codec \<Rightarrow> peer_session \<Rightarrow> (provider_error + constellation_frame) \<times> peer_session" where
  "peer_recv codec s =
     (case read_frame (ps_stream s) of
        (Inl e, stream') \<Rightarrow> (Inl e, s\<lparr>ps_stream := stream'\<rparr>)
      | (Inr bytes, stream') \<Rightarrow>
          (case cd_decode codec bytes of
             Inl e \<Rightarrow> (Inl (provider_error_from e), s\<lparr>ps_stream := stream'\<rparr>)
           | Inr frame \<Rightarrow> (Inr frame, s\<lparr>ps_stream := stream'\<rparr>)))"


section \<open>Both ends\<close>

text \<open>The handshake over a link that delivers what each end writes: what the client and the server come to.\<close>

definition peers_negotiate ::
    "protocol_codec \<Rightarrow> capability_set \<Rightarrow> protocol_codec \<Rightarrow> capability_set \<Rightarrow>
     (provider_error + peer_session) \<times> (provider_error + handshake)" where
  "peers_negotiate client client_caps server server_caps =
     (case client_propose client client_caps (duplex []) of
        Inl e \<Rightarrow> (Inl e, fst (establish_server server server_caps (duplex [])))
      | Inr (ours, cs) \<Rightarrow>
          (case establish_server server server_caps (duplex (bs_out cs)) of
             (r, ss) \<Rightarrow> (client_conclude client ours (cs\<lparr>bs_in := bs_out ss\<rparr>), r)))"

definition frame_fits :: "protocol_codec \<Rightarrow> constellation_frame \<Rightarrow> bool" where
  "frame_fits codec f \<longleftrightarrow> (case cd_encode codec f of Inl _ \<Rightarrow> False | Inr b \<Rightarrow> length b \<le> MAX_FRAME_BYTES)"

lemma frame_fitsE:
  assumes "frame_fits codec f"
  obtains b where "cd_encode codec f = Inr b" "length b \<le> MAX_FRAME_BYTES"
  using assms by (auto simp: frame_fits_def split: sum.splits)

lemma read_frame_framed:
  assumes "length payload \<le> MAX_FRAME_BYTES" "bs_in s = framed payload @ rest"
  shows "read_frame s = (Inr payload, s\<lparr>bs_in := rest\<rparr>)"
  using assms(1) by (simp add: read_frame_def read_framed [OF assms])

lemma write_frame_healthy:
  "healthy s \<Longrightarrow> length payload \<le> MAX_FRAME_BYTES \<Longrightarrow>
   write_frame payload s = (Inr (), s\<lparr>bs_out := bs_out s @ framed payload\<rparr>)"
  by (simp add: write_frame_def write_all_def healthy_def framed_def)

lemma our_handshake_Inr:
  assumes "our_handshake codec caps = Inr h"
  shows "h = \<lparr>protocol_version = PROTOCOL_VERSION, codec_id = cd_codec_id codec,
    schema_fingerprint = cd_schema_fingerprint codec, hs_capabilities = negotiation caps, hs_peer = None\<rparr>"
proof -
  have tok: "t = raw" if "parse_codec_id raw = Inr t" for raw t
    using that by (auto simp: parse_codec_id_def parse_token_def protocol_token_parse_def split: if_splits)
  from assms show ?thesis by (auto simp: our_handshake_def bind_result_eq_Inr dest!: tok)
qed

text \<open>Why the server refuses a client's proposal, if it does.\<close>

definition mismatch :: "protocol_codec \<Rightarrow> protocol_codec \<Rightarrow> handshake_rejected_reason option" where
  "mismatch client server =
     (if cd_codec_id client \<noteq> cd_codec_id server then Some Hs_CodecMismatch
      else if cd_schema_fingerprint client \<noteq> cd_schema_fingerprint server then Some Hs_SchemaFingerprintMismatch
      else None)"

lemma reconcile_ours:
  assumes "our_handshake client c = Inr ours" "our_handshake server s = Inr theirs"
  shows "reconcile_common theirs ours = (case mismatch client server of Some r \<Rightarrow> Inl r | None \<Rightarrow> Inr ())"
  by (simp add: our_handshake_Inr [OF assms(1)] our_handshake_Inr [OF assms(2)] reconcile_common_def mismatch_def)

lemma server_reads:
  assumes "codec_correct server" "our_handshake server server_caps = Inr theirs" "our_handshake client client_caps = Inr ours"
    and "cd_encode server (Frame_Handshake ours) = Inr b" "length b \<le> MAX_FRAME_BYTES"
  shows "read_frame (duplex (framed b)) = (Inr b, duplex [])" "expect_handshake server b = Inr ours"
    "capabilities (hs_capabilities theirs) = server_caps" "capabilities (hs_capabilities ours) = client_caps"
  using read_frame_framed [OF assms(5), of "duplex (framed b)" "[]"] assms(1,4)
    our_handshake_Inr [OF assms(2)] our_handshake_Inr [OF assms(3)]
  by (simp_all add: expect_handshake_def codec_correct_def negotiation_def)

lemma server_rejects:
  assumes "codec_correct server" "our_handshake server server_caps = Inr theirs" "our_handshake client client_caps = Inr ours"
    and "cd_encode server (Frame_Handshake ours) = Inr b" "length b \<le> MAX_FRAME_BYTES"
    and "mismatch client server = Some r" "cd_encode server (Frame_HandshakeRejected r) = Inr reply"
    and "length reply \<le> MAX_FRAME_BYTES"
  shows "establish_server server server_caps (duplex (framed b)) =
    (Inl (handshake_rejected_error r), (duplex [])\<lparr>bs_out := framed reply\<rparr>)"
  using assms(6,7)
  by (simp add: establish_server_def assms(2) server_reads [OF assms(1-5)] reconcile_ours [OF assms(3,2)]
      write_frame_healthy [OF _ assms(8)])

lemma server_accepts:
  assumes "codec_correct server" "our_handshake server server_caps = Inr theirs" "our_handshake client client_caps = Inr ours"
    and "cd_encode server (Frame_Handshake ours) = Inr b" "length b \<le> MAX_FRAME_BYTES"
    and "mismatch client server = None" "selected = theirs\<lparr>hs_capabilities := negotiation (caps_intersection server_caps client_caps)\<rparr>"
    and "cd_encode server (Frame_HandshakeAccepted selected) = Inr reply" "length reply \<le> MAX_FRAME_BYTES"
  shows "establish_server server server_caps (duplex (framed b)) = (Inr selected, (duplex [])\<lparr>bs_out := framed reply\<rparr>)"
    and "reconcile_selected ours selected = Inr ()"
proof -
  show "establish_server server server_caps (duplex (framed b)) = (Inr selected, (duplex [])\<lparr>bs_out := framed reply\<rparr>)"
    using assms(6,8)
    by (simp add: establish_server_def assms(2) server_reads [OF assms(1-5)] reconcile_ours [OF assms(3,2)]
        write_frame_healthy [OF _ assms(9)] Let_def flip: assms(7))
  show "reconcile_selected ours selected = Inr ()"
    using assms(6)
    by (simp add: reconcile_selected_def reconcile_common_def our_handshake_Inr [OF assms(3)] our_handshake_Inr [OF assms(2)]
        assms(7) mismatch_def negotiation_def caps_intersection_subset split: if_splits)
qed

lemma client_reads:
  "length reply \<le> MAX_FRAME_BYTES \<Longrightarrow>
   client_conclude client ours ((duplex (framed reply))\<lparr>bs_out := out\<rparr>) =
     bind_result (expect_handshake_accept client reply) (\<lambda>selected.
       case reconcile_selected ours selected of
         Inl reason \<Rightarrow> Inl (handshake_rejected_error reason)
       | Inr _ \<Rightarrow> Inr \<lparr>ps_stream = (duplex [])\<lparr>bs_out := out\<rparr>, ps_negotiated = selected\<rparr>)"
  using read_frame_framed [of reply "(duplex (framed reply))\<lparr>bs_out := out\<rparr>" "[]"]
  by (simp add: client_conclude_def duplex_swap)


section \<open>Properties\<close>

text \<open>C21. 
  Two configured peers agree on what they negotiate. Over a working link, with one wire format, both come to the
  same handshake with exactly the capabilities both offered when their codec and schema are the same, and no byte
  of the handshake is left on the stream; otherwise both fail with the same reason, the first of codec and schema that differs. The
  hypotheses: what is encoded decodes, both ends have valid tokens, and the handshake frames fit.
\<close>

theorem negotiation_agrees:
  assumes "codec_correct client" "cd_encode server = cd_encode client" "cd_decode server = cd_decode client"
    and "our_handshake client client_caps = Inr ours" "our_handshake server server_caps = Inr theirs"
    and "frame_fits client (Frame_Handshake ours)" "\<forall>r. frame_fits client (Frame_HandshakeRejected r)"
    and "frame_fits client (Frame_HandshakeAccepted (theirs\<lparr>hs_capabilities := negotiation (caps_intersection server_caps client_caps)\<rparr>))"
  shows "case mismatch client server of
      Some r \<Rightarrow> peers_negotiate client client_caps server server_caps =
        (Inl (handshake_rejected_error r), Inl (handshake_rejected_error r))
    | None \<Rightarrow> (\<exists>s. peers_negotiate client client_caps server server_caps = (Inr s, Inr (ps_negotiated s)) \<and>
        capabilities (hs_capabilities (ps_negotiated s)) = caps_intersection server_caps client_caps \<and>
        protocol_version (ps_negotiated s) = PROTOCOL_VERSION \<and> codec_id (ps_negotiated s) = cd_codec_id client \<and>
        schema_fingerprint (ps_negotiated s) = cd_schema_fingerprint client \<and> bs_in (ps_stream s) = [])"
proof -
  let ?selected = "theirs\<lparr>hs_capabilities := negotiation (caps_intersection server_caps client_caps)\<rparr>"
  have server: "codec_correct server" using assms(1,2,3) by (simp add: codec_correct_def)
  obtain b where b: "cd_encode client (Frame_Handshake ours) = Inr b" "length b \<le> MAX_FRAME_BYTES"
    using assms(6) by (rule frame_fitsE)
  have propose: "client_propose client client_caps (duplex []) = Inr (ours, (duplex [])\<lparr>bs_out := framed b\<rparr>)"
    by (simp add: client_propose_def assms(4) b write_frame_healthy)
  have decode: "cd_decode client x = Inr f" if "cd_encode client f = Inr x" for f x
    using assms(1) that by (simp add: codec_correct_def)
  show ?thesis
  proof (cases "mismatch client server")
    case None
    obtain reply where reply: "cd_encode client (Frame_HandshakeAccepted ?selected) = Inr reply" "length reply \<le> MAX_FRAME_BYTES"
      using assms(8) by (rule frame_fitsE)
    note acc = server_accepts [OF server assms(5,4) b(1)[folded assms(2)] b(2) None refl reply(1)[folded assms(2)] reply(2)]
    have "peers_negotiate client client_caps server server_caps =
        (Inr \<lparr>ps_stream = (duplex [])\<lparr>bs_out := framed b\<rparr>, ps_negotiated = ?selected\<rparr>, Inr ?selected)"
      by (simp add: peers_negotiate_def propose acc duplex_swap client_reads [OF reply(2)] expect_handshake_accept_def
          decode [OF reply(1)])
    then show ?thesis
      using None by (simp add: negotiation_def our_handshake_Inr [OF assms(5)] mismatch_def split: if_splits)
  next
    case (Some r)
    obtain reply where reply: "cd_encode client (Frame_HandshakeRejected r) = Inr reply" "length reply \<le> MAX_FRAME_BYTES"
      using spec [OF assms(7), of r] by (rule frame_fitsE)
    note rej = server_rejects [OF server assms(5,4) b(1)[folded assms(2)] b(2) Some reply(1)[folded assms(2)] reply(2)]
    show ?thesis
      using Some by (simp add: peers_negotiate_def propose rej duplex_swap client_reads [OF reply(2)] expect_handshake_accept_def
          decode [OF reply(1)])
  qed
qed

text \<open>A codec of finitely many frames, for the instances below.\<close>

definition table_codec :: "string \<Rightarrow> (constellation_frame \<times> string) list \<Rightarrow> protocol_codec" where
  "table_codec schema table =
     \<lparr>cd_codec_id = ''table'', cd_schema_fingerprint = schema,
      cd_encode = (\<lambda>f. case map_of table f of Some p \<Rightarrow> Inr p | None \<Rightarrow> Inl (error_new Err_MalformedFrame [])),
      cd_decode = (\<lambda>p. case map_of (map prod.swap table) p of Some f \<Rightarrow> Inr f | None \<Rightarrow> Inl (error_new Err_MalformedFrame []))\<rparr>"

lemma table_codec_correct: "distinct (map snd table) \<Longrightarrow> codec_correct (table_codec schema table)"
proof -
  assume "distinct (map snd table)"
  then have "distinct (map fst (map prod.swap table))" by (simp add: comp_def)
  then have "map_of table f = Some p \<Longrightarrow> map_of (map prod.swap table) p = Some f" for f p
    by (auto dest!: map_of_SomeD simp: map_of_eq_Some_iff)
  then show ?thesis by (auto simp: codec_correct_def table_codec_def split: option.splits)
qed

lemma table_handshake:
  "our_handshake (table_codec ''s1'' table) caps =
     Inr \<lparr>protocol_version = PROTOCOL_VERSION, codec_id = ''table'', schema_fingerprint = ''s1'',
          hs_capabilities = negotiation caps, hs_peer = None\<rparr>"
proof -
  have "parse_codec_id ''table'' = Inr ''table''" "parse_codec_id ''s1'' = Inr ''s1''"
    by (simp_all add: parse_codec_id_def parse_token_def protocol_token_parse_def) code_simp+
  then show ?thesis by (simp add: our_handshake_def table_codec_def)
qed

theorem negotiation_agrees_witness:
  "\<exists>codec s. peers_negotiate codec (from_caps [Cap_Exec, Cap_Lifecycle]) codec (from_caps [Cap_Exec]) = (Inr s, Inr (ps_negotiated s)) \<and>
     capabilities (hs_capabilities (ps_negotiated s)) = caps_intersection (from_caps [Cap_Exec]) (from_caps [Cap_Exec, Cap_Lifecycle])"
proof -
  let ?c = "from_caps [Cap_Exec, Cap_Lifecycle]" and ?s = "from_caps [Cap_Exec]"
  let ?h = "\<lambda>caps. \<lparr>protocol_version = PROTOCOL_VERSION, codec_id = ''table'', schema_fingerprint = ''s1'',
    hs_capabilities = negotiation caps, hs_peer = None\<rparr>"
  let ?table = "[(Frame_Handshake (?h ?c), ''p''), (Frame_HandshakeAccepted (?h (caps_intersection ?s ?c)), ''a''),
    (Frame_HandshakeRejected Hs_VersionSkew, ''1''), (Frame_HandshakeRejected Hs_CodecMismatch, ''2''),
    (Frame_HandshakeRejected Hs_SchemaFingerprintMismatch, ''3''), (Frame_HandshakeRejected Hs_CapabilityMismatch, ''4''),
    (Frame_HandshakeRejected Hs_ChannelBindingMismatch, ''5''), (Frame_HandshakeRejected Hs_MalformedHandshake, ''6'')]"
  let ?codec = "table_codec ''s1'' ?table"
  have correct: "codec_correct ?codec" by (rule table_codec_correct) simp
  have "frame_fits ?codec (Frame_Handshake (?h ?c))"
    "frame_fits ?codec (Frame_HandshakeAccepted ((?h ?s)\<lparr>hs_capabilities := negotiation (caps_intersection ?s ?c)\<rparr>))"
    by (simp_all add: frame_fits_def table_codec_def MAX_FRAME_BYTES_def)
  moreover have "\<forall>r. frame_fits ?codec (Frame_HandshakeRejected r)"
  proof
    fix r show "frame_fits ?codec (Frame_HandshakeRejected r)"
      by (cases r) (simp_all add: frame_fits_def table_codec_def MAX_FRAME_BYTES_def)
  qed
  ultimately have "case mismatch ?codec ?codec of
      Some r \<Rightarrow> peers_negotiate ?codec ?c ?codec ?s = (Inl (handshake_rejected_error r), Inl (handshake_rejected_error r))
    | None \<Rightarrow> (\<exists>s. peers_negotiate ?codec ?c ?codec ?s = (Inr s, Inr (ps_negotiated s)) \<and>
        capabilities (hs_capabilities (ps_negotiated s)) = caps_intersection ?s ?c \<and>
        protocol_version (ps_negotiated s) = PROTOCOL_VERSION \<and> codec_id (ps_negotiated s) = cd_codec_id ?codec \<and>
        schema_fingerprint (ps_negotiated s) = cd_schema_fingerprint ?codec \<and> bs_in (ps_stream s) = [])"
    by (intro negotiation_agrees [OF correct refl refl table_handshake table_handshake])
  then show ?thesis by (auto simp: mismatch_def)
qed

text \<open>
  Whatever a server answers, and in whatever bytes, a client only holds a session that stays within its
  proposal: its version, codec and schema, no capability it did not offer, and the fingerprint of the set.
\<close>

theorem negotiated_within_proposal:
  assumes "client_conclude codec ours stream = Inr s"
  shows "protocol_version (ps_negotiated s) = protocol_version ours \<and> codec_id (ps_negotiated s) = codec_id ours \<and>
    schema_fingerprint (ps_negotiated s) = schema_fingerprint ours \<and> hs_peer (ps_negotiated s) = hs_peer ours \<and>
    caps_subset (capabilities (hs_capabilities (ps_negotiated s))) (capabilities (hs_capabilities ours)) \<and>
    fingerprint (hs_capabilities (ps_negotiated s)) = stable_fingerprint (capabilities (hs_capabilities (ps_negotiated s)))"
  using assms
  by (auto simp: client_conclude_def bind_result_eq_Inr reconcile_selected_def reconcile_common_def
      split: prod.splits sum.splits if_splits)

text \<open>A frame sent on a working stream is the frame received.\<close>

theorem peer_frame_round_trip:
  assumes "codec_correct codec" "frame_fits codec f" "healthy (ps_stream a)"
  shows "\<exists>a' bytes. peer_send codec f a = (Inr (), a') \<and> bs_out (ps_stream a') = bs_out (ps_stream a) @ bytes \<and>
    (\<forall>b rest. bs_in (ps_stream b) = bytes @ rest \<longrightarrow>
      peer_recv codec b = (Inr f, b\<lparr>ps_stream := (ps_stream b)\<lparr>bs_in := rest\<rparr>\<rparr>))"
proof -
  obtain p where p: "cd_encode codec f = Inr p" "length p \<le> MAX_FRAME_BYTES" using assms(2) by (rule frame_fitsE)
  moreover have "cd_decode codec p = Inr f" using assms(1) p(1) by (simp add: codec_correct_def)
  ultimately show ?thesis
    using assms(3) by (intro exI [of _ "a\<lparr>ps_stream := (ps_stream a)\<lparr>bs_out := bs_out (ps_stream a) @ framed p\<rparr>\<rparr>"] exI [of _ "framed p"])
      (simp add: peer_send_def peer_recv_def write_frame_healthy read_frame_framed)
qed

end
