(* ===== verification/Display_Transport.thy ===== *)
theory Display_Transport
  imports Byte_Streams
begin

text \<open>
  Two small parts of the display path in \<open>d2b-realm-router\<close>: the credential preface that must open a display
  connection (\<open>display_transport.rs\<close>), and the lifecycle of a workload session (\<open>session_lifecycle.rs\<close>). The
  preface's cursor and lengths are natural numbers.
\<close>

section \<open>The display preface\<close>

definition DISPLAY_TOKEN_LEN :: nat where
  "DISPLAY_TOKEN_LEN = 32"

definition DISPLAY_MAGIC :: string where
  "DISPLAY_MAGIC = ''D2B-DISPLAY'' @ [char_of (0::nat)]"

definition DISPLAY_VERSION :: char where
  "DISPLAY_VERSION = char_of (1::nat)"

record display_transport_binding =
  dtb_gateway_cid :: u32
  dtb_generation :: u64
  dtb_stream :: stream_id

definition encode_display_preface :: "display_transport_binding \<Rightarrow> string \<Rightarrow> string" where
  "encode_display_preface b token =
     DISPLAY_MAGIC @ [DISPLAY_VERSION] @ be_bytes 4 (unat (dtb_gateway_cid b)) @ be_bytes 8 (unat (dtb_generation b)) @
     be_bytes 2 (length (dtb_stream b)) @ dtb_stream b @ token"

definition preface_malformed :: constellation_error where
  "preface_malformed =
     error_new Err_MalformedFrame ''display transport preface did not match the authorized session''"

definition take_bytes :: "string \<Rightarrow> nat \<Rightarrow> nat \<Rightarrow> constellation_error + string \<times> nat" where
  "take_bytes frame cursor len =
     (if cursor + len \<le> length frame then Inr (take len (drop cursor frame), cursor + len) else Inl preface_malformed)"

definition from_be_bytes :: "string \<Rightarrow> nat" where
  "from_be_bytes bs = from_le_bytes (rev bs)"

definition read_uint :: "nat \<Rightarrow> string \<Rightarrow> nat \<Rightarrow> constellation_error + nat \<times> nat" where
  "read_uint width frame cursor =
     bind_result (take_bytes frame cursor width) (\<lambda>(bytes, cursor'). Inr (from_be_bytes bytes, cursor'))"

definition verify_display_preface :: "string \<Rightarrow> display_transport_binding \<Rightarrow> string \<Rightarrow> constellation_error + nat" where
  "verify_display_preface frame expected token =
     bind_result (take_bytes frame 0 (length DISPLAY_MAGIC)) (\<lambda>(magic, c1).
     if magic \<noteq> DISPLAY_MAGIC then Inl preface_malformed
     else bind_result (take_bytes frame c1 1) (\<lambda>(version, c2).
     if version \<noteq> [DISPLAY_VERSION] then Inl preface_malformed
     else bind_result (read_uint 4 frame c2) (\<lambda>(cid, c3).
     bind_result (read_uint 8 frame c3) (\<lambda>(generation, c4).
     bind_result (read_uint 2 frame c4) (\<lambda>(stream_len, c5).
     bind_result (take_bytes frame c5 stream_len) (\<lambda>(stream, c6).
     bind_result (take_bytes frame c6 DISPLAY_TOKEN_LEN) (\<lambda>(got, c7).
     if cid \<noteq> unat (dtb_gateway_cid expected) \<or> generation \<noteq> unat (dtb_generation expected) \<or>
        stream \<noteq> dtb_stream expected \<or> got \<noteq> token
     then Inl preface_malformed
     else Inr c7)))))))"

lemma le_bytes_from_le_bytes: "le_bytes (length bs) (from_le_bytes bs) = bs"
proof (induction bs)
  case (Cons c cs)
  have "(of_char c :: nat) < 256" by simp
  then have "(of_char c + 256 * from_le_bytes cs) div 256 = from_le_bytes cs" by linarith
  with Cons show ?case by (simp add: char_of_eq_iff take_bit_eq_mod)
qed simp

lemma from_le_bytes_inject: "n < 256 ^ length bs \<Longrightarrow> from_le_bytes bs = n \<longleftrightarrow> bs = le_bytes (length bs) n"
  using le_bytes_from_le_bytes from_le_bytes_le_bytes by metis

text \<open>Reading at the end of a known prefix, and what the whole preface reads.\<close>

lemma take_bytes_at:
  "take_bytes (pre @ x @ rest) (length pre) (length x) = Inr (x, length pre + length x)"
  by (simp add: take_bytes_def)

lemma take_bytes_Inr:
  assumes "take_bytes frame c n = Inr (x, c')" "frame = pre @ g" "c = length pre"
  shows "\<exists>rest. frame = (pre @ x) @ rest \<and> length x = n \<and> c' = length (pre @ x)"
proof -
  have "frame = (pre @ take n g) @ drop n g" "x = take n g" "length (take n g) = n" "c' = length pre + n"
    using assms by (auto simp: take_bytes_def split: if_splits)
  then show ?thesis by (intro exI [of _ "drop n g"]) simp
qed

lemma from_le_bytes_bound: "from_le_bytes bs < 256 ^ length bs"
proof (induction bs)
  case (Cons c cs)
  have "(of_char c :: nat) < 256" by (rule nat_of_char_less_256)
  with Cons show ?case unfolding from_le_bytes.simps length_Cons power_Suc by linarith
qed simp

lemma from_be_bytes_inject: "n < 256 ^ length bs \<Longrightarrow> from_be_bytes bs = n \<longleftrightarrow> bs = be_bytes (length bs) n"
  using from_le_bytes_inject [of n "rev bs"] by (auto simp: from_be_bytes_def be_bytes_def rev_swap)

lemma read_uint_at: "n < 256 ^ w \<Longrightarrow> read_uint w (pre @ be_bytes w n @ rest) (length pre) = Inr (n, length pre + w)"
  using take_bytes_at [of pre "be_bytes w n" rest] from_be_bytes_inject [of n "be_bytes w n"]
  by (simp add: read_uint_def)

lemma read_uint_Inr:
  assumes "read_uint w frame c = Inr (n, c')" "frame = pre @ g" "c = length pre"
  shows "\<exists>rest. frame = (pre @ be_bytes w n) @ rest \<and> c' = length (pre @ be_bytes w n)"
proof -
  obtain bs where bs: "take_bytes frame c w = Inr (bs, c')" "n = from_be_bytes bs"
    using assms(1) by (auto simp: read_uint_def bind_result_eq_Inr)
  obtain rest where x: "frame = (pre @ bs) @ rest" "length bs = w" "c' = length (pre @ bs)"
    using take_bytes_Inr [OF bs(1) assms(2,3)] by blast
  have "n < 256 ^ w" using from_le_bytes_bound [of "rev bs"] by (simp add: bs(2) from_be_bytes_def x(2))
  then have eq: "bs = be_bytes w n" using from_be_bytes_inject [of n bs] bs(2) x(2) by simp
  show ?thesis by (rule exI [of _ rest]) (simp only: x(1,3) flip: eq)
qed

lemma length_magic [simp]: "length DISPLAY_MAGIC = 12"
  by (simp add: DISPLAY_MAGIC_def)

lemma unat_bound: "unat (x :: u32) < 256 ^ 4" "unat (y :: u64) < 256 ^ 8"
  by (rule less_le_trans [OF unsigned_less], simp)+

lemma preface_reads:
  assumes "length (dtb_stream b) < 2 ^ 16" "length token = DISPLAY_TOKEN_LEN"
  shows "verify_display_preface (encode_display_preface b token @ rest) b token = Inr (length (encode_display_preface b token))"
proof -
  let ?p1 = "DISPLAY_MAGIC" and ?c = "be_bytes 4 (unat (dtb_gateway_cid b))" and ?g = "be_bytes 8 (unat (dtb_generation b))"
    and ?l = "be_bytes 2 (length (dtb_stream b))"
  have len: "length (dtb_stream b) < 256 ^ 2" using assms(1) by simp
  note reads = take_bytes_at [of "[]" ?p1] take_bytes_at [of ?p1 "[DISPLAY_VERSION]"]
    read_uint_at [OF unat_bound(1), of "?p1 @ [DISPLAY_VERSION]" "dtb_gateway_cid b"]
    read_uint_at [OF unat_bound(2), of "?p1 @ [DISPLAY_VERSION] @ ?c" "dtb_generation b"]
    read_uint_at [OF len, of "?p1 @ [DISPLAY_VERSION] @ ?c @ ?g"]
    take_bytes_at [of "?p1 @ [DISPLAY_VERSION] @ ?c @ ?g @ ?l" "dtb_stream b"]
    take_bytes_at [of "?p1 @ [DISPLAY_VERSION] @ ?c @ ?g @ ?l @ dtb_stream b" token rest]
  from reads assms(2) show ?thesis
    by (simp add: verify_display_preface_def encode_display_preface_def)
qed


lemma read_preface:
  assumes "verify_display_preface frame b token = Inr n"
  shows "\<exists>rest. frame = encode_display_preface b token @ rest \<and> n = length (encode_display_preface b token)"
proof -
  let ?c = "be_bytes 4 (unat (dtb_gateway_cid b))" and ?g = "be_bytes 8 (unat (dtb_generation b))"
  obtain c1 c2 c3 c4 len c5 c6 where t: "take_bytes ([] @ frame) (length []) 12 = Inr (DISPLAY_MAGIC, c1)"
      "take_bytes frame c1 1 = Inr ([DISPLAY_VERSION], c2)" "read_uint 4 frame c2 = Inr (unat (dtb_gateway_cid b), c3)"
      "read_uint 8 frame c3 = Inr (unat (dtb_generation b), c4)" "read_uint 2 frame c4 = Inr (len, c5)"
      "take_bytes frame c5 len = Inr (dtb_stream b, c6)" "take_bytes frame c6 DISPLAY_TOKEN_LEN = Inr (token, n)"
    using assms by (auto simp: verify_display_preface_def bind_result_eq_Inr split: if_splits)
  obtain g1 where 1: "frame = ([] @ DISPLAY_MAGIC) @ g1" "c1 = length ([] @ DISPLAY_MAGIC)"
    using take_bytes_Inr [OF t(1), of "[]" frame] by auto
  obtain g2 where 2: "frame = (([] @ DISPLAY_MAGIC) @ [DISPLAY_VERSION]) @ g2" "c2 = length (([] @ DISPLAY_MAGIC) @ [DISPLAY_VERSION])"
    using take_bytes_Inr [OF t(2) 1] by blast
  obtain g3 where 3: "frame = ((([] @ DISPLAY_MAGIC) @ [DISPLAY_VERSION]) @ ?c) @ g3"
      "c3 = length ((([] @ DISPLAY_MAGIC) @ [DISPLAY_VERSION]) @ ?c)"
    using read_uint_Inr [OF t(3) 2] by blast
  obtain g4 where 4: "frame = (((([] @ DISPLAY_MAGIC) @ [DISPLAY_VERSION]) @ ?c) @ ?g) @ g4"
      "c4 = length (((([] @ DISPLAY_MAGIC) @ [DISPLAY_VERSION]) @ ?c) @ ?g)"
    using read_uint_Inr [OF t(4) 3] by blast
  let ?p = "(((([] @ DISPLAY_MAGIC) @ [DISPLAY_VERSION]) @ ?c) @ ?g) @ be_bytes 2 len"
  obtain g5 where 5: "frame = ?p @ g5" "c5 = length ?p"
    using read_uint_Inr [OF t(5) 4] by blast
  obtain g6 where 6: "frame = (?p @ dtb_stream b) @ g6" "c6 = length (?p @ dtb_stream b)" and len: "length (dtb_stream b) = len"
    using take_bytes_Inr [OF t(6) 5] by blast
  obtain g7 where "frame = ((?p @ dtb_stream b) @ token) @ g7" "n = length ((?p @ dtb_stream b) @ token)"
    using take_bytes_Inr [OF t(7) 6] by blast
  then show ?thesis by (intro exI [of _ g7]) (simp add: encode_display_preface_def len)
qed


section \<open>The session lifecycle\<close>

datatype session_phase =
    Allocating | TokenMinting | RelayConnecting | DisplayOpening | Phase_Running | Phase_Stopping | Phase_Stopped

definition phase_is_active :: "session_phase \<Rightarrow> bool" where
  "phase_is_active p \<longleftrightarrow> p \<noteq> Phase_Stopping \<and> p \<noteq> Phase_Stopped"

fun forward_next :: "session_phase \<Rightarrow> session_phase option" where
  "forward_next Allocating = Some TokenMinting"
| "forward_next TokenMinting = Some RelayConnecting"
| "forward_next RelayConnecting = Some DisplayOpening"
| "forward_next DisplayOpening = Some Phase_Running"
| "forward_next _ = None"

datatype lifecycle_error = NotAdvanceable

record session_lifecycle =
  sl_phase :: session_phase
  sl_failed_in :: "session_phase option"

definition lifecycle_new :: session_lifecycle where
  "lifecycle_new = \<lparr>sl_phase = Allocating, sl_failed_in = None\<rparr>"

definition lifecycle_advance :: "session_lifecycle \<Rightarrow> (lifecycle_error + session_phase) \<times> session_lifecycle" where
  "lifecycle_advance l =
     (case forward_next (sl_phase l) of
        Some p \<Rightarrow> (Inr p, l\<lparr>sl_phase := p\<rparr>)
      | None \<Rightarrow> (Inl NotAdvanceable, l))"

definition lifecycle_fail :: "session_lifecycle \<Rightarrow> session_lifecycle" where
  "lifecycle_fail l =
     (let l1 = (if sl_failed_in l = None then l\<lparr>sl_failed_in := Some (sl_phase l)\<rparr> else l)
      in if phase_is_active (sl_phase l1) then l1\<lparr>sl_phase := Phase_Stopping\<rparr> else l1)"

definition lifecycle_stop :: "session_lifecycle \<Rightarrow> session_lifecycle" where
  "lifecycle_stop l = (if phase_is_active (sl_phase l) then l\<lparr>sl_phase := Phase_Stopping\<rparr> else l)"

definition lifecycle_finish_stop :: "session_lifecycle \<Rightarrow> session_lifecycle" where
  "lifecycle_finish_stop l =
     (if sl_phase l = Phase_Stopping \<or> sl_phase l = Phase_Stopped then l\<lparr>sl_phase := Phase_Stopped\<rparr> else l)"

datatype lifecycle_call = Call_advance | Call_fail | Call_stop | Call_finish_stop

primrec lifecycle_apply :: "lifecycle_call \<Rightarrow> session_lifecycle \<Rightarrow> session_lifecycle" where
  "lifecycle_apply Call_advance l = snd (lifecycle_advance l)"
| "lifecycle_apply Call_fail l = lifecycle_fail l"
| "lifecycle_apply Call_stop l = lifecycle_stop l"
| "lifecycle_apply Call_finish_stop l = lifecycle_finish_stop l"

text \<open>The steps between phases: forward while establishing, and through \<open>Stopping\<close> to \<open>Stopped\<close>.\<close>

definition phase_step :: "session_phase \<Rightarrow> session_phase \<Rightarrow> bool" where
  "phase_step p q \<longleftrightarrow> forward_next p = Some q \<or> (phase_is_active p \<and> q = Phase_Stopping) \<or> (p = Phase_Stopping \<and> q = Phase_Stopped)"

interpretation workload_lifecycle: lifecycle phase_step "\<lambda>p. p = Phase_Stopped"
  by unfold_locales (auto simp: phase_step_def phase_is_active_def)

lemma apply_phase: "phase_step\<^sup>*\<^sup>* (sl_phase l) (sl_phase (lifecycle_apply c l))"
proof -
  have "sl_phase (lifecycle_apply c l) = sl_phase l \<or> phase_step (sl_phase l) (sl_phase (lifecycle_apply c l))"
    by (cases c) (auto simp: lifecycle_advance_def lifecycle_fail_def lifecycle_stop_def lifecycle_finish_stop_def
        phase_step_def Let_def split: option.splits)
  then show ?thesis by auto
qed

lemma run_phase: "phase_step\<^sup>*\<^sup>* (sl_phase l) (sl_phase (fold lifecycle_apply cs l))"
proof (induction cs arbitrary: l)
  case (Cons c cs)
  from rtranclp_trans [OF apply_phase Cons.IH] show ?case by simp
qed simp


section \<open>Properties\<close>

text \<open>
  The display preface is read exactly as it is written: a connection's first bytes are accepted for a
  binding and a token precisely when they start with the encoding of both, and the offset returned is the one
  after it, so that what follows is passed on whole. The hypotheses are the bounds of the stream id and
  the token length.
\<close>

theorem display_preface_exact:
  assumes "length (dtb_stream b) < 2 ^ 16" "length token = DISPLAY_TOKEN_LEN"
  shows "verify_display_preface frame b token = Inr n \<longleftrightarrow>
    (\<exists>rest. frame = encode_display_preface b token @ rest \<and> n = length (encode_display_preface b token))"
  using read_preface [of frame b token n] preface_reads [OF assms] by auto

theorem display_preface_exact_witness:
  "verify_display_preface
     (encode_display_preface \<lparr>dtb_gateway_cid = 42, dtb_generation = 7, dtb_stream = ''display-1''\<rparr> (replicate 32 (CHR ''k'')) @ ''x'')
     \<lparr>dtb_gateway_cid = 42, dtb_generation = 7, dtb_stream = ''display-1''\<rparr> (replicate 32 (CHR ''k'')) =
   Inr (length (encode_display_preface \<lparr>dtb_gateway_cid = 42, dtb_generation = 7, dtb_stream = ''display-1''\<rparr>
     (replicate 32 (CHR ''k''))))"
  by (subst display_preface_exact) (auto simp: DISPLAY_TOKEN_LEN_def)

text \<open>
  However the calls on a session's lifecycle are ordered, its phases only move forward: a stopped session
  stays stopped, one that is being torn down never runs again, and a recorded failure is never lost or overwritten.
\<close>

theorem lifecycle_forward_only:
  "(sl_phase l = Phase_Stopped \<longrightarrow> sl_phase (fold lifecycle_apply cs l) = Phase_Stopped) \<and>
   (\<not> phase_is_active (sl_phase l) \<longrightarrow> \<not> phase_is_active (sl_phase (fold lifecycle_apply cs l))) \<and>
   (\<forall>p. sl_failed_in l = Some p \<longrightarrow> sl_failed_in (fold lifecycle_apply cs l) = Some p)"
proof (intro conjI impI allI)
  show "sl_phase (fold lifecycle_apply cs l) = Phase_Stopped" if "sl_phase l = Phase_Stopped"
    using workload_lifecycle.terminal_final [OF run_phase [of l cs]] that by simp
  have "phase_step\<^sup>*\<^sup>* p q \<Longrightarrow> \<not> phase_is_active p \<Longrightarrow> \<not> phase_is_active q" for p q
    by (induction rule: rtranclp_induct) (auto simp: phase_step_def phase_is_active_def)
  then show "\<not> phase_is_active (sl_phase (fold lifecycle_apply cs l))" if "\<not> phase_is_active (sl_phase l)"
    using run_phase [of l cs] that by blast
  have "sl_failed_in (lifecycle_apply c k) = Some p" if "sl_failed_in k = Some p" for c k p
    using that by (cases c) (auto simp: lifecycle_advance_def lifecycle_fail_def lifecycle_stop_def lifecycle_finish_stop_def
        Let_def split: option.splits)
  then show "sl_failed_in (fold lifecycle_apply cs l) = Some p" if "sl_failed_in l = Some p" for p
    using that by (induction cs arbitrary: l) auto
qed

end
