(* ===== verification/Remote_Nodes.thy ===== *)
theory Remote_Nodes
  imports Executions Operation_Router
begin

text \<open>
  Remote full-host nodes, \<open>d2b-realm-router/src/remote_node.rs\<close>: the registry of enrolled nodes with their
  heartbeats, the preflight of a remote operation, and the gateway-side adapter that composes the registry
  with the operation router before a peer client sees an operation.

  The peer client is a trait of the source and a parameter here: what it answers to a send and to a query. A
  dispatch makes at most one such call, so its answers need no state; the calls made are returned beside the
  result. The router reads its clock when it routes and again when it records an outcome; both instants
  are arguments. Log events are left out. A panic, of \<open>unreachable!\<close>, is \<open>None\<close>.
\<close>

section \<open>Errors\<close>

datatype remote_node_availability = Available | Disconnected | StaleHeartbeat

datatype remote_node_error_kind =
    WrongRealm | WrongNode | NotFullHost | UnauthorizedGateway | DuplicateRegistration | StaleGeneration
  | RegistryCapacityExceeded | Remote_DedupCapacityExceeded | Remote_MissingIdempotencyKey | IdempotencyConflict
  | IdempotencyExpired | RemoteOperationUnknown | NodeUnavailable | Remote_CapabilityDenied | Remote_MissingWorkload
  | Remote_UnsupportedOperation

primrec remote_code :: "remote_node_error_kind \<Rightarrow> string" where
  "remote_code WrongRealm = ''wrong-realm''"
| "remote_code WrongNode = ''wrong-node''"
| "remote_code NotFullHost = ''not-full-host''"
| "remote_code UnauthorizedGateway = ''unauthorized-gateway''"
| "remote_code DuplicateRegistration = ''duplicate-registration''"
| "remote_code StaleGeneration = ''stale-node-generation''"
| "remote_code RegistryCapacityExceeded = ''registry-capacity-exceeded''"
| "remote_code Remote_DedupCapacityExceeded = ''dedup-capacity-exceeded''"
| "remote_code Remote_MissingIdempotencyKey = ''missing-idempotency-key''"
| "remote_code IdempotencyConflict = ''idempotency-key-conflict''"
| "remote_code IdempotencyExpired = ''idempotency-key-expired''"
| "remote_code RemoteOperationUnknown = ''remote-operation-unknown''"
| "remote_code NodeUnavailable = ''remote-node-unavailable''"
| "remote_code Remote_CapabilityDenied = ''capability-denied''"
| "remote_code Remote_MissingWorkload = ''missing-workload''"
| "remote_code Remote_UnsupportedOperation = ''unsupported-operation''"

primrec remote_error_kind :: "remote_node_error_kind \<Rightarrow> error_kind" where
  "remote_error_kind Remote_CapabilityDenied = Err_CapabilityDenied"
| "remote_error_kind RegistryCapacityExceeded = Err_Backpressure"
| "remote_error_kind Remote_DedupCapacityExceeded = Err_Backpressure"
| "remote_error_kind NodeUnavailable = Err_GatewayUnavailable"
| "remote_error_kind RemoteOperationUnknown = Err_GatewayUnavailable"
| "remote_error_kind Remote_UnsupportedOperation = Err_UnsupportedFeature"
| "remote_error_kind IdempotencyConflict = Err_IdempotencyKeyConflict"
| "remote_error_kind IdempotencyExpired = Err_IdempotencyKeyExpired"
| "remote_error_kind UnauthorizedGateway = Err_Unauthorized"
| "remote_error_kind WrongRealm = Err_InvalidTarget"
| "remote_error_kind WrongNode = Err_InvalidTarget"
| "remote_error_kind NotFullHost = Err_InvalidTarget"
| "remote_error_kind DuplicateRegistration = Err_InvalidTarget"
| "remote_error_kind StaleGeneration = Err_InvalidTarget"
| "remote_error_kind Remote_MissingIdempotencyKey = Err_InvalidTarget"
| "remote_error_kind Remote_MissingWorkload = Err_InvalidTarget"

primrec remediation :: "remote_node_error_kind \<Rightarrow> string" where
  "remediation WrongRealm = ''check the target realm and remote node enrollment''"
| "remediation WrongNode = ''check the target node id and remote node enrollment''"
| "remediation NotFullHost = ''register only full d2b hosts through this adapter''"
| "remediation UnauthorizedGateway = ''enroll the gateway principal for this realm and node''"
| "remediation DuplicateRegistration = ''re-register with the current generation or remove the conflicting node''"
| "remediation StaleGeneration = ''refresh remote node registration before retrying''"
| "remediation RegistryCapacityExceeded = ''remove stale remote nodes or raise the registry capacity''"
| "remediation Remote_DedupCapacityExceeded = ''wait for in-flight operations to finish or raise the dedup capacity''"
| "remediation Remote_MissingIdempotencyKey = ''retry the mutating operation with an idempotency key''"
| "remediation IdempotencyConflict = ''use a fresh idempotency key or retry the original request''"
| "remediation IdempotencyExpired = ''start a new operation with a fresh idempotency key''"
| "remediation RemoteOperationUnknown = ''retry after the remote node reconciles operation state''"
| "remediation NodeUnavailable = ''check the remote daemon peer session and re-register the node''"
| "remediation Remote_CapabilityDenied =
     ''check the substrate provider report and re-register after resolving capability gaps''"
| "remediation Remote_MissingWorkload = ''target a workload for workload or execution operations''"
| "remediation Remote_UnsupportedOperation = ''use a supported remote full-host operation''"

record remote_node_error =
  rne_kind :: remote_node_error_kind
  rne_missing_capability :: "capability option"
  rne_capability_fingerprint :: "string option"
  rne_correlation_id :: "correlation_id option"

definition remote_error :: "remote_node_error_kind \<Rightarrow> remote_node_error" where
  "remote_error kind =
     \<lparr>rne_kind = kind, rne_missing_capability = None, rne_capability_fingerprint = None, rne_correlation_id = None\<rparr>"

definition remote_capability_denied :: "capability \<Rightarrow> string option \<Rightarrow> remote_node_error" where
  "remote_capability_denied capability fp =
     \<lparr>rne_kind = Remote_CapabilityDenied, rne_missing_capability = Some capability, rne_capability_fingerprint = fp,
      rne_correlation_id = None\<rparr>"

definition remote_with_correlation :: "correlation_id \<Rightarrow> remote_node_error \<Rightarrow> remote_node_error" where
  "remote_with_correlation c e = e\<lparr>rne_correlation_id := Some c\<rparr>"

definition remote_display :: "remote_node_error \<Rightarrow> string" where
  "remote_display e = remote_code (rne_kind e) @ '': '' @ remediation (rne_kind e)"


section \<open>The registry\<close>

datatype node_kind = FullHost | Gateway_Node | ProviderManaged

record node_summary =
  ns_id :: node_id
  ns_realm :: realm_path
  ns_kind :: node_kind
  ns_capabilities :: capability_set

record remote_node_registration =
  rr_summary :: node_summary
  rr_gateway_principal :: principal_id
  rr_gateway_node :: node_id
  rr_substrate_adapter :: string
  rr_generation :: protocol_token

record remote_node_entry =
  rn_summary :: node_summary
  rn_gateway_principal :: principal_id
  rn_gateway_node :: node_id
  rn_substrate_adapter :: string
  rn_generation :: protocol_token
  rn_capability_fingerprint :: string
  rn_availability :: remote_node_availability
  rn_last_heartbeat :: instant

type_synonym remote_node_key = "realm_path \<times> node_id"

record remote_node_registry =
  rg_managed_realm :: realm_path
  rg_nodes :: "(remote_node_key, remote_node_entry) btmap"
  rg_max_nodes :: nat
  rg_heartbeat_timeout :: duration

definition DEFAULT_MAX_REMOTE_NODES :: nat where
  "DEFAULT_MAX_REMOTE_NODES = 4096"

definition DEFAULT_HEARTBEAT_TIMEOUT :: duration where
  "DEFAULT_HEARTBEAT_TIMEOUT = from_secs 30"

definition registry_for_realm :: "realm_path \<Rightarrow> remote_node_registry" where
  "registry_for_realm realm =
     \<lparr>rg_managed_realm = realm, rg_nodes = bt_empty, rg_max_nodes = DEFAULT_MAX_REMOTE_NODES,
      rg_heartbeat_timeout = DEFAULT_HEARTBEAT_TIMEOUT\<rparr>"

definition with_max_nodes :: "nat \<Rightarrow> remote_node_registry \<Rightarrow> remote_node_registry" where
  "with_max_nodes n reg = reg\<lparr>rg_max_nodes := n\<rparr>"

definition with_heartbeat_timeout :: "duration \<Rightarrow> remote_node_registry \<Rightarrow> remote_node_registry" where
  "with_heartbeat_timeout d reg = reg\<lparr>rg_heartbeat_timeout := d\<rparr>"

definition registered_entry :: "remote_node_registration \<Rightarrow> instant \<Rightarrow> remote_node_entry" where
  "registered_entry r now =
     \<lparr>rn_summary = rr_summary r, rn_gateway_principal = rr_gateway_principal r, rn_gateway_node = rr_gateway_node r,
      rn_substrate_adapter = rr_substrate_adapter r, rn_generation = rr_generation r,
      rn_capability_fingerprint = stable_fingerprint (ns_capabilities (rr_summary r)), rn_availability = Available,
      rn_last_heartbeat = now\<rparr>"

definition register_node ::
    "remote_node_registration \<Rightarrow> instant \<Rightarrow> remote_node_registry \<Rightarrow>
     (remote_node_error + remote_node_entry) \<times> remote_node_registry" where
  "register_node r now reg =
     (if ns_kind (rr_summary r) \<noteq> FullHost then (Inl (remote_error NotFullHost), reg)
      else if caps_has (ns_capabilities (rr_summary r)) Cap_ProviderManagedIsolation
      then (Inl (remote_error NotFullHost), reg)
      else if ns_realm (rr_summary r) \<noteq> rg_managed_realm reg then (Inl (remote_error WrongRealm), reg)
      else if rr_gateway_node r = ns_id (rr_summary r) then (Inl (remote_error UnauthorizedGateway), reg)
      else let key = (ns_realm (rr_summary r), ns_id (rr_summary r)) in
        case bt_get (rg_nodes reg) key of
          Some existing \<Rightarrow>
            if rn_gateway_principal existing \<noteq> rr_gateway_principal r
            then (Inl (remote_error DuplicateRegistration), reg)
            else if rn_generation existing = rr_generation r \<and>
                (rn_summary existing \<noteq> rr_summary r \<or> rn_gateway_node existing \<noteq> rr_gateway_node r \<or>
                 rn_substrate_adapter existing \<noteq> rr_substrate_adapter r)
            then (Inl (remote_error DuplicateRegistration), reg)
            else let entry = existing\<lparr>rn_generation := rr_generation r, rn_summary := rr_summary r,
                     rn_gateway_node := rr_gateway_node r, rn_substrate_adapter := rr_substrate_adapter r,
                     rn_capability_fingerprint := stable_fingerprint (ns_capabilities (rr_summary r)),
                     rn_availability := Available, rn_last_heartbeat := now\<rparr>
              in (Inr entry, reg\<lparr>rg_nodes := bt_insert key entry (rg_nodes reg)\<rparr>)
        | None \<Rightarrow>
            if rg_max_nodes reg \<le> bt_len (rg_nodes reg) then (Inl (remote_error RegistryCapacityExceeded), reg)
            else let entry = registered_entry r now
              in (Inr entry, reg\<lparr>rg_nodes := bt_insert key entry (rg_nodes reg)\<rparr>))"

definition node_heartbeat ::
    "realm_path \<Rightarrow> node_id \<Rightarrow> protocol_token \<Rightarrow> instant \<Rightarrow> remote_node_registry \<Rightarrow>
     (remote_node_error + remote_node_entry) \<times> remote_node_registry" where
  "node_heartbeat realm node generation now reg =
     (case bt_get (rg_nodes reg) (realm, node) of
        None \<Rightarrow> (Inl (remote_error WrongNode), reg)
      | Some entry \<Rightarrow>
          if rn_generation entry \<noteq> generation then (Inl (remote_error StaleGeneration), reg)
          else if rn_availability entry = Disconnected then (Inl (remote_error NodeUnavailable), reg)
          else let entry' = entry\<lparr>rn_availability := Available, rn_last_heartbeat := now\<rparr>
            in (Inr entry', reg\<lparr>rg_nodes := bt_insert (realm, node) entry' (rg_nodes reg)\<rparr>))"

definition peer_disconnected :: "realm_path \<Rightarrow> node_id \<Rightarrow> remote_node_registry \<Rightarrow> bool \<times> remote_node_registry" where
  "peer_disconnected realm node reg =
     (case bt_get (rg_nodes reg) (realm, node) of
        None \<Rightarrow> (False, reg)
      | Some entry \<Rightarrow>
          (True, reg\<lparr>rg_nodes := bt_insert (realm, node) (entry\<lparr>rn_availability := Disconnected\<rparr>) (rg_nodes reg)\<rparr>))"

definition expire_heartbeats :: "instant \<Rightarrow> remote_node_registry \<Rightarrow> remote_node_registry" where
  "expire_heartbeats now reg =
     reg\<lparr>rg_nodes := bt_map (\<lambda>entry.
        if rn_availability entry = Available \<and> rg_heartbeat_timeout reg < now - rn_last_heartbeat entry
        then entry\<lparr>rn_availability := StaleHeartbeat\<rparr> else entry) (rg_nodes reg)\<rparr>"

definition get_node :: "remote_node_registry \<Rightarrow> realm_path \<Rightarrow> node_id \<Rightarrow> remote_node_entry option" where
  "get_node reg realm node = bt_get (rg_nodes reg) (realm, node)"

definition unregister_node ::
    "realm_path \<Rightarrow> node_id \<Rightarrow> remote_node_registry \<Rightarrow> remote_node_entry option \<times> remote_node_registry" where
  "unregister_node realm node reg =
     (bt_get (rg_nodes reg) (realm, node), reg\<lparr>rg_nodes := bt_remove (realm, node) (rg_nodes reg)\<rparr>)"


section \<open>Routes\<close>

record remote_route =
  rt_realm :: realm_path
  rt_node :: node_id
  rt_generation :: protocol_token
  rt_operation :: operation_kind
  rt_correlation_id :: correlation_id
  rt_required_capability :: "capability option"
  rt_capability_fingerprint :: string
  rt_principal :: principal_id
  rt_trace :: "trace_context option"
  rt_mutating :: bool

definition required_remote_capability :: "operation_kind \<Rightarrow> remote_node_error + capability option" where
  "required_remote_capability kind =
     (case operation_route_plan_for kind of
        Some plan \<Rightarrow> Inr (plan_required_capability plan)
      | None \<Rightarrow> Inl (remote_error Remote_UnsupportedOperation))"

definition prepare_route ::
    "remote_node_registry \<Rightarrow> operation_request \<Rightarrow> protocol_token \<Rightarrow> principal_id \<Rightarrow> remote_node_error + remote_route" where
  "prepare_route reg req generation principal_name =
     (let refuse = (\<lambda>e. Inl (remote_with_correlation (req_correlation_id req) e)) in
      if req_realm req \<noteq> rg_managed_realm reg then refuse (remote_error WrongRealm)
      else case get_node reg (req_realm req) (req_node req) of
        None \<Rightarrow> refuse (remote_error WrongNode)
      | Some entry \<Rightarrow>
          if req_node req \<noteq> ns_id (rn_summary entry) then refuse (remote_error WrongNode)
          else if rn_gateway_principal entry \<noteq> principal_name then refuse (remote_error UnauthorizedGateway)
          else if rn_availability entry \<noteq> Available then refuse (remote_error NodeUnavailable)
          else if generation \<noteq> rn_generation entry then refuse (remote_error StaleGeneration)
          else (case required_remote_capability (req_kind req) of
              Inl e \<Rightarrow> refuse e
            | Inr required \<Rightarrow>
                (case (case required of
                         Some c \<Rightarrow> if \<not> caps_has (ns_capabilities (rn_summary entry)) c then Some c else None
                       | None \<Rightarrow> None) of
                   Some c \<Rightarrow> refuse (remote_capability_denied c None)
                 | None \<Rightarrow>
                     Inr \<lparr>rt_realm = req_realm req, rt_node = req_node req, rt_generation = rn_generation entry,
                          rt_operation = req_kind req, rt_correlation_id = req_correlation_id req,
                          rt_required_capability = required, rt_capability_fingerprint = rn_capability_fingerprint entry,
                          rt_principal = rn_gateway_principal entry, rt_trace = req_trace req,
                          rt_mutating = op_is_mutating (req_kind req)\<rparr>)))"

record remote_node_audit_labels =
  lb_realm :: string
  lb_node :: string
  lb_operation :: operation_kind
  lb_correlation_id :: string
  lb_principal :: string
  lb_capability_fingerprint :: string
  lb_trace_id :: "string option"
  lb_span_id :: "string option"
  lb_outcome :: string

definition remote_audit_labels :: "remote_route \<Rightarrow> string \<Rightarrow> remote_node_audit_labels" where
  "remote_audit_labels route outcome =
     \<lparr>lb_realm = target_form (rt_realm route), lb_node = rt_node route, lb_operation = rt_operation route,
      lb_correlation_id = rt_correlation_id route, lb_principal = rt_principal route,
      lb_capability_fingerprint = rt_capability_fingerprint route, lb_trace_id = map_option trace_id (rt_trace route),
      lb_span_id = map_option span_id (rt_trace route), lb_outcome = outcome\<rparr>"

datatype remote_retry_action = QueryRemoteStateFirst | NoSideEffectToRetry

definition retry_action_after_disconnect :: "operation_request \<Rightarrow> remote_retry_action" where
  "retry_action_after_disconnect req =
     (if op_is_mutating (req_kind req) then QueryRemoteStateFirst else NoSideEffectToRetry)"

record shell_generation =
  sg_guest_boot_id :: protocol_token
  sg_guestd_instance_id :: protocol_token
  sg_shell_daemon_instance_id :: protocol_token

definition ensure_remote_execution_generation :: "remote_route \<Rightarrow> execution_generation \<Rightarrow> remote_node_error + unit" where
  "ensure_remote_execution_generation route generation =
     (if guest_boot_id generation = rt_generation route then Inr () else Inl (remote_error StaleGeneration))"

definition ensure_remote_shell_generation :: "remote_route \<Rightarrow> shell_generation \<Rightarrow> remote_node_error + unit" where
  "ensure_remote_shell_generation route generation =
     (if sg_guest_boot_id generation = rt_generation route then Inr () else Inl (remote_error StaleGeneration))"


section \<open>The adapter\<close>

datatype remote_peer_status = Peer_Completed opaque_payload | Peer_InProgress | Peer_Unknown

record remote_peer_client =
  pc_send :: "remote_route \<Rightarrow> operation_request \<Rightarrow> remote_node_error + opaque_payload"
  pc_query :: "remote_route \<Rightarrow> operation_request \<Rightarrow> remote_node_error + remote_peer_status"

datatype remote_dispatch_outcome =
    Sent remote_route opaque_payload
  | Replayed opaque_payload
  | QueryRemoteState remote_route

datatype peer_call = Peer_Send operation_request | Peer_Query operation_request

record remote_adapter =
  ra_registry :: remote_node_registry
  ra_router :: operation_router
  ra_gateway_principal :: principal_id
  ra_negotiated :: capability_set

definition adapter_with_router ::
    "remote_node_registry \<Rightarrow> operation_router \<Rightarrow> principal_id \<Rightarrow> capability_set \<Rightarrow> remote_adapter" where
  "adapter_with_router reg router p caps =
     \<lparr>ra_registry = reg, ra_router = router, ra_gateway_principal = p, ra_negotiated = caps\<rparr>"

definition adapter_new :: "principal_id \<Rightarrow> capability_set \<Rightarrow> remote_adapter" where
  "adapter_new p caps = adapter_with_router (registry_for_realm local) router_new p caps"

definition remote_error_from_route_decision :: "operation_request \<Rightarrow> route_decision \<Rightarrow> remote_node_error option" where
  "remote_error_from_route_decision req decision =
     map_option (remote_with_correlation (req_correlation_id req))
       (case decision of
          PrincipalMismatch \<Rightarrow> Some (remote_error UnauthorizedGateway)
        | CapabilityDenied c \<Rightarrow> Some (remote_capability_denied c None)
        | MissingIdempotencyKey \<Rightarrow> Some (remote_error Remote_MissingIdempotencyKey)
        | MissingWorkload \<Rightarrow> Some (remote_error Remote_MissingWorkload)
        | IdempotencyKeyConflict \<Rightarrow> Some (remote_error IdempotencyConflict)
        | IdempotencyKeyExpired \<Rightarrow> Some (remote_error IdempotencyExpired)
        | DedupCapacityExceeded \<Rightarrow> Some (remote_error Remote_DedupCapacityExceeded)
        | UnsupportedOperation _ \<Rightarrow> Some (remote_error Remote_UnsupportedOperation)
        | InProgress _ \<Rightarrow> None
        | Replay _ _ \<Rightarrow> None
        | Accept _ \<Rightarrow> None)"

definition fail_if_mutating :: "operation_request \<Rightarrow> operation_router \<Rightarrow> operation_router" where
  "fail_if_mutating req r = (if op_is_mutating (req_kind req) then snd (mark_failed r req) else r)"

text \<open>The branch of an accepted operation, and that of one the router still has in progress.\<close>

definition dispatch_accepted ::
    "remote_peer_client \<Rightarrow> remote_route \<Rightarrow> operation_request \<Rightarrow> instant \<Rightarrow> operation_router \<Rightarrow>
     (remote_node_error + remote_dispatch_outcome) \<times> operation_router" where
  "dispatch_accepted client route req later r =
     (case pc_send client route req of
        Inl e \<Rightarrow> (Inl e, fail_if_mutating req r)
      | Inr result \<Rightarrow>
          (Inr (Sent route result),
           if op_is_mutating (req_kind req) then snd (mark_completed r later req result) else r))"

definition dispatch_in_progress ::
    "remote_peer_client \<Rightarrow> remote_route \<Rightarrow> operation_request \<Rightarrow> instant \<Rightarrow> operation_router \<Rightarrow>
     (remote_node_error + remote_dispatch_outcome) \<times> operation_router" where
  "dispatch_in_progress client route req later r =
     (case pc_query client route req of
        Inl e \<Rightarrow> (Inl e, fail_if_mutating req r)
      | Inr (Peer_Completed result) \<Rightarrow> (Inr (Replayed result), snd (mark_completed r later req result))
      | Inr Peer_InProgress \<Rightarrow> (Inr (QueryRemoteState route), r)
      | Inr Peer_Unknown \<Rightarrow>
          (Inl (remote_with_correlation (req_correlation_id req) (remote_error RemoteOperationUnknown)),
           fail_if_mutating req r))"

definition dispatch ::
    "remote_peer_client \<Rightarrow> operation_request \<Rightarrow> protocol_token \<Rightarrow> instant \<Rightarrow> instant \<Rightarrow> remote_adapter \<Rightarrow>
     ((remote_node_error + remote_dispatch_outcome) \<times> peer_call list \<times> remote_adapter) option" where
  "dispatch client req generation now later a =
     (case prepare_route (ra_registry a) req generation (ra_gateway_principal a) of
        Inl e \<Rightarrow> Some (Inl e, [], a)
      | Inr route \<Rightarrow>
          (case route_with_capabilities (ra_router a) now req (ra_gateway_principal a) (ra_negotiated a) of
             (decision, r) \<Rightarrow>
               (case decision of
                  Accept _ \<Rightarrow>
                    (case dispatch_accepted client route req later r of
                       (res, r') \<Rightarrow> Some (res, [Peer_Send req], a\<lparr>ra_router := r'\<rparr>))
                | Replay _ result \<Rightarrow> Some (Inr (Replayed result), [], a\<lparr>ra_router := r\<rparr>)
                | InProgress _ \<Rightarrow>
                    (case dispatch_in_progress client route req later r of
                       (res, r') \<Rightarrow> Some (res, [Peer_Query req], a\<lparr>ra_router := r'\<rparr>))
                | _ \<Rightarrow> map_option (\<lambda>e. (Inl e, [], a\<lparr>ra_router := r\<rparr>)) (remote_error_from_route_decision req decision))))"


section \<open>Sequences of calls\<close>

datatype registry_call =
    Call_register remote_node_registration instant
  | Call_heartbeat realm_path node_id protocol_token instant
  | Call_disconnected realm_path node_id
  | Call_expire instant
  | Call_unregister realm_path node_id

primrec registry_apply :: "registry_call \<Rightarrow> remote_node_registry \<Rightarrow> remote_node_registry" where
  "registry_apply (Call_register r now) reg = snd (register_node r now reg)"
| "registry_apply (Call_heartbeat realm node generation now) reg = snd (node_heartbeat realm node generation now reg)"
| "registry_apply (Call_disconnected realm node) reg = snd (peer_disconnected realm node reg)"
| "registry_apply (Call_expire now) reg = expire_heartbeats now reg"
| "registry_apply (Call_unregister realm node) reg = snd (unregister_node realm node reg)"

datatype adapter_event =
    Ev_Registry registry_call
  | Ev_Dispatch remote_peer_client operation_request protocol_token instant instant

primrec adapter_step :: "adapter_event \<Rightarrow> remote_adapter \<Rightarrow> peer_call list \<times> remote_adapter" where
  "adapter_step (Ev_Registry c) a = ([], a\<lparr>ra_registry := registry_apply c (ra_registry a)\<rparr>)"
| "adapter_step (Ev_Dispatch client req generation now later) a =
     (case dispatch client req generation now later a of
        Some (_, calls, a') \<Rightarrow> (calls, a')
      | None \<Rightarrow> ([], a))"

primrec adapter_run :: "adapter_event list \<Rightarrow> remote_adapter \<Rightarrow> peer_call list \<times> remote_adapter" where
  "adapter_run [] a = ([], a)"
| "adapter_run (e # es) a =
     (case adapter_step e a of (calls, a1) \<Rightarrow> (case adapter_run es a1 of (calls1, a2) \<Rightarrow> (calls @ calls1, a2)))"


section \<open>The registry's invariant\<close>

definition entry_inv :: "remote_node_registry \<Rightarrow> remote_node_key \<Rightarrow> remote_node_entry \<Rightarrow> bool" where
  "entry_inv reg k e \<longleftrightarrow>
     k = (rg_managed_realm reg, ns_id (rn_summary e)) \<and> ns_realm (rn_summary e) = rg_managed_realm reg \<and>
     ns_kind (rn_summary e) = FullHost \<and> \<not> caps_has (ns_capabilities (rn_summary e)) Cap_ProviderManagedIsolation \<and>
     rn_gateway_node e \<noteq> ns_id (rn_summary e) \<and>
     rn_capability_fingerprint e = stable_fingerprint (ns_capabilities (rn_summary e))"

definition registry_inv :: "remote_node_registry \<Rightarrow> bool" where
  "registry_inv reg \<longleftrightarrow>
     (\<forall>k e. bt_get (rg_nodes reg) k = Some e \<longrightarrow> entry_inv reg k e) \<and> bt_len (rg_nodes reg) \<le> rg_max_nodes reg"

lemma entry_inv_simps [simp]:
  "entry_inv (reg\<lparr>rg_nodes := m\<rparr>) k e = entry_inv reg k e"
  "entry_inv reg k (e\<lparr>rn_availability := av\<rparr>) = entry_inv reg k e"
  "entry_inv reg k (e\<lparr>rn_last_heartbeat := t\<rparr>) = entry_inv reg k e"
  "entry_inv reg k (e\<lparr>rn_availability := av, rn_last_heartbeat := t\<rparr>) = entry_inv reg k e"
  by (simp_all add: entry_inv_def)

text \<open>The shapes of a change: one entry of the table replaced or added, or all entries mapped.\<close>

lemma registry_inv_insert:
  assumes "registry_inv reg" "entry_inv reg k e" "bt_contains (rg_nodes reg) k \<or> bt_len (rg_nodes reg) < rg_max_nodes reg"
  shows "registry_inv (reg\<lparr>rg_nodes := bt_insert k e (rg_nodes reg)\<rparr>)"
  using assms by (auto simp: registry_inv_def bt_len_insert split: if_splits)

lemma register_cases:
  "snd (register_node r now reg) = reg \<and> \<not> is_ok (fst (register_node r now reg)) \<or>
   (\<exists>e. fst (register_node r now reg) = Inr e \<and>
      snd (register_node r now reg) =
        reg\<lparr>rg_nodes := bt_insert (rg_managed_realm reg, ns_id (rr_summary r)) e (rg_nodes reg)\<rparr> \<and>
      entry_inv reg (rg_managed_realm reg, ns_id (rr_summary r)) e \<and> rn_gateway_principal e = rr_gateway_principal r \<and>
      rn_generation e = rr_generation r \<and> rn_availability e = Available \<and> rn_summary e = rr_summary r \<and>
      (case bt_get (rg_nodes reg) (rg_managed_realm reg, ns_id (rr_summary r)) of
         Some old \<Rightarrow> rn_gateway_principal old = rr_gateway_principal r
       | None \<Rightarrow> bt_len (rg_nodes reg) < rg_max_nodes reg))"
  by (auto simp: register_node_def Let_def entry_inv_def registered_entry_def split: option.splits)

lemma registry_apply_inv:
  assumes "registry_inv reg"
  shows "registry_inv (registry_apply c reg)"
proof (cases c)
  case (Call_register r now)
  then show ?thesis
    using register_cases [of r now reg] assms
    by (auto simp: bt_contains_def intro!: registry_inv_insert split: option.splits)
next
  case (Call_heartbeat realm node generation now)
  show ?thesis
  proof (cases "bt_get (rg_nodes reg) (realm, node)")
    case (Some e)
    then have "entry_inv reg (realm, node) (e\<lparr>rn_availability := Available, rn_last_heartbeat := now\<rparr>)"
      using assms by (simp add: registry_inv_def)
    with Some show ?thesis
      using assms Call_heartbeat by (auto simp: node_heartbeat_def Let_def bt_contains_def intro!: registry_inv_insert)
  qed (use assms Call_heartbeat in \<open>simp add: node_heartbeat_def\<close>)
next
  case (Call_disconnected realm node)
  show ?thesis
  proof (cases "bt_get (rg_nodes reg) (realm, node)")
    case (Some e)
    then have "entry_inv reg (realm, node) (e\<lparr>rn_availability := Disconnected\<rparr>)"
      using assms by (simp add: registry_inv_def)
    with Some show ?thesis
      using assms Call_disconnected by (auto simp: peer_disconnected_def bt_contains_def intro!: registry_inv_insert)
  qed (use assms Call_disconnected in \<open>simp add: peer_disconnected_def\<close>)
next
  case (Call_expire now)
  then show ?thesis
    using assms by (auto simp: expire_heartbeats_def registry_inv_def)
next
  case (Call_unregister realm node)
  then show ?thesis
    using assms by (auto simp: unregister_node_def registry_inv_def bt_len_remove)
qed

lemma registry_run_inv: "registry_inv reg \<Longrightarrow> registry_inv (fold registry_apply cs reg)"
  by (induction cs arbitrary: reg) (simp_all add: registry_apply_inv)

lemma registry_new_inv: "registry_inv (with_max_nodes n (registry_for_realm realm))"
  by (simp add: registry_inv_def registry_for_realm_def with_max_nodes_def)


section \<open>A node's principal\<close>

definition registered_by :: "principal_id \<Rightarrow> registry_call \<Rightarrow> bool" where
  "registered_by p c \<longleftrightarrow> (case c of Call_register r _ \<Rightarrow> rr_gateway_principal r = p | _ \<Rightarrow> False)"

text \<open>What an entry becomes: the principal stays, and without a registration by it all the rest that was enrolled.\<close>

definition entry_kept :: "bool \<Rightarrow> remote_node_entry \<Rightarrow> remote_node_entry \<Rightarrow> bool" where
  "entry_kept same e e' \<longleftrightarrow>
     rn_gateway_principal e' = rn_gateway_principal e \<and>
     (same \<longrightarrow> rn_summary e' = rn_summary e \<and> rn_generation e' = rn_generation e \<and> rn_gateway_node e' = rn_gateway_node e \<and>
        rn_substrate_adapter e' = rn_substrate_adapter e)"

lemma registry_apply_kept:
  assumes "bt_get (rg_nodes reg) (realm, node) = Some e" "c \<noteq> Call_unregister realm node"
  shows "\<exists>e'. bt_get (rg_nodes (registry_apply c reg)) (realm, node) = Some e' \<and>
    entry_kept (\<not> registered_by (rn_gateway_principal e) c) e e'"
proof (cases c)
  case (Call_register r now)
  then show ?thesis
    using register_cases [of r now reg] assms(1) by (auto simp: registered_by_def entry_kept_def split: option.splits)
qed (use assms in \<open>auto simp: node_heartbeat_def peer_disconnected_def expire_heartbeats_def unregister_node_def Let_def
    entry_kept_def split: option.splits\<close>)

lemma registry_run_kept:
  assumes "bt_get (rg_nodes reg) (realm, node) = Some e" "list_all (\<lambda>c. c \<noteq> Call_unregister realm node) cs"
  shows "\<exists>e'. bt_get (rg_nodes (fold registry_apply cs reg)) (realm, node) = Some e' \<and>
    entry_kept (list_all (\<lambda>c. \<not> registered_by (rn_gateway_principal e) c) cs) e e'"
  using assms
proof (induction cs arbitrary: reg e)
  case (Cons c cs)
  then obtain e1 where e1: "bt_get (rg_nodes (registry_apply c reg)) (realm, node) = Some e1"
    "entry_kept (\<not> registered_by (rn_gateway_principal e) c) e e1"
    using registry_apply_kept [OF Cons.prems(1), of c] by auto
  obtain e' where e': "bt_get (rg_nodes (fold registry_apply cs (registry_apply c reg))) (realm, node) = Some e'"
    "entry_kept (list_all (\<lambda>c. \<not> registered_by (rn_gateway_principal e1) c) cs) e1 e'"
    using Cons.IH [OF e1(1)] Cons.prems(2) by auto
  with e1(2) show ?case by (auto simp: entry_kept_def)
qed (simp add: entry_kept_def)

lemma prepare_route_Inr:
  "prepare_route reg req generation p = Inr route \<Longrightarrow>
   req_realm req = rg_managed_realm reg \<and>
   (\<exists>e. bt_get (rg_nodes reg) (req_realm req, req_node req) = Some e \<and> rn_gateway_principal e = p \<and>
      rn_availability e = Available \<and> rn_generation e = generation \<and> operation_route_plan_for (req_kind req) \<noteq> None \<and>
      (case op_required_capability (req_kind req) of None \<Rightarrow> True | Some c \<Rightarrow> caps_has (ns_capabilities (rn_summary e)) c))"
  by (auto simp: prepare_route_def get_node_def Let_def required_remote_capability_def plan_new_def
      dest!: route_plan_Some split: if_splits option.splits sum.splits)


section \<open>What a dispatch does to the router\<close>

text \<open>A dispatch is a routing call, followed by at most one terminal report of the same request.\<close>

lemma dispatch_router:
  assumes "dispatch client req generation now later a = Some (res, calls, a')"
  shows "\<exists>reports_made. set (map fst reports_made) \<subseteq> {now, later} \<and> ra_router a' = router_run reports_made (ra_router a) \<and>
    ra_registry a' = ra_registry a \<and> ra_gateway_principal a' = ra_gateway_principal a \<and> ra_negotiated a' = ra_negotiated a"
proof -
  let ?route = "(now, Call_route req (ra_gateway_principal a) (ra_negotiated a))"
  let ?r = "router_apply ?route (ra_router a)"
  have "ra_router a' \<in> {ra_router a, ?r, router_apply (later, Call_failed req) ?r} \<union>
      {router_apply (later, Call_completed req result) ?r | result. True}"
    using assms
    by (auto simp: dispatch_def dispatch_accepted_def dispatch_in_progress_def fail_if_mutating_def
        split: sum.splits prod.splits route_decision.splits remote_peer_status.splits if_splits)
  then consider "ra_router a' = router_run [] (ra_router a)" | "ra_router a' = router_run [?route] (ra_router a)"
    | "ra_router a' = router_run [?route, (later, Call_failed req)] (ra_router a)"
    | result where "ra_router a' = router_run [?route, (later, Call_completed req result)] (ra_router a)"
    by (auto simp del: router_apply.simps)
  then have "\<exists>cs. set (map fst cs) \<subseteq> {now, later} \<and> ra_router a' = router_run cs (ra_router a)"
    by cases (rule exI, rule conjI [rotated], assumption, simp)+
  moreover have "ra_registry a' = ra_registry a \<and> ra_gateway_principal a' = ra_gateway_principal a \<and> ra_negotiated a' = ra_negotiated a"
    using assms by (auto simp: dispatch_def split: sum.splits prod.splits route_decision.splits)
  ultimately show ?thesis by blast
qed

lemma dispatch_calls:
  assumes "dispatch client req generation now later a = Some (res, calls, a')"
  shows "calls \<noteq> [] \<Longrightarrow>
    (case fst (route_with_capabilities (ra_router a) now req (ra_gateway_principal a) (ra_negotiated a)) of
       Accept _ \<Rightarrow> calls = [Peer_Send req] | InProgress _ \<Rightarrow> calls = [Peer_Query req] | _ \<Rightarrow> False)"
  using assms by (auto simp: dispatch_def split: sum.splits prod.splits route_decision.splits)

lemma dispatch_never_panics: "dispatch client req generation now later a \<noteq> None"
  by (auto simp: dispatch_def remote_error_from_route_decision_def split: sum.splits prod.splits route_decision.splits)


section \<open>Settled operations\<close>

text \<open>The record of key \<open>k\<close> is terminal and stays so at least until \<open>t\<close>.\<close>

definition settled :: "operation_router \<Rightarrow> dedup_key \<Rightarrow> instant \<Rightarrow> bool" where
  "settled r k t \<longleftrightarrow>
     (\<exists>e. bt_get (dedup r) k = Some e \<and>
        (case de_state e of
           Dedup_InProgress _ \<Rightarrow> False
         | Dedup_Completed _ since \<Rightarrow> t \<le> since + retention r + no_reuse_horizon r
         | Dedup_Expired since \<Rightarrow> t \<le> since + no_reuse_horizon r))"

lemma settled_apply:
  assumes "settled r k t" "fst c \<le> t"
  shows "settled (router_apply c r) k t"
proof -
  obtain now call where c: "c = (now, call)" by (cases c)
  obtain e where e: "bt_get (dedup r) k = Some e"
    and st: "case de_state e of
           Dedup_InProgress _ \<Rightarrow> False
         | Dedup_Completed _ since \<Rightarrow> t \<le> since + retention r + no_reuse_horizon r
         | Dedup_Expired since \<Rightarrow> t \<le> since + no_reuse_horizon r"
    using assms(1) by (auto simp: settled_def)
  have "entry_ages r now e (bt_get (dedup (router_apply c r)) k)"
    using router_apply_entry [OF e, of now call] st
    by (cases call; cases "de_state e") (simp_all add: c)
  moreover have "now \<le> t" using assms(2) c by simp
  ultimately show ?thesis
    using st unfolding settled_def router_config entry_ages_def
    by (cases "de_state e") (auto simp del: router_apply.simps)
qed

lemma settled_run: "settled r k t \<Longrightarrow> list_all (\<lambda>c. fst c \<le> t) cs \<Longrightarrow> settled (router_run cs r) k t"
  by (induction cs arbitrary: r) (simp_all add: settled_apply del: router_apply.simps)

lemma settled_not_called:
  assumes "settled r k t" "request_key req = Some k" "op_is_mutating (req_kind req)"
    and "fst (route_with_capabilities r t req p caps) = d"
  shows "case d of Accept _ \<Rightarrow> False | InProgress _ \<Rightarrow> False | _ \<Rightarrow> True"
proof (cases "authorized_request req p caps")
  case False
  then show ?thesis using route_unauthorized(2) [OF False, of r t] assms(4) by (cases d) auto
next
  case True
  obtain key where key: "req_idempotency_key req = Some key" "k = for_request req key"
    using assms(2) by (auto simp: request_key_def)
  obtain e where e: "bt_get (dedup r) k = Some e" "\<forall>s. de_state e \<noteq> Dedup_InProgress s"
    using assms(1) unfolding settled_def by (metis dedup_state.simps(10))
  have "d = fst (route_dedup r t req key (op_authorization_scope (req_kind req)))"
    using assms(3,4) key(1) by (simp add: route_authorized [OF True])
  then show ?thesis
    using e key(2) by (cases "de_state e") (simp_all add: route_dedup_def)
qed

definition event_by :: "instant \<Rightarrow> adapter_event \<Rightarrow> bool" where
  "event_by t e \<longleftrightarrow> (case e of Ev_Registry _ \<Rightarrow> True | Ev_Dispatch _ _ _ now later \<Rightarrow> now \<le> t \<and> later \<le> t)"

lemma adapter_step_router:
  "\<exists>cs. ra_router (snd (adapter_step e a)) = router_run cs (ra_router a) \<and> (event_by t e \<longrightarrow> list_all (\<lambda>c. fst c \<le> t) cs)"
proof (cases e)
  case (Ev_Registry c)
  then show ?thesis by (intro exI [of _ "[]"]) simp
next
  case (Ev_Dispatch client req generation now later)
  obtain res calls a' where d: "dispatch client req generation now later a = Some (res, calls, a')"
    using dispatch_never_panics [of client req generation now later a] by (metis not_None_eq prod_cases3)
  from dispatch_router [OF d] obtain cs where "set (map fst cs) \<subseteq> {now, later}" "ra_router a' = router_run cs (ra_router a)"
    by blast
  then show ?thesis
    using Ev_Dispatch d by (intro exI [of _ cs]) (auto simp: event_by_def list_all_iff)
qed

lemma adapter_run_settled:
  "settled (ra_router a) k t \<Longrightarrow> list_all (event_by t) es \<Longrightarrow> settled (ra_router (snd (adapter_run es a))) k t"
proof (induction es arbitrary: a)
  case (Cons e es)
  obtain cs where "ra_router (snd (adapter_step e a)) = router_run cs (ra_router a)" "list_all (\<lambda>c. fst c \<le> t) cs"
    using adapter_step_router [of e a t] Cons.prems(2) by auto
  then have "settled (ra_router (snd (adapter_step e a))) k t" using settled_run Cons.prems(1) by simp
  with Cons.IH [of "snd (adapter_step e a)"] Cons.prems(2) show ?case by (simp add: split_beta)
qed simp

lemma sent_settles:
  assumes "dispatch client req generation now later a = Some (Inr (Sent route result), calls, a')" "op_is_mutating (req_kind req)"
    and "t \<le> later + retention (ra_router a) + no_reuse_horizon (ra_router a)"
  shows "\<exists>k. request_key req = Some k \<and> settled (ra_router a') k t"
proof -
  obtain scope r where acc: "route_with_capabilities (ra_router a) now req (ra_gateway_principal a) (ra_negotiated a) = (Accept scope, r)"
    and a': "ra_router a' = snd (mark_completed r later req result)"
    using assms(1,2)
    by (auto simp: dispatch_def dispatch_accepted_def dispatch_in_progress_def
        split: sum.splits prod.splits route_decision.splits remote_peer_status.splits if_splits)
  obtain key where key: "req_idempotency_key req = Some key"
    and e: "bt_get (dedup r) (for_request req key) =
      Some \<lparr>de_fingerprint = dedup_fingerprint_input req, de_original_operation_id = req_operation_id req,
            de_state = Dedup_InProgress now\<rparr>"
    using accept_records [OF acc assms(2)] by metis
  have config: "retention (ra_router a') = retention (ra_router a)" "no_reuse_horizon (ra_router a') = no_reuse_horizon (ra_router a)"
    using router_config(1,2) [of "(later, Call_completed req result)" r] route_config [OF acc] by (simp_all add: a')
  have "settled (ra_router a') (for_request req key) t"
    unfolding settled_def config using mark_completed_entry [OF e, of later req result] key assms(3)
    by (simp add: a' reports_def request_key_def)
  with key show ?thesis by (simp add: request_key_def)
qed


section \<open>Routers with nothing in progress\<close>

definition idle :: "operation_router \<Rightarrow> bool" where
  "idle r \<longleftrightarrow> (\<forall>k e since. bt_get (dedup r) k = Some e \<longrightarrow> de_state e \<noteq> Dedup_InProgress since)"

lemma idle_gc: "idle r \<Longrightarrow> idle (gc_at r now)"
proof -
  assume idle: "idle r"
  have "de_state e' \<noteq> Dedup_InProgress since" if e': "bt_get (dedup (gc_at r now)) k = Some e'" for k e' since
  proof -
    obtain e where e: "bt_get (dedup r) k = Some e" using e' gc_None [of r k now] by fastforce
    then have "\<forall>since. de_state e \<noteq> Dedup_InProgress since" using idle unfolding idle_def by blast
    with gc_ages [OF e, of now] e' show ?thesis by (auto simp: entry_ages_def)
  qed
  then show ?thesis by (simp add: idle_def)
qed

text \<open>From an idle router only an accepted mutating request leaves a record in progress, and only its own.\<close>

lemma idle_route:
  assumes "idle r" "route_with_capabilities r now req p caps = (d, r')"
  shows "(\<exists>scope. d = Accept scope \<and> op_is_mutating (req_kind req) \<and>
       (\<forall>k e since. bt_get (dedup r') k = Some e \<and> de_state e = Dedup_InProgress since \<longrightarrow> reports req k e)) \<or>
    (idle r' \<and> (\<forall>x. d \<noteq> InProgress x) \<and> (\<forall>scope. d = Accept scope \<longrightarrow> \<not> op_is_mutating (req_kind req)))"
proof (cases "authorized_request req p caps \<and> op_is_mutating (req_kind req) \<and> req_idempotency_key req \<noteq> None")
  case False
  then show ?thesis
    using assms route_unauthorized [of req p caps r now] route_authorized [of req p caps r now]
    by (cases "authorized_request req p caps") (auto split: option.splits if_splits)
next
  case True
  then obtain key where key: "req_idempotency_key req = Some key" by blast
  have route: "(d, r') = route_dedup r now req key (op_authorization_scope (req_kind req))"
    using True assms(2) route_authorized [of req p caps r now] key by simp
  show ?thesis
  proof (cases "bt_get (dedup r) (for_request req key)")
    case None
    with route idle_gc [OF assms(1), of now] True key show ?thesis
      by (auto simp: route_dedup_def Let_def idle_def reports_def request_key_def split: if_splits)
  next
    case (Some e)
    then have "\<forall>since. de_state e \<noteq> Dedup_InProgress since" using assms(1) unfolding idle_def by blast
    with Some route assms(1) show ?thesis
      by (cases "de_state e") (auto simp: route_dedup_def idle_def split: if_splits)
  qed
qed

lemma mark_domain:
  assumes "bt_get (dedup r) k = None"
  shows "bt_get (dedup (snd (mark_completed r now req result))) k = None" "bt_get (dedup (snd (mark_failed r req))) k = None"
  using assms in_progress_entry_Some [of r req]
  by (auto simp: mark_completed_def mark_failed_def split: option.splits)

lemma idle_marked:
  assumes "\<forall>k e since. bt_get (dedup r) k = Some e \<and> de_state e = Dedup_InProgress since \<longrightarrow> reports req k e"
  shows "idle (snd (mark_completed r now req result))" "idle (snd (mark_failed r req))"
proof -
  show "idle (snd (mark_completed r now req result))"
    unfolding idle_def
  proof (intro allI impI)
    fix k e' since assume e': "bt_get (dedup (snd (mark_completed r now req result))) k = Some e'"
    then obtain e where e: "bt_get (dedup r) k = Some e" using mark_domain(1) by fastforce
    then have "\<forall>since. de_state e = Dedup_InProgress since \<longrightarrow> reports req k e" using assms by blast
    with e' mark_completed_entry [OF e, of now req result] show "de_state e' \<noteq> Dedup_InProgress since"
      by (auto split: if_splits)
  qed
  show "idle (snd (mark_failed r req))"
    unfolding idle_def
  proof (intro allI impI)
    fix k e' since assume e': "bt_get (dedup (snd (mark_failed r req))) k = Some e'"
    then obtain e where e: "bt_get (dedup r) k = Some e" using mark_domain(2) by fastforce
    then have "\<forall>since. de_state e = Dedup_InProgress since \<longrightarrow> reports req k e" using assms by blast
    with e' mark_failed_entry [OF e, of req] show "de_state e' \<noteq> Dedup_InProgress since"
      by (auto split: if_splits)
  qed
qed

definition is_send :: "peer_call \<Rightarrow> bool" where
  "is_send c \<longleftrightarrow> (case c of Peer_Send _ \<Rightarrow> True | Peer_Query _ \<Rightarrow> False)"

lemma dispatch_idle:
  assumes "idle (ra_router a)" "dispatch client req generation now later a = Some (res, calls, a')"
  shows "idle (ra_router a') \<and> list_all is_send calls"
proof -
  obtain d r where route: "route_with_capabilities (ra_router a) now req (ra_gateway_principal a) (ra_negotiated a) = (d, r)"
    by fastforce
  from idle_route [OF assms(1) route] show ?thesis
  proof
    assume "\<exists>scope. d = Accept scope \<and> op_is_mutating (req_kind req) \<and>
       (\<forall>k e since. bt_get (dedup r) k = Some e \<and> de_state e = Dedup_InProgress since \<longrightarrow> reports req k e)"
    with assms route idle_marked [of r req] show ?thesis
      by (auto simp: dispatch_def dispatch_accepted_def fail_if_mutating_def is_send_def split: sum.splits)
  next
    assume "idle r \<and> (\<forall>x. d \<noteq> InProgress x) \<and> (\<forall>scope. d = Accept scope \<longrightarrow> \<not> op_is_mutating (req_kind req))"
    with assms route show ?thesis
      by (auto simp: dispatch_def dispatch_accepted_def fail_if_mutating_def is_send_def split: sum.splits route_decision.splits)
  qed
qed

lemma adapter_run_idle: "idle (ra_router a) \<Longrightarrow> list_all is_send (fst (adapter_run es a))"
proof (induction es arbitrary: a)
  case (Cons e es)
  have "idle (ra_router (snd (adapter_step e a))) \<and> list_all is_send (fst (adapter_step e a))"
  proof (cases e)
    case (Ev_Dispatch client req generation now later)
    obtain res calls a' where d: "dispatch client req generation now later a = Some (res, calls, a')"
      using dispatch_never_panics [of client req generation now later a] by (metis not_None_eq prod_cases3)
    with dispatch_idle [OF Cons.prems d] Ev_Dispatch show ?thesis by simp
  qed (use Cons.prems in simp)
  with Cons.IH [of "snd (adapter_step e a)"] show ?case by (simp add: split_beta)
qed simp


text \<open>A failed operation leaves room for itself: the router accepts it again.\<close>

lemma failed_accepted_again:
  assumes "route_with_capabilities r now req p caps = (Accept scope, r1)" "op_is_mutating (req_kind req)"
  shows "\<exists>r2. route_with_capabilities (snd (mark_failed r1 req)) t req p caps = (Accept scope, r2)"
proof -
  obtain key where key: "req_idempotency_key req = Some key" and auth: "authorized_request req p caps"
    using accept_records [OF assms] by metis
  let ?k = "for_request req key" and ?g = "gc_at r now"
  define e where "e = \<lparr>de_fingerprint = dedup_fingerprint_input req, de_original_operation_id = req_operation_id req,
    de_state = Dedup_InProgress now\<rparr>"
  have route: "route_dedup r now req key (op_authorization_scope (req_kind req)) = (Accept scope, r1)"
    using assms key by (simp add: route_authorized [OF auth])
  then have none: "bt_get (dedup r) ?k = None" using route_dedup_accept [of r now req key "op_authorization_scope (req_kind req)" scope] by simp
  then have r1: "r1 = ?g\<lparr>dedup := bt_insert ?k e (dedup ?g)\<rparr>" "bt_len (dedup ?g) < max_dedup_records r"
    "scope = op_authorization_scope (req_kind req)"
    using route by (auto simp: route_dedup_def Let_def e_def split: if_splits)
  have "in_progress_entry r1 req = Some (?k, e)"
    using key by (simp add: in_progress_entry_Some r1(1) reports_def request_key_def e_def)
  then have "snd (mark_failed r1 req) = r1\<lparr>dedup := bt_remove ?k (dedup r1)\<rparr>" by (simp add: mark_failed_def)
  then have failed: "snd (mark_failed r1 req) = ?g\<lparr>dedup := bt_remove ?k (bt_insert ?k e (dedup ?g))\<rparr>" by (simp add: r1(1))
  have "bt_get (dedup ?g) ?k = None" using none by (rule gc_None)
  then have "bt_len (dedup (snd (mark_failed r1 req))) = bt_len (dedup ?g)"
    by (simp add: failed bt_len_remove bt_len_insert bt_contains_def)
  then have "\<not> max_dedup_records r \<le> bt_len (dedup (gc_at (snd (mark_failed r1 req)) t))"
    using gc_len [of "snd (mark_failed r1 req)" t] r1(2) by simp
  moreover have "bt_get (dedup (snd (mark_failed r1 req))) ?k = None" "max_dedup_records (snd (mark_failed r1 req)) = max_dedup_records r"
    by (simp_all add: failed)
  ultimately show ?thesis
    using assms(2) key r1(3) by (simp add: route_authorized [OF auth] route_dedup_def Let_def)
qed

lemma failed_send:
  assumes "dispatch client req generation now later a = Some (Inl e, [Peer_Send req], a1)" "op_is_mutating (req_kind req)"
  shows "\<exists>route scope r. prepare_route (ra_registry a) req generation (ra_gateway_principal a) = Inr route \<and>
    route_with_capabilities (ra_router a) now req (ra_gateway_principal a) (ra_negotiated a) = (Accept scope, r) \<and>
    a1 = a\<lparr>ra_router := snd (mark_failed r req)\<rparr>"
  using assms
  by (auto simp: dispatch_def dispatch_accepted_def dispatch_in_progress_def fail_if_mutating_def
      split: sum.splits prod.splits route_decision.splits remote_peer_status.splits)


section \<open>A node and two peers\<close>

definition demo_registration :: remote_node_registration where
  "demo_registration =
     \<lparr>rr_summary = \<lparr>ns_id = ''n1'', ns_realm = local, ns_kind = FullHost, ns_capabilities = demo_caps\<rparr>,
      rr_gateway_principal = ''alice'', rr_gateway_node = ''gw'', rr_substrate_adapter = ''nixos'', rr_generation = ''g1''\<rparr>"

definition demo_registry :: remote_node_registry where
  "demo_registry = (registry_for_realm local)\<lparr>rg_nodes := bt_insert (local, ''n1'') (registered_entry demo_registration 0) bt_empty\<rparr>"

definition demo_adapter :: remote_adapter where
  "demo_adapter = adapter_with_router demo_registry router_new ''alice'' demo_caps"

definition peer_up :: remote_peer_client where
  "peer_up = \<lparr>pc_send = (\<lambda>_ _. Inr ''ok''), pc_query = (\<lambda>_ _. Inr Peer_Unknown)\<rparr>"

definition peer_lost :: remote_peer_client where
  "peer_lost =
     \<lparr>pc_send = (\<lambda>_ _. Inl (remote_error NodeUnavailable)), pc_query = (\<lambda>_ _. Inl (remote_error NodeUnavailable))\<rparr>"

lemma demo_prepared:
  obtains route where "prepare_route demo_registry demo_start ''g1'' ''alice'' = Inr route"
proof -
  obtain plan where plan: "operation_route_plan_for (req_kind demo_start) = Some plan"
    using demo_authorized unfolding authorized_request_def by blast
  have required: "required_remote_capability (req_kind demo_start) = Inr (op_required_capability (req_kind demo_start))"
    using route_plan_Some [OF plan] by (simp add: required_remote_capability_def plan plan_new_def)
  have caps: "case op_required_capability (req_kind demo_start) of None \<Rightarrow> True | Some c \<Rightarrow> caps_has demo_caps c"
    using demo_authorized unfolding authorized_request_def by blast
  have target: "req_realm demo_start = local" "req_node demo_start = ''n1''" by (simp_all add: demo_start_def)
  have entry: "get_node demo_registry local ''n1'' = Some (registered_entry demo_registration 0)" "rg_managed_realm demo_registry = local"
    by (simp_all add: get_node_def demo_registry_def registry_for_realm_def)
  have "is_ok (prepare_route demo_registry demo_start ''g1'' ''alice'')"
    using caps
    by (cases "op_required_capability (req_kind demo_start)")
      (simp_all add: prepare_route_def Let_def target entry required registered_entry_def demo_registration_def)
  with that show ?thesis by (cases "prepare_route demo_registry demo_start ''g1'' ''alice''") auto
qed

lemma demo_dispatch:
  "prepare_route demo_registry demo_start ''g1'' ''alice'' = Inr route \<Longrightarrow>
   dispatch client demo_start ''g1'' 5 later demo_adapter =
     (case dispatch_accepted client route demo_start later demo_router of
        (res, r) \<Rightarrow> Some (res, [Peer_Send demo_start], demo_adapter\<lparr>ra_router := r\<rparr>))"
  by (simp add: dispatch_def demo_adapter_def adapter_with_router_def demo_accept)


section \<open>Properties\<close>

text \<open>
  However a registry is used, it holds at most the configured number of nodes, each under its own realm and id,
  each a full host without provider-managed isolation that is not its own gateway, with the fingerprint of its
  capabilities.
\<close>

theorem registry_invariant: "registry_inv (fold registry_apply calls (with_max_nodes n (registry_for_realm realm)))"
  by (rule registry_run_inv) (rule registry_new_inv)

text \<open>C20. 
  Exactly the current peer session of a node gets its operations. From any registry state that has a node, and
  through any registrations, heartbeats, expiries and disconnects (all but the removal of the node itself), the
  node keeps the gateway principal it was enrolled by, whoever else tries to register it, and unless that principal
  registers it anew also its summary, its generation and its gateway node; and an operation is routed to it only for that principal, only while the node is available, only in its current generation, and
  only with the capability of the operation in the set it registered.
\<close>

theorem remote_node_not_hijacked:
  assumes "get_node reg realm node = Some e" "list_all (\<lambda>c. c \<noteq> Call_unregister realm node) calls"
    and "req_realm req = realm" "req_node req = node"
  shows "\<exists>e'. get_node (fold registry_apply calls reg) realm node = Some e' \<and> rn_gateway_principal e' = rn_gateway_principal e \<and>
    (list_all (\<lambda>c. \<not> registered_by (rn_gateway_principal e) c) calls \<longrightarrow>
       rn_summary e' = rn_summary e \<and> rn_generation e' = rn_generation e \<and> rn_gateway_node e' = rn_gateway_node e) \<and>
    (is_ok (prepare_route (fold registry_apply calls reg) req generation p) \<longrightarrow>
       p = rn_gateway_principal e \<and> rn_availability e' = Available \<and> generation = rn_generation e' \<and>
       (case op_required_capability (req_kind req) of
          None \<Rightarrow> True | Some c \<Rightarrow> caps_has (ns_capabilities (rn_summary e')) c))"
proof -
  obtain e' where e': "bt_get (rg_nodes (fold registry_apply calls reg)) (realm, node) = Some e'"
    "entry_kept (list_all (\<lambda>c. \<not> registered_by (rn_gateway_principal e) c) calls) e e'"
    using registry_run_kept [of reg realm node e calls] assms(1,2) by (auto simp: get_node_def)
  then show ?thesis
    using prepare_route_Inr [of "fold registry_apply calls reg" req generation p] assms(3,4)
    by (cases "prepare_route (fold registry_apply calls reg) req generation p") (auto simp: get_node_def entry_kept_def)
qed

theorem remote_node_not_hijacked_witness:
  "\<exists>e. get_node (fold registry_apply
       [Call_register (demo_registration\<lparr>rr_gateway_principal := ''mallory'', rr_generation := ''g2''\<rparr>) 3, Call_expire 4] demo_registry)
       local ''n1'' = Some e \<and> rn_gateway_principal e = ''alice'' \<and> rn_generation e = ''g1''"
proof -
  have "get_node demo_registry local ''n1'' = Some (registered_entry demo_registration 0)"
    by (simp add: get_node_def demo_registry_def)
  moreover have "req_realm demo_start = local" "req_node demo_start = ''n1''"
    "rn_gateway_principal (registered_entry demo_registration 0) = ''alice''" "rn_generation (registered_entry demo_registration 0) = ''g1''"
    by (simp_all add: demo_start_def registered_entry_def demo_registration_def)
  ultimately show ?thesis
    using remote_node_not_hijacked [of demo_registry local "''n1''" "registered_entry demo_registration 0"
        "[Call_register (demo_registration\<lparr>rr_gateway_principal := ''mallory'', rr_generation := ''g2''\<rparr>) 3, Call_expire 4]" demo_start]
    by (auto simp: registered_by_def simp del: fold_simps)
qed

text \<open>C19. 
  An acknowledged operation is never sent to the remote host again. After a dispatch of a mutating operation returned
  the host's result, and whatever the adapter does in between, no request under the same key reaches the peer at
  all, neither as a send nor as a query, until the retention window and the no-reuse horizon have both passed.
\<close>

theorem remote_never_resent:
  assumes "dispatch client req generation now later a = Some (Inr (Sent route result), calls, a1)" "op_is_mutating (req_kind req)"
    and "list_all (event_by t) events" "t \<le> later + retention (ra_router a) + no_reuse_horizon (ra_router a)"
    and "request_key req' = request_key req"
    and "dispatch client' req' generation' t later' (snd (adapter_run events a1)) = Some (res, calls', a2)"
  shows "calls' = []"
proof (rule ccontr)
  assume "calls' \<noteq> []"
  obtain k where k: "request_key req = Some k" "settled (ra_router a1) k t"
    using sent_settles [OF assms(1,2,4)] by blast
  have "settled (ra_router (snd (adapter_run events a1))) k t" using adapter_run_settled [OF k(2) assms(3)] .
  moreover have "request_key req' = Some k" using assms(5) k(1) by simp
  moreover have "op_is_mutating (req_kind req')"
    using assms(2,5) k(1) by (auto simp: request_key_def for_request_def)
  ultimately show False
    using settled_not_called [OF _ _ _ refl] dispatch_calls [OF assms(6) \<open>calls' \<noteq> []\<close>]
    by (fastforce split: route_decision.splits)
qed

theorem remote_never_resent_witness:
  "\<exists>route a1. dispatch peer_up demo_start ''g1'' 5 6 demo_adapter = Some (Inr (Sent route ''ok''), [Peer_Send demo_start], a1) \<and>
     (case dispatch peer_up (demo_start\<lparr>req_operation_id := ''op-2''\<rparr>) ''g1'' (from_secs 60) (from_secs 61)
             (snd (adapter_run [Ev_Registry (Call_heartbeat local ''n1'' ''g1'' 9)] a1)) of
        Some (_, calls, _) \<Rightarrow> calls = []
      | None \<Rightarrow> False)"
proof -
  obtain route where "prepare_route demo_registry demo_start ''g1'' ''alice'' = Inr route" by (rule demo_prepared)
  then obtain a1 where sent: "dispatch peer_up demo_start ''g1'' 5 6 demo_adapter = Some (Inr (Sent route ''ok''), [Peer_Send demo_start], a1)"
    by (simp add: demo_dispatch dispatch_accepted_def peer_up_def)
  let ?a = "snd (adapter_run [Ev_Registry (Call_heartbeat local ''n1'' ''g1'' 9)] a1)"
  let ?req = "demo_start\<lparr>req_operation_id := ''op-2''\<rparr>"
  obtain res calls a2 where retry: "dispatch peer_up ?req ''g1'' (from_secs 60) (from_secs 61) ?a = Some (res, calls, a2)"
    using dispatch_never_panics [of peer_up ?req "''g1''" "from_secs 60" "from_secs 61" ?a] by (metis not_None_eq prod_cases3)
  have "calls = []"
    by (rule remote_never_resent [OF sent demo_mutating _ _ _ retry])
      (simp_all add: event_by_def demo_adapter_def adapter_with_router_def router_new_def from_secs_def DEFAULT_RETENTION_def
        request_key_def for_request_def [abs_def])
  with sent retry show ?thesis by (auto simp del: adapter_run.simps)
qed

text \<open>C39. 
  A departure from the documentation, by which a mutating operation without an acknowledgement stays of unknown result
  until the remote state has been queried, as the retry action for a disconnect also says. The adapter reports a
  failed send to its router as a failed operation, so the next dispatch of the same request sends it once
  more, without a query; and an adapter that starts empty never makes a query at all, whatever is done with it.
\<close>

theorem unacknowledged_send_repeated:
  assumes "dispatch client req generation now later a = Some (Inl e, [Peer_Send req], a1)" "op_is_mutating (req_kind req)"
  shows "retry_action_after_disconnect req = QueryRemoteStateFirst \<and>
    (\<exists>res a2. dispatch client' req generation t later' a1 = Some (res, [Peer_Send req], a2)) \<and>
    list_all is_send (fst (adapter_run events (adapter_new p caps)))"
proof -
  obtain route scope r where route: "prepare_route (ra_registry a) req generation (ra_gateway_principal a) = Inr route"
    and acc: "route_with_capabilities (ra_router a) now req (ra_gateway_principal a) (ra_negotiated a) = (Accept scope, r)"
    and a1: "a1 = a\<lparr>ra_router := snd (mark_failed r req)\<rparr>"
    using failed_send [OF assms] by blast
  obtain r2 where "route_with_capabilities (snd (mark_failed r req)) t req (ra_gateway_principal a) (ra_negotiated a) = (Accept scope, r2)"
    using failed_accepted_again [OF acc assms(2)] by blast
  then have "\<exists>res a2. dispatch client' req generation t later' a1 = Some (res, [Peer_Send req], a2)"
    by (simp add: dispatch_def route a1 split: prod.split)
  moreover have "idle (ra_router (adapter_new p caps))"
    by (simp add: adapter_new_def adapter_with_router_def router_new_def idle_def)
  ultimately show ?thesis
    using assms(2) adapter_run_idle by (simp add: retry_action_after_disconnect_def)
qed

theorem unacknowledged_send_repeated_witness:
  "\<exists>e a1. dispatch peer_lost demo_start ''g1'' 5 6 demo_adapter = Some (Inl e, [Peer_Send demo_start], a1) \<and>
     (\<exists>res a2. dispatch peer_up demo_start ''g1'' 7 8 a1 = Some (res, [Peer_Send demo_start], a2))"
proof -
  obtain route where "prepare_route demo_registry demo_start ''g1'' ''alice'' = Inr route" by (rule demo_prepared)
  then obtain e a1 where lost: "dispatch peer_lost demo_start ''g1'' 5 6 demo_adapter = Some (Inl e, [Peer_Send demo_start], a1)"
    by (simp add: demo_dispatch dispatch_accepted_def peer_lost_def)
  with unacknowledged_send_repeated [OF lost demo_mutating] show ?thesis by blast
qed

end
