(* ===== verification/Spec2Isabelle.thy ===== *)
theory Spec2Isabelle
  imports Mux_Protocol Mux_Session Route_Decisions Operation_Router Executions Gateway_Orchestrator Allocator_Reconcile Console_Client
    Supervisor_Dag Realm_Targets Circuit_Breaker Secure_Session Peer_Session Display_Transport Remote_Nodes
begin

text \<open>
  A verification development for d2b, a host that runs workloads of several realms and lets nodes of
  those realms reach each other. It follows the crates \<open>d2b-realm-core\<close>, \<open>d2b-realm-router\<close>,
  \<open>d2b-gateway\<close>, and parts of \<open>d2b-realm-provider\<close>, \<open>d2b-core\<close>, \<open>d2bd\<close> and \<open>d2b\<close> under \<open>src/packages\<close>.

  \<^bold>\<open>The program.\<close> Realms form a tree and name each other by paths of labels; a target address names a
  workload in a realm, and an entrypoint table decides whether this host or a gateway serves it. Nodes advertise which realms
  they reach; the route engine admits the advertisements and answers along which tree path, or over which
  shortcut, a target is reached. Two nodes first agree on version, codec and capabilities, or authenticate
  each other and seal what they send; then they talk in frames, multiplexed into streams with credit-based flow control; a session admits a stream only for an operation it knows and only with
  the capabilities both sides have. Operations carry idempotency keys: the operation router hands each one
  to at most one executor and replays the result of a finished one; durable executions are tracked in a
  table of their own. Operations for another full host pass a registry of enrolled nodes first. The gateway opens display sessions: its ledger admits them, its orchestrator arms a
  listener, spawns an agent, waits for a handshake over a one-shot credential, and audits each step. The
  local-root allocator leases host resources (bridges, taps, cgroups, tables) to realms and reconciles its
  leases with what the host shows. On the host, the daemon's supervisor starts the processes of a virtual
  machine in the order of their dependency graph, and its console keeps the last output of each machine in a
  ring that command line clients poll through handles. Calls to cloud providers go through a circuit breaker.

  \<^bold>\<open>Theories and sources.\<close>
  \<^item> \<open>Prelude\<close>: words, saturating arithmetic, results, byte strings, and \<open>btmap\<close>, the sorted association
    lists that stand for \<open>BTreeMap\<close>, \<open>BTreeSet\<close> and \<open>HashMap\<close>. \<open>Digits\<close>: numbers as bytes and as decimal digits.
  \<^item> \<open>Interfaces\<close>: the contracts that several components share, as locales. \<open>expiring_store\<close> is interpreted on
    the three tables of the route engine, \<open>fifo_registry\<close> on the closed-stream history of the multiplexer and
    the operation registry of a session, \<open>lifecycle\<close> on the states of executions, display and workload sessions and leases.
  \<^item> \<open>Realm_Ids\<close> (\<open>ids.rs\<close>, \<open>realm.rs\<close>), \<open>Capabilities\<close> (\<open>capability.rs\<close>, \<open>token.rs\<close>), \<open>Frames\<close> (\<open>error.rs\<close>,
    \<open>stream.rs\<close>, \<open>frame.rs\<close>, \<open>payload.rs\<close>, \<open>trace_context.rs\<close>), \<open>Audit_Records\<close> (\<open>audit.rs\<close>): the data of the
    protocol with its parsers, decoders and renderings, in the order of the files.
  \<^item> \<open>Stream_Mux\<close> (\<open>mux.rs\<close>): one definition per method of \<open>StreamMux\<close>. \<open>Mux_Protocol\<close> joins two of them by
    first-in-first-out wires as a step relation. \<open>Mux_Session\<close> (\<open>mux_session.rs\<close> and the route plans of the
    router's \<open>lib.rs\<close>): the session driver above a multiplexer.
  \<^item> \<open>Routing_Model\<close> (\<open>routing.rs\<close>), \<open>Route_Engine\<close> (the engine's state, admission and pruning in
    \<open>route_engine.rs\<close>), \<open>Route_Admission\<close> (what admission guarantees), \<open>Route_Decisions\<close> (path building, route
    and shortcut decisions, inventory).
  \<^item> \<open>Operation_Router\<close> (the router's \<open>lib.rs\<close>), \<open>Executions\<close> (\<open>execution.rs\<close> of core and of the router).
  \<^item> \<open>Gateway_Ledger\<close> (\<open>ledger.rs\<close>, \<open>error.rs\<close>), \<open>Gateway_Handshake\<close> (\<open>handshake.rs\<close>), \<open>Gateway_Orchestrator\<close>
    (\<open>orchestrator.rs\<close>, \<open>audit.rs\<close>, \<open>types.rs\<close>).
  \<^item> \<open>Allocator_Model\<close> (\<open>allocator.rs\<close>), \<open>Allocator_Engine\<close> (\<open>allocator_engine.rs\<close>), \<open>Allocator_Ids\<close>,
    \<open>Allocator_Leases\<close> and \<open>Allocator_Reconcile\<close> (what the engine guarantees).
  \<^item> \<open>Realm_Targets\<close> (\<open>target.rs\<close> of core, \<open>target_resolver.rs\<close> of the router): grammar and resolution.
  \<^item> \<open>Clock_Time\<close> (durations and instants), \<open>Provider_Errors\<close> (\<open>error.rs\<close> of the provider crate), \<open>Circuit_Breaker\<close>
    (\<open>rate_limit.rs\<close> of that crate).
  \<^item> \<open>Byte_Streams\<close> (streams, framing and codecs), \<open>Peer_Session\<close> (\<open>session.rs\<close> of the router), \<open>Secure_Session\<close>
    (\<open>secure_session.rs\<close>), \<open>Display_Transport\<close> (\<open>display_transport.rs\<close>, \<open>session_lifecycle.rs\<close>).
  \<^item> \<open>Remote_Nodes\<close> (\<open>remote_node.rs\<close> of the router, \<open>node.rs\<close>): the registry of full hosts and the adapter that
    composes it with the operation router.
  \<^item> \<open>Supervisor_Dag\<close> (\<open>supervisor/dag.rs\<close> of the daemon, \<open>processes.rs\<close>): the start order and the executor.
  \<^item> \<open>Base64_Codec\<close> (\<open>base64_codec.rs\<close>), \<open>Console_Ring\<close> (\<open>console_ring.rs\<close>), \<open>Console_Sessions\<close>
    (\<open>console_session.rs\<close> and \<open>dispatch_console\<close> of the daemon's \<open>lib.rs\<close>), \<open>Console_Client\<close> (the output loop
    of \<open>cmd_console\<close> in the client's \<open>lib.rs\<close>), each over the one before. The ring's contract towards its
    readers is the locale \<open>stream_window\<close>, interpreted on the ring.

  \<^bold>\<open>Conventions.\<close> A struct is a record whose fields carry a short prefix, an enum is a datatype with the source's
  variants, a method on \<open>&mut self\<close> takes the state and returns its result with the new state, and an error
  is the left value of a sum. Sequences of calls are lists of events folded over the state, so that the
  invariants and trace properties below range over every interleaving. \<open>u16\<close>, \<open>u32\<close> and \<open>u64\<close> counters are
  words and wrap or saturate as the source says; lengths and indexes are natural numbers. Times are the
  instants each call is given. The orchestrator and the handshakes are cut at their await points, so that opens
  and closes interleave there and each end of a handshake reads what the other wrote.

  \<^bold>\<open>What the lemmas show.\<close>
  \<^item> Routing: the engine's tables stay a tree within their capacities; an admission has exactly the effect it
    should, refuses replays and never moves back in time; paths are the tree paths; pruning is invisible.
  \<^item> Multiplexing: the indexes agree, credit is conserved between two ends, data of a peer that respects its
    credit is never refused, and streams open only as their operation, principal and capabilities permit.
  \<^item> Operations: no operation is dispatched twice, a completed one is replayed, a terminal execution is final.
  \<^item> Gateway: the credential is one-shot and its canonical form injective, the ledger keeps one live session
    per target and its quotas, the orchestrator only performs ledger steps, a session runs only after its
    handshake, and an open is all or nothing while the audit sink answers.
  \<^item> Allocation: live leases never share a resource, requests are granted exactly when they can be, keys are
    idempotent, the search for a lease id terminates, reconciliation accounts for every resource once.
  \<^item> Addresses: parsing and rendering are inverse on exactly the readable targets, a bare name is never guessed,
    and resolution takes the nearest enclosing realm or refuses.
  \<^item> Sessions: both handshakes end the same way at both ends, with what both configured or the first reason against
    it; frames arrive in order, and under authenticity of the cipher nothing else arrives; a hello's MAC binds
    all its fields; the display preface is read exactly as it is written.
  \<^item> Remote nodes: a node keeps its gateway principal, operations reach it only in its current generation and
    with its capabilities, and an acknowledged operation is not sent again.
  \<^item> Circuit breaker: one probe per opening, an open window never shrinks and admits nothing, and it recovers.
  \<^item> Supervision: the sort returns an order exactly for well-formed acyclic graphs and names the culprit
    otherwise; a node is started only after everything it depends on is ready.
  \<^item> Console: the ring refines the unbounded byte stream, only the owner of a handle or an administrator acts
    through it, a client prints a subsequence of the machine's output in order, without loss while it keeps up,
    and the codec between them accepts exactly its own encodings.
  \<^item> Where the code departs from what it means to do, a theorem proves the departure on concrete values.

  \<^bold>\<open>Bounds.\<close> Every definition is total without fuel except two loops, which are partial functions into
  \<open>option\<close>: the search for a lease id, which returns whenever fewer than \<open>2\<^sup>6\<^sup>4\<close> leases exist, and the loop of
  the topological sort, which always returns.

  \<^bold>\<open>Not modelled.\<close> JSON syntax (decoders start from the parsed record), \<open>Debug\<close> redaction and schema generation;
  HMAC-SHA256, SHA-256, ChaCha20-Poly1305, the frame codec of a session, identifier and secret sources, clocks, audit
  sinks, listeners, peer clients and workload providers, which are parameters, with what is used of them as named
  hypotheses; log events; poisoned locks and failing allocations; the protobuf codec, whose message types are generated
  outside the sources; the rest of the daemon and of the command line client, the privileged broker, the guest
  daemon and the desktop integration, which are mostly system calls, sockets and third-party protocols.
\<close>

end
